(* ===== verification/Prelude.thy ===== *)
theory Prelude
  imports Main "HOL-Library.Word" "HOL-Library.AList" "HOL-Library.List_Lexorder"
begin

text \<open>
  Shared vocabulary of the development: the machine integer and byte types of the
  Rust sources, the arithmetic operations of the standard library that the code
  calls (\<^verbatim>\<open>checked_add\<close>, \<^verbatim>\<open>saturating_sub\<close>, \<^verbatim>\<open>to_be_bytes\<close>, \<^verbatim>\<open>to_le_bytes\<close>, ...), slices,
  decimal printing and parsing, and the generic lemmas about them that the component
  theories use. \<^verbatim>\<open>usize\<close> positions and lengths are natural numbers with the
  64-bit bound written out where the code checks it; identifiers are 64-bit words.
\<close>

named_theorems codec_simps \<open>byte encodings: lengths and round trips\<close>

type_synonym u8 = "8 word"
type_synonym u32 = "32 word"
type_synonym u64 = "64 word"
type_synonym bytes = "u8 list"


section \<open>Arithmetic of the standard library\<close>

text \<open>\<^verbatim>\<open>usize::checked_add\<close> on a 64-bit target.\<close>

definition usize_checked_add :: "nat \<Rightarrow> nat \<Rightarrow> nat option" where
  "usize_checked_add a b = (if a + b < 2 ^ 64 then Some (a + b) else None)"

text \<open>\<^verbatim>\<open>u64::saturating_sub\<close> and \<^verbatim>\<open>u64::checked_sub\<close>.\<close>

definition u64_saturating_sub :: "u64 \<Rightarrow> u64 \<Rightarrow> u64" where
  "u64_saturating_sub a b = (if a < b then 0 else a - b)"

definition u64_checked_sub :: "u64 \<Rightarrow> u64 \<Rightarrow> u64 option" where
  "u64_checked_sub a b = (if a < b then None else Some (a - b))"

lemma u64_unat_plus1: "(a::u64) \<noteq> - 1 \<Longrightarrow> unat (a + 1) = unat a + 1"
  by (metis add.commute unatSuc add_eq_0_iff Suc_eq_plus1_left)

lemma u64_less_plus1: "(a::u64) \<noteq> - 1 \<Longrightarrow> a < a + 1"
  by (simp add: word_less_nat_alt u64_unat_plus1)


section \<open>Byte encodings of machine integers\<close>

lemma unat_u8_less [simp]: "unat (b :: u8) < 256"
  using unsigned_less[of b] by simp

lemma unat_u32_less [simp]: "unat (w :: u32) < 4294967296"
  using unsigned_less[of w] by simp

lemma unat_u64_less [simp]: "unat (w :: u64) < 18446744073709551616"
  using unsigned_less[of w] by simp

lemma unat_u32_as_u64 [simp]: "unat (ucast (w :: u32) :: u64) = unat w"
proof -
  have "unat w < 2 ^ 64" by (rule less_trans[OF unat_u32_less]) simp
  then show ?thesis by (simp add: unsigned_ucast_eq take_bit_nat_eq_self)
qed

fun le_digits :: "nat \<Rightarrow> nat \<Rightarrow> nat list" where
  "le_digits 0 n = []"
| "le_digits (Suc k) n = n mod 256 # le_digits k (n div 256)"

fun le_value :: "nat list \<Rightarrow> nat" where
  "le_value [] = 0"
| "le_value (d # ds) = d + 256 * le_value ds"

lemma length_le_digits [simp]: "length (le_digits k n) = k"
  by (induction k arbitrary: n) auto

lemma le_digits_less: "d \<in> set (le_digits k n) \<Longrightarrow> d < 256"
  by (induction k arbitrary: n) auto

lemma le_value_digits: "le_value (le_digits k n) = n mod 256 ^ k"
  by (induction k arbitrary: n) (simp_all add: mod_mult2_eq)

lemma le_digits_value: "\<forall>d \<in> set ds. d < 256 \<Longrightarrow> le_digits (length ds) (le_value ds) = ds"
  by (induction ds) auto

lemma le_value_less: "\<forall>d \<in> set ds. d < 256 \<Longrightarrow> le_value ds < 256 ^ length ds"
proof (induction ds)
  case (Cons d ds)
  then have "le_value ds + 1 \<le> 256 ^ length ds" and "d < 256"
    by auto
  then have "256 * (le_value ds + 1) \<le> 256 * 256 ^ length ds"
    by (meson mult_le_mono2)
  with \<open>d < 256\<close> show ?case by simp
qed simp

text \<open>\<^verbatim>\<open>u32::to_le_bytes\<close>, \<^verbatim>\<open>u32::from_le_bytes\<close>, \<^verbatim>\<open>u64::to_be_bytes\<close>, \<^verbatim>\<open>u64::from_be_bytes\<close>.\<close>

definition u32_to_le_bytes :: "u32 \<Rightarrow> bytes" where
  "u32_to_le_bytes w = map of_nat (le_digits 4 (unat w))"

definition u32_from_le_bytes :: "bytes \<Rightarrow> u32" where
  "u32_from_le_bytes bs = of_nat (le_value (map unat bs))"

definition u64_to_be_bytes :: "u64 \<Rightarrow> bytes" where
  "u64_to_be_bytes w = rev (map of_nat (le_digits 8 (unat w)))"

definition u64_from_be_bytes :: "bytes \<Rightarrow> u64" where
  "u64_from_be_bytes bs = of_nat (le_value (rev (map unat bs)))"

lemma map_unat_of_nat_digits [simp]:
  "map unat (map (of_nat :: nat \<Rightarrow> u8) (le_digits k n)) = le_digits k n"
  by (simp add: map_idI unat_of_nat le_digits_less)

lemma map_of_nat_unat_bytes [simp]: "map of_nat (map unat (bs :: bytes)) = bs"
  by (simp add: map_idI)

lemma le_digits_unat_bytes [simp]: "le_digits (length bs) (le_value (map unat (bs :: bytes))) = map unat bs"
  using le_digits_value[of "map unat bs"] unat_u8_less by force

lemma length_u32_to_le_bytes [simp, codec_simps]: "length (u32_to_le_bytes w) = 4"
  by (simp add: u32_to_le_bytes_def)

lemma length_u64_to_be_bytes [simp, codec_simps]: "length (u64_to_be_bytes w) = 8"
  by (simp add: u64_to_be_bytes_def)

lemma u32_from_to_le_bytes [simp, codec_simps]: "u32_from_le_bytes (u32_to_le_bytes w) = w"
proof -
  have "unat w < 2 ^ 32" by simp
  then have "unat w mod 256 ^ 4 = unat w" by simp
  then show ?thesis
    unfolding u32_from_le_bytes_def u32_to_le_bytes_def map_unat_of_nat_digits le_value_digits
    by simp
qed

lemma u64_from_to_be_bytes [simp, codec_simps]: "u64_from_be_bytes (u64_to_be_bytes w) = w"
proof -
  have "unat w < 2 ^ 64" by simp
  then have "unat w mod 256 ^ 8 = unat w" by simp
  then show ?thesis
    unfolding u64_from_be_bytes_def u64_to_be_bytes_def rev_map[symmetric] rev_rev_ident
      map_unat_of_nat_digits le_value_digits
    by simp
qed

lemma u32_to_from_le_bytes [codec_simps]:
  assumes "length bs = 4"
  shows "u32_to_le_bytes (u32_from_le_bytes bs) = bs"
proof -
  have "le_value (map unat bs) < 2 ^ 32"
    using le_value_less[of "map unat bs"] unat_u8_less assms by force
  then have "unat (u32_from_le_bytes bs) = le_value (map unat bs)"
    by (simp add: u32_from_le_bytes_def unat_of_nat)
  with assms show ?thesis
    unfolding u32_to_le_bytes_def by (metis le_digits_unat_bytes map_of_nat_unat_bytes)
qed

lemma u64_to_from_be_bytes [codec_simps]:
  assumes "length bs = 8"
  shows "u64_to_be_bytes (u64_from_be_bytes bs) = bs"
proof -
  have "le_value (rev (map unat bs)) < 2 ^ 64"
    using le_value_less[of "rev (map unat bs)"] unat_u8_less assms by force
  then have "unat (u64_from_be_bytes bs) = le_value (map unat (rev bs))"
    by (simp add: u64_from_be_bytes_def unat_of_nat rev_map)
  with assms show ?thesis
    unfolding u64_to_be_bytes_def
    by (metis le_digits_unat_bytes map_of_nat_unat_bytes length_rev rev_rev_ident)
qed

lemma u64_to_be_bytes_inject [simp]: "u64_to_be_bytes a = u64_to_be_bytes b \<longleftrightarrow> a = b"
  by (metis u64_from_to_be_bytes)

lemma u32_to_le_bytes_inject [simp]: "u32_to_le_bytes a = u32_to_le_bytes b \<longleftrightarrow> a = b"
  by (metis u32_from_to_le_bytes)


section \<open>Slices and padding\<close>

text \<open>\<^verbatim>\<open>&data[a..b]\<close>, for the ranges that the code has checked beforehand.\<close>

definition subrange :: "nat \<Rightarrow> nat \<Rightarrow> 'a list \<Rightarrow> 'a list" where
  "subrange a b xs = take (b - a) (drop a xs)"

lemma length_subrange [simp]: "a \<le> b \<Longrightarrow> b \<le> length xs \<Longrightarrow> length (subrange a b xs) = b - a"
  by (simp add: subrange_def)

lemma subrange_drop: "subrange (p + a) (p + b) xs = subrange a b (drop p xs)"
  by (simp add: subrange_def add.commute)

lemma subrange_append1: "b \<le> length xs \<Longrightarrow> subrange a b (xs @ ys) = subrange a b xs"
  by (cases "a \<le> b") (simp_all add: subrange_def)

lemma subrange_append2: "a = length xs \<Longrightarrow> subrange a b (xs @ ys) = take (b - a) ys"
  by (simp add: subrange_def)

lemma subrange_append_mid:
  "a = length xs \<Longrightarrow> b = length xs + length ys \<Longrightarrow> subrange a b (xs @ ys @ zs) = ys"
  by (simp add: subrange_def)

lemma subrange_0 [simp]: "subrange 0 b xs = take b xs"
  by (simp add: subrange_def)

lemma subrange_prefix: "subrange a (a + n) xs = ys \<Longrightarrow> m \<le> n \<Longrightarrow> subrange a (a + m) xs = subrange 0 m ys"
  by (auto simp: subrange_def min_def)

lemma take_subrange_join: "a \<le> b \<Longrightarrow> take a xs @ subrange a b xs = take b xs"
  by (metis le_add_diff_inverse subrange_def take_add)

lemma subrange_join: "a \<le> b \<Longrightarrow> b \<le> c \<Longrightarrow> subrange a b xs @ subrange b c xs = subrange a c xs"
proof -
  assume "a \<le> b" and "b \<le> c"
  then obtain i j where "b = a + i" and "c = a + i + j"
    by (metis le_iff_add)
  then show ?thesis by (simp add: subrange_def take_add add.commute drop_drop)
qed

text \<open>\<^verbatim>\<open>Vec::resize(n, 0)\<close>.\<close>

definition resize :: "nat \<Rightarrow> 'a \<Rightarrow> 'a list \<Rightarrow> 'a list" where
  "resize n x xs = (if n \<le> length xs then take n xs else xs @ replicate (n - length xs) x)"

lemma length_resize [simp]: "length (resize n x xs) = n"
  by (auto simp: resize_def)

section \<open>Byte order of big-endian keys\<close>

text \<open>Byte strings are compared lexicographically, as the key-value store compares keys.\<close>

lemma le_value_append: "le_value (xs @ ys) = le_value xs + 256 ^ length xs * le_value ys"
  by (induction xs) (simp_all add: algebra_simps)

lemma digit_carry_less:
  assumes "(a::nat) < m" and "b < m"
  shows "a + m * x < b + m * y \<longleftrightarrow> x < y \<or> x = y \<and> a < b"
proof (cases x y rule: linorder_cases)
  case less
  then have "m * (x + 1) \<le> m * y" by (intro mult_le_mono2) simp
  with less assms show ?thesis by simp
next
  case greater
  then have "m * (y + 1) \<le> m * x" by (intro mult_le_mono2) simp
  with greater assms show ?thesis by simp
qed simp

lemma be_value_less_iff:
  assumes "length xs = length (ys :: bytes)"
  shows "le_value (rev (map unat xs)) < le_value (rev (map unat ys)) \<longleftrightarrow> xs < ys"
  using assms
proof (induction xs ys rule: list_induct2)
  case (Cons x xs y ys)
  have b: "le_value (rev (map unat zs)) < 256 ^ length zs" for zs :: bytes
    using le_value_less[of "rev (map unat zs)"] unat_u8_less by force
  have "le_value (rev (map unat xs)) + 256 ^ length xs * unat x
      < le_value (rev (map unat ys)) + 256 ^ length xs * unat y
    \<longleftrightarrow> unat x < unat y \<or> unat x = unat y \<and> le_value (rev (map unat xs)) < le_value (rev (map unat ys))"
    using b[of xs] b[of ys] Cons.hyps by (intro digit_carry_less) simp_all
  with Cons show ?case
    by (simp add: le_value_append word_less_nat_alt word_unat_eq_iff)
qed simp

lemma u64_to_be_bytes_less [simp]: "u64_to_be_bytes a < u64_to_be_bytes b \<longleftrightarrow> a < b"
proof -
  have v: "le_value (rev (map unat (u64_to_be_bytes w))) = unat w" for w
  proof -
    have "unat w < 2 ^ 64" by simp
    then have "unat w mod 256 ^ 8 = unat w" by simp
    then show ?thesis
      unfolding u64_to_be_bytes_def rev_map[symmetric] rev_rev_ident map_unat_of_nat_digits
        le_value_digits by simp
  qed
  show ?thesis
    using be_value_less_iff[of "u64_to_be_bytes a" "u64_to_be_bytes b"]
    by (simp add: v word_less_nat_alt)
qed

lemma u64_to_be_bytes_le [simp]: "u64_to_be_bytes a \<le> u64_to_be_bytes b \<longleftrightarrow> a \<le> b"
  by (simp flip: linorder_not_less)

lemma append_less_append:
  fixes xs :: "'a :: linorder list"
  shows "length xs = length ys \<Longrightarrow> xs @ us < ys @ vs \<longleftrightarrow> xs < ys \<or> xs = ys \<and> us < vs"
  by (induction xs ys rule: list_induct2) auto

end
