(* ===== verification/RustText.thy ===== *)
theory RustText
  imports Prelude
begin

text \<open>
  The string functions of the Rust standard library that the sources use: decimal and
  zero-padded hexadecimal formatting (\<^verbatim>\<open>format!("{id}")\<close>, \<^verbatim>\<open>{id:016x}\<close>), \<^verbatim>\<open>str::parse::<u64>\<close>,
  \<^verbatim>\<open>u64::from_str_radix\<close>, \<^verbatim>\<open>strip_prefix\<close>, \<^verbatim>\<open>strip_suffix\<close> and \<^verbatim>\<open>split_once\<close>, with the
  print/parse round trips that the transport layer and the segment file scans rely on.
  Strings are lists of 8-bit characters, which is enough for the ASCII texts involved.
\<close>


section \<open>Digits\<close>

fun nat_digits :: "nat \<Rightarrow> nat \<Rightarrow> nat list" where
  "nat_digits b n = (if n < b \<or> b < 2 then [n] else nat_digits b (n div b) @ [n mod b])"

declare nat_digits.simps [simp del]

definition digit_char :: "nat \<Rightarrow> char" where
  "digit_char d = (if d < 10 then char_of (48 + d) else char_of (87 + d))"

text \<open>\<^verbatim>\<open>char::to_digit(radix)\<close>.\<close>

definition to_digit :: "nat \<Rightarrow> char \<Rightarrow> nat option" where
  "to_digit radix c =
     (let k = (of_char c :: nat);
          d = (if 48 \<le> k \<and> k \<le> 57 then Some (k - 48)
               else if 97 \<le> k \<and> k \<le> 122 then Some (k - 87)
               else if 65 \<le> k \<and> k \<le> 90 then Some (k - 55) else None)
      in case d of None \<Rightarrow> None | Some v \<Rightarrow> if v < radix then Some v else None)"

fun parse_digits :: "nat \<Rightarrow> nat \<Rightarrow> string \<Rightarrow> nat option" where
  "parse_digits radix acc [] = Some acc"
| "parse_digits radix acc (c # cs) =
     (case to_digit radix c of
        None \<Rightarrow> None
      | Some d \<Rightarrow>
          (let acc' = acc * radix + d
           in if acc' < 2 ^ 64 then parse_digits radix acc' cs else None))"

text \<open>
  \<^verbatim>\<open>u64::from_str_radix\<close>: an optional leading plus sign, at least one digit, no other
  character, and no overflow.
\<close>

definition u64_from_str_radix :: "nat \<Rightarrow> string \<Rightarrow> u64 option" where
  "u64_from_str_radix radix s =
     (let body = (case s of c # cs \<Rightarrow> (if c = CHR ''+'' then cs else s) | [] \<Rightarrow> [])
      in if body = [] then None else map_option of_nat (parse_digits radix 0 body))"

definition u64_from_str :: "string \<Rightarrow> u64 option" where
  "u64_from_str = u64_from_str_radix 10"

definition show_nat :: "nat \<Rightarrow> string" where
  "show_nat n = map digit_char (nat_digits 10 n)"

definition show_u64 :: "u64 \<Rightarrow> string" where
  "show_u64 w = show_nat (unat w)"

text \<open>\<^verbatim>\<open>{id:016x}\<close>.\<close>

definition show_hex16 :: "u64 \<Rightarrow> string" where
  "show_hex16 w =
     (let ds = map digit_char (nat_digits 16 (unat w))
      in replicate (16 - length ds) (CHR ''0'') @ ds)"

text \<open>\<^verbatim>\<open>{w:#010x}\<close> for a 32-bit value.\<close>

definition show_hex_u32 :: "u32 \<Rightarrow> string" where
  "show_hex_u32 w =
     (let ds = map digit_char (nat_digits 16 (unat w))
      in ''0x'' @ replicate (8 - length ds) (CHR ''0'') @ ds)"

lemma nat_digits_not_Nil [simp]: "nat_digits b n \<noteq> []"
  by (subst nat_digits.simps) simp

lemma nat_digits_less: "2 \<le> b \<Longrightarrow> d \<in> set (nat_digits b n) \<Longrightarrow> d < b"
proof (induction b n rule: nat_digits.induct)
  case (1 b n)
  then show ?case
    by (subst (asm) (2) nat_digits.simps) (auto split: if_splits)
qed

lemma of_char_char_of_small: "k < 256 \<Longrightarrow> of_char (char_of k :: char) = (k :: nat)"
  by simp

lemma to_digit_digit_char:
  assumes "d < radix" and "radix \<le> 16"
  shows "to_digit radix (digit_char d) = Some d"
  using assms by (auto simp: to_digit_def digit_char_def Let_def)

lemma digit_char_not_space [simp]: "d < 16 \<Longrightarrow> digit_char d \<noteq> CHR '' ''"
  unfolding digit_char_def
  by (auto dest!: arg_cong[where f = "of_char :: char \<Rightarrow> nat"])

lemma digit_char_not_plus [simp]: "d < 16 \<Longrightarrow> digit_char d \<noteq> CHR ''+''"
  unfolding digit_char_def
  by (auto dest!: arg_cong[where f = "of_char :: char \<Rightarrow> nat"])

lemma parse_digits_append:
  "parse_digits r acc (xs @ ys) =
     (case parse_digits r acc xs of None \<Rightarrow> None | Some a \<Rightarrow> parse_digits r a ys)"
  by (induction r acc xs rule: parse_digits.induct) (auto simp: Let_def split: option.splits)

lemma parse_digits_nat_digits:
  assumes "2 \<le> r" and "r \<le> 16"
  shows "n < 2 ^ 64 \<Longrightarrow> parse_digits r 0 (map digit_char (nat_digits r n)) = Some n"
  using assms
proof (induction r n rule: nat_digits.induct)
  case (1 b n)
  show ?case
  proof (cases "n < b")
    case True
    with "1.prems" show ?thesis
      by (subst nat_digits.simps) (simp add: to_digit_digit_char Let_def)
  next
    case False
    have "n div b < 2 ^ 64"
      using "1.prems"(1) div_le_dividend[of n b] by linarith
    with False "1.IH" "1.prems"
    have "parse_digits b 0 (map digit_char (nat_digits b (n div b))) = Some (n div b)"
      by simp
    with False "1.prems" show ?thesis
      by (subst nat_digits.simps)
        (simp add: parse_digits_append to_digit_digit_char Let_def)
  qed
qed

lemma parse_digits_zeros:
  "2 \<le> r \<Longrightarrow> r \<le> 16 \<Longrightarrow> parse_digits r 0 (replicate k (CHR ''0'') @ s) = parse_digits r 0 s"
  by (induction k) (auto simp: to_digit_def Let_def)

lemma show_nat_not_Nil [simp]: "show_nat n \<noteq> []"
  by (simp add: show_nat_def)

lemma show_nat_no_space: "CHR '' '' \<notin> set (show_nat n)"
proof -
  have "digit_char d \<noteq> CHR '' ''" if "d \<in> set (nat_digits 10 n)" for d
    using nat_digits_less[of 10 d n] that by simp
  then show ?thesis by (force simp: show_nat_def)
qed

lemma digit_char_not_dash [simp]: "d < 16 \<Longrightarrow> digit_char d \<noteq> CHR ''-''"
  unfolding digit_char_def
  by (auto dest!: arg_cong[where f = "of_char :: char \<Rightarrow> nat"])

lemma show_nat_no_dash: "CHR ''-'' \<notin> set (show_nat n)"
proof -
  have "digit_char d \<noteq> CHR ''-''" if "d \<in> set (nat_digits 10 n)" for d
    using nat_digits_less[of 10 d n] that by simp
  then show ?thesis by (force simp: show_nat_def)
qed

lemma hd_digits_not_plus:
  assumes "2 \<le> b" and "b \<le> 16" and "map digit_char (nat_digits b n) = c # cs"
  shows "c \<noteq> CHR ''+''"
proof -
  from assms(3) obtain d where "d \<in> set (nat_digits b n)" and "c = digit_char d"
    by (metis list.set_intros(1) list.set_map imageE)
  with nat_digits_less[of b d n] assms(1,2) show ?thesis by simp
qed

lemma u64_from_str_radix_digits:
  assumes "2 \<le> r" and "r \<le> 16"
  shows "u64_from_str_radix r (map digit_char (nat_digits r (unat (w::u64)))) = Some w"
proof -
  obtain c cs where c: "map digit_char (nat_digits r (unat w)) = c # cs"
    by (metis list.exhaust map_is_Nil_conv nat_digits_not_Nil)
  with hd_digits_not_plus[OF assms c] parse_digits_nat_digits[OF assms, of "unat w"]
  show ?thesis by (simp add: u64_from_str_radix_def del: parse_digits.simps)
qed

text \<open>Printing a number and parsing it again gives the number.\<close>

lemma u64_from_str_show [simp]: "u64_from_str (show_u64 w) = Some w"
  by (simp add: u64_from_str_def show_u64_def show_nat_def u64_from_str_radix_digits)

lemma u64_from_str_radix_show_hex16 [simp]: "u64_from_str_radix 16 (show_hex16 w) = Some w"
proof (cases "length (nat_digits 16 (unat w)) < 16")
  case True
  then obtain k where k: "16 - length (nat_digits 16 (unat w)) = Suc k"
    by (metis Suc_diff_Suc)
  have "parse_digits 16 0 (replicate (Suc k) (CHR ''0'') @ map digit_char (nat_digits 16 (unat w)))
      = Some (unat w)"
    by (subst parse_digits_zeros) (simp_all add: parse_digits_nat_digits)
  then show ?thesis
    by (simp add: show_hex16_def u64_from_str_radix_def k del: parse_digits.simps)
next
  case False
  then show ?thesis
    by (simp add: show_hex16_def u64_from_str_radix_digits)
qed


section \<open>Substrings\<close>

definition strip_prefix :: "string \<Rightarrow> string \<Rightarrow> string option" where
  "strip_prefix p s = (if take (length p) s = p then Some (drop (length p) s) else None)"

definition strip_suffix :: "string \<Rightarrow> string \<Rightarrow> string option" where
  "strip_suffix p s =
     (if length p \<le> length s \<and> drop (length s - length p) s = p
      then Some (take (length s - length p) s) else None)"

text \<open>\<^verbatim>\<open>str::split_once\<close>: the text before and after the first occurrence.\<close>

fun split_once :: "string \<Rightarrow> string \<Rightarrow> (string \<times> string) option" where
  "split_once p [] = (if p = [] then Some ([], []) else None)"
| "split_once p (c # cs) =
     (case strip_prefix p (c # cs) of
        Some rest \<Rightarrow> Some ([], rest)
      | None \<Rightarrow> (case split_once p cs of None \<Rightarrow> None | Some (a, b) \<Rightarrow> Some (c # a, b)))"

lemma strip_prefix_append [simp]: "strip_prefix p (p @ s) = Some s"
  by (simp add: strip_prefix_def)

lemma strip_prefix_SomeD: "strip_prefix p s = Some r \<Longrightarrow> s = p @ r"
  by (metis append_take_drop_id option.inject option.simps(3) strip_prefix_def)

lemma strip_suffix_append [simp]: "strip_suffix p (s @ p) = Some s"
  by (simp add: strip_suffix_def)

lemma strip_suffix_SomeD: "strip_suffix p s = Some r \<Longrightarrow> s = r @ p"
  by (metis append_take_drop_id option.inject option.simps(3) strip_suffix_def)

lemma split_once_first:
  assumes "c \<notin> set xs"
  shows "split_once (c # p) (xs @ (c # p) @ ys) = Some (xs, ys)"
  using assms by (induction xs) (auto simp: strip_prefix_def)

end
