(* ===== verification/Protocol.thy ===== *)
theory Protocol
  imports RustText
begin

text \<open>
  The shared domain types of \<^verbatim>\<open>folio-core\<close>: \<^verbatim>\<open>error.rs\<close> and \<^verbatim>\<open>protocol.rs\<close>. Record
  fields carry a short prefix because record selectors are global names. A fixed-size
  array \<^verbatim>\<open>[u8; 32]\<close> is a byte list, with its length in \<open>entry_wf\<close>. The checksum
  (\<^verbatim>\<open>crc32fast::hash\<close>) and the message authentication code (\<^verbatim>\<open>hmac\<close> over \<^verbatim>\<open>sha2\<close>) are
  functions of other crates: every definition that calls them takes them as an argument.
\<close>


section \<open>Data types\<close>

datatype LedgerState = Open | InRecovery | Closed | Deleted

datatype NodeStatus = ReadWrite | ReadOnly | Recovering | Unavailable

record NodeInfo =
  ni_node_id :: string
  ni_address :: string
  ni_status :: NodeStatus
  ni_last_heartbeat_ms :: u64

record Fragment =
  fr_first_entry_id :: u64
  fr_ensemble :: "string list"
  fr_write_quorum :: u8
  fr_ack_quorum :: u8

record LedgerMetadata =
  lm_id :: u64
  lm_state :: LedgerState
  lm_fragments :: "Fragment list"
  lm_last_entry_id :: "u64 option"
  lm_last_add_confirmed :: u64
  lm_created_at_ms :: u64
  lm_updated_at_ms :: u64
  lm_version :: "64 word"

record LedgerOptions =
  lo_ensemble_size :: nat
  lo_write_quorum :: nat
  lo_ack_quorum :: nat

record Entry =
  e_ledger_id :: u64
  e_entry_id :: u64
  e_lac :: u64
  e_digest :: u32
  e_data :: bytes
  e_master_key :: "bytes option"
  e_hmac :: "bytes option"

record AppendAck =
  ack_ledger_id :: u64
  ack_entry_id :: u64
  ack_local_lac :: u64
  ack_node_id :: string

record ReadResult =
  rr_entry :: Entry
  rr_node_id :: string
  rr_appended_at_ms :: u64

record ReReplicationTask =
  rt_ledger_id :: u64
  rt_failed_node_id :: string
  rt_target_node_id :: string
  rt_from_entry_id :: u64
  rt_created_at_ms :: u64

datatype FolioError =
    LedgerNotFound u64
  | EntryNotFound u64 u64
  | LedgerFenced u64
  | QuorumNotMet nat nat
  | StateConflict LedgerState LedgerState
  | CasConflict
  | InvalidFragment u64
  | InvalidEntryId u64 u64
  | LacTimeout
  | Io string
  | Serialization string
  | Metadata string
  | Storage string

text \<open>\<^verbatim>\<open>Result<T>\<close>: \<open>Inl\<close> is \<^verbatim>\<open>Err\<close>, \<open>Inr\<close> is \<^verbatim>\<open>Ok\<close>.\<close>

type_synonym 'a result = "FolioError + 'a"

abbreviation is_ok :: "'a result \<Rightarrow> bool" where
  "is_ok r \<equiv> \<not> isl r"


section \<open>Ledger options\<close>

definition validate_options :: "LedgerOptions \<Rightarrow> unit result" where
  "validate_options opts =
     (if lo_ensemble_size opts = 0 then
        Inl (Metadata ''ensemble size must be greater than zero'')
      else if lo_write_quorum opts = 0 \<or> lo_ack_quorum opts = 0 then
        Inl (Metadata ''quorums must be greater than zero'')
      else if lo_ack_quorum opts > lo_write_quorum opts \<or> lo_write_quorum opts > lo_ensemble_size opts then
        Inl (Metadata ''quorum sizes must satisfy ack <= write <= ensemble'')
      else Inr ())"

lemma validate_options_ok_iff:
  "validate_options opts = Inr () \<longleftrightarrow>
     0 < lo_ack_quorum opts \<and> lo_ack_quorum opts \<le> lo_write_quorum opts
     \<and> lo_write_quorum opts \<le> lo_ensemble_size opts"
  by (auto simp: validate_options_def)


section \<open>Entries\<close>

definition Entry_new :: "(bytes \<Rightarrow> u32) \<Rightarrow> u64 \<Rightarrow> u64 \<Rightarrow> u64 \<Rightarrow> bytes \<Rightarrow> Entry" where
  "Entry_new crc lid eid lac dat =
     \<lparr> e_ledger_id = lid, e_entry_id = eid, e_lac = lac, e_digest = crc dat, e_data = dat,
       e_master_key = None, e_hmac = None \<rparr>"

definition with_master_key :: "Entry \<Rightarrow> bytes \<Rightarrow> Entry" where
  "with_master_key e key = e\<lparr> e_master_key := Some key \<rparr>"

text \<open>
  The message that is authenticated: the three identifiers in big-endian order followed by
  the payload, as the successive \<^verbatim>\<open>mac.update\<close> calls feed it.
\<close>

definition hmac_message :: "u64 \<Rightarrow> u64 \<Rightarrow> u64 \<Rightarrow> bytes \<Rightarrow> bytes" where
  "hmac_message lid eid lac dat =
     u64_to_be_bytes lid @ u64_to_be_bytes eid @ u64_to_be_bytes lac @ dat"

definition compute_hmac ::
  "(bytes \<Rightarrow> bytes \<Rightarrow> bytes) \<Rightarrow> bytes \<Rightarrow> u64 \<Rightarrow> u64 \<Rightarrow> u64 \<Rightarrow> bytes \<Rightarrow> bytes" where
  "compute_hmac mac key lid eid lac dat = mac key (hmac_message lid eid lac dat)"

definition with_hmac :: "(bytes \<Rightarrow> bytes \<Rightarrow> bytes) \<Rightarrow> Entry \<Rightarrow> bytes \<Rightarrow> Entry" where
  "with_hmac mac e key =
     e\<lparr> e_hmac := Some (compute_hmac mac key (e_ledger_id e) (e_entry_id e) (e_lac e) (e_data e)) \<rparr>"

definition validate_hmac :: "(bytes \<Rightarrow> bytes \<Rightarrow> bytes) \<Rightarrow> Entry \<Rightarrow> bytes \<Rightarrow> bool" where
  "validate_hmac mac e key =
     (case e_hmac e of
        None \<Rightarrow> False
      | Some stored \<Rightarrow>
          mac key (hmac_message (e_ledger_id e) (e_entry_id e) (e_lac e) (e_data e)) = stored)"

definition validate_digest :: "(bytes \<Rightarrow> u32) \<Rightarrow> Entry \<Rightarrow> bool" where
  "validate_digest crc e \<longleftrightarrow> crc (e_data e) = e_digest e"

text \<open>What the Rust types guarantee: keys and tags are 32 bytes long.\<close>

definition entry_wf :: "Entry \<Rightarrow> bool" where
  "entry_wf e \<longleftrightarrow>
     (case e_master_key e of None \<Rightarrow> True | Some k \<Rightarrow> length k = 32)
     \<and> (case e_hmac e of None \<Rightarrow> True | Some h \<Rightarrow> length h = 32)"

lemma Entry_new_valid [simp]: "validate_digest crc (Entry_new crc lid eid lac dat)"
  by (simp add: validate_digest_def Entry_new_def)

lemma Entry_new_wf [simp]: "entry_wf (Entry_new crc lid eid lac dat)"
  by (simp add: entry_wf_def Entry_new_def)

lemma Entry_new_sel [simp]:
  "e_ledger_id (Entry_new crc lid eid lac dat) = lid"
  "e_entry_id (Entry_new crc lid eid lac dat) = eid"
  "e_lac (Entry_new crc lid eid lac dat) = lac"
  "e_digest (Entry_new crc lid eid lac dat) = crc dat"
  "e_data (Entry_new crc lid eid lac dat) = dat"
  "e_master_key (Entry_new crc lid eid lac dat) = None"
  "e_hmac (Entry_new crc lid eid lac dat) = None"
  by (simp_all add: Entry_new_def)

lemma with_hmac_valid: "validate_hmac mac (with_hmac mac e key) key"
  by (simp add: validate_hmac_def with_hmac_def compute_hmac_def)

lemma with_hmac_digest: "validate_digest crc (with_hmac mac e key) = validate_digest crc e"
  by (simp add: validate_digest_def with_hmac_def)

text \<open>The authenticated message determines every field it covers.\<close>

lemma hmac_message_inject:
  "hmac_message l e c d = hmac_message l' e' c' d' \<longleftrightarrow> l = l' \<and> e = e' \<and> c = c' \<and> d = d'"
  by (auto simp: hmac_message_def)

text \<open>
  A tag attached for one entry validates on another entry under the same key only if the
  two messages collide under the code.
\<close>

lemma validate_hmac_binding:
  assumes "e_hmac e' = e_hmac (with_hmac mac e key)" and "validate_hmac mac e' key"
    and "\<And>m m'. mac key m = mac key m' \<Longrightarrow> m = m'"
  shows "e_ledger_id e' = e_ledger_id e \<and> e_entry_id e' = e_entry_id e
    \<and> e_lac e' = e_lac e \<and> e_data e' = e_data e"
proof -
  from assms(1,2) have
    "mac key (hmac_message (e_ledger_id e') (e_entry_id e') (e_lac e') (e_data e'))
     = mac key (hmac_message (e_ledger_id e) (e_entry_id e) (e_lac e) (e_data e))"
    by (simp add: validate_hmac_def with_hmac_def compute_hmac_def)
  then have "hmac_message (e_ledger_id e') (e_entry_id e') (e_lac e') (e_data e')
     = hmac_message (e_ledger_id e) (e_entry_id e) (e_lac e) (e_data e)"
    by (rule assms(3))
  then show ?thesis by (simp add: hmac_message_inject)
qed

end
