(* ===== verification/Segment.thy ===== *)
theory Segment
  imports Protocol
begin

text \<open>
  Segment primitives of \<^verbatim>\<open>folio-node/src/storage/segment.rs\<close>: the record framing that the
  write-ahead log and the entry segments share, the aligned write buffer, the record
  decoder, and the segment descriptors. The header of a record is the payload length
  (little endian), the ledger id and the entry id (big endian); the payload and a CRC32
  over everything before it follow. The checksum function is an argument.
\<close>

unbundle bit_operations_syntax


section \<open>Constants and descriptors\<close>

type_synonym SegmentId = u64

definition RECORD_HEADER :: nat where "RECORD_HEADER = 20"

definition RECORD_FOOTER :: nat where "RECORD_FOOTER = 4"

definition RECORD_OVERHEAD :: nat where "RECORD_OVERHEAD = RECORD_HEADER + RECORD_FOOTER"

definition ALIGN :: nat where "ALIGN = 4096"

definition BLOCK_SIZE :: nat where "BLOCK_SIZE = 256 * 1024"

lemma RECORD_OVERHEAD_eq [simp]: "RECORD_OVERHEAD = 24"
  by (simp add: RECORD_OVERHEAD_def RECORD_HEADER_def RECORD_FOOTER_def)

datatype SegmentKind = Wal | EntryKind

datatype SegmentStatus = Local | Offloading | S3 | SegDeleted | Active

record SegmentMeta =
  sm_id :: SegmentId
  sm_kind :: SegmentKind
  sm_status :: SegmentStatus
  sm_local_path :: "string option"
  sm_s3_key :: "string option"
  sm_byte_len :: u64
  sm_ledger_sizes :: "(u64 \<times> u64) list"

record IndexValue =
  iv_segment_id :: SegmentId
  iv_offset :: u64
  iv_length :: u32

text \<open>All arithmetic is on 64-bit \<^verbatim>\<open>usize\<close> and \<^verbatim>\<open>u64\<close> values.\<close>

definition payload_range_in_block :: "IndexValue \<Rightarrow> u64 \<Rightarrow> u64 \<times> u64" where
  "payload_range_in_block iv block_start =
     (let rec_start = iv_offset iv - block_start;
          pay_start = rec_start + of_nat RECORD_HEADER;
          pay_end = pay_start + (ucast (iv_length iv) - of_nat RECORD_OVERHEAD)
      in (pay_start, pay_end))"


section \<open>Alignment\<close>

text \<open>\<^verbatim>\<open>(n + ALIGN - 1) & !(ALIGN - 1)\<close> on \<^verbatim>\<open>usize\<close>.\<close>

definition align_up :: "nat \<Rightarrow> nat" where
  "align_up n = unat ((of_nat n + of_nat ALIGN - 1 :: u64) AND NOT (of_nat ALIGN - 1))"

lemma and_not_mask_div: "unat ((w :: u64) AND NOT (mask 12)) = unat w div 4096 * 4096"
proof -
  have "w AND NOT (mask 12) = push_bit 12 (drop_bit 12 w)"
    by (rule bit_word_eqI) (auto simp: bit_simps)
  then have "w AND NOT (mask 12) = w - take_bit 12 w"
    by (metis add_diff_cancel_right' bits_ident)
  moreover have r: "unat (take_bit 12 w) = unat w mod 4096"
    by (subst unsigned_take_bit_eq) (simp add: take_bit_eq_mod)
  moreover from r have "take_bit 12 w \<le> w"
    by (simp only: word_le_nat_alt mod_less_eq_dividend)
  ultimately have "unat (w AND NOT (mask 12)) = unat w - unat w mod 4096"
    by (simp add: unat_sub)
  also have "\<dots> = unat w div 4096 * 4096"
    by (simp add: minus_mod_eq_div_mult)
  finally show ?thesis .
qed

lemma align_up_eq:
  assumes "n + 4095 < 2 ^ 64"
  shows "align_up n = (n + 4095) div 4096 * 4096"
proof -
  have "(of_nat n + of_nat ALIGN - 1 :: u64) = of_nat (n + 4095)"
    by (simp add: ALIGN_def)
  moreover have "(of_nat ALIGN - 1 :: u64) = mask 12"
    by (simp add: ALIGN_def mask_numeral)
  ultimately have "align_up n = unat (of_nat (n + 4095) :: u64) div 4096 * 4096"
    by (simp only: align_up_def and_not_mask_div)
  with assms show ?thesis by (simp add: unat_of_nat del: of_nat_add)
qed

lemma round_up_bounds:
  "n \<le> (n + 4095) div 4096 * 4096 \<and> (n + 4095) div 4096 * 4096 < n + (4096::nat)"
proof -
  have "(n + 4095) div 4096 * 4096 + (n + 4095) mod 4096 = n + 4095"
    by (rule div_mult_mod_eq)
  moreover have "(n + 4095) mod 4096 < 4096" by simp
  ultimately show ?thesis by linarith
qed

lemma align_up_dvd: "n + 4095 < 2 ^ 64 \<Longrightarrow> ALIGN dvd align_up n"
  by (simp add: align_up_eq ALIGN_def)

lemma align_up_bounds: "n + 4095 < 2 ^ 64 \<Longrightarrow> n \<le> align_up n \<and> align_up n < n + ALIGN"
  using round_up_bounds[of n] by (simp add: align_up_eq ALIGN_def)

lemma align_up_aligned: "n + 4095 < 2 ^ 64 \<Longrightarrow> ALIGN dvd n \<Longrightarrow> align_up n = n"
  by (auto simp: align_up_eq ALIGN_def elim!: dvdE)

lemma align_up_add:
  assumes "ALIGN dvd a" and "a + n + 4095 < 2 ^ 64"
  shows "align_up (a + n) = a + align_up n"
proof -
  from assms(1) obtain k where k: "a = 4096 * k" unfolding ALIGN_def by (elim dvdE)
  have "(4096 * k + n + 4095) div 4096 = k + (n + 4095) div 4096"
    using div_mult_self2[of 4096 "n + 4095" k] by (simp add: algebra_simps)
  then show ?thesis using assms(2) by (simp add: align_up_eq k)
qed

lemma align_up_least:
  assumes "n + 4095 < 2 ^ 64" and "ALIGN dvd m" and "n \<le> m"
  shows "align_up n \<le> m"
proof -
  from assms(2) obtain k where k: "m = 4096 * k" unfolding ALIGN_def by (elim dvdE)
  from assms(3) k have "(n + 4095) div 4096 \<le> (4096 * k + 4095) div 4096"
    by (intro div_le_mono) simp
  then have "(n + 4095) div 4096 \<le> k" by simp
  with k assms(1) show ?thesis by (simp add: align_up_eq)
qed


section \<open>The write buffer\<close>

record AlignedBuffer =
  ab_inner :: bytes

definition AlignedBuffer_new :: AlignedBuffer where
  "AlignedBuffer_new = \<lparr> ab_inner = [] \<rparr>"

text \<open>The bytes that one call of \<open>push\<close> appends.\<close>

definition record_header :: "u64 \<Rightarrow> u64 \<Rightarrow> bytes \<Rightarrow> bytes" where
  "record_header lid eid payload =
     u32_to_le_bytes (of_nat (length payload)) @ u64_to_be_bytes lid @ u64_to_be_bytes eid"

definition encode_record :: "(bytes \<Rightarrow> u32) \<Rightarrow> u64 \<Rightarrow> u64 \<Rightarrow> bytes \<Rightarrow> bytes" where
  "encode_record crc lid eid payload =
     record_header lid eid payload @ payload
     @ u32_to_le_bytes (crc (record_header lid eid payload @ payload))"

definition push ::
  "(bytes \<Rightarrow> u32) \<Rightarrow> AlignedBuffer \<Rightarrow> u64 \<Rightarrow> u64 \<Rightarrow> bytes \<Rightarrow> AlignedBuffer \<times> nat \<times> u32" where
  "push crc buf lid eid payload =
     (buf\<lparr> ab_inner := ab_inner buf @ encode_record crc lid eid payload \<rparr>,
      length (ab_inner buf), of_nat (RECORD_OVERHEAD + length payload))"

definition padded_aligned :: "AlignedBuffer \<Rightarrow> bytes" where
  "padded_aligned buf = resize (align_up (length (ab_inner buf))) 0 (ab_inner buf)"

text \<open>The batch loops of the journal and of the entry-segment writer: one \<open>push\<close> per entry.\<close>

fun push_all ::
  "(bytes \<Rightarrow> u32) \<Rightarrow> AlignedBuffer \<Rightarrow> (u64 \<times> u64 \<times> bytes) list \<Rightarrow> AlignedBuffer \<times> (nat \<times> u32) list" where
  "push_all crc buf [] = (buf, [])"
| "push_all crc buf ((lid, eid, payload) # rest) =
     (case push crc buf lid eid payload of
        (buf1, off, len) \<Rightarrow>
          (case push_all crc buf1 rest of (buf2, offs) \<Rightarrow> (buf2, (off, len) # offs)))"

text \<open>\<^verbatim>\<open>make_aligned\<close> of both writers: a zeroed, page-aligned copy of the data.\<close>

definition make_aligned :: "bytes \<Rightarrow> bytes" where
  "make_aligned dat = resize (align_up (length dat)) 0 dat"

lemma length_record_header [simp]: "length (record_header lid eid payload) = 20"
  by (simp add: record_header_def)

lemma length_encode_record [simp]: "length (encode_record crc lid eid payload) = 24 + length payload"
  by (simp add: encode_record_def)

lemma padded_aligned_eq:
  assumes "length (ab_inner buf) + 4095 < 2 ^ 64"
  shows "padded_aligned buf
    = ab_inner buf @ replicate (align_up (length (ab_inner buf)) - length (ab_inner buf)) 0"
  using align_up_bounds[OF assms] by (auto simp: padded_aligned_def resize_def)


section \<open>The decoder\<close>

definition decode_record :: "(bytes \<Rightarrow> u32) \<Rightarrow> bytes \<Rightarrow> nat \<Rightarrow> (u64 \<times> u64 \<times> bytes \<times> nat) result" where
  "decode_record crc dat pos =
     (if (case usize_checked_add pos 4 of None \<Rightarrow> True | Some e \<Rightarrow> e > length dat) then
        Inl (Storage ''torn write: truncated length prefix'')
      else
        let payload_len = unat (u32_from_le_bytes (subrange pos (pos + 4) dat)) in
        case usize_checked_add RECORD_OVERHEAD payload_len of
          None \<Rightarrow> Inl (Storage ''torn write: record length overflow'')
        | Some tot \<Rightarrow>
            (if (case usize_checked_add pos tot of None \<Rightarrow> True | Some e \<Rightarrow> e > length dat) then
               Inl (Storage (''torn write: record at '' @ show_nat pos @ '' needs '' @ show_nat tot
                 @ '' bytes, '' @ show_nat (length dat - pos) @ '' available''))
             else
               let lid = u64_from_be_bytes (subrange (pos + 4) (pos + 12) dat);
                   eid = u64_from_be_bytes (subrange (pos + 12) (pos + 20) dat);
                   payload = subrange (pos + 20) (pos + 20 + payload_len) dat;
                   stored_crc = u32_from_le_bytes (subrange (pos + 20 + payload_len) (pos + tot) dat);
                   computed = crc (u32_to_le_bytes (of_nat payload_len) @ u64_to_be_bytes lid
                                   @ u64_to_be_bytes eid @ payload)
               in if stored_crc \<noteq> computed then
                    Inl (Storage (''torn write: CRC mismatch at '' @ show_nat pos @ '': stored=''
                      @ show_hex_u32 stored_crc @ '' computed='' @ show_hex_u32 computed))
                  else Inr (lid, eid, payload, tot)))"

text \<open>The payload length announced at a position.\<close>

abbreviation len_at :: "bytes \<Rightarrow> nat \<Rightarrow> u32" where
  "len_at dat pos \<equiv> u32_from_le_bytes (subrange pos (pos + 4) dat)"


lemma decode_record_guard:
  assumes "decode_record crc dat pos = Inr (lid, eid, payload, tot)"
  shows "pos + 4 \<le> length dat" and "tot = 24 + unat (len_at dat pos)"
    and "pos + tot \<le> length dat" and "pos + tot < 2 ^ 64"
  using assms
  by (auto simp: decode_record_def usize_checked_add_def Let_def split: if_splits)

lemma of_nat_unat_u32 [simp]: "(of_nat (unat (w :: u32)) :: u32) = w"
  by simp

text \<open>Soundness: what decodes is exactly an encoded record.\<close>

lemma decode_record_sound:
  assumes "decode_record crc dat pos = Inr (lid, eid, payload, tot)"
  shows "subrange pos (pos + tot) dat = encode_record crc lid eid payload"
    and "tot = 24 + length payload" and "length payload < 2 ^ 32"
    and "pos + tot \<le> length dat"
proof -
  define n where "n = unat (len_at dat pos)"
  note g = decode_record_guard[OF assms]
  have tot: "tot = 24 + n" using g(2) by (simp add: n_def)
  have n: "n < 2 ^ 32" by (simp add: n_def)
  from assms g have
    lid: "lid = u64_from_be_bytes (subrange (pos + 4) (pos + 12) dat)" and
    eid: "eid = u64_from_be_bytes (subrange (pos + 12) (pos + 20) dat)" and
    pay: "payload = subrange (pos + 20) (pos + 20 + n) dat" and
    crc: "u32_from_le_bytes (subrange (pos + 20 + n) (pos + tot) dat)
      = crc (u32_to_le_bytes (of_nat n) @ u64_to_be_bytes lid @ u64_to_be_bytes eid @ payload)"
    by (auto simp: decode_record_def usize_checked_add_def Let_def n_def split: if_splits)
  have lp: "length payload = n"
    using g(3) by (simp add: pay tot)
  have b1: "subrange pos (pos + 4) dat = u32_to_le_bytes (of_nat (length payload))"
    using g(1) by (simp add: lp n_def u32_to_from_le_bytes)
  have b2: "subrange (pos + 4) (pos + 12) dat = u64_to_be_bytes lid"
    using g(3) by (simp add: lid tot u64_to_from_be_bytes)
  have b3: "subrange (pos + 12) (pos + 20) dat = u64_to_be_bytes eid"
    using g(3) by (simp add: eid tot u64_to_from_be_bytes)
  have b4: "subrange (pos + 20 + n) (pos + tot) dat
      = u32_to_le_bytes (crc (record_header lid eid payload @ payload))"
  proof -
    have "length (subrange (pos + 20 + n) (pos + tot) dat) = 4"
      using g(3) by (simp add: tot)
    then show ?thesis
      using crc by (metis append.assoc lp record_header_def u32_to_from_le_bytes)
  qed
  have "subrange pos (pos + tot) dat
      = subrange pos (pos + 4) dat @ subrange (pos + 4) (pos + 12) dat @ subrange (pos + 12) (pos + 20) dat
        @ subrange (pos + 20) (pos + 20 + n) dat @ subrange (pos + 20 + n) (pos + tot) dat"
    by (simp add: subrange_join tot)
  then show "subrange pos (pos + tot) dat = encode_record crc lid eid payload"
    unfolding b1 b2 b3 b4 by (simp add: encode_record_def record_header_def pay)
  show "tot = 24 + length payload" and "length payload < 2 ^ 32" and "pos + tot \<le> length dat"
    using g n by (simp_all add: lp tot)
qed

text \<open>
  Completeness: a record that stands at a position decodes to its parts, whatever follows
  it and whatever the checksum function is.
\<close>

lemma decode_record_complete:
  assumes rec: "subrange pos (pos + (24 + length payload)) dat = encode_record crc lid eid payload"
    and fits: "pos + (24 + length payload) \<le> length dat"
    and len: "length payload < 2 ^ 32" and small: "length dat < 2 ^ 64"
  shows "decode_record crc dat pos = Inr (lid, eid, payload, 24 + length payload)"
proof -
  define body where "body = drop pos dat"
  have split: "take (24 + length payload) body = encode_record crc lid eid payload"
    using rec by (simp add: subrange_def body_def)
  then have body: "body = record_header lid eid payload @ payload
      @ u32_to_le_bytes (crc (record_header lid eid payload @ payload))
      @ drop (24 + length payload) body"
    by (metis append.assoc append_take_drop_id encode_record_def)
  have sl: "subrange (pos + a) (pos + b) dat = subrange a b body" for a b
    by (simp add: subrange_drop body_def)
  have s1: "subrange pos (pos + 4) dat = u32_to_le_bytes (of_nat (length payload))"
    using sl[of 0 4] by (subst (asm) body) (simp add: record_header_def)
  have s2: "subrange (pos + 4) (pos + 12) dat = u64_to_be_bytes lid"
    unfolding sl by (subst body) (simp add: record_header_def subrange_def)
  have s3: "subrange (pos + 12) (pos + 20) dat = u64_to_be_bytes eid"
    unfolding sl by (subst body) (simp add: record_header_def subrange_def)
  have s4: "subrange (pos + 20) (pos + 20 + length payload) dat = payload"
    using sl[of 20 "20 + length payload"] by (subst (asm) body) (simp add: subrange_def add.assoc)
  have s5: "subrange (pos + 20 + length payload) (pos + (24 + length payload)) dat
      = u32_to_le_bytes (crc (record_header lid eid payload @ payload))"
    using sl[of "20 + length payload" "24 + length payload"]
    by (subst (asm) body) (simp add: subrange_def add.assoc)
  have u: "unat (of_nat (length payload) :: u32) = length payload"
    using len by (simp add: unat_of_nat)
  have "pos + 24 + length payload < 2 ^ 64" using fits small by linarith
  then show ?thesis
    using fits s2 s3 s4 s5
    by (simp add: decode_record_def usize_checked_add_def s1 u Let_def record_header_def add.assoc)
qed

lemma decode_record_at:
  assumes "length payload < 2 ^ 32"
    and "length (pre @ encode_record crc lid eid payload @ post) < 2 ^ 64"
  shows "decode_record crc (pre @ encode_record crc lid eid payload @ post) (length pre)
    = Inr (lid, eid, payload, 24 + length payload)"
  using assms by (intro decode_record_complete) (simp_all add: subrange_append_mid)

text \<open>A record cut anywhere before its last byte never decodes.\<close>

lemma decode_record_truncated:
  assumes "k < 24 + length payload" and "length payload < 2 ^ 32"
  shows "isl (decode_record crc (pre @ take k (encode_record crc lid eid payload)) (length pre))"
proof (cases "k < 4")
  case True
  then show ?thesis
    by (simp add: decode_record_def usize_checked_add_def)
next
  case False
  let ?d = "pre @ take k (encode_record crc lid eid payload)"
  have "subrange (length pre) (length pre + 4) ?d = take 4 (encode_record crc lid eid payload)"
    using False by (simp add: subrange_def min_def)
  then have "subrange (length pre) (length pre + 4) ?d = u32_to_le_bytes (of_nat (length payload))"
    by (simp add: encode_record_def record_header_def)
  moreover have "unat (of_nat (length payload) :: u32) = length payload"
    using assms(2) by (simp add: unat_of_nat)
  moreover have "length ?d < length pre + (24 + length payload)"
    using assms(1) by simp
  ultimately show ?thesis
    using assms(1) by (simp add: decode_record_def usize_checked_add_def Let_def)
qed


section \<open>Records in place\<close>

text \<open>A record with these parts stands at an offset of a file.\<close>

definition rec_at :: "(bytes \<Rightarrow> u32) \<Rightarrow> bytes \<Rightarrow> nat \<Rightarrow> u64 \<Rightarrow> u64 \<Rightarrow> bytes \<Rightarrow> bool" where
  "rec_at crc c off lid eid payload \<longleftrightarrow>
     off + (24 + length payload) \<le> length c
     \<and> subrange off (off + (24 + length payload)) c = encode_record crc lid eid payload"

definition batch_bytes :: "(bytes \<Rightarrow> u32) \<Rightarrow> (u64 \<times> u64 \<times> bytes) list \<Rightarrow> bytes" where
  "batch_bytes crc es = concat (map (\<lambda>(l, e, p). encode_record crc l e p) es)"

fun batch_offsets :: "nat \<Rightarrow> (u64 \<times> u64 \<times> bytes) list \<Rightarrow> (nat \<times> u32) list" where
  "batch_offsets pos [] = []"
| "batch_offsets pos ((l, e, p) # es) =
     (pos, of_nat (24 + length p)) # batch_offsets (pos + (24 + length p)) es"

lemma batch_bytes_simps [simp]:
  "batch_bytes crc [] = []"
  "batch_bytes crc ((l, e, p) # es) = encode_record crc l e p @ batch_bytes crc es"
  by (simp_all add: batch_bytes_def)

lemma length_batch_bytes: "length (batch_bytes crc es) = (\<Sum>(l, e, p)\<leftarrow>es. 24 + length p)"
  by (induction es) auto

lemma length_batch_offsets [simp]: "length (batch_offsets pos es) = length es"
  by (induction es arbitrary: pos) auto

lemma push_all_eq:
  "push_all crc buf es
   = (buf\<lparr> ab_inner := ab_inner buf @ batch_bytes crc es \<rparr>, batch_offsets (length (ab_inner buf)) es)"
  by (induction es arbitrary: buf) (auto simp: push_def add.assoc)

lemma rec_at_append: "rec_at crc c off l e p \<Longrightarrow> rec_at crc (c @ d) off l e p"
  by (simp add: rec_at_def subrange_append1)

lemma rec_at_prepend: "rec_at crc c off l e p \<Longrightarrow> rec_at crc (pre @ c) (length pre + off) l e p"
  using subrange_drop[of "length pre" off "off + (24 + length p)" "pre @ c"]
  by (simp add: rec_at_def add.assoc)

lemma rec_at_take:
  "rec_at crc (take n c) off l e p \<Longrightarrow> rec_at crc c off l e p"
  using rec_at_append[of crc "take n c" off l e p "drop n c"] by simp

lemma rec_at_here: "rec_at crc (pre @ encode_record crc l e p @ post) (length pre) l e p"
  by (simp add: rec_at_def subrange_append_mid)

lemma rec_at_batch:
  assumes "((l, e, p), (off, len)) \<in> set (zip es (batch_offsets pos es))" and "pos = length pre"
  shows "rec_at crc (pre @ batch_bytes crc es @ post) off l e p \<and> len = of_nat (24 + length p)
    \<and> off + (24 + length p) \<le> length pre + length (batch_bytes crc es)"
  using assms
proof (induction es arbitrary: pos pre)
  case (Cons x es)
  obtain l' e' p' where x: "x = (l', e', p')" by (cases x)
  show ?case
  proof (cases "(l, e, p) = x \<and> off = pos \<and> len = of_nat (24 + length p')")
    case True
    with x Cons.prems show ?thesis by (auto simp: rec_at_here)
  next
    case False
    with Cons.prems x have "((l, e, p), (off, len)) \<in> set (zip es (batch_offsets (pos + (24 + length p')) es))"
      by auto
    from Cons.IH[OF this, of "pre @ encode_record crc l' e' p'"] Cons.prems(2) x show ?thesis
      by simp
  qed
qed simp

lemma rec_at_decode:
  assumes "rec_at crc c off l e p" and "length p < 2 ^ 32" and "length c < 2 ^ 64"
  shows "decode_record crc c off = Inr (l, e, p, 24 + length p)"
  using assms by (intro decode_record_complete) (simp_all add: rec_at_def)

lemma decode_too_long:
  assumes "length dat < pos + 24 + unat (len_at dat pos)" and "pos + 4 \<le> length dat" and "length dat < 2 ^ 63"
  shows "isl (decode_record crc dat pos)"
proof -
  have "unat (len_at dat pos) < 4294967296" by simp
  then show ?thesis using assms
    by (auto simp: decode_record_def usize_checked_add_def Let_def)
qed

lemma make_aligned_eq: "length dat + 4095 < 2 ^ 64 \<Longrightarrow> ALIGN dvd length dat \<Longrightarrow> make_aligned dat = dat"
  by (simp add: make_aligned_def align_up_aligned resize_def)

lemma length_padded: "length (padded_aligned buf) = align_up (length (ab_inner buf))"
  by (simp add: padded_aligned_def)

lemma make_aligned_padded:
  assumes "length (ab_inner buf) + 8192 < 2 ^ 64"
  shows "make_aligned (padded_aligned buf) = padded_aligned buf"
proof -
  have "length (ab_inner buf) + 4095 < 2 ^ 64" using assms by simp
  from align_up_bounds[OF this] align_up_dvd[OF this] assms show ?thesis
    by (intro make_aligned_eq) (simp_all add: length_padded ALIGN_def)
qed


section \<open>Padded batches\<close>

abbreviation padded_batch :: "(bytes \<Rightarrow> u32) \<Rightarrow> (u64 \<times> u64 \<times> bytes) list \<Rightarrow> bytes" where
  "padded_batch crc es \<equiv> padded_aligned \<lparr> ab_inner = batch_bytes crc es \<rparr>"

text \<open>Sizes at which neither a record length (32 bits) nor a file position (64 bits) wraps.\<close>

definition batch_fits :: "(bytes \<Rightarrow> u32) \<Rightarrow> nat \<Rightarrow> (u64 \<times> u64 \<times> bytes) list \<Rightarrow> bool" where
  "batch_fits crc pos es \<longleftrightarrow>
     pos + length (batch_bytes crc es) + 8192 < 2 ^ 64 \<and> (\<forall>(l, e, p) \<in> set es. 24 + length p < 2 ^ 32)"

lemma padded_batch_eq:
  assumes "batch_fits crc pos es"
  shows "padded_batch crc es = batch_bytes crc es
      @ replicate (align_up (length (batch_bytes crc es)) - length (batch_bytes crc es)) 0"
    and "length (padded_batch crc es) < length (batch_bytes crc es) + 4096"
    and "pos + length (padded_batch crc es) < 2 ^ 64"
    and "make_aligned (padded_batch crc es) = padded_batch crc es"
    and "ALIGN dvd length (padded_batch crc es)"
proof -
  let ?n = "length (batch_bytes crc es)"
  have n: "?n + 4095 < 2 ^ 64" "?n + 8192 < 2 ^ 64" and pos: "pos + ?n + 8192 < 2 ^ 64"
    using assms by (simp_all add: batch_fits_def)
  note b = align_up_bounds[OF n(1)]
  show "padded_batch crc es = batch_bytes crc es @ replicate (align_up ?n - ?n) 0"
    using padded_aligned_eq[of "\<lparr> ab_inner = batch_bytes crc es \<rparr>"] n by simp
  show "length (padded_batch crc es) < ?n + 4096"
    using b by (simp add: length_padded ALIGN_def)
  show "pos + length (padded_batch crc es) < 2 ^ 64"
    using b pos by (simp add: length_padded ALIGN_def)
  show "make_aligned (padded_batch crc es) = padded_batch crc es"
    using n by (intro make_aligned_padded) simp
  show "ALIGN dvd length (padded_batch crc es)"
    using align_up_dvd[OF n(1)] by (simp add: length_padded)
qed

text \<open>The offsets and lengths that both writers hand out, as machine words.\<close>

lemma batch_locations:
  fixes base :: u64
  assumes fit: "batch_fits crc (length c) es"
    and mem: "((l, e, p), (off, len)) \<in> set (zip es (map (\<lambda>(o', n). (base + of_nat o', n)) (batch_offsets 0 es)))"
    and base: "unat base = length c"
  shows "rec_at crc (c @ padded_batch crc es @ post) (unat off) l e p \<and> unat len = 24 + length p"
proof -
  from mem obtain o' where o': "((l, e, p), (o', len)) \<in> set (zip es (batch_offsets 0 es))"
    and off: "off = base + of_nat o'"
    by (auto simp: zip_map2)
  have r: "o' + (24 + length p) \<le> length (batch_bytes crc es)"
    using rec_at_batch[OF o', of "[]" crc] by simp
  have "length p < 2 ^ 32 - 24"
    using fit set_zip_leftD[OF o'] by (auto simp: batch_fits_def)
  moreover have "len = of_nat (24 + length p)"
    using rec_at_batch[OF o', of "[]"] by (simp del: of_nat_add)
  ultimately have len: "unat len = 24 + length p" by (simp add: unat_of_nat del: of_nat_add)
  have o2: "length c + o' < 2 ^ 64" using r fit by (simp add: batch_fits_def)
  then have "unat off = length c + o'"
    using base by (simp add: off unat_word_ariths unat_of_nat)
  moreover have "rec_at crc (c @ batch_bytes crc es @ rest) (length c + o') l e p" for rest
  proof -
    have "rec_at crc (batch_bytes crc es) o' l e p"
      using rec_at_batch[OF o', of "[]" crc "[]"] by simp
    then show ?thesis by (intro rec_at_prepend rec_at_append)
  qed
  ultimately show ?thesis using len padded_batch_eq(1)[OF fit] by simp
qed


section \<open>Properties\<close>

text \<open>
  C20. Write then read: after pushing a batch of records into a fresh buffer and padding it for
  the disk, decoding at any offset that \<open>push\<close> handed out gives back exactly the ledger id, entry
  id and payload of the corresponding record, and the handed-out length.
\<close>

theorem push_decode_roundtrip:
  assumes "push_all crc AlignedBuffer_new es = (buf, offs)" and "batch_fits crc 0 es"
    and "((l, e, p), (off, len)) \<in> set (zip es offs)"
  shows "decode_record crc (padded_aligned buf) off = Inr (l, e, p, unat len)"
proof -
  have buf: "buf = \<lparr> ab_inner = batch_bytes crc es \<rparr>" and offs: "offs = batch_offsets 0 es"
    using assms(1) by (simp_all add: push_all_eq AlignedBuffer_new_def)
  have "(l, e, p) \<in> set es" using assms(3) by (rule set_zip_leftD)
  then have p: "24 + length p < 2 ^ 32" using assms(2) by (auto simp: batch_fits_def)
  have "rec_at crc (padded_batch crc es) off l e p" and len: "len = of_nat (24 + length p)"
    using rec_at_batch[of l e p off len es 0 "[]" crc "replicate _ 0"] assms(3) padded_batch_eq(1)[OF assms(2)] offs
    by (simp_all del: of_nat_add)
  moreover have "unat len = 24 + length p" using len p by (simp add: unat_of_nat del: of_nat_add)
  ultimately show ?thesis
    using p padded_batch_eq(3)[OF assms(2)] by (simp add: buf rec_at_decode)
qed

theorem push_decode_roundtrip_witness:
  "decode_record (\<lambda>_. 7) (padded_aligned (fst (push_all (\<lambda>_. 7) AlignedBuffer_new [(1, 0, [9]), (1, 1, [8, 8])]))) 25
   = Inr (1, 1, [8, 8], 26)"
proof -
  have "push_all (\<lambda>_. 7) AlignedBuffer_new [(1, 0, [9]), (1, 1, [8, 8])]
      = (fst (push_all (\<lambda>_. 7) AlignedBuffer_new [(1, 0, [9]), (1, 1, [8, 8])]), [(0, 25), (25, 26)])"
    by (simp add: push_all_eq AlignedBuffer_new_def)
  from push_decode_roundtrip[OF this, of 1 1 "[8, 8]" 25 26] show ?thesis
    by (simp add: batch_fits_def)
qed

text \<open>
  No misreading: whatever bytes are in the buffer, if decoding succeeds then the bytes at that
  position are exactly the encoding of the returned record, its length fits the 32-bit prefix, and
  the record lies inside the buffer.
\<close>

theorem decode_record_faithful:
  assumes "decode_record crc dat pos = Inr (lid, eid, payload, n)"
  shows "subrange pos (pos + n) dat = encode_record crc lid eid payload
    \<and> n = RECORD_OVERHEAD + length payload \<and> length payload < 2 ^ 32 \<and> pos + n \<le> length dat"
  using decode_record_sound[OF assms] by simp

theorem decode_record_faithful_witness:
  "subrange 0 26 (encode_record (\<lambda>_. 3) 5 6 [1, 2]) = encode_record (\<lambda>_. 3) 5 6 [1, 2]
   \<and> 26 = RECORD_OVERHEAD + length [1, 2 :: u8] \<and> length [1, 2 :: u8] < 2 ^ 32
   \<and> 0 + 26 \<le> length (encode_record (\<lambda>_. 3) 5 6 [1, 2])"
proof -
  have "decode_record (\<lambda>_. 3) (encode_record (\<lambda>_. 3) 5 6 [1, 2]) 0 = Inr (5, 6, [1, 2], 26)"
    using decode_record_at[of "[1, 2]" "[]" "\<lambda>_. 3" 5 6 "[]"] by simp
  from decode_record_faithful[OF this] show ?thesis by simp
qed

text \<open>
  A torn write never decodes: a record cut anywhere before its last byte is rejected with an
  error, for every checksum function.
\<close>

theorem torn_record_rejected:
  assumes "k < RECORD_OVERHEAD + length payload" and "length payload < 2 ^ 32"
  shows "\<exists>msg. decode_record crc (pre @ take k (encode_record crc lid eid payload)) (length pre) = Inl (Storage msg)"
proof -
  have "isl (decode_record crc (pre @ take k (encode_record crc lid eid payload)) (length pre))"
    using assms by (intro decode_record_truncated) simp_all
  then show ?thesis
    by (auto simp: decode_record_def Let_def split: if_splits option.splits)
qed

theorem torn_record_rejected_witness:
  "\<exists>msg. decode_record (\<lambda>_. 0) (take 20 (encode_record (\<lambda>_. 0) 1 2 [3])) 0 = Inl (Storage msg)"
  using torn_record_rejected[of 20 "[3]" "\<lambda>_. 0" "[]" 1 2] by simp

text \<open>
  C21. The alignment mask computes the least multiple of 4096 at or above its argument, as long as
  the argument is at least 4095 below the machine limit.
\<close>

theorem align_up_correct:
  assumes "n + 4095 < 2 ^ 64"
  shows "ALIGN dvd align_up n \<and> n \<le> align_up n \<and> align_up n < n + ALIGN
    \<and> (\<forall>m. ALIGN dvd m \<and> n \<le> m \<longrightarrow> align_up n \<le> m)"
  using align_up_dvd[OF assms] align_up_bounds[OF assms] align_up_least[OF assms] by blast

theorem align_up_correct_witness:
  "ALIGN dvd align_up 5000 \<and> 5000 \<le> align_up 5000 \<and> align_up 5000 < 5000 + ALIGN \<and> align_up 5000 \<le> 8192"
  using align_up_correct[of 5000] by (simp add: ALIGN_def)

end
