(* ===== verification/Fjall.thy ===== *)
theory Fjall
  imports Segment
begin

text \<open>
  The index and registry layer of \<^verbatim>\<open>folio-node/src/storage/fjall.rs\<close> (and the
  \<^verbatim>\<open>StoredEntry\<close> of \<^verbatim>\<open>journal.rs\<close>). The embedded key-value store (crate \<^verbatim>\<open>fjall\<close>) and the
  serialiser (crate \<^verbatim>\<open>bincode\<close>) are other people's code: their operations are the fields
  of the record \<open>'k db_api\<close>, an argument of every definition that calls them. A
  keyspace is a value of type \<open>'k\<close>; a partition handle is the partition's name, as all
  handles of the program share one keyspace. Every operation of the store can fail, with
  the error's text; a failing operation may still have produced a new keyspace value.

  Definitions come first, component by component; \<open>db_laws\<close> states what the code relies
  on, and the lemmas in its context relate the byte-level operations to finite maps.
\<close>


section \<open>The database interface\<close>

record StoredEntry =
  se_entry :: Entry
  se_appended_at_ms :: u64

text \<open>\<^verbatim>\<open>LedgerState\<close> of \<^verbatim>\<open>fjall.rs\<close>, the durable per-ledger state of a storage node.\<close>

record NodeLedgerState =
  ls_is_fenced :: bool
  ls_master_key :: "bytes option"

record 'k db_api =
  fj_open_partition :: "'k \<Rightarrow> string \<Rightarrow> (string + unit) \<times> 'k"
  fj_insert :: "'k \<Rightarrow> string \<Rightarrow> bytes \<Rightarrow> bytes \<Rightarrow> (string + unit) \<times> 'k"
  fj_get :: "'k \<Rightarrow> string \<Rightarrow> bytes \<Rightarrow> string + bytes option"
  fj_remove :: "'k \<Rightarrow> string \<Rightarrow> bytes \<Rightarrow> (string + unit) \<times> 'k"
  fj_iter :: "'k \<Rightarrow> string \<Rightarrow> (string + bytes \<times> bytes) list"
  fj_range :: "'k \<Rightarrow> string \<Rightarrow> bytes \<Rightarrow> bytes \<Rightarrow> (string + bytes \<times> bytes) list"
  fj_persist :: "'k \<Rightarrow> (string + unit) \<times> 'k"
  bc_ser_iv :: "IndexValue \<Rightarrow> string + bytes"
  bc_de_iv :: "bytes \<Rightarrow> string + IndexValue"
  bc_ser_ls :: "NodeLedgerState \<Rightarrow> string + bytes"
  bc_de_ls :: "bytes \<Rightarrow> string + NodeLedgerState"
  bc_ser_sm :: "SegmentMeta \<Rightarrow> string + bytes"
  bc_de_sm :: "bytes \<Rightarrow> string + SegmentMeta"
  bc_ser_se :: "StoredEntry \<Rightarrow> string + bytes"
  bc_de_se :: "bytes \<Rightarrow> string + StoredEntry"

text \<open>\<^verbatim>\<open>map_err(|e| FolioError::Storage(e.to_string()))\<close> and its \<^verbatim>\<open>Serialization\<close> twin.\<close>

definition storage_err :: "string + 'a \<Rightarrow> 'a result" where
  "storage_err = map_sum Storage id"

definition serial_err :: "string + 'a \<Rightarrow> 'a result" where
  "serial_err = map_sum Serialization id"


section \<open>FjallIndex\<close>

record FjallIndex =
  ix_entries :: string
  ix_locations :: string
  ix_checkpoints :: string
  ix_ledgers :: string

fun open_all :: "'k db_api \<Rightarrow> 'k \<Rightarrow> string list \<Rightarrow> unit result \<times> 'k" where
  "open_all D ks [] = (Inr (), ks)"
| "open_all D ks (n # ns) =
     (case fj_open_partition D ks n of
        (Inl e, ks') \<Rightarrow> (Inl (Storage e), ks')
      | (Inr _, ks') \<Rightarrow> open_all D ks' ns)"

definition FjallIndex_from_keyspace ::
  "'k db_api \<Rightarrow> 'k \<Rightarrow> string \<Rightarrow> FjallIndex result \<times> 'k" where
  "FjallIndex_from_keyspace D ks prefix =
     (let idx = \<lparr> ix_entries = prefix @ ''.entries'', ix_locations = prefix @ ''.locations'',
                  ix_checkpoints = prefix @ ''.checkpoints'', ix_ledgers = prefix @ ''.ledgers'' \<rparr>
      in case open_all D ks [ix_entries idx, ix_locations idx, ix_checkpoints idx, ix_ledgers idx] of
           (Inl e, ks') \<Rightarrow> (Inl e, ks')
         | (Inr _, ks') \<Rightarrow> (Inr idx, ks'))"

definition encode_key :: "u64 \<Rightarrow> u64 \<Rightarrow> bytes" where
  "encode_key lid eid = u64_to_be_bytes lid @ u64_to_be_bytes eid"

definition decode_key :: "bytes \<Rightarrow> (u64 \<times> u64) result" where
  "decode_key k =
     (if length k < 16 then
        Inl (Storage (''corrupt index key: expected 16 bytes, got '' @ show_nat (length k)))
      else Inr (u64_from_be_bytes (subrange 0 8 k), u64_from_be_bytes (subrange 8 16 k)))"

definition insert_location ::
  "'k db_api \<Rightarrow> FjallIndex \<Rightarrow> 'k \<Rightarrow> u64 \<Rightarrow> u64 \<Rightarrow> SegmentId \<Rightarrow> u64 \<Rightarrow> u32 \<Rightarrow> unit result \<times> 'k" where
  "insert_location D idx ks lid eid seg off len =
     (case bc_ser_iv D \<lparr> iv_segment_id = seg, iv_offset = off, iv_length = len \<rparr> of
        Inl e \<Rightarrow> (Inl (Serialization e), ks)
      | Inr val \<Rightarrow>
          (case fj_insert D ks (ix_locations idx) (encode_key lid eid) val of
             (r, ks') \<Rightarrow> (storage_err r, ks')))"

definition get_location ::
  "'k db_api \<Rightarrow> FjallIndex \<Rightarrow> 'k \<Rightarrow> u64 \<Rightarrow> u64 \<Rightarrow> IndexValue option result" where
  "get_location D idx ks lid eid =
     (case fj_get D ks (ix_locations idx) (encode_key lid eid) of
        Inl e \<Rightarrow> Inl (Storage e)
      | Inr None \<Rightarrow> Inr None
      | Inr (Some b) \<Rightarrow>
          (case bc_de_iv D b of Inl e \<Rightarrow> Inl (Serialization e) | Inr v \<Rightarrow> Inr (Some v)))"

definition delete_location :: "'k db_api \<Rightarrow> FjallIndex \<Rightarrow> 'k \<Rightarrow> u64 \<Rightarrow> u64 \<Rightarrow> unit result \<times> 'k" where
  "delete_location D idx ks lid eid =
     (case fj_remove D ks (ix_locations idx) (encode_key lid eid) of
        (r, ks') \<Rightarrow> (storage_err r, ks'))"

text \<open>The first loop of \<^verbatim>\<open>delete_locations_in_segment_tail\<close> collects, the second deletes.\<close>

fun tail_keys ::
  "'k db_api \<Rightarrow> SegmentId \<Rightarrow> u64 \<Rightarrow> (string + bytes \<times> bytes) list \<Rightarrow> (u64 \<times> u64) list result" where
  "tail_keys D seg min_off [] = Inr []"
| "tail_keys D seg min_off (item # items) =
     (case item of
        Inl e \<Rightarrow> Inl (Storage e)
      | Inr (k, v) \<Rightarrow>
          (case bc_de_iv D v of
             Inl e \<Rightarrow> Inl (Serialization e)
           | Inr iv \<Rightarrow>
               (if iv_segment_id iv = seg \<and> iv_offset iv \<ge> min_off then
                  (case decode_key k of
                     Inl e \<Rightarrow> Inl e
                   | Inr key \<Rightarrow>
                       (case tail_keys D seg min_off items of
                          Inl e \<Rightarrow> Inl e | Inr rest \<Rightarrow> Inr (key # rest)))
                else tail_keys D seg min_off items)))"

fun delete_all :: "'k db_api \<Rightarrow> FjallIndex \<Rightarrow> 'k \<Rightarrow> (u64 \<times> u64) list \<Rightarrow> unit result \<times> 'k" where
  "delete_all D idx ks [] = (Inr (), ks)"
| "delete_all D idx ks ((lid, eid) # rest) =
     (case delete_location D idx ks lid eid of
        (Inl e, ks') \<Rightarrow> (Inl e, ks')
      | (Inr _, ks') \<Rightarrow> delete_all D idx ks' rest)"

definition delete_locations_in_segment_tail ::
  "'k db_api \<Rightarrow> FjallIndex \<Rightarrow> 'k \<Rightarrow> SegmentId \<Rightarrow> u64 \<Rightarrow> (u64 \<times> u64) list result \<times> 'k" where
  "delete_locations_in_segment_tail D idx ks seg min_off =
     (case tail_keys D seg min_off (fj_iter D ks (ix_locations idx)) of
        Inl e \<Rightarrow> (Inl e, ks)
      | Inr to_delete \<Rightarrow>
          (case delete_all D idx ks to_delete of
             (Inl e, ks') \<Rightarrow> (Inl e, ks')
           | (Inr _, ks') \<Rightarrow> (Inr to_delete, ks')))"

fun collect_locations ::
  "'k db_api \<Rightarrow> (string + bytes \<times> bytes) list \<Rightarrow> (u64 \<times> IndexValue) list result" where
  "collect_locations D [] = Inr []"
| "collect_locations D (item # items) =
     (case item of
        Inl e \<Rightarrow> Inl (Storage e)
      | Inr (k, v) \<Rightarrow>
          (case decode_key k of
             Inl e \<Rightarrow> Inl e
           | Inr (_, eid) \<Rightarrow>
               (case bc_de_iv D v of
                  Inl e \<Rightarrow> Inl (Serialization e)
                | Inr iv \<Rightarrow>
                    (case collect_locations D items of
                       Inl e \<Rightarrow> Inl e | Inr rest \<Rightarrow> Inr ((eid, iv) # rest)))))"

definition scan_ledger_locations ::
  "'k db_api \<Rightarrow> FjallIndex \<Rightarrow> 'k \<Rightarrow> u64 \<Rightarrow> (u64 \<times> IndexValue) list result" where
  "scan_ledger_locations D idx ks lid =
     collect_locations D (fj_range D ks (ix_locations idx) (encode_key lid 0) (encode_key lid (- 1)))"

text \<open>\<^verbatim>\<open>range(start..=end).next_back()\<close> looks at the last item only; \<^verbatim>\<open>eid + 1\<close> is a \<^verbatim>\<open>u64\<close> sum.\<close>

definition get_next_entry_id :: "'k db_api \<Rightarrow> FjallIndex \<Rightarrow> 'k \<Rightarrow> u64 \<Rightarrow> u64 result" where
  "get_next_entry_id D idx ks lid =
     (let items = fj_range D ks (ix_locations idx) (encode_key lid 0) (encode_key lid (- 1))
      in if items = [] then Inr 0
         else case last items of
                Inl e \<Rightarrow> Inl (Storage e)
              | Inr (k, _) \<Rightarrow>
                  (case decode_key k of Inl e \<Rightarrow> Inl e | Inr (_, eid) \<Rightarrow> Inr (eid + 1)))"

fun collect_segment_ids ::
  "'k db_api \<Rightarrow> (string + bytes \<times> bytes) list \<Rightarrow> SegmentId list result" where
  "collect_segment_ids D [] = Inr []"
| "collect_segment_ids D (item # items) =
     (case item of
        Inl e \<Rightarrow> Inl (Storage e)
      | Inr (k, v) \<Rightarrow>
          (case bc_de_iv D v of
             Inl e \<Rightarrow> Inl (Serialization e)
           | Inr iv \<Rightarrow>
               (case collect_segment_ids D items of
                  Inl e \<Rightarrow> Inl e | Inr rest \<Rightarrow> Inr (iv_segment_id iv # rest))))"

definition referenced_segment_ids :: "'k db_api \<Rightarrow> FjallIndex \<Rightarrow> 'k \<Rightarrow> SegmentId set result" where
  "referenced_segment_ids D idx ks =
     map_sum id set (collect_segment_ids D (fj_iter D ks (ix_locations idx)))"

text \<open>\<^verbatim>\<open>b[..8]\<close> panics on a stored value shorter than eight bytes; a checkpoint is written by
  \<open>set_checkpoint\<close> only, always with eight.\<close>

definition get_checkpoint :: "'k db_api \<Rightarrow> FjallIndex \<Rightarrow> 'k \<Rightarrow> SegmentId \<Rightarrow> u64 result" where
  "get_checkpoint D idx ks seg =
     (case fj_get D ks (ix_checkpoints idx) (u64_to_be_bytes seg) of
        Inl e \<Rightarrow> Inl (Storage e)
      | Inr None \<Rightarrow> Inr 0
      | Inr (Some b) \<Rightarrow> Inr (u64_from_be_bytes (subrange 0 8 b)))"

definition set_checkpoint ::
  "'k db_api \<Rightarrow> FjallIndex \<Rightarrow> 'k \<Rightarrow> SegmentId \<Rightarrow> u64 \<Rightarrow> unit result \<times> 'k" where
  "set_checkpoint D idx ks seg off =
     (case fj_insert D ks (ix_checkpoints idx) (u64_to_be_bytes seg) (u64_to_be_bytes off) of
        (r, ks') \<Rightarrow> (storage_err r, ks'))"


subsection \<open>Per-ledger durable state\<close>

definition ledger_key :: "u64 \<Rightarrow> bytes" where
  "ledger_key lid = u64_to_be_bytes lid"

definition LedgerState_default :: NodeLedgerState where
  "LedgerState_default = \<lparr> ls_is_fenced = False, ls_master_key = None \<rparr>"

definition get_ledger_state :: "'k db_api \<Rightarrow> FjallIndex \<Rightarrow> 'k \<Rightarrow> u64 \<Rightarrow> NodeLedgerState option result" where
  "get_ledger_state D idx ks lid =
     (case fj_get D ks (ix_ledgers idx) (ledger_key lid) of
        Inl e \<Rightarrow> Inl (Storage e)
      | Inr None \<Rightarrow> Inr None
      | Inr (Some b) \<Rightarrow>
          (case bc_de_ls D b of Inl e \<Rightarrow> Inl (Serialization e) | Inr s \<Rightarrow> Inr (Some s)))"

text \<open>The serialise-and-insert that three operations on the \<^verbatim>\<open>ledgers\<close> partition end with.\<close>

definition put_ledger_state ::
  "'k db_api \<Rightarrow> FjallIndex \<Rightarrow> 'k \<Rightarrow> u64 \<Rightarrow> NodeLedgerState \<Rightarrow> unit result \<times> 'k" where
  "put_ledger_state D idx ks lid st =
     (case bc_ser_ls D st of
        Inl e \<Rightarrow> (Inl (Serialization e), ks)
      | Inr val \<Rightarrow>
          (case fj_insert D ks (ix_ledgers idx) (ledger_key lid) val of
             (r, ks') \<Rightarrow> (storage_err r, ks')))"

definition index_fence_ledger :: "'k db_api \<Rightarrow> FjallIndex \<Rightarrow> 'k \<Rightarrow> u64 \<Rightarrow> unit result \<times> 'k" where
  "index_fence_ledger D idx ks lid =
     (case get_ledger_state D idx ks lid of
        Inl e \<Rightarrow> (Inl e, ks)
      | Inr st \<Rightarrow>
          put_ledger_state D idx ks lid
            ((case st of None \<Rightarrow> LedgerState_default | Some s \<Rightarrow> s)\<lparr> ls_is_fenced := True \<rparr>))"

definition persist :: "'k db_api \<Rightarrow> 'k \<Rightarrow> unit result \<times> 'k" where
  "persist D ks = (case fj_persist D ks of (r, ks') \<Rightarrow> (storage_err r, ks'))"

fun collect_fenced :: "'k db_api \<Rightarrow> (string + bytes \<times> bytes) list \<Rightarrow> u64 list result" where
  "collect_fenced D [] = Inr []"
| "collect_fenced D (item # items) =
     (case item of
        Inl e \<Rightarrow> Inl (Storage e)
      | Inr (k, v) \<Rightarrow>
          (case bc_de_ls D v of
             Inl e \<Rightarrow> Inl (Serialization e)
           | Inr st \<Rightarrow>
               (if ls_is_fenced st then
                  (if length k < 8 then
                     Inl (Storage (''corrupt ledger key: expected 8 bytes, got '' @ show_nat (length k)))
                   else
                     (case collect_fenced D items of
                        Inl e \<Rightarrow> Inl e
                      | Inr rest \<Rightarrow> Inr (u64_from_be_bytes (subrange 0 8 k) # rest)))
                else collect_fenced D items)))"

definition load_fenced_ledgers :: "'k db_api \<Rightarrow> FjallIndex \<Rightarrow> 'k \<Rightarrow> u64 set result" where
  "load_fenced_ledgers D idx ks =
     map_sum id set (collect_fenced D (fj_iter D ks (ix_ledgers idx)))"

fun collect_known :: "(string + bytes \<times> bytes) list \<Rightarrow> u64 list result" where
  "collect_known [] = Inr []"
| "collect_known (item # items) =
     (case item of
        Inl e \<Rightarrow> Inl (Storage e)
      | Inr (k, _) \<Rightarrow>
          (case collect_known items of
             Inl e \<Rightarrow> Inl e
           | Inr rest \<Rightarrow>
               Inr (if length k \<ge> 8 then u64_from_be_bytes (subrange 0 8 k) # rest else rest)))"

definition list_known_ledger_ids :: "'k db_api \<Rightarrow> FjallIndex \<Rightarrow> 'k \<Rightarrow> u64 list result" where
  "list_known_ledger_ids D idx ks = collect_known (fj_iter D ks (ix_ledgers idx))"

definition get_ledger_master_key :: "'k db_api \<Rightarrow> FjallIndex \<Rightarrow> 'k \<Rightarrow> u64 \<Rightarrow> bytes option result" where
  "get_ledger_master_key D idx ks lid =
     (case get_ledger_state D idx ks lid of
        Inl e \<Rightarrow> Inl e
      | Inr None \<Rightarrow> Inr None
      | Inr (Some s) \<Rightarrow> Inr (ls_master_key s))"

text \<open>The dash of the message is one UTF-8 character, written here as its three bytes.\<close>

definition key_mismatch_error :: "u64 \<Rightarrow> FolioError" where
  "key_mismatch_error lid =
     Serialization (''ledger '' @ show_u64 lid @ '': master key mismatch ''
       @ [CHR 0xE2, CHR 0x80, CHR 0x94] @ '' rejecting write'')"

definition ensure_ledger_known ::
  "'k db_api \<Rightarrow> FjallIndex \<Rightarrow> 'k \<Rightarrow> u64 \<Rightarrow> bytes option \<Rightarrow> bool result \<times> 'k" where
  "ensure_ledger_known D idx ks lid master_key =
     (case get_ledger_state D idx ks lid of
        Inl e \<Rightarrow> (Inl e, ks)
      | Inr None \<Rightarrow>
          (case put_ledger_state D idx ks lid
                  \<lparr> ls_is_fenced = False, ls_master_key = master_key \<rparr> of
             (Inl e, ks') \<Rightarrow> (Inl e, ks')
           | (Inr _, ks') \<Rightarrow> (Inr True, ks'))
      | Inr (Some st) \<Rightarrow>
          (case (ls_master_key st, master_key) of
             (None, Some new_key) \<Rightarrow>
               (case put_ledger_state D idx ks lid (st\<lparr> ls_master_key := Some new_key \<rparr>) of
                  (Inl e, ks') \<Rightarrow> (Inl e, ks')
                | (Inr _, ks') \<Rightarrow> (Inr True, ks'))
           | (Some existing, Some new_key) \<Rightarrow>
               if existing \<noteq> new_key then (Inl (key_mismatch_error lid), ks) else (Inr False, ks)
           | _ \<Rightarrow> (Inr False, ks)))"


subsection \<open>The legacy LedgerIndex implementation\<close>

definition fjall_insert :: "'k db_api \<Rightarrow> FjallIndex \<Rightarrow> 'k \<Rightarrow> StoredEntry \<Rightarrow> unit result \<times> 'k" where
  "fjall_insert D idx ks entry =
     (let key = encode_key (e_ledger_id (se_entry entry)) (e_entry_id (se_entry entry))
      in case bc_ser_se D entry of
           Inl e \<Rightarrow> (Inl (Serialization e), ks)
         | Inr val \<Rightarrow>
             (case fj_insert D ks (ix_entries idx) key val of (r, ks') \<Rightarrow> (storage_err r, ks')))"

definition fjall_get :: "'k db_api \<Rightarrow> FjallIndex \<Rightarrow> 'k \<Rightarrow> u64 \<Rightarrow> u64 \<Rightarrow> StoredEntry option result" where
  "fjall_get D idx ks lid eid =
     (case fj_get D ks (ix_entries idx) (encode_key lid eid) of
        Inl e \<Rightarrow> Inl (Storage e)
      | Inr None \<Rightarrow> Inr None
      | Inr (Some b) \<Rightarrow>
          (case bc_de_se D b of Inl e \<Rightarrow> Inl (Serialization e) | Inr v \<Rightarrow> Inr (Some v)))"

fun collect_entries :: "'k db_api \<Rightarrow> (string + bytes \<times> bytes) list \<Rightarrow> StoredEntry list result" where
  "collect_entries D [] = Inr []"
| "collect_entries D (item # items) =
     (case item of
        Inl e \<Rightarrow> Inl (Storage e)
      | Inr (_, v) \<Rightarrow>
          (case bc_de_se D v of
             Inl e \<Rightarrow> Inl (Serialization e)
           | Inr x \<Rightarrow>
               (case collect_entries D items of Inl e \<Rightarrow> Inl e | Inr rest \<Rightarrow> Inr (x # rest))))"

definition fjall_range :: "'k db_api \<Rightarrow> FjallIndex \<Rightarrow> 'k \<Rightarrow> u64 \<Rightarrow> StoredEntry list result" where
  "fjall_range D idx ks lid =
     collect_entries D (fj_range D ks (ix_entries idx) (encode_key lid 0) (encode_key lid (- 1)))"


section \<open>SegmentRegistry\<close>

text \<open>A registry is its partition handle.\<close>

definition SegmentRegistry_from_keyspace :: "'k db_api \<Rightarrow> 'k \<Rightarrow> string \<Rightarrow> string result \<times> 'k" where
  "SegmentRegistry_from_keyspace D ks prefix =
     (case fj_open_partition D ks (prefix @ ''.registry'') of
        (Inl e, ks') \<Rightarrow> (Inl (Storage e), ks')
      | (Inr _, ks') \<Rightarrow> (Inr (prefix @ ''.registry''), ks'))"

definition id_key :: "SegmentId \<Rightarrow> bytes" where
  "id_key i = u64_to_be_bytes i"

definition upsert :: "'k db_api \<Rightarrow> string \<Rightarrow> 'k \<Rightarrow> SegmentMeta \<Rightarrow> unit result \<times> 'k" where
  "upsert D part ks meta =
     (case bc_ser_sm D meta of
        Inl e \<Rightarrow> (Inl (Serialization e), ks)
      | Inr val \<Rightarrow>
          (case fj_insert D ks part (id_key (sm_id meta)) val of (r, ks') \<Rightarrow> (storage_err r, ks')))"

definition registry_get :: "'k db_api \<Rightarrow> string \<Rightarrow> 'k \<Rightarrow> SegmentId \<Rightarrow> SegmentMeta option result" where
  "registry_get D part ks i =
     (case fj_get D ks part (id_key i) of
        Inl e \<Rightarrow> Inl (Storage e)
      | Inr None \<Rightarrow> Inr None
      | Inr (Some b) \<Rightarrow>
          (case bc_de_sm D b of Inl e \<Rightarrow> Inl (Serialization e) | Inr m \<Rightarrow> Inr (Some m)))"

fun collect_status ::
  "'k db_api \<Rightarrow> SegmentStatus \<Rightarrow> (string + bytes \<times> bytes) list \<Rightarrow> SegmentMeta list result" where
  "collect_status D status [] = Inr []"
| "collect_status D status (item # items) =
     (case item of
        Inl e \<Rightarrow> Inl (Storage e)
      | Inr (_, v) \<Rightarrow>
          (case bc_de_sm D v of
             Inl e \<Rightarrow> Inl (Serialization e)
           | Inr m \<Rightarrow>
               (case collect_status D status items of
                  Inl e \<Rightarrow> Inl e
                | Inr rest \<Rightarrow> Inr (if sm_status m = status then m # rest else rest))))"

definition list_by_status :: "'k db_api \<Rightarrow> string \<Rightarrow> 'k \<Rightarrow> SegmentStatus \<Rightarrow> SegmentMeta list result" where
  "list_by_status D part ks status = collect_status D status (fj_iter D ks part)"

definition cas_status ::
  "'k db_api \<Rightarrow> string \<Rightarrow> 'k \<Rightarrow> SegmentId \<Rightarrow> SegmentStatus \<Rightarrow> SegmentStatus \<Rightarrow> bool result \<times> 'k" where
  "cas_status D part ks i expected new =
     (case registry_get D part ks i of
        Inl e \<Rightarrow> (Inl e, ks)
      | Inr None \<Rightarrow> (Inr False, ks)
      | Inr (Some meta) \<Rightarrow>
          (if sm_status meta \<noteq> expected then (Inr False, ks)
           else case upsert D part ks (meta\<lparr> sm_status := new \<rparr>) of
                  (Inl e, ks') \<Rightarrow> (Inl e, ks')
                | (Inr _, ks') \<Rightarrow> (Inr True, ks')))"

definition cas_to_s3 ::
  "'k db_api \<Rightarrow> string \<Rightarrow> 'k \<Rightarrow> SegmentId \<Rightarrow> SegmentStatus \<Rightarrow> string \<Rightarrow> bool result \<times> 'k" where
  "cas_to_s3 D part ks i expected s3_key =
     (case registry_get D part ks i of
        Inl e \<Rightarrow> (Inl e, ks)
      | Inr None \<Rightarrow> (Inr False, ks)
      | Inr (Some meta) \<Rightarrow>
          (if sm_status meta \<noteq> expected then (Inr False, ks)
           else case upsert D part ks
                       (meta\<lparr> sm_status := S3, sm_s3_key := Some s3_key, sm_local_path := None \<rparr>) of
                  (Inl e, ks') \<Rightarrow> (Inl e, ks')
                | (Inr _, ks') \<Rightarrow> (Inr True, ks')))"

fun max_of_items :: "SegmentId option \<Rightarrow> (string + bytes \<times> bytes) list \<Rightarrow> SegmentId option result" where
  "max_of_items m [] = Inr m"
| "max_of_items m (item # items) =
     (case item of
        Inl e \<Rightarrow> Inl (Storage e)
      | Inr (k, _) \<Rightarrow>
          max_of_items
            (if length k = 8
             then (let i = u64_from_be_bytes k
                   in Some (case m of None \<Rightarrow> i | Some x \<Rightarrow> max x i))
             else m)
            items)"

definition max_id :: "'k db_api \<Rightarrow> string \<Rightarrow> 'k \<Rightarrow> SegmentId option result" where
  "max_id D part ks = max_of_items None (fj_iter D ks part)"


section \<open>FolioDb\<close>

record FolioDb =
  db_wal_index :: FjallIndex
  db_entry_index :: FjallIndex
  db_wal_registry :: string
  db_entry_registry :: string

text \<open>Opening the keyspace itself is a call of the store: its outcome is an argument.\<close>

definition FolioDb_open :: "'k db_api \<Rightarrow> (string + 'k) \<Rightarrow> (FolioDb \<times> 'k) result" where
  "FolioDb_open D opened =
     (case opened of
        Inl e \<Rightarrow> Inl (Storage e)
      | Inr ks \<Rightarrow>
          (case FjallIndex_from_keyspace D ks ''wal'' of
             (Inl e, _) \<Rightarrow> Inl e
           | (Inr wi, ks1) \<Rightarrow>
               (case FjallIndex_from_keyspace D ks1 ''entry'' of
                  (Inl e, _) \<Rightarrow> Inl e
                | (Inr ei, ks2) \<Rightarrow>
                    (case SegmentRegistry_from_keyspace D ks2 ''wal'' of
                       (Inl e, _) \<Rightarrow> Inl e
                     | (Inr wr, ks3) \<Rightarrow>
                         (case SegmentRegistry_from_keyspace D ks3 ''entry'' of
                            (Inl e, _) \<Rightarrow> Inl e
                          | (Inr er, ks4) \<Rightarrow>
                              Inr (\<lparr> db_wal_index = wi, db_entry_index = ei, db_wal_registry = wr,
                                     db_entry_registry = er \<rparr>, ks4))))))"

section \<open>What the code relies on\<close>

lemma encode_key_length [simp]: "length (encode_key lid eid) = 16"
  by (simp add: encode_key_def)

lemma encode_key_inject [simp]: "encode_key l e = encode_key l' e' \<longleftrightarrow> l = l' \<and> e = e'"
  by (simp add: encode_key_def)

lemma decode_encode_key [simp]: "decode_key (encode_key l e) = Inr (l, e)"
  by (simp add: decode_key_def encode_key_def subrange_def)

lemma encode_decode_key: "decode_key k = Inr (l, e) \<Longrightarrow> length k = 16 \<Longrightarrow> encode_key l e = k"
  using take_subrange_join[of 8 16 k]
  by (auto simp: decode_key_def encode_key_def u64_to_from_be_bytes split: if_splits)

lemma encode_key_le: "encode_key l e \<le> encode_key l' e' \<longleftrightarrow> l < l' \<or> l = l' \<and> e \<le> e'"
  by (auto simp: encode_key_def append_less_append simp flip: linorder_not_less)

lemma encode_key_less: "encode_key l e < encode_key l' e' \<longleftrightarrow> l < l' \<or> l = l' \<and> e < e'"
  by (auto simp: encode_key_def append_less_append)

lemma encode_key_in_range:
  "encode_key l' e \<in> {encode_key l 0..encode_key l (- 1)} \<longleftrightarrow> l' = l"
  by (auto simp: encode_key_le)

lemma storage_err_simps [simp]: "storage_err (Inl e) = Inl (Storage e)" "storage_err (Inr x) = Inr x"
  by (simp_all add: storage_err_def)

lemma storage_err_Inr_iff: "storage_err r = Inr x \<longleftrightarrow> r = Inr x"
  by (cases r) simp_all

text \<open>
  The laws of the key-value store and of the serialiser, over the contents \<open>kv\<close> of each
  partition. An operation that reports an error leaves the contents as they were; a
  complete iteration enumerates the contents in key order; the last item of a range is
  its greatest key; deserialising what was serialised gives the value back.
\<close>

locale db_laws =
  fixes D :: "'k db_api" and kv :: "'k \<Rightarrow> string \<Rightarrow> bytes \<Rightarrow> bytes option"
  assumes law_get: "fj_get D ks p k = Inr v \<Longrightarrow> v = kv ks p k"
    and law_insert: "fj_insert D ks p k b = (Inr (), ks') \<Longrightarrow> kv ks' = (kv ks)(p := (kv ks p)(k \<mapsto> b))"
    and law_insert_err: "fj_insert D ks p k b = (Inl e, ks') \<Longrightarrow> kv ks' = kv ks"
    and law_remove: "fj_remove D ks p k = (Inr (), ks') \<Longrightarrow> kv ks' = (kv ks)(p := (kv ks p)(k := None))"
    and law_remove_err: "fj_remove D ks p k = (Inl e, ks') \<Longrightarrow> kv ks' = kv ks"
    and law_iter: "fj_iter D ks p = map Inr xs \<Longrightarrow>
      sorted_wrt (<) (map fst xs) \<and> map_of xs = kv ks p"
    and law_range: "fj_range D ks p lo hi = map Inr xs \<Longrightarrow>
      sorted_wrt (<) (map fst xs) \<and> map_of xs = kv ks p |` {lo..hi}"
    and law_range_empty: "fj_range D ks p lo hi = [] \<Longrightarrow> k \<in> {lo..hi} \<Longrightarrow> kv ks p k = None"
    and law_range_last: "fj_range D ks p lo hi = items @ [Inr (k, b)] \<Longrightarrow>
      kv ks p k = Some b \<and> k \<in> {lo..hi} \<and> (\<forall>k' \<in> {lo..hi}. kv ks p k' \<noteq> None \<longrightarrow> k' \<le> k)"
    and law_persist: "fj_persist D ks = (r, ks') \<Longrightarrow> kv ks' = kv ks"
    and law_open: "fj_open_partition D ks p = (r, ks') \<Longrightarrow> kv ks' = kv ks"
    and law_iv: "bc_ser_iv D x = Inr b \<Longrightarrow> bc_de_iv D b = Inr x"
    and law_ls: "bc_ser_ls D y = Inr b \<Longrightarrow> bc_de_ls D b = Inr y"
    and law_sm: "bc_ser_sm D m = Inr b \<Longrightarrow> bc_de_sm D b = Inr m"
    and law_se: "bc_ser_se D s = Inr b \<Longrightarrow> bc_de_se D b = Inr s"

text \<open>The contents of a partition read as a finite map, through a key and a value codec.\<close>

definition abs_map :: "('a \<Rightarrow> bytes) \<Rightarrow> (bytes \<Rightarrow> string + 'v) \<Rightarrow> (bytes \<Rightarrow> bytes option) \<Rightarrow> 'a \<Rightarrow> 'v option" where
  "abs_map enc de m a =
     (case m (enc a) of None \<Rightarrow> None | Some b \<Rightarrow> (case de b of Inl _ \<Rightarrow> None | Inr v \<Rightarrow> Some v))"

text \<open>Every key of the partition is the code of an identifier and every value deserialises.\<close>

definition part_wf :: "('a \<Rightarrow> bytes) \<Rightarrow> (bytes \<Rightarrow> string + 'v) \<Rightarrow> (bytes \<Rightarrow> bytes option) \<Rightarrow> bool" where
  "part_wf enc de m \<longleftrightarrow> (\<forall>k b. m k = Some b \<longrightarrow> k \<in> range enc \<and> \<not> isl (de b))"

lemma abs_map_upd:
  "inj enc \<Longrightarrow> de b = Inr v \<Longrightarrow> abs_map enc de (m(enc a \<mapsto> b)) = (abs_map enc de m)(a \<mapsto> v)"
  by (auto simp: abs_map_def fun_eq_iff inj_eq)

lemma abs_map_del: "inj enc \<Longrightarrow> abs_map enc de (m(enc a := None)) = (abs_map enc de m)(a := None)"
  by (auto simp: abs_map_def fun_eq_iff inj_eq)

lemma part_wf_upd: "part_wf enc de m \<Longrightarrow> de b = Inr v \<Longrightarrow> part_wf enc de (m(enc a \<mapsto> b))"
  by (auto simp: part_wf_def)

lemma part_wf_del: "part_wf enc de m \<Longrightarrow> part_wf enc de (m(k := None))"
  by (auto simp: part_wf_def)

lemma part_wf_empty [simp]: "part_wf enc de (\<lambda>_. None)"
  by (simp add: part_wf_def)

lemma part_wf_get: "part_wf enc de m \<Longrightarrow> m k = Some b \<Longrightarrow>
  \<exists>a v. k = enc a \<and> de b = Inr v \<and> abs_map enc de m a = Some v"
  unfolding part_wf_def abs_map_def by (cases "de b") fastforce+

text \<open>The three partitions of interest: locations, ledger states, segment descriptors.\<close>

abbreviation pair_key :: "u64 \<times> u64 \<Rightarrow> bytes" where
  "pair_key \<equiv> \<lambda>(l, e). encode_key l e"

definition loc_map :: "'k db_api \<Rightarrow> (bytes \<Rightarrow> bytes option) \<Rightarrow> u64 \<times> u64 \<Rightarrow> IndexValue option" where
  "loc_map D = abs_map pair_key (bc_de_iv D)"

definition loc_wf :: "'k db_api \<Rightarrow> (bytes \<Rightarrow> bytes option) \<Rightarrow> bool" where
  "loc_wf D = part_wf pair_key (bc_de_iv D)"

definition state_map :: "'k db_api \<Rightarrow> (bytes \<Rightarrow> bytes option) \<Rightarrow> u64 \<Rightarrow> NodeLedgerState option" where
  "state_map D = abs_map ledger_key (bc_de_ls D)"

definition state_wf :: "'k db_api \<Rightarrow> (bytes \<Rightarrow> bytes option) \<Rightarrow> bool" where
  "state_wf D = part_wf ledger_key (bc_de_ls D)"

definition seg_map :: "'k db_api \<Rightarrow> (bytes \<Rightarrow> bytes option) \<Rightarrow> SegmentId \<Rightarrow> SegmentMeta option" where
  "seg_map D = abs_map id_key (bc_de_sm D)"

definition seg_wf :: "'k db_api \<Rightarrow> (bytes \<Rightarrow> bytes option) \<Rightarrow> bool" where
  "seg_wf D m \<longleftrightarrow> part_wf id_key (bc_de_sm D) m \<and> (\<forall>i meta. seg_map D m i = Some meta \<longrightarrow> sm_id meta = i)"

lemma inj_pair_key [simp]: "inj pair_key"
  by (auto simp: inj_def)

lemma inj_ledger_key [simp]: "inj ledger_key"
  by (auto simp: inj_def ledger_key_def)

lemma inj_id_key [simp]: "inj id_key"
  by (auto simp: inj_def id_key_def)

lemma pair_key_eq: "encode_key l e = pair_key (l, e)"
  by simp

section \<open>Correctness of the index and the registry\<close>

lemma tail_keys_items: "tail_keys D seg off items = Inr r \<Longrightarrow> \<exists>xs. items = map Inr xs"
  by (induction items arbitrary: r)
     (auto split: sum.splits prod.splits if_splits intro: exI[of _ "_ # _"])

lemma collect_locations_items: "collect_locations D items = Inr r \<Longrightarrow> \<exists>xs. items = map Inr xs"
  by (induction items arbitrary: r)
     (auto split: sum.splits prod.splits if_splits intro: exI[of _ "_ # _"])

lemma collect_segment_ids_items: "collect_segment_ids D items = Inr r \<Longrightarrow> \<exists>xs. items = map Inr xs"
  by (induction items arbitrary: r)
     (auto split: sum.splits prod.splits if_splits intro: exI[of _ "_ # _"])

lemma collect_fenced_items: "collect_fenced D items = Inr r \<Longrightarrow> \<exists>xs. items = map Inr xs"
  by (induction items arbitrary: r)
     (auto split: sum.splits prod.splits if_splits intro: exI[of _ "_ # _"])

lemma collect_status_items: "collect_status D st items = Inr r \<Longrightarrow> \<exists>xs. items = map Inr xs"
  by (induction items arbitrary: r)
     (auto split: sum.splits prod.splits if_splits intro: exI[of _ "_ # _"])

lemma max_of_items_items: "max_of_items m items = Inr r \<Longrightarrow> \<exists>xs. items = map Inr xs"
proof (induction items arbitrary: m)
  case (Cons item items)
  then obtain k b m' where "item = Inr (k, b)" and "max_of_items m' items = Inr r"
    by (auto split: sum.splits prod.splits)
  moreover from this(2) obtain xs where "items = map Inr xs" using Cons.IH by blast
  ultimately show ?case by (auto intro: exI[of _ "(k, b) # xs"])
qed simp

lemma tail_keys_set:
  "tail_keys D seg off (map Inr xs) = Inr r \<Longrightarrow>
   set r = {key. \<exists>k b iv. (k, b) \<in> set xs \<and> bc_de_iv D b = Inr iv \<and> iv_segment_id iv = seg
              \<and> iv_offset iv \<ge> off \<and> decode_key k = Inr key}"
proof (induction xs arbitrary: r)
  case (Cons x xs)
  obtain k b where x: "x = (k, b)" by force
  from Cons.prems obtain iv where iv: "bc_de_iv D b = Inr iv"
    by (auto simp: x split: sum.splits)
  show ?case
  proof (cases "iv_segment_id iv = seg \<and> iv_offset iv \<ge> off")
    case True
    with Cons.prems iv obtain key rest where "decode_key k = Inr key"
      and "tail_keys D seg off (map Inr xs) = Inr rest" and "r = key # rest"
      by (auto simp: x split: sum.splits)
    with Cons.IH[of rest] True iv show ?thesis by (auto simp: x)
  next
    case False
    with Cons.prems iv have "tail_keys D seg off (map Inr xs) = Inr r"
      by (auto simp: x)
    with Cons.IH[of r] False iv show ?thesis by (auto simp: x)
  qed
qed simp

lemma collect_segment_ids_set:
  "collect_segment_ids D (map Inr xs) = Inr r \<Longrightarrow>
   set r = {iv_segment_id iv | k b iv. (k, b) \<in> set xs \<and> bc_de_iv D b = Inr iv}"
proof (induction xs arbitrary: r)
  case (Cons x xs)
  then obtain k b iv rest where "x = (k, b)" and "bc_de_iv D b = Inr iv"
    and "collect_segment_ids D (map Inr xs) = Inr rest" and "r = iv_segment_id iv # rest"
    by (cases x) (auto split: sum.splits)
  with Cons.IH[of rest] show ?case by auto
qed simp

lemma collect_fenced_set:
  "collect_fenced D (map Inr xs) = Inr r \<Longrightarrow>
   set r = {u64_from_be_bytes (subrange 0 8 k) | k b st. (k, b) \<in> set xs \<and> bc_de_ls D b = Inr st \<and> ls_is_fenced st}"
proof (induction xs arbitrary: r)
  case (Cons x xs)
  then obtain k b st where x: "x = (k, b)" and st: "bc_de_ls D b = Inr st"
    by (cases x) (auto split: sum.splits)
  show ?case
  proof (cases "ls_is_fenced st")
    case True
    with Cons.prems x st obtain rest where "collect_fenced D (map Inr xs) = Inr rest"
      and "r = u64_from_be_bytes (subrange 0 8 k) # rest"
      by (auto split: sum.splits if_splits)
    with Cons.IH[of rest] True x st show ?thesis by auto
  next
    case False
    with Cons.prems x st have "collect_fenced D (map Inr xs) = Inr r" by auto
    with Cons.IH[of r] False x st show ?thesis by auto
  qed
qed simp

lemma collect_status_set:
  "collect_status D status (map Inr xs) = Inr r \<Longrightarrow>
   set r = {m. \<exists>k b. (k, b) \<in> set xs \<and> bc_de_sm D b = Inr m \<and> sm_status m = status}"
proof (induction xs arbitrary: r)
  case (Cons x xs)
  then obtain k b m rest where "x = (k, b)" and "bc_de_sm D b = Inr m"
    and "collect_status D status (map Inr xs) = Inr rest"
    and "r = (if sm_status m = status then m # rest else rest)"
    by (cases x) (auto split: sum.splits)
  with Cons.IH[of rest] show ?case by auto
qed simp

lemma collect_locations_eq:
  "collect_locations D (map Inr xs) = Inr r \<Longrightarrow>
   length r = length xs \<and> (\<forall>i < length xs. \<exists>l. decode_key (fst (xs ! i)) = Inr (l, fst (r ! i))
     \<and> bc_de_iv D (snd (xs ! i)) = Inr (snd (r ! i)))"
proof (induction xs arbitrary: r)
  case (Cons x xs)
  then obtain k b l e iv rest where "x = (k, b)" and "bc_de_iv D b = Inr iv"
    and "collect_locations D (map Inr xs) = Inr rest" and "r = (e, iv) # rest"
    and "decode_key k = Inr (l, e)"
    by (cases x) (auto split: sum.splits prod.splits)
  with Cons.IH[of rest] show ?case by (auto simp: less_Suc_eq_0_disj)
qed simp

text \<open>The running maximum; \<open>the_max\<close> is its value on a list of identifiers.\<close>

lemma max_of_items_spec:
  assumes "max_of_items m (map Inr xs) = Inr r" and "\<forall>(k, b) \<in> set xs. length k = 8"
  shows "r = fold (\<lambda>(k, b) m. let i = u64_from_be_bytes k in
                Some (case m of None \<Rightarrow> i | Some x \<Rightarrow> max x i)) xs m"
  using assms by (induction xs arbitrary: m) auto

lemma fold_max_bound:
  fixes f :: "'x \<Rightarrow> 'a :: linorder"
  defines "g \<equiv> \<lambda>x m. Some (case m of None \<Rightarrow> f x | Some y \<Rightarrow> max y (f x))"
  shows "fold g xs m = (if xs = [] then m else
           Some (Max (set (map f xs) \<union> (case m of None \<Rightarrow> {} | Some y \<Rightarrow> {y}))))"
proof (induction xs arbitrary: m)
  case (Cons x xs)
  show ?case
    unfolding fold_simps comp_def Cons.IH
    by (cases m; cases "xs = []") (auto simp: g_def insert_commute max_def Max_insert
        intro!: Max_eqI[symmetric] dest: Max_ge)
qed simp

context db_laws
begin

lemma iter_mem: "fj_iter D ks p = map Inr xs \<Longrightarrow> (k, b) \<in> set xs \<longleftrightarrow> kv ks p k = Some b"
proof -
  assume "fj_iter D ks p = map Inr xs"
  then have s: "sorted_wrt (<) (map fst xs)" and m: "map_of xs = kv ks p"
    using law_iter by blast+
  from s have "distinct (map fst xs)"
    by (metis strict_sorted_iff)
  then show ?thesis unfolding m[symmetric] by simp
qed

text \<open>Insertion into any partition with a deserialisable value.\<close>

lemma insert_abs:
  assumes "fj_insert D ks p (enc a) b = (Inr (), ks')" and "inj enc" and "de b = Inr v"
  shows "abs_map enc de (kv ks' p) = (abs_map enc de (kv ks p))(a \<mapsto> v)"
    and "q \<noteq> p \<Longrightarrow> kv ks' q = kv ks q"
    and "part_wf enc de (kv ks p) \<Longrightarrow> part_wf enc de (kv ks' p)"
  using law_insert[OF assms(1)] assms(2,3) by (simp_all add: abs_map_upd part_wf_upd)

subsection \<open>Locations\<close>

lemma insert_location_ok:
  assumes "insert_location D idx ks l e seg off len = (Inr u, ks')"
  shows "loc_map D (kv ks' (ix_locations idx))
      = (loc_map D (kv ks (ix_locations idx)))((l, e) \<mapsto> \<lparr> iv_segment_id = seg, iv_offset = off, iv_length = len \<rparr>)"
    and "q \<noteq> ix_locations idx \<Longrightarrow> kv ks' q = kv ks q"
    and "loc_wf D (kv ks (ix_locations idx)) \<Longrightarrow> loc_wf D (kv ks' (ix_locations idx))"
proof -
  from assms obtain b where b: "bc_ser_iv D \<lparr> iv_segment_id = seg, iv_offset = off, iv_length = len \<rparr> = Inr b"
    and i: "fj_insert D ks (ix_locations idx) (pair_key (l, e)) b = (Inr (), ks')"
    by (auto simp: insert_location_def storage_err_Inr_iff split: sum.splits prod.splits)
  note ins = insert_abs[where enc = pair_key and de = "bc_de_iv D", OF i inj_pair_key law_iv[OF b]]
  from ins(1) show "loc_map D (kv ks' (ix_locations idx))
      = (loc_map D (kv ks (ix_locations idx)))((l, e) \<mapsto> \<lparr> iv_segment_id = seg, iv_offset = off, iv_length = len \<rparr>)"
    by (simp add: loc_map_def)
  from ins(2) show "q \<noteq> ix_locations idx \<Longrightarrow> kv ks' q = kv ks q" .
  from ins(3) show "loc_wf D (kv ks (ix_locations idx)) \<Longrightarrow> loc_wf D (kv ks' (ix_locations idx))"
    by (simp add: loc_wf_def)
qed

lemma insert_location_err:
  "insert_location D idx ks l e seg off len = (Inl err, ks') \<Longrightarrow> kv ks' = kv ks"
  by (auto simp: insert_location_def storage_err_def map_sum_def dest: law_insert_err split: sum.splits prod.splits)

lemma get_location_ok:
  "get_location D idx ks l e = Inr r \<Longrightarrow> r = loc_map D (kv ks (ix_locations idx)) (l, e)"
  by (auto simp: get_location_def loc_map_def abs_map_def dest!: law_get[symmetric] split: sum.splits option.splits)

lemma delete_location_ok:
  assumes "delete_location D idx ks l e = (Inr u, ks')"
  shows "loc_map D (kv ks' (ix_locations idx)) = (loc_map D (kv ks (ix_locations idx)))((l, e) := None)"
    and "q \<noteq> ix_locations idx \<Longrightarrow> kv ks' q = kv ks q"
    and "loc_wf D (kv ks (ix_locations idx)) \<Longrightarrow> loc_wf D (kv ks' (ix_locations idx))"
proof -
  from assms have r: "fj_remove D ks (ix_locations idx) (pair_key (l, e)) = (Inr (), ks')"
    by (auto simp: delete_location_def storage_err_Inr_iff split: prod.splits)
  note law_remove[OF r]
  then show "loc_map D (kv ks' (ix_locations idx)) = (loc_map D (kv ks (ix_locations idx)))((l, e) := None)"
    and "q \<noteq> ix_locations idx \<Longrightarrow> kv ks' q = kv ks q"
    and "loc_wf D (kv ks (ix_locations idx)) \<Longrightarrow> loc_wf D (kv ks' (ix_locations idx))"
    by (simp_all only: loc_map_def loc_wf_def fun_upd_apply if_True if_False simp_thms part_wf_del
        abs_map_del[OF inj_pair_key])
qed

lemma delete_location_err: "delete_location D idx ks l e = (Inl err, ks') \<Longrightarrow> kv ks' = kv ks"
  by (auto simp: delete_location_def storage_err_def map_sum_def dest: law_remove_err split: sum.splits prod.splits)

lemma delete_all_ok:
  assumes "delete_all D idx ks keys = (Inr u, ks')"
  shows "loc_map D (kv ks' (ix_locations idx))
      = (\<lambda>x. if x \<in> set keys then None else loc_map D (kv ks (ix_locations idx)) x)"
    and "q \<noteq> ix_locations idx \<Longrightarrow> kv ks' q = kv ks q"
    and "loc_wf D (kv ks (ix_locations idx)) \<Longrightarrow> loc_wf D (kv ks' (ix_locations idx))"
  using assms
proof (induction keys arbitrary: ks)
  case (Cons key keys)
  case 1
  obtain l e where key: "key = (l, e)" by force
  with 1 obtain ks1 where "delete_location D idx ks l e = (Inr (), ks1)"
    and "delete_all D idx ks1 keys = (Inr u, ks')"
    by (auto split: prod.splits sum.splits)
  with Cons.IH(1)[of ks1] delete_location_ok(1)[of idx ks l e "()" ks1] key show ?case by auto
next
  case (Cons key keys)
  case 2
  obtain l e where key: "key = (l, e)" by force
  with 2 obtain ks1 where "delete_location D idx ks l e = (Inr (), ks1)"
    and "delete_all D idx ks1 keys = (Inr u, ks')"
    by (auto split: prod.splits sum.splits)
  with Cons.IH(2)[of ks1] delete_location_ok(2)[of idx ks l e "()" ks1] 2 show ?case by auto
next
  case (Cons key keys)
  case 3
  obtain l e where key: "key = (l, e)" by force
  with 3 obtain ks1 where "delete_location D idx ks l e = (Inr (), ks1)"
    and "delete_all D idx ks1 keys = (Inr u, ks')"
    by (auto split: prod.splits sum.splits)
  with Cons.IH(3)[of ks1] delete_location_ok(3)[of idx ks l e "()" ks1] 3 show ?case by auto
qed auto

lemma loc_wf_mem:
  assumes "loc_wf D m" and "m k = Some b"
  shows "\<exists>l e iv. k = encode_key l e \<and> bc_de_iv D b = Inr iv \<and> loc_map D m (l, e) = Some iv"
  using part_wf_get[of pair_key "bc_de_iv D" m k b] assms by (auto simp: loc_wf_def loc_map_def)

lemma loc_map_Some: "loc_map D m (l, e) = Some iv \<longleftrightarrow> (\<exists>b. m (encode_key l e) = Some b \<and> bc_de_iv D b = Inr iv)"
  by (auto simp: loc_map_def abs_map_def split: option.splits sum.splits)

lemma delete_tail_ok:
  assumes "delete_locations_in_segment_tail D idx ks seg off = (Inr keys, ks')"
    and wf: "loc_wf D (kv ks (ix_locations idx))"
  defines "m \<equiv> loc_map D (kv ks (ix_locations idx))"
  shows "set keys = {x. \<exists>iv. m x = Some iv \<and> iv_segment_id iv = seg \<and> iv_offset iv \<ge> off}"
    and "loc_map D (kv ks' (ix_locations idx)) = (\<lambda>x. if x \<in> set keys then None else m x)"
    and "q \<noteq> ix_locations idx \<Longrightarrow> kv ks' q = kv ks q"
    and "loc_wf D (kv ks' (ix_locations idx))"
proof -
  from assms(1) have t: "tail_keys D seg off (fj_iter D ks (ix_locations idx)) = Inr keys"
    and d: "delete_all D idx ks keys = (Inr (), ks')"
    by (auto simp: delete_locations_in_segment_tail_def split: sum.splits prod.splits)
  from tail_keys_items[OF t] obtain xs where xs: "fj_iter D ks (ix_locations idx) = map Inr xs" by blast
  have s: "set keys = {key. \<exists>k b iv. kv ks (ix_locations idx) k = Some b \<and> bc_de_iv D b = Inr iv
      \<and> iv_segment_id iv = seg \<and> iv_offset iv \<ge> off \<and> decode_key k = Inr key}"
    using tail_keys_set[OF t[unfolded xs]] iter_mem[OF xs] by simp
  show "set keys = {x. \<exists>iv. m x = Some iv \<and> iv_segment_id iv = seg \<and> iv_offset iv \<ge> off}" (is "_ = ?T")
  proof (intro set_eqI iffI)
    fix x assume "x \<in> set keys"
    then obtain k b iv where *: "kv ks (ix_locations idx) k = Some b" "bc_de_iv D b = Inr iv"
      "iv_segment_id iv = seg" "iv_offset iv \<ge> off" "decode_key k = Inr x" unfolding s by blast
    from loc_wf_mem[OF wf *(1)] * show "x \<in> ?T" by (auto simp: m_def)
  next
    fix x assume "x \<in> ?T"
    then show "x \<in> set keys" unfolding s m_def by (cases x) (force simp: loc_map_Some)
  qed
  show "loc_map D (kv ks' (ix_locations idx)) = (\<lambda>x. if x \<in> set keys then None else m x)"
    unfolding m_def by (rule delete_all_ok(1)[OF d])
  show "q \<noteq> ix_locations idx \<Longrightarrow> kv ks' q = kv ks q" by (rule delete_all_ok(2)[OF d])
  show "loc_wf D (kv ks' (ix_locations idx))" by (rule delete_all_ok(3)[OF d wf])
qed

lemma next_entry_id_ok:
  assumes "get_next_entry_id D idx ks l = Inr n" and wf: "loc_wf D (kv ks (ix_locations idx))"
  defines "m \<equiv> loc_map D (kv ks (ix_locations idx))"
  shows "(\<forall>e. m (l, e) = None) \<and> n = 0
    \<or> (\<exists>e. m (l, e) \<noteq> None \<and> (\<forall>e'. m (l, e') \<noteq> None \<longrightarrow> e' \<le> e) \<and> n = e + 1)"
proof -
  let ?R = "fj_range D ks (ix_locations idx) (encode_key l 0) (encode_key l (- 1))"
  show ?thesis
  proof (cases "?R = []")
    case True
    with assms(1) have "n = 0" by (simp add: get_next_entry_id_def)
    moreover have "m (l, e) = None" for e
      using law_range_empty[OF True encode_key_in_range[THEN iffD2, OF refl], of e]
      by (simp add: m_def loc_map_def abs_map_def)
    ultimately show ?thesis by simp
  next
    case False
    with assms(1) obtain items k b l' e where R: "?R = items @ [Inr (k, b)]"
      and k: "decode_key k = Inr (l', e)" and n: "n = e + 1"
      by (cases ?R rule: rev_cases) (auto simp: get_next_entry_id_def split: sum.splits prod.splits)
    note last = law_range_last[OF R]
    then obtain iv where "k = encode_key l' e" "m (l', e) = Some iv"
      using loc_wf_mem[OF wf] k by (fastforce simp: m_def)
    moreover from last this have "l' = l" using encode_key_in_range by metis
    moreover have "e' \<le> e" if "m (l, e') \<noteq> None" for e'
    proof -
      from that obtain b' where "kv ks (ix_locations idx) (encode_key l e') = Some b'"
        by (auto simp: m_def loc_map_Some)
      with last have "encode_key l e' \<le> k" by (simp add: encode_key_le)
      with \<open>k = encode_key l' e\<close> \<open>l' = l\<close> show ?thesis by (simp add: encode_key_le)
    qed
    ultimately show ?thesis using n by blast
  qed
qed

lemma referenced_ok:
  assumes "referenced_segment_ids D idx ks = Inr S" and wf: "loc_wf D (kv ks (ix_locations idx))"
  shows "S = {iv_segment_id iv | x iv. loc_map D (kv ks (ix_locations idx)) x = Some iv}"
proof -
  from assms(1) obtain r where r: "collect_segment_ids D (fj_iter D ks (ix_locations idx)) = Inr r"
    and S: "S = set r"
    by (cases "collect_segment_ids D (fj_iter D ks (ix_locations idx))") (auto simp: referenced_segment_ids_def)
  from collect_segment_ids_items[OF r] obtain xs where xs: "fj_iter D ks (ix_locations idx) = map Inr xs" by blast
  have "S = {iv_segment_id iv | k b iv. kv ks (ix_locations idx) k = Some b \<and> bc_de_iv D b = Inr iv}"
    using collect_segment_ids_set[OF r[unfolded xs]] iter_mem[OF xs] S by simp
  also have "\<dots> = {iv_segment_id iv | x iv. loc_map D (kv ks (ix_locations idx)) x = Some iv}"
    using loc_wf_mem[OF wf] by (fastforce simp: loc_map_Some)
  finally show ?thesis .
qed

subsection \<open>Ledger states\<close>

lemma get_ledger_state_ok:
  "get_ledger_state D idx ks l = Inr r \<Longrightarrow> r = state_map D (kv ks (ix_ledgers idx)) l"
  by (auto simp: get_ledger_state_def state_map_def abs_map_def dest!: law_get[symmetric]
      split: sum.splits option.splits)

lemma put_ledger_state_ok:
  assumes "put_ledger_state D idx ks l st = (Inr u, ks')"
  shows "state_map D (kv ks' (ix_ledgers idx)) = (state_map D (kv ks (ix_ledgers idx)))(l \<mapsto> st)"
    and "q \<noteq> ix_ledgers idx \<Longrightarrow> kv ks' q = kv ks q"
    and "state_wf D (kv ks (ix_ledgers idx)) \<Longrightarrow> state_wf D (kv ks' (ix_ledgers idx))"
proof -
  from assms obtain b where b: "bc_ser_ls D st = Inr b"
    and i: "fj_insert D ks (ix_ledgers idx) (ledger_key l) b = (Inr (), ks')"
    by (auto simp: put_ledger_state_def storage_err_Inr_iff split: sum.splits prod.splits)
  note ins = insert_abs[where enc = ledger_key and de = "bc_de_ls D", OF i inj_ledger_key law_ls[OF b]]
  from ins(1) show "state_map D (kv ks' (ix_ledgers idx)) = (state_map D (kv ks (ix_ledgers idx)))(l \<mapsto> st)"
    by (simp add: state_map_def)
  from ins(2) show "q \<noteq> ix_ledgers idx \<Longrightarrow> kv ks' q = kv ks q" .
  from ins(3) show "state_wf D (kv ks (ix_ledgers idx)) \<Longrightarrow> state_wf D (kv ks' (ix_ledgers idx))"
    by (simp add: state_wf_def)
qed

lemma put_ledger_state_err: "put_ledger_state D idx ks l st = (Inl err, ks') \<Longrightarrow> kv ks' = kv ks"
  by (auto simp: put_ledger_state_def storage_err_def map_sum_def dest: law_insert_err split: sum.splits prod.splits)

lemma index_fence_ok:
  assumes "index_fence_ledger D idx ks l = (Inr u, ks')"
  defines "m \<equiv> state_map D (kv ks (ix_ledgers idx))"
  shows "state_map D (kv ks' (ix_ledgers idx))
      = m(l \<mapsto> (case m l of None \<Rightarrow> LedgerState_default | Some s \<Rightarrow> s)\<lparr> ls_is_fenced := True \<rparr>)"
    and "q \<noteq> ix_ledgers idx \<Longrightarrow> kv ks' q = kv ks q"
    and "state_wf D (kv ks (ix_ledgers idx)) \<Longrightarrow> state_wf D (kv ks' (ix_ledgers idx))"
proof -
  from assms(1) obtain st where g: "get_ledger_state D idx ks l = Inr st"
    and p: "put_ledger_state D idx ks l
        ((case st of None \<Rightarrow> LedgerState_default | Some s \<Rightarrow> s)\<lparr> ls_is_fenced := True \<rparr>) = (Inr u, ks')"
    by (auto simp: index_fence_ledger_def split: sum.splits)
  note pp = put_ledger_state_ok[OF p]
  show "state_map D (kv ks' (ix_ledgers idx))
      = m(l \<mapsto> (case m l of None \<Rightarrow> LedgerState_default | Some s \<Rightarrow> s)\<lparr> ls_is_fenced := True \<rparr>)"
    using pp(1) get_ledger_state_ok[OF g] by (simp add: m_def)
  show "q \<noteq> ix_ledgers idx \<Longrightarrow> kv ks' q = kv ks q" by (rule pp(2))
  show "state_wf D (kv ks (ix_ledgers idx)) \<Longrightarrow> state_wf D (kv ks' (ix_ledgers idx))" by (rule pp(3))
qed

lemma index_fence_err: "index_fence_ledger D idx ks l = (Inl err, ks') \<Longrightarrow> kv ks' = kv ks"
  by (auto simp: index_fence_ledger_def dest: put_ledger_state_err split: sum.splits)

lemma load_fenced_ok:
  assumes "load_fenced_ledgers D idx ks = Inr S" and wf: "state_wf D (kv ks (ix_ledgers idx))"
  shows "S = {l. \<exists>st. state_map D (kv ks (ix_ledgers idx)) l = Some st \<and> ls_is_fenced st}"
proof -
  let ?m = "kv ks (ix_ledgers idx)"
  from assms(1) obtain r where r: "collect_fenced D (fj_iter D ks (ix_ledgers idx)) = Inr r" and S: "S = set r"
    by (cases "collect_fenced D (fj_iter D ks (ix_ledgers idx))") (auto simp: load_fenced_ledgers_def)
  from collect_fenced_items[OF r] obtain xs where xs: "fj_iter D ks (ix_ledgers idx) = map Inr xs" by blast
  have S': "S = {u64_from_be_bytes (subrange 0 8 k) | k b st. ?m k = Some b \<and> bc_de_ls D b = Inr st \<and> ls_is_fenced st}"
    using collect_fenced_set[OF r[unfolded xs]] iter_mem[OF xs] S by simp
  show ?thesis
  proof (intro set_eqI iffI)
    fix l assume "l \<in> S"
    then obtain k b st where *: "?m k = Some b" "bc_de_ls D b = Inr st" "ls_is_fenced st"
      "l = u64_from_be_bytes (subrange 0 8 k)" unfolding S' by blast
    from part_wf_get[OF wf[unfolded state_wf_def] *(1)] obtain a where "k = ledger_key a"
      and "state_map D ?m a = Some st" using *(2) by (auto simp: state_map_def)
    with * show "l \<in> {l. \<exists>st. state_map D ?m l = Some st \<and> ls_is_fenced st}"
      by (auto simp: ledger_key_def)
  next
    fix l assume "l \<in> {l. \<exists>st. state_map D ?m l = Some st \<and> ls_is_fenced st}"
    then obtain st b where "ls_is_fenced st" "?m (ledger_key l) = Some b" "bc_de_ls D b = Inr st"
      by (auto simp: state_map_def abs_map_def split: option.splits sum.splits)
    then show "l \<in> S" unfolding S'
      by (intro CollectI exI[of _ "ledger_key l"] exI[of _ b] exI[of _ st]) (simp add: ledger_key_def)
  qed
qed

text \<open>\<open>ensure_ledger_known\<close>: on success the ledger is known, its fence flag is as before, its key is
  the first one that was ever supplied, and an agreeing or absent key leaves the state alone.\<close>

lemma ensure_known_ok:
  assumes "ensure_ledger_known D idx ks l mk = (Inr changed, ks')"
  defines "m \<equiv> state_map D (kv ks (ix_ledgers idx))"
  shows "state_map D (kv ks' (ix_ledgers idx))
      = m(l \<mapsto> (case m l of
                None \<Rightarrow> \<lparr> ls_is_fenced = False, ls_master_key = mk \<rparr>
              | Some s \<Rightarrow> (if ls_master_key s = None then s\<lparr> ls_master_key := mk \<rparr> else s)))"
    and "\<And>s k k'. m l = Some s \<Longrightarrow> ls_master_key s = Some k \<Longrightarrow> mk = Some k' \<Longrightarrow> k = k'"
    and "\<And>q. q \<noteq> ix_ledgers idx \<Longrightarrow> kv ks' q = kv ks q"
    and "state_wf D (kv ks (ix_ledgers idx)) \<Longrightarrow> state_wf D (kv ks' (ix_ledgers idx))"
    and "\<not> changed \<Longrightarrow> ks' = ks"
proof -
  from assms(1) obtain st where g: "get_ledger_state D idx ks l = Inr st"
    by (auto simp: ensure_ledger_known_def split: sum.splits)
  have st: "m l = st" using get_ledger_state_ok[OF g] by (simp add: m_def)
  note e = assms(1)[unfolded ensure_ledger_known_def g, simplified]
  have keep: "s\<lparr> ls_master_key := None \<rparr> = s" if "ls_master_key s = None" for s :: NodeLedgerState
    using that by simp
  show "state_map D (kv ks' (ix_ledgers idx))
      = m(l \<mapsto> (case m l of
                None \<Rightarrow> \<lparr> ls_is_fenced = False, ls_master_key = mk \<rparr>
              | Some s \<Rightarrow> (if ls_master_key s = None then s\<lparr> ls_master_key := mk \<rparr> else s)))"
    using e st put_ledger_state_ok(1)[of idx ks l]
    by (auto simp: m_def keep split: option.splits prod.splits sum.splits if_splits)
  show "\<And>s k k'. m l = Some s \<Longrightarrow> ls_master_key s = Some k \<Longrightarrow> mk = Some k' \<Longrightarrow> k = k'"
    using e st by (auto split: if_splits)
  show "\<And>q. q \<noteq> ix_ledgers idx \<Longrightarrow> kv ks' q = kv ks q"
    using e put_ledger_state_ok(2)[of idx ks l]
    by (auto split: option.splits prod.splits sum.splits if_splits)
  show "state_wf D (kv ks (ix_ledgers idx)) \<Longrightarrow> state_wf D (kv ks' (ix_ledgers idx))"
    using e put_ledger_state_ok(3)[of idx ks l]
    by (auto split: option.splits prod.splits sum.splits if_splits)
  show "\<not> changed \<Longrightarrow> ks' = ks"
    using e by (auto split: option.splits prod.splits sum.splits if_splits)
qed

lemma ensure_known_err: "ensure_ledger_known D idx ks l mk = (Inl err, ks') \<Longrightarrow> kv ks' = kv ks"
  by (auto simp: ensure_ledger_known_def dest: put_ledger_state_err
      split: sum.splits option.splits prod.splits if_splits)

subsection \<open>The segment registry\<close>

lemma upsert_ok:
  assumes "upsert D p ks meta = (Inr u, ks')"
  shows "seg_map D (kv ks' p) = (seg_map D (kv ks p))(sm_id meta \<mapsto> meta)"
    and "q \<noteq> p \<Longrightarrow> kv ks' q = kv ks q"
    and "seg_wf D (kv ks p) \<Longrightarrow> seg_wf D (kv ks' p)"
proof -
  from assms obtain b where b: "bc_ser_sm D meta = Inr b"
    and i: "fj_insert D ks p (id_key (sm_id meta)) b = (Inr (), ks')"
    by (auto simp: upsert_def storage_err_Inr_iff split: sum.splits prod.splits)
  note ins = insert_abs[where enc = id_key and de = "bc_de_sm D", OF i inj_id_key law_sm[OF b]]
  from ins(1) show u: "seg_map D (kv ks' p) = (seg_map D (kv ks p))(sm_id meta \<mapsto> meta)"
    by (simp add: seg_map_def)
  from ins(2) show "q \<noteq> p \<Longrightarrow> kv ks' q = kv ks q" .
  from ins(3) u show "seg_wf D (kv ks p) \<Longrightarrow> seg_wf D (kv ks' p)"
    by (auto simp: seg_wf_def)
qed

lemma upsert_err: "upsert D p ks meta = (Inl err, ks') \<Longrightarrow> kv ks' = kv ks"
  by (auto simp: upsert_def storage_err_def map_sum_def dest: law_insert_err split: sum.splits prod.splits)

lemma registry_get_ok: "registry_get D p ks i = Inr r \<Longrightarrow> r = seg_map D (kv ks p) i"
  by (auto simp: registry_get_def seg_map_def abs_map_def dest!: law_get[symmetric]
      split: sum.splits option.splits)

lemma cas_status_ok:
  assumes "cas_status D p ks i expected new = (Inr swapped, ks')" and wf: "seg_wf D (kv ks p)"
  defines "m \<equiv> seg_map D (kv ks p)"
  shows "swapped \<longleftrightarrow> (\<exists>meta. m i = Some meta \<and> sm_status meta = expected)"
    and "seg_map D (kv ks' p) = (if swapped then m(i \<mapsto> (the (m i))\<lparr> sm_status := new \<rparr>) else m)"
    and "\<And>q. q \<noteq> p \<Longrightarrow> kv ks' q = kv ks q" and "seg_wf D (kv ks' p)"
proof -
  from assms(1) obtain r where g: "registry_get D p ks i = Inr r"
    by (auto simp: cas_status_def split: sum.splits)
  have r: "r = m i" using registry_get_ok[OF g] by (simp add: m_def)
  have id: "sm_id meta = i" if "m i = Some meta" for meta
    using wf that by (simp add: seg_wf_def m_def)
  note c = assms(1)[unfolded cas_status_def g, simplified]
  show "swapped \<longleftrightarrow> (\<exists>meta. m i = Some meta \<and> sm_status meta = expected)"
    using c r by (auto split: option.splits sum.splits prod.splits if_splits)
  show "seg_map D (kv ks' p) = (if swapped then m(i \<mapsto> (the (m i))\<lparr> sm_status := new \<rparr>) else m)"
    using c r id upsert_ok(1)[of p ks]
    by (auto simp: m_def split: option.splits sum.splits prod.splits if_splits)
  show "\<And>q. q \<noteq> p \<Longrightarrow> kv ks' q = kv ks q"
    using c upsert_ok(2)[of p ks] by (auto split: option.splits sum.splits prod.splits if_splits)
  show "seg_wf D (kv ks' p)"
    using c wf upsert_ok(3)[of p ks] by (auto split: option.splits sum.splits prod.splits if_splits)
qed

lemma cas_status_err: "cas_status D p ks i expected new = (Inl err, ks') \<Longrightarrow> kv ks' = kv ks"
  by (auto simp: cas_status_def dest: upsert_err split: sum.splits option.splits prod.splits if_splits)

lemma cas_to_s3_ok:
  assumes "cas_to_s3 D p ks i expected key = (Inr swapped, ks')" and wf: "seg_wf D (kv ks p)"
  defines "m \<equiv> seg_map D (kv ks p)"
  shows "swapped \<longleftrightarrow> (\<exists>meta. m i = Some meta \<and> sm_status meta = expected)"
    and "seg_map D (kv ks' p) = (if swapped then m(i \<mapsto> (the (m i))\<lparr> sm_status := S3, sm_s3_key := Some key, sm_local_path := None \<rparr>) else m)"
    and "\<And>q. q \<noteq> p \<Longrightarrow> kv ks' q = kv ks q" and "seg_wf D (kv ks' p)"
proof -
  from assms(1) obtain r where g: "registry_get D p ks i = Inr r"
    by (auto simp: cas_to_s3_def split: sum.splits)
  have r: "r = m i" using registry_get_ok[OF g] by (simp add: m_def)
  have id: "sm_id meta = i" if "m i = Some meta" for meta
    using wf that by (simp add: seg_wf_def m_def)
  note c = assms(1)[unfolded cas_to_s3_def g, simplified]
  show "swapped \<longleftrightarrow> (\<exists>meta. m i = Some meta \<and> sm_status meta = expected)"
    using c r by (auto split: option.splits sum.splits prod.splits if_splits)
  show "seg_map D (kv ks' p) = (if swapped then m(i \<mapsto> (the (m i))\<lparr> sm_status := S3, sm_s3_key := Some key, sm_local_path := None \<rparr>) else m)"
    using c r id upsert_ok(1)[of p ks]
    by (auto simp: m_def split: option.splits sum.splits prod.splits if_splits)
  show "\<And>q. q \<noteq> p \<Longrightarrow> kv ks' q = kv ks q"
    using c upsert_ok(2)[of p ks] by (auto split: option.splits sum.splits prod.splits if_splits)
  show "seg_wf D (kv ks' p)"
    using c wf upsert_ok(3)[of p ks] by (auto split: option.splits sum.splits prod.splits if_splits)
qed

lemma cas_to_s3_err: "cas_to_s3 D p ks i expected key = (Inl err, ks') \<Longrightarrow> kv ks' = kv ks"
  by (auto simp: cas_to_s3_def dest: upsert_err split: sum.splits option.splits prod.splits if_splits)

lemma list_by_status_ok:
  assumes "list_by_status D p ks status = Inr r" and wf: "seg_wf D (kv ks p)"
  shows "set r = {meta. \<exists>i. seg_map D (kv ks p) i = Some meta \<and> sm_status meta = status}"
proof -
  note r = assms(1)[unfolded list_by_status_def]
  from collect_status_items[OF r] obtain xs where xs: "fj_iter D ks p = map Inr xs" by blast
  have *: "set r = {m. \<exists>k b. kv ks p k = Some b \<and> bc_de_sm D b = Inr m \<and> sm_status m = status}"
    using collect_status_set[OF r[unfolded xs]] iter_mem[OF xs] by simp
  have "(\<exists>k b. kv ks p k = Some b \<and> bc_de_sm D b = Inr m) \<longleftrightarrow> (\<exists>i. seg_map D (kv ks p) i = Some m)" for m
    using part_wf_get[of id_key "bc_de_sm D" "kv ks p"] wf
    by (auto simp: seg_wf_def seg_map_def abs_map_def split: option.splits sum.splits) fastforce+
  with * show ?thesis by blast
qed

end


section \<open>The highest registered identifier\<close>

context db_laws
begin

lemma max_id_eq:
  assumes "max_id D p ks = Inr r" and wf: "seg_wf D (kv ks p)"
  obtains xs where "fj_iter D ks p = map Inr xs"
    and "r = (if xs = [] then None else Some (Max (set (map (\<lambda>x. u64_from_be_bytes (fst x)) xs))))"
proof -
  note mi = assms(1)[unfolded max_id_def]
  from max_of_items_items[OF mi] obtain xs where xs: "fj_iter D ks p = map Inr xs" by blast
  have keys: "\<forall>(k, b) \<in> set xs. length k = 8"
  proof safe
    fix k b assume "(k, b) \<in> set xs"
    then have "k \<in> range id_key" using wf iter_mem[OF xs] unfolding seg_wf_def part_wf_def by blast
    then show "length k = 8" by (auto simp: id_key_def)
  qed
  have "r = fold (\<lambda>x m. Some (case m of None \<Rightarrow> u64_from_be_bytes (fst x) | Some y \<Rightarrow> max y (u64_from_be_bytes (fst x)))) xs None"
    using max_of_items_spec[OF mi[unfolded xs] keys] unfolding Let_def case_prod_unfold .
  then show thesis using fold_max_bound[of "\<lambda>x. u64_from_be_bytes (fst x)" xs None] by (intro that[OF xs]) simp
qed

lemma max_id_bound:
  assumes "max_id D p ks = Inr r" and wf: "seg_wf D (kv ks p)" and "seg_map D (kv ks p) i = Some meta"
  shows "\<exists>m. r = Some m \<and> i \<le> m"
proof -
  obtain xs where xs: "fj_iter D ks p = map Inr xs"
    and r: "r = (if xs = [] then None else Some (Max (set (map (\<lambda>x. u64_from_be_bytes (fst x)) xs))))"
    by (rule max_id_eq[OF assms(1) wf]) (rule that)
  from assms(3) obtain b where "kv ks p (id_key i) = Some b"
    by (auto simp: seg_map_def abs_map_def split: option.splits)
  then have mem: "(id_key i, b) \<in> set xs" using iter_mem[OF xs] by simp
  then have "i \<in> set (map (\<lambda>x. u64_from_be_bytes (fst x)) xs)" by (force simp: id_key_def)
  then have "i \<le> Max (set (map (\<lambda>x. u64_from_be_bytes (fst x)) xs))" by (intro Max_ge) simp_all
  with mem r show ?thesis by auto
qed

lemma max_id_registered:
  assumes "max_id D p ks = Inr (Some m)" and wf: "seg_wf D (kv ks p)"
  shows "\<exists>meta. seg_map D (kv ks p) m = Some meta"
proof -
  obtain xs where xs: "fj_iter D ks p = map Inr xs"
    and r: "Some m = (if xs = [] then None else Some (Max (set (map (\<lambda>x. u64_from_be_bytes (fst x)) xs))))"
    by (rule max_id_eq[OF assms]) (rule that)
  from r have "m \<in> set (map (\<lambda>x. u64_from_be_bytes (fst x)) xs)" using Max_in[of "set (map (\<lambda>x. u64_from_be_bytes (fst x)) xs)"]
    by (auto split: if_splits)
  then obtain k b where k: "(k, b) \<in> set xs" "m = u64_from_be_bytes k" by force
  then have kb: "kv ks p k = Some b" using iter_mem[OF xs] by simp
  have "part_wf id_key (bc_de_sm D) (kv ks p)" using wf by (simp add: seg_wf_def)
  from part_wf_get[OF this kb] obtain i meta where "k = id_key i" "seg_map D (kv ks p) i = Some meta"
    by (auto simp: seg_map_def)
  with k(2) show ?thesis by (auto simp: id_key_def)
qed

end

end
