(* ===== verification/RefStore.thy ===== *)
theory RefStore
  imports Fjall "HOL-Library.Char_ord"
begin

text \<open>
  A reference implementation of the database interface \<open>'k db_api\<close>: a keyspace is an
  association list over (partition, key) pairs, and values are serialised field by field
  into fixed-width integers and length-prefixed sequences. It models no code of the
  repository. It shows that the laws of \<open>db_laws\<close> can be met together, and it is the
  concrete store on which the examples of the later theories run.
\<close>

type_synonym ref_ks = "((string \<times> bytes) \<times> bytes) list"


section \<open>The keyspace\<close>

definition ref_kv :: "ref_ks \<Rightarrow> string \<Rightarrow> bytes \<Rightarrow> bytes option" where
  "ref_kv ks p k = map_of ks (p, k)"

definition ref_items :: "ref_ks \<Rightarrow> string \<Rightarrow> (bytes \<times> bytes) list" where
  "ref_items ks p =
     sort_key fst (AList.clearjunk (map (\<lambda>((_, k), b). (k, b)) (filter (\<lambda>x. fst (fst x) = p) ks)))"

definition ref_insert :: "ref_ks \<Rightarrow> string \<Rightarrow> bytes \<Rightarrow> bytes \<Rightarrow> ref_ks" where
  "ref_insert ks p k b = AList.update (p, k) b ks"

definition ref_remove :: "ref_ks \<Rightarrow> string \<Rightarrow> bytes \<Rightarrow> ref_ks" where
  "ref_remove ks p k = AList.delete (p, k) ks"

definition ref_range :: "ref_ks \<Rightarrow> string \<Rightarrow> bytes \<Rightarrow> bytes \<Rightarrow> (bytes \<times> bytes) list" where
  "ref_range ks p lo hi = filter (\<lambda>(k, _). lo \<le> k \<and> k \<le> hi) (ref_items ks p)"

lemma map_of_partition:
  "map_of (map (\<lambda>((_, k), b). (k, b)) (filter (\<lambda>x. fst (fst x) = p) ks)) k = ref_kv ks p k"
  by (induction ks) (auto simp: ref_kv_def)

lemma ref_items_sorted: "sorted_wrt (<) (map fst (ref_items ks p))"
proof -
  let ?xs = "AList.clearjunk (map (\<lambda>((_, k), b). (k, b)) (filter (\<lambda>x. fst (fst x) = p) ks))"
  have "distinct (map fst ?xs)" by (rule distinct_clearjunk)
  then have "distinct (map fst (sort_key fst ?xs))" by (simp add: distinct_map)
  then show ?thesis by (simp add: ref_items_def strict_sorted_iff)
qed

lemma map_of_ref_items: "map_of (ref_items ks p) = ref_kv ks p"
proof
  fix k
  let ?xs = "AList.clearjunk (map (\<lambda>((_, k), b). (k, b)) (filter (\<lambda>x. fst (fst x) = p) ks))"
  have d: "distinct (map fst (ref_items ks p))"
    using ref_items_sorted strict_sorted_iff by blast
  have "map_of (ref_items ks p) k = Some b \<longleftrightarrow> map_of ?xs k = Some b" for b
    using map_of_eq_Some_iff[OF d] map_of_eq_Some_iff[OF distinct_clearjunk]
    by (simp add: ref_items_def)
  then have "map_of (ref_items ks p) k = map_of ?xs k"
    by (metis not_None_eq)
  also have "\<dots> = ref_kv ks p k" by (simp add: map_of_clearjunk map_of_partition)
  finally show "map_of (ref_items ks p) k = ref_kv ks p k" .
qed

lemma ref_insert_kv: "ref_kv (ref_insert ks p k b) = (ref_kv ks)(p := (ref_kv ks p)(k \<mapsto> b))"
  by (auto simp: ref_kv_def ref_insert_def update_conv' fun_eq_iff)

lemma ref_remove_kv: "ref_kv (ref_remove ks p k) = (ref_kv ks)(p := (ref_kv ks p)(k := None))"
  by (auto simp: ref_kv_def ref_remove_def delete_conv' fun_eq_iff)

lemma ref_range_sorted: "sorted_wrt (<) (map fst (ref_range ks p lo hi))"
proof -
  have "map fst (ref_range ks p lo hi) = filter (\<lambda>k. lo \<le> k \<and> k \<le> hi) (map fst (ref_items ks p))"
    by (simp add: ref_range_def filter_map comp_def case_prod_unfold)
  then show ?thesis using ref_items_sorted by (simp add: sorted_wrt_filter)
qed

lemma ref_range_mem: "(k, b) \<in> set (ref_range ks p lo hi) \<longleftrightarrow> ref_kv ks p k = Some b \<and> k \<in> {lo..hi}"
proof -
  have "distinct (map fst (ref_items ks p))"
    using ref_items_sorted strict_sorted_iff by blast
  from map_of_eq_Some_iff[OF this] show ?thesis
    by (auto simp: ref_range_def simp flip: map_of_ref_items)
qed

lemma map_of_ref_range: "map_of (ref_range ks p lo hi) = ref_kv ks p |` {lo..hi}"
proof
  fix k
  have d: "distinct (map fst (ref_range ks p lo hi))"
    using ref_range_sorted strict_sorted_iff by blast
  have "map_of (ref_range ks p lo hi) k = Some b \<longleftrightarrow> (ref_kv ks p |` {lo..hi}) k = Some b" for b
    using map_of_eq_Some_iff[OF d] by (auto simp: ref_range_mem restrict_map_def)
  then show "map_of (ref_range ks p lo hi) k = (ref_kv ks p |` {lo..hi}) k"
    by (metis not_None_eq)
qed

lemma ref_range_last:
  assumes "ref_range ks p lo hi = xs @ [(k, b)]"
  shows "ref_kv ks p k = Some b \<and> k \<in> {lo..hi} \<and> (\<forall>k' \<in> {lo..hi}. ref_kv ks p k' \<noteq> None \<longrightarrow> k' \<le> k)"
proof -
  have "(k, b) \<in> set (ref_range ks p lo hi)" using assms by simp
  then have 1: "ref_kv ks p k = Some b \<and> k \<in> {lo..hi}" by (simp add: ref_range_mem)
  have "k' \<le> k" if "k' \<in> {lo..hi}" "ref_kv ks p k' \<noteq> None" for k'
  proof -
    from that obtain b' where "(k', b') \<in> set (ref_range ks p lo hi)"
      by (auto simp: ref_range_mem)
    with assms have "k' \<in> set (map fst xs) \<or> k' = k" by force
    with ref_range_sorted[of ks p lo hi] assms show ?thesis
      by (auto simp: sorted_wrt_append)
  qed
  with 1 show ?thesis by blast
qed


section \<open>The serialiser\<close>

type_synonym 'a reader = "bytes \<Rightarrow> ('a \<times> bytes) option"

definition byte_reader :: "u8 reader" where
  "byte_reader bs = (case bs of [] \<Rightarrow> None | b # rest \<Rightarrow> Some (b, rest))"

definition u64_reader :: "u64 reader" where
  "u64_reader bs = (if length bs < 8 then None else Some (u64_from_be_bytes (take 8 bs), drop 8 bs))"

definition u32_reader :: "u32 reader" where
  "u32_reader bs = (if length bs < 4 then None else Some (u32_from_le_bytes (take 4 bs), drop 4 bs))"

fun seq_reader :: "'a reader \<Rightarrow> nat \<Rightarrow> 'a list reader" where
  "seq_reader r 0 bs = Some ([], bs)"
| "seq_reader r (Suc n) bs =
     (case r bs of
        None \<Rightarrow> None
      | Some (x, bs') \<Rightarrow>
          (case seq_reader r n bs' of None \<Rightarrow> None | Some (xs, rest) \<Rightarrow> Some (x # xs, rest)))"

definition list_reader :: "'a reader \<Rightarrow> 'a list reader" where
  "list_reader r bs =
     (case byte_reader bs of None \<Rightarrow> None | Some (n, rest) \<Rightarrow> seq_reader r (unat n) rest)"

definition option_reader :: "'a reader \<Rightarrow> 'a option reader" where
  "option_reader r bs =
     (case byte_reader bs of
        None \<Rightarrow> None
      | Some (t, rest) \<Rightarrow>
          (if t = 0 then Some (None, rest)
           else case r rest of None \<Rightarrow> None | Some (x, rest') \<Rightarrow> Some (Some x, rest')))"

definition write_list :: "('a \<Rightarrow> bytes) \<Rightarrow> 'a list \<Rightarrow> bytes" where
  "write_list w xs = of_nat (length xs) # concat (map w xs)"

definition write_option :: "('a \<Rightarrow> bytes) \<Rightarrow> 'a option \<Rightarrow> bytes" where
  "write_option w x = (case x of None \<Rightarrow> [0] | Some y \<Rightarrow> 1 # w y)"

definition write_char :: "char \<Rightarrow> bytes" where
  "write_char c = [of_nat (of_char c)]"

definition char_reader :: "char reader" where
  "char_reader bs = map_option (\<lambda>(b, rest). (char_of (unat b), rest)) (byte_reader bs)"

definition pair_reader :: "(u64 \<times> u64) reader" where
  "pair_reader bs =
     (case u64_reader bs of
        None \<Rightarrow> None
      | Some (a, r) \<Rightarrow> map_option (\<lambda>(b, r'). ((a, b), r')) (u64_reader r))"

text \<open>A serialiser that refuses what its own reader does not give back.\<close>

definition guarded :: "('a \<Rightarrow> bytes) \<Rightarrow> (bytes \<Rightarrow> string + 'a) \<Rightarrow> 'a \<Rightarrow> string + bytes" where
  "guarded w de x = (let b = w x in if de b = Inr x then Inr b else Inl ''unsupported value'')"

definition whole :: "'a reader \<Rightarrow> bytes \<Rightarrow> string + 'a" where
  "whole r b = (case r b of Some (x, []) \<Rightarrow> Inr x | _ \<Rightarrow> Inl ''unexpected bytes'')"

definition write_iv :: "IndexValue \<Rightarrow> bytes" where
  "write_iv v = u64_to_be_bytes (iv_segment_id v) @ u64_to_be_bytes (iv_offset v) @ u32_to_le_bytes (iv_length v)"

definition iv_reader :: "IndexValue reader" where
  "iv_reader bs =
     Option.bind (u64_reader bs) (\<lambda>(a, r1). Option.bind (u64_reader r1) (\<lambda>(b, r2).
     Option.bind (u32_reader r2) (\<lambda>(c, r3).
       Some (\<lparr> iv_segment_id = a, iv_offset = b, iv_length = c \<rparr>, r3))))"

definition write_bool :: "bool \<Rightarrow> bytes" where
  "write_bool b = [if b then 1 else 0]"

definition write_ls :: "NodeLedgerState \<Rightarrow> bytes" where
  "write_ls s = write_bool (ls_is_fenced s) @ write_option (write_list (\<lambda>b. [b])) (ls_master_key s)"

definition ls_reader :: "NodeLedgerState reader" where
  "ls_reader bs =
     Option.bind (byte_reader bs) (\<lambda>(a, r1). Option.bind (option_reader (list_reader byte_reader) r1) (\<lambda>(k, r2).
       Some (\<lparr> ls_is_fenced = (a = 1), ls_master_key = k \<rparr>, r2)))"

definition write_kind :: "SegmentKind \<Rightarrow> bytes" where
  "write_kind k = [case k of Wal \<Rightarrow> 0 | EntryKind \<Rightarrow> 1]"

definition write_status :: "SegmentStatus \<Rightarrow> bytes" where
  "write_status s = [case s of Local \<Rightarrow> 0 | Offloading \<Rightarrow> 1 | S3 \<Rightarrow> 2 | SegDeleted \<Rightarrow> 3 | Active \<Rightarrow> 4]"

definition write_sm :: "SegmentMeta \<Rightarrow> bytes" where
  "write_sm m =
     u64_to_be_bytes (sm_id m) @ write_kind (sm_kind m) @ write_status (sm_status m)
     @ write_option (write_list write_char) (sm_local_path m)
     @ write_option (write_list write_char) (sm_s3_key m)
     @ u64_to_be_bytes (sm_byte_len m)
     @ write_list (\<lambda>(a, b). u64_to_be_bytes a @ u64_to_be_bytes b) (sm_ledger_sizes m)"

definition sm_reader :: "SegmentMeta reader" where
  "sm_reader bs =
     Option.bind (u64_reader bs) (\<lambda>(i, r1). Option.bind (byte_reader r1) (\<lambda>(k, r2).
     Option.bind (byte_reader r2) (\<lambda>(s, r3).
     Option.bind (option_reader (list_reader char_reader) r3) (\<lambda>(lp, r4).
     Option.bind (option_reader (list_reader char_reader) r4) (\<lambda>(s3, r5).
     Option.bind (u64_reader r5) (\<lambda>(bl, r6).
     Option.bind (list_reader pair_reader r6) (\<lambda>(sz, r7).
       Some (\<lparr> sm_id = i, sm_kind = (if k = 0 then Wal else EntryKind),
              sm_status = (if s = 0 then Local else if s = 1 then Offloading else if s = 2 then S3
                           else if s = 3 then SegDeleted else Active),
              sm_local_path = lp, sm_s3_key = s3, sm_byte_len = bl, sm_ledger_sizes = sz \<rparr>, r7))))))))"

definition write_se :: "StoredEntry \<Rightarrow> bytes" where
  "write_se s = (let e = se_entry s in
     u64_to_be_bytes (e_ledger_id e) @ u64_to_be_bytes (e_entry_id e) @ u64_to_be_bytes (e_lac e)
     @ u32_to_le_bytes (e_digest e) @ write_list (\<lambda>b. [b]) (e_data e)
     @ write_option (write_list (\<lambda>b. [b])) (e_master_key e)
     @ write_option (write_list (\<lambda>b. [b])) (e_hmac e) @ u64_to_be_bytes (se_appended_at_ms s))"

definition se_reader :: "StoredEntry reader" where
  "se_reader bs =
     Option.bind (u64_reader bs) (\<lambda>(l, r1). Option.bind (u64_reader r1) (\<lambda>(i, r2).
     Option.bind (u64_reader r2) (\<lambda>(c, r3). Option.bind (u32_reader r3) (\<lambda>(d, r4).
     Option.bind (list_reader byte_reader r4) (\<lambda>(dat, r5).
     Option.bind (option_reader (list_reader byte_reader) r5) (\<lambda>(mk, r6).
     Option.bind (option_reader (list_reader byte_reader) r6) (\<lambda>(h, r7).
     Option.bind (u64_reader r7) (\<lambda>(t, r8).
       Some (\<lparr> se_entry = \<lparr> e_ledger_id = l, e_entry_id = i, e_lac = c, e_digest = d, e_data = dat,
                            e_master_key = mk, e_hmac = h \<rparr>, se_appended_at_ms = t \<rparr>, r8)))))))))"

lemma guarded_round_trip: "guarded w de x = Inr b \<Longrightarrow> de b = Inr x"
  by (auto simp: guarded_def Let_def split: if_splits)


text \<open>The round trips that make the guard pass.\<close>

lemma byte_reader_write [simp]: "byte_reader (b # rest) = Some (b, rest)"
  by (simp add: byte_reader_def)

lemma u64_reader_write [simp]: "u64_reader (u64_to_be_bytes w @ rest) = Some (w, rest)"
  by (simp add: u64_reader_def)

lemma u32_reader_write [simp]: "u32_reader (u32_to_le_bytes w @ rest) = Some (w, rest)"
  by (simp add: u32_reader_def)

lemma char_reader_write [simp]: "char_reader (write_char c @ rest) = Some (c, rest)"
  by (simp add: char_reader_def write_char_def unat_of_nat)

lemma pair_reader_write [simp]:
  "pair_reader ((case x of (a, b) \<Rightarrow> u64_to_be_bytes a @ u64_to_be_bytes b) @ rest) = Some (x, rest)"
  by (cases x) (simp add: pair_reader_def)

lemma seq_reader_write:
  assumes "\<And>x rest. r (w x @ rest) = Some (x, rest)"
  shows "seq_reader r (length xs) (concat (map w xs) @ rest) = Some (xs, rest)"
  by (induction xs) (simp_all add: assms)

lemma list_reader_write:
  assumes "\<And>x rest. r (w x @ rest) = Some (x, rest)" and "length xs < 256"
  shows "list_reader r (write_list w xs @ rest) = Some (xs, rest)"
  using assms(2) seq_reader_write[OF assms(1)]
  by (simp add: list_reader_def write_list_def unat_of_nat)

lemma option_reader_write:
  assumes "\<And>y rest. x = Some y \<Longrightarrow> r (w y @ rest) = Some (y, rest)"
  shows "option_reader r (write_option w x @ rest) = Some (x, rest)"
  using assms by (cases x) (simp_all add: option_reader_def write_option_def)

definition short_opt :: "'a list option \<Rightarrow> bool" where
  "short_opt x = (case x of None \<Rightarrow> True | Some s \<Rightarrow> length s < 256)"

lemma option_list_reader_write:
  assumes "\<And>x rest. r (w x @ rest) = Some (x, rest)" and "short_opt x"
  shows "option_reader (list_reader r) (write_option (write_list w) x @ rest) = Some (x, rest)"
  using assms list_reader_write[OF assms(1)]
  by (intro option_reader_write) (auto simp: short_opt_def)

lemma whole_write:
  assumes "\<And>rest. r (w x @ rest) = Some (x, rest)"
  shows "whole r (w x) = Inr x" and "guarded w (whole r) x = Inr (w x)"
  using assms[of "[]"] by (simp_all add: whole_def guarded_def)

lemma iv_reader_write: "iv_reader (write_iv v @ rest) = Some (v, rest)"
  by (simp add: iv_reader_def write_iv_def)

lemma ls_reader_write:
  "short_opt (ls_master_key s) \<Longrightarrow> ls_reader (write_ls s @ rest) = Some (s, rest)"
  by (simp add: ls_reader_def write_ls_def write_bool_def option_list_reader_write)

lemma sm_reader_write:
  assumes "short_opt (sm_local_path m)" and "short_opt (sm_s3_key m)" and "length (sm_ledger_sizes m) < 256"
  shows "sm_reader (write_sm m @ rest) = Some (m, rest)"
  using assms
  by (cases "sm_kind m"; cases "sm_status m")
     (simp_all add: sm_reader_def write_sm_def write_kind_def write_status_def
       option_list_reader_write list_reader_write)

lemma se_reader_write:
  assumes "length (e_data (se_entry s)) < 256" and "short_opt (e_master_key (se_entry s))"
    and "short_opt (e_hmac (se_entry s))"
  shows "se_reader (write_se s @ rest) = Some (s, rest)"
  using assms
  by (simp add: se_reader_def write_se_def Let_def option_list_reader_write list_reader_write)


section \<open>The instance\<close>

definition ref_db :: "ref_ks db_api" where
  "ref_db =
     \<lparr> fj_open_partition = (\<lambda>ks p. (Inr (), ks)),
       fj_insert = (\<lambda>ks p k b. (Inr (), ref_insert ks p k b)),
       fj_get = (\<lambda>ks p k. Inr (ref_kv ks p k)),
       fj_remove = (\<lambda>ks p k. (Inr (), ref_remove ks p k)),
       fj_iter = (\<lambda>ks p. map Inr (ref_items ks p)),
       fj_range = (\<lambda>ks p lo hi. map Inr (ref_range ks p lo hi)),
       fj_persist = (\<lambda>ks. (Inr (), ks)),
       bc_ser_iv = guarded write_iv (whole iv_reader), bc_de_iv = whole iv_reader,
       bc_ser_ls = guarded write_ls (whole ls_reader), bc_de_ls = whole ls_reader,
       bc_ser_sm = guarded write_sm (whole sm_reader), bc_de_sm = whole sm_reader,
       bc_ser_se = guarded write_se (whole se_reader), bc_de_se = whole se_reader \<rparr>"

lemma map_Inr_eq: "map Inr xs = (map Inr ys :: ('a + 'b) list) \<longleftrightarrow> xs = ys"
  by (rule inj_map_eq_map) simp

lemma map_Inr_snoc: "map Inr xs = ys @ [Inr y] \<Longrightarrow> \<exists>zs. xs = zs @ [y]"
  by (cases xs rule: rev_cases) auto

interpretation ref: db_laws ref_db ref_kv
proof (unfold_locales, goal_cases)
  case (9 ks p lo hi items k b)
  then obtain zs where "ref_range ks p lo hi = zs @ [(k, b)]"
    by (auto simp: ref_db_def dest: map_Inr_snoc)
  then show ?case by (rule ref_range_last)
next
  case (8 ks p lo hi k)
  then show ?case using ref_range_mem[of k _ ks p lo hi] by (force simp: ref_db_def)
qed (auto simp: ref_db_def ref_insert_kv ref_remove_kv map_Inr_eq ref_items_sorted map_of_ref_items
    ref_range_sorted map_of_ref_range dest: guarded_round_trip)

named_theorems ref_simps \<open>evaluation of the reference store\<close>

lemma ref_db_ops [ref_simps]:
  "fj_open_partition ref_db ks p = (Inr (), ks)"
  "fj_insert ref_db ks p k b = (Inr (), ref_insert ks p k b)"
  "fj_get ref_db ks p k = Inr (ref_kv ks p k)"
  "fj_remove ref_db ks p k = (Inr (), ref_remove ks p k)"
  "fj_iter ref_db ks p = map Inr (ref_items ks p)"
  "fj_range ref_db ks p lo hi = map Inr (ref_range ks p lo hi)"
  "fj_persist ref_db ks = (Inr (), ks)"
  by (simp_all add: ref_db_def)

lemma ref_db_iv [ref_simps]:
  "bc_ser_iv ref_db v = Inr (write_iv v)" "bc_de_iv ref_db (write_iv v) = Inr v"
  using whole_write[of iv_reader write_iv v] by (simp_all add: ref_db_def iv_reader_write)

lemma ref_db_ls [ref_simps]:
  assumes "short_opt (ls_master_key s)"
  shows "bc_ser_ls ref_db s = Inr (write_ls s)" "bc_de_ls ref_db (write_ls s) = Inr s"
  using whole_write[of ls_reader write_ls s] assms by (simp_all add: ref_db_def ls_reader_write)

lemma ref_db_sm [ref_simps]:
  assumes "short_opt (sm_local_path m)" and "short_opt (sm_s3_key m)" and "length (sm_ledger_sizes m) < 256"
  shows "bc_ser_sm ref_db m = Inr (write_sm m)" "bc_de_sm ref_db (write_sm m) = Inr m"
  using whole_write[of sm_reader write_sm m] assms by (simp_all add: ref_db_def sm_reader_write)

lemma ref_db_se [ref_simps]:
  assumes "length (e_data (se_entry s)) < 256" and "short_opt (e_master_key (se_entry s))"
    and "short_opt (e_hmac (se_entry s))"
  shows "bc_ser_se ref_db s = Inr (write_se s)" "bc_de_se ref_db (write_se s) = Inr s"
  using whole_write[of se_reader write_se s] assms by (simp_all add: ref_db_def se_reader_write)

lemmas ref_contents [ref_simps] = ref_insert_kv ref_remove_kv

lemma ref_kv_empty [ref_simps]: "ref_kv [] = (\<lambda>_ _. None)"
  by (simp add: ref_kv_def fun_eq_iff)

lemma short_opt_simps [ref_simps]: "short_opt None" "short_opt (Some s) \<longleftrightarrow> length s < 256"
  by (simp_all add: short_opt_def)

text \<open>The items of a keyspace built by insertions, for keys that are already in order.\<close>

lemma ref_items_simps [ref_simps]:
  "ref_items [] p = []"
  "ref_items (ref_insert [] q k b) p = (if q = p then [(k, b)] else [])"
  by (simp_all add: ref_items_def ref_insert_def)

text \<open>The items of a partition depend only on its contents.\<close>

lemma ref_items_cong:
  assumes "ref_kv ks p = ref_kv ks' p"
  shows "ref_items ks p = ref_items ks' p"
proof -
  have s: "sorted (map fst (ref_items k p))" "distinct (map fst (ref_items k p))" for k
    using ref_items_sorted[of k p] by (simp_all add: strict_sorted_iff)
  have "set (ref_items ks p) = set (ref_items ks' p)"
    using assms s(2) by (simp add: map_of_inject_set[symmetric] map_of_ref_items)
  then show ?thesis using s by (intro map_sorted_distinct_set_unique[where f = fst]) (simp_all add: distinct_map)
qed

lemma ref_items_other [ref_simps]:
  "q \<noteq> p \<Longrightarrow> ref_items (ref_insert ks q k b) p = ref_items ks p"
  by (rule ref_items_cong) (simp add: ref_insert_kv)

end
