(* ===== verification/FileSystem.thy ===== *)
theory FileSystem
  imports Segment
begin

text \<open>
  The part of the file system that the storage engine uses: files as byte strings under
  path names, directory listings, positioned writes, truncation and renaming, as
  \<^verbatim>\<open>std::fs\<close> provides them. The listing order is the order of the association list, which
  nothing in the development fixes. \<open>fs_read_err\<close> and \<open>fs_write_err\<close> give the error a path
  answers with when the medium or the permissions refuse the access. The directory scans
  that both kinds of segment share are here as well.
\<close>

record fs =
  fs_files :: "(string \<times> bytes) list"
  fs_dirs :: "string list"
  fs_read_err :: "string \<Rightarrow> string option"
  fs_write_err :: "string \<Rightarrow> string option"

definition join_path :: "string \<Rightarrow> string \<Rightarrow> string" where
  "join_path d n = d @ ''/'' @ n"

definition not_found :: string where
  "not_found = ''No such file or directory (os error 2)''"

definition fs_read :: "fs \<Rightarrow> string \<Rightarrow> string + bytes" where
  "fs_read f p =
     (case map_of (fs_files f) p of
        None \<Rightarrow> Inl not_found
      | Some c \<Rightarrow> (case fs_read_err f p of Some e \<Rightarrow> Inl e | None \<Rightarrow> Inr c))"

text \<open>\<^verbatim>\<open>create_dir_all\<close>; the ancestors of the directory are not recorded, as nothing asks for them.\<close>

definition create_dir_all :: "fs \<Rightarrow> string \<Rightarrow> string + fs" where
  "create_dir_all f p =
     (case fs_write_err f p of
        Some e \<Rightarrow> Inl e
      | None \<Rightarrow>
          (if p \<in> fst ` set (fs_files f) then Inl ''File exists (os error 17)''
           else Inr (f\<lparr> fs_dirs := List.insert p (fs_dirs f) \<rparr>)))"

definition fs_exists :: "fs \<Rightarrow> string \<Rightarrow> bool" where
  "fs_exists f p \<longleftrightarrow> p \<in> fst ` set (fs_files f) \<or> p \<in> set (fs_dirs f)"

definition fs_set :: "fs \<Rightarrow> string \<Rightarrow> bytes \<Rightarrow> fs" where
  "fs_set f p c = f\<lparr> fs_files := AList.update p c (fs_files f) \<rparr>"

text \<open>\<^verbatim>\<open>std::fs::metadata(&path).map(|m| m.len()).unwrap_or(0)\<close>.\<close>

definition fs_len :: "fs \<Rightarrow> string \<Rightarrow> u64" where
  "fs_len f p = (case map_of (fs_files f) p of None \<Rightarrow> 0 | Some c \<Rightarrow> of_nat (length c))"

text \<open>Opening an existing file for writing and \<^verbatim>\<open>set_len\<close>.\<close>

definition fs_truncate :: "fs \<Rightarrow> string \<Rightarrow> nat \<Rightarrow> (string + unit) \<times> fs" where
  "fs_truncate f p n =
     (case map_of (fs_files f) p of
        None \<Rightarrow> (Inl not_found, f)
      | Some c \<Rightarrow>
          (case fs_write_err f p of
             Some e \<Rightarrow> (Inl e, f)
           | None \<Rightarrow> (Inr (), fs_set f p (resize n 0 c))))"

text \<open>Opening for writing with \<^verbatim>\<open>create(true)\<close>, with or without \<^verbatim>\<open>truncate(true)\<close>.\<close>

definition fs_open_create :: "fs \<Rightarrow> string \<Rightarrow> bool \<Rightarrow> (string + unit) \<times> fs" where
  "fs_open_create f p trunc =
     (case fs_write_err f p of
        Some e \<Rightarrow> (Inl e, f)
      | None \<Rightarrow>
          (Inr (), case map_of (fs_files f) p of
                     None \<Rightarrow> fs_set f p []
                   | Some c \<Rightarrow> if trunc then fs_set f p [] else f))"

text \<open>The contents after \<^verbatim>\<open>pwrite\<close>: a gap between the end of the file and the position is zeros.\<close>

definition write_at :: "bytes \<Rightarrow> nat \<Rightarrow> bytes \<Rightarrow> bytes" where
  "write_at c pos dat =
     take pos (resize (max pos (length c)) 0 c) @ dat @ drop (pos + length dat) c"

definition fs_write_at :: "fs \<Rightarrow> string \<Rightarrow> nat \<Rightarrow> bytes \<Rightarrow> fs" where
  "fs_write_at f p pos dat =
     (case map_of (fs_files f) p of None \<Rightarrow> f | Some c \<Rightarrow> fs_set f p (write_at c pos dat))"

definition fs_rename :: "fs \<Rightarrow> string \<Rightarrow> string \<Rightarrow> (string + unit) \<times> fs" where
  "fs_rename f p q =
     (case map_of (fs_files f) p of
        None \<Rightarrow> (Inl not_found, f)
      | Some c \<Rightarrow>
          (case fs_write_err f q of
             Some e \<Rightarrow> (Inl e, f)
           | None \<Rightarrow> (Inr (), fs_set (f\<lparr> fs_files := AList.delete p (fs_files f) \<rparr>) q c)))"

definition fs_remove :: "fs \<Rightarrow> string \<Rightarrow> (string + unit) \<times> fs" where
  "fs_remove f p =
     (case map_of (fs_files f) p of
        None \<Rightarrow> (Inl not_found, f)
      | Some c \<Rightarrow>
          (case fs_write_err f p of
             Some e \<Rightarrow> (Inl e, f)
           | None \<Rightarrow> (Inr (), f\<lparr> fs_files := AList.delete p (fs_files f) \<rparr>)))"

text \<open>\<^verbatim>\<open>read_dir\<close>: the names of the files that are immediate children of the directory.\<close>

definition child_name :: "string \<Rightarrow> string \<Rightarrow> string option" where
  "child_name d p =
     (case strip_prefix (d @ ''/'') p of
        None \<Rightarrow> None
      | Some n \<Rightarrow> if CHR ''/'' \<in> set n then None else Some n)"

definition fs_list :: "fs \<Rightarrow> string \<Rightarrow> string list" where
  "fs_list f d = List.map_filter (\<lambda>(p, _). child_name d p) (fs_files f)"


section \<open>Segment files of a directory\<close>

text \<open>The identifier in a file name \<^verbatim>\<open>{prefix}{hex}{suffix}\<close>.\<close>

definition segment_id_of_name :: "string \<Rightarrow> string \<Rightarrow> string \<Rightarrow> u64 option" where
  "segment_id_of_name prefix suffix name =
     (case strip_prefix prefix name of
        None \<Rightarrow> None
      | Some s \<Rightarrow>
          (case strip_suffix suffix s of
             None \<Rightarrow> None
           | Some hex \<Rightarrow> u64_from_str_radix 16 hex))"

definition seg_file_name :: "string \<Rightarrow> string \<Rightarrow> u64 \<Rightarrow> string" where
  "seg_file_name prefix suffix i = prefix @ show_hex16 i @ suffix"

text \<open>The running maximum of \<open>id + 1\<close> (a wrapping sum) over the matching names.\<close>

definition scan_next_id :: "string \<Rightarrow> string \<Rightarrow> string list \<Rightarrow> u64" where
  "scan_next_id prefix suffix names =
     fold (\<lambda>n m. case segment_id_of_name prefix suffix n of None \<Rightarrow> m | Some i \<Rightarrow> max m (i + 1)) names 0"

definition sorted_segment_files :: "fs \<Rightarrow> string \<Rightarrow> string \<Rightarrow> string \<Rightarrow> (u64 \<times> string) list" where
  "sorted_segment_files f d prefix suffix =
     sort_key fst
       (List.map_filter
          (\<lambda>n. map_option (\<lambda>i. (i, join_path d n)) (segment_id_of_name prefix suffix n)) (fs_list f d))"


section \<open>Lemmas\<close>

lemma fs_set_get [simp]: "map_of (fs_files (fs_set f p c)) = (map_of (fs_files f))(p \<mapsto> c)"
  by (simp add: fs_set_def update_conv')

lemma fs_set_sel [simp]:
  "fs_dirs (fs_set f p c) = fs_dirs f" "fs_read_err (fs_set f p c) = fs_read_err f"
  "fs_write_err (fs_set f p c) = fs_write_err f"
  by (simp_all add: fs_set_def)

lemma length_write_at [simp]: "length (write_at c pos dat) = max (length c) (pos + length dat)"
  by (auto simp: write_at_def)

lemma write_at_end: "pos = length c \<Longrightarrow> write_at c pos dat = c @ dat"
  by (simp add: write_at_def resize_def)

lemma take_write_at: "pos \<le> length c \<Longrightarrow> n \<le> pos \<Longrightarrow> take n (write_at c pos dat) = take n c"
  by (simp add: write_at_def resize_def min_def)

lemma take_write_at_full:
  "pos \<le> length c \<Longrightarrow> take (pos + length dat) (write_at c pos dat) = take pos c @ dat"
  by (simp add: write_at_def resize_def)

lemma segment_id_of_name_seg_file_name [simp]:
  "segment_id_of_name prefix suffix (seg_file_name prefix suffix i) = Some i"
  by (simp add: segment_id_of_name_def seg_file_name_def strip_prefix_append strip_suffix_append
      u64_from_str_radix_show_hex16)

text \<open>The scan result is above every identifier in use, unless an identifier is \<^verbatim>\<open>u64::MAX\<close>.\<close>

lemma scan_next_id_fold:
  fixes m :: u64
  assumes "\<forall>n \<in> set names. segment_id_of_name prefix suffix n \<noteq> Some (- 1)"
  defines "r \<equiv> fold (\<lambda>n m. case segment_id_of_name prefix suffix n of
                      None \<Rightarrow> m | Some i \<Rightarrow> max m (i + 1)) names m"
  shows "m \<le> r \<and> (\<forall>n \<in> set names. \<forall>i. segment_id_of_name prefix suffix n = Some i \<longrightarrow> i < r)"
  using assms(1) unfolding r_def
proof (induction names arbitrary: m)
  case (Cons n names)
  show ?case
  proof (cases "segment_id_of_name prefix suffix n")
    case None
    with Cons.IH[of m] Cons.prems show ?thesis by auto
  next
    case (Some i)
    with Cons.prems have "i \<noteq> - 1" by auto
    then have "i < i + 1" by (rule u64_less_plus1)
    moreover note Cons.IH[of "max m (i + 1)"] Cons.prems Some
    ultimately show ?thesis
      by (auto simp: max_def not_le split: if_splits)
  qed
qed simp

lemma scan_next_id_fresh:
  assumes "\<forall>n \<in> set names. segment_id_of_name prefix suffix n \<noteq> Some (- 1)"
    and "n \<in> set names" and "segment_id_of_name prefix suffix n = Some i"
  shows "i < scan_next_id prefix suffix names"
  using scan_next_id_fold[OF assms(1)] assms(2,3) unfolding scan_next_id_def by blast

end
