(* ===== verification/EntryCache.thy ===== *)
theory EntryCache
  imports Fjall FileSystem
begin

text \<open>
  The two-tier write buffer and its flush loop (\<^verbatim>\<open>storage/entry_cache.rs\<close>), with the writer
  of entry segments (\<^verbatim>\<open>storage/entry_segment.rs\<close>). A \<^verbatim>\<open>HashMap\<close> is an association list with
  distinct keys; the order in which \<^verbatim>\<open>drain\<close> visits it is the argument \<open>ord\<close>. The outcomes of
  the asynchronous write and sync are arguments. One turn of the endless flush loop is
  \<open>flush_iteration\<close>; what other threads insert into the cache while the disk write is in
  flight is its argument \<open>during\<close>.
\<close>


section \<open>The cache\<close>

type_synonym entry_key = "u64 \<times> u64"

record EntrySegmentCache =
  ec_hot :: "(entry_key \<times> bytes) list"
  ec_warm :: "(entry_key \<times> bytes) list"
  ec_hot_bytes :: nat
  ec_flush_threshold :: nat

definition cache_new :: "nat \<Rightarrow> EntrySegmentCache" where
  "cache_new threshold =
     \<lparr> ec_hot = [], ec_warm = [], ec_hot_bytes = 0, ec_flush_threshold = threshold \<rparr>"

definition cache_insert :: "EntrySegmentCache \<Rightarrow> u64 \<Rightarrow> u64 \<Rightarrow> bytes \<Rightarrow> EntrySegmentCache" where
  "cache_insert c lid eid payload =
     (if map_of (ec_warm c) (lid, eid) \<noteq> None then c
      else
        c\<lparr> ec_hot := AList.update (lid, eid) payload (ec_hot c),
           ec_hot_bytes := (if map_of (ec_hot c) (lid, eid) = None
                            then ec_hot_bytes c + length payload else ec_hot_bytes c) \<rparr>)"

definition cache_get :: "EntrySegmentCache \<Rightarrow> u64 \<Rightarrow> u64 \<Rightarrow> bytes option" where
  "cache_get c lid eid =
     (case map_of (ec_hot c) (lid, eid) of
        Some p \<Rightarrow> Some p
      | None \<Rightarrow> map_of (ec_warm c) (lid, eid))"

definition cache_contains :: "EntrySegmentCache \<Rightarrow> u64 \<Rightarrow> u64 \<Rightarrow> bool" where
  "cache_contains c lid eid \<longleftrightarrow>
     map_of (ec_hot c) (lid, eid) \<noteq> None \<or> map_of (ec_warm c) (lid, eid) \<noteq> None"

definition is_full :: "EntrySegmentCache \<Rightarrow> bool" where
  "is_full c \<longleftrightarrow> ec_hot_bytes c \<ge> ec_flush_threshold c"

type_synonym drain_order = "(entry_key \<times> bytes) list \<Rightarrow> (entry_key \<times> bytes) list"

definition drain_hot_to_warm ::
  "drain_order \<Rightarrow> EntrySegmentCache \<Rightarrow> (u64 \<times> u64 \<times> bytes) list \<times> EntrySegmentCache" where
  "drain_hot_to_warm ord c =
     (let entries = map (\<lambda>((lid, eid), payload). (lid, eid, payload)) (ord (ec_hot c))
      in (entries,
          c\<lparr> ec_hot_bytes := 0, ec_hot := [],
             ec_warm := fold (\<lambda>(lid, eid, payload). AList.update (lid, eid) payload) entries (ec_warm c) \<rparr>))"

definition evict_warm :: "EntrySegmentCache \<Rightarrow> EntrySegmentCache" where
  "evict_warm c = c\<lparr> ec_warm := [] \<rparr>"

definition is_hot_empty :: "EntrySegmentCache \<Rightarrow> bool" where
  "is_hot_empty c \<longleftrightarrow> ec_hot c = []"


section \<open>Entry segments\<close>

definition entry_seg_path :: "string \<Rightarrow> SegmentId \<Rightarrow> string" where
  "entry_seg_path d i = join_path d (seg_file_name ''entry-'' ''.ent'' i)"

definition scan_next_entry_seg_id :: "fs \<Rightarrow> string \<Rightarrow> SegmentId" where
  "scan_next_entry_seg_id f d = scan_next_id ''entry-'' ''.ent'' (fs_list f d)"

definition next_entry_seg_id :: "'k db_api \<Rightarrow> string \<Rightarrow> 'k \<Rightarrow> fs \<Rightarrow> string \<Rightarrow> SegmentId result" where
  "next_entry_seg_id D reg ks f d =
     (case max_id D reg ks of
        Inl e \<Rightarrow> Inl e
      | Inr m \<Rightarrow>
          Inr (max (scan_next_entry_seg_id f d) (case m of None \<Rightarrow> 0 | Some i \<Rightarrow> i + 1)))"

record EntrySegmentWriter =
  ew_id :: SegmentId
  ew_path :: string
  ew_file_offset :: u64

definition writer_create :: "fs \<Rightarrow> string \<Rightarrow> SegmentId \<Rightarrow> EntrySegmentWriter result \<times> fs" where
  "writer_create f d i =
     (let path = entry_seg_path d i in
      case fs_open_create f path True of
        (Inl e, f') \<Rightarrow> (Inl (Storage (''entry segment create '' @ path @ '': '' @ e)), f')
      | (Inr _, f') \<Rightarrow> (Inr \<lparr> ew_id = i, ew_path = path, ew_file_offset = 0 \<rparr>, f'))"

text \<open>What the kernel answers to a positioned write: a byte count, or an error after some bytes.\<close>

datatype io_write = WOk nat | WErr string nat

fun io_written :: "io_write \<Rightarrow> nat" where
  "io_written (WOk n) = n"
| "io_written (WErr _ n) = n"

definition write_batch ::
  "(bytes \<Rightarrow> u32) \<Rightarrow> EntrySegmentWriter \<Rightarrow> fs \<Rightarrow> (u64 \<times> u64 \<times> bytes) list \<Rightarrow> io_write
   \<Rightarrow> (u64 \<times> u32) list result \<times> EntrySegmentWriter \<times> fs" where
  "write_batch crc w f entries outcome =
     (if entries = [] then (Inr [], w, f)
      else
        let base_pos = ew_file_offset w;
            (buf, offs) = push_all crc AlignedBuffer_new entries;
            per_entry = map (\<lambda>(off, len). (base_pos + of_nat off, len)) offs;
            padded = padded_aligned buf;
            write_len = length padded;
            aligned = make_aligned padded;
            f' = fs_write_at f (ew_path w) (unat base_pos) (take (io_written outcome) aligned)
        in case outcome of
             WOk n \<Rightarrow>
               (if n < write_len then
                  (Inl (Storage (''entry segment short write at offset '' @ show_u64 base_pos
                     @ '': expected '' @ show_nat write_len @ '' bytes, wrote '' @ show_nat n)), w, f')
                else (Inr per_entry, w\<lparr> ew_file_offset := base_pos + of_nat write_len \<rparr>, f'))
           | WErr e _ \<Rightarrow> (Inl (Storage (''entry segment write_at: '' @ e)), w, f'))"

text \<open>The outcome of \<^verbatim>\<open>sync_all\<close> is \<open>None\<close> or the error's text.\<close>

definition writer_sync :: "string option \<Rightarrow> unit result" where
  "writer_sync outcome =
     (case outcome of None \<Rightarrow> Inr () | Some e \<Rightarrow> Inl (Storage (''entry segment sync: '' @ e)))"

text \<open>\<^verbatim>\<open>read_record_at\<close>, a positioned read of the announced length.\<close>

definition read_record_at :: "(bytes \<Rightarrow> u32) \<Rightarrow> fs \<Rightarrow> string \<Rightarrow> u64 \<Rightarrow> u32 \<Rightarrow> bytes result" where
  "read_record_at crc f path off len =
     (case map_of (fs_files f) path of
        None \<Rightarrow> Inl (Storage (''open '' @ path @ '': '' @ not_found))
      | Some c \<Rightarrow>
          (case fs_read_err f path of
             Some e \<Rightarrow> Inl (Storage (''read_at '' @ show_u64 off @ '': '' @ e))
           | None \<Rightarrow>
               (let buf = subrange (unat off) (unat off + unat len) c in
                if length buf < unat len then
                  Inl (Storage (''entry segment short read at '' @ show_u64 off @ '': expected ''
                    @ show_nat (unat len) @ '' got '' @ show_nat (length buf)))
                else case decode_record crc buf 0 of
                       Inl e \<Rightarrow> Inl e
                     | Inr (_, _, payload, _) \<Rightarrow> Inr payload)))"


section \<open>The flush loop\<close>

record flush_config =
  fc_entries_dir :: string
  fc_entry_index :: FjallIndex
  fc_wal_index :: FjallIndex
  fc_entry_registry :: string
  fc_seal_threshold :: u64

record 'k flush_state =
  fl_ks :: 'k
  fl_fs :: fs
  fl_cache :: EntrySegmentCache
  fl_writer :: EntrySegmentWriter
  fl_next_seg_id :: SegmentId
  fl_ledger_sizes :: "(u64 \<times> u64) list"
  fl_sealed :: "SegmentId option"

definition entry_meta :: "SegmentId \<Rightarrow> string \<Rightarrow> u64 \<Rightarrow> (u64 \<times> u64) list \<Rightarrow> SegmentMeta" where
  "entry_meta i path len sizes =
     \<lparr> sm_id = i, sm_kind = EntryKind, sm_status = Active, sm_local_path = Some path,
       sm_s3_key = None, sm_byte_len = len, sm_ledger_sizes = sizes \<rparr>"

definition open_active_segment ::
  "'k db_api \<Rightarrow> flush_config \<Rightarrow> 'k \<Rightarrow> fs \<Rightarrow> SegmentId \<Rightarrow> EntrySegmentWriter result \<times> 'k \<times> fs" where
  "open_active_segment D cfg ks f i =
     (case writer_create f (fc_entries_dir cfg) i of
        (Inl e, f') \<Rightarrow> (Inl e, ks, f')
      | (Inr w, f') \<Rightarrow>
          (case upsert D (fc_entry_registry cfg) ks (entry_meta i (ew_path w) 0 []) of
             (Inl e, ks') \<Rightarrow> (Inl e, ks', f')
           | (Inr _, ks') \<Rightarrow> (Inr w, ks', f')))"

definition seal_active_segment ::
  "'k db_api \<Rightarrow> flush_config \<Rightarrow> 'k \<Rightarrow> SegmentId \<Rightarrow> SegmentId option \<Rightarrow> unit result \<times> 'k \<times> SegmentId option" where
  "seal_active_segment D cfg ks i sealed =
     (case cas_status D (fc_entry_registry cfg) ks i Active Local of
        (Inl e, ks') \<Rightarrow> (Inl e, ks', sealed)
      | (Inr _, ks') \<Rightarrow> (Inr (), ks', Some i))"

text \<open>The start-up pass over segments that a previous run left in status \<open>from\<close>.\<close>

fun reset_orphans ::
  "'k db_api \<Rightarrow> flush_config \<Rightarrow> SegmentStatus \<Rightarrow> SegmentMeta list \<Rightarrow> 'k \<times> SegmentId option
   \<Rightarrow> 'k \<times> SegmentId option" where
  "reset_orphans D cfg from [] (ks, sealed) = (ks, sealed)"
| "reset_orphans D cfg from (meta # metas) (ks, sealed) =
     (if sm_kind meta = EntryKind then
        reset_orphans D cfg from metas
          (snd (cas_status D (fc_entry_registry cfg) ks (sm_id meta) from Local), Some (sm_id meta))
      else reset_orphans D cfg from metas (ks, sealed))"

definition reset_status ::
  "'k db_api \<Rightarrow> flush_config \<Rightarrow> SegmentStatus \<Rightarrow> 'k \<times> SegmentId option \<Rightarrow> 'k \<times> SegmentId option" where
  "reset_status D cfg from s =
     (case list_by_status D (fc_entry_registry cfg) (fst s) from of
        Inl _ \<Rightarrow> s
      | Inr orphans \<Rightarrow> reset_orphans D cfg from orphans s)"

text \<open>Everything \<^verbatim>\<open>flush_loop\<close> does before its loop.\<close>

definition flush_start ::
  "'k db_api \<Rightarrow> flush_config \<Rightarrow> 'k \<Rightarrow> fs \<Rightarrow> EntrySegmentCache \<Rightarrow> 'k flush_state result" where
  "flush_start D cfg ks f cache =
     (let f0 = f\<lparr> fs_dirs := List.insert (fc_entries_dir cfg) (fs_dirs f) \<rparr>;
          (ks1, sealed1) = reset_status D cfg Active (ks, None);
          (ks2, sealed2) = reset_status D cfg Offloading (ks1, sealed1)
      in case next_entry_seg_id D (fc_entry_registry cfg) ks2 f0 (fc_entries_dir cfg) of
           Inl e \<Rightarrow> Inl e
         | Inr i \<Rightarrow>
             (case open_active_segment D cfg ks2 f0 i of
                (Inl e, _, _) \<Rightarrow> Inl e
              | (Inr w, ks3, f1) \<Rightarrow>
                  Inr \<lparr> fl_ks = ks3, fl_fs = f1, fl_cache = cache, fl_writer = w,
                        fl_next_seg_id = i, fl_ledger_sizes = [], fl_sealed = sealed2 \<rparr>))"

text \<open>The loop over the written batch: index the entry, drop its WAL location, count its bytes.\<close>

definition add_size :: "(u64 \<times> u64) list \<Rightarrow> u64 \<Rightarrow> u32 \<Rightarrow> (u64 \<times> u64) list" where
  "add_size sizes lid len =
     AList.update lid ((case map_of sizes lid of None \<Rightarrow> 0 | Some n \<Rightarrow> n) + ucast len) sizes"

fun index_batch ::
  "'k db_api \<Rightarrow> flush_config \<Rightarrow> SegmentId \<Rightarrow> 'k \<Rightarrow> (u64 \<times> u64) list
   \<Rightarrow> ((u64 \<times> u64 \<times> bytes) \<times> (u64 \<times> u32)) list \<Rightarrow> (u64 \<times> u64) list result \<times> 'k" where
  "index_batch D cfg seg ks sizes [] = (Inr sizes, ks)"
| "index_batch D cfg seg ks sizes (((lid, eid, _), (off, len)) # rest) =
     (case insert_location D (fc_entry_index cfg) ks lid eid seg off len of
        (Inl e, ks1) \<Rightarrow> (Inl e, ks1)
      | (Inr _, ks1) \<Rightarrow>
          index_batch D cfg seg (snd (delete_location D (fc_wal_index cfg) ks1 lid eid))
            (add_size sizes lid len) rest)"

text \<open>The tail of one turn, from the registry update on; \<open>cache\<close> is the cache at that time.\<close>

definition flush_finish ::
  "'k db_api \<Rightarrow> flush_config \<Rightarrow> 'k flush_state \<Rightarrow> unit result \<times> 'k flush_state" where
  "flush_finish D cfg st =
     (let w = fl_writer st; seg = ew_id w in
      case upsert D (fc_entry_registry cfg) (fl_ks st)
             (entry_meta seg (entry_seg_path (fc_entries_dir cfg) seg) (ew_file_offset w) (fl_ledger_sizes st)) of
        (Inl e, ks1) \<Rightarrow> (Inl e, st\<lparr> fl_ks := ks1 \<rparr>)
      | (Inr _, ks1) \<Rightarrow>
          (if ew_file_offset w \<ge> fc_seal_threshold cfg then
             (case seal_active_segment D cfg ks1 seg (fl_sealed st) of
                (Inl e, ks2, sealed) \<Rightarrow> (Inl e, st\<lparr> fl_ks := ks2, fl_sealed := sealed \<rparr>)
              | (Inr _, ks2, sealed) \<Rightarrow>
                  (let st1 = st\<lparr> fl_ks := ks2, fl_sealed := sealed,
                                 fl_cache := evict_warm (fl_cache st),
                                 fl_next_seg_id := fl_next_seg_id st + 1 \<rparr>
                   in case open_active_segment D cfg ks2 (fl_fs st) (fl_next_seg_id st1) of
                        (Inl e, ks3, f1) \<Rightarrow> (Inl e, st1\<lparr> fl_ks := ks3, fl_fs := f1 \<rparr>)
                      | (Inr w1, ks3, f1) \<Rightarrow>
                          (Inr (), st1\<lparr> fl_ks := ks3, fl_fs := f1, fl_writer := w1,
                                        fl_ledger_sizes := [] \<rparr>)))
           else (Inr (), st\<lparr> fl_ks := ks1 \<rparr>)))"

definition insert_all :: "EntrySegmentCache \<Rightarrow> (u64 \<times> u64 \<times> bytes) list \<Rightarrow> EntrySegmentCache" where
  "insert_all c xs = fold (\<lambda>(l, e, p) c. cache_insert c l e p) xs c"

definition flush_iteration ::
  "'k db_api \<Rightarrow> (bytes \<Rightarrow> u32) \<Rightarrow> drain_order \<Rightarrow> flush_config \<Rightarrow> io_write \<Rightarrow> string option
   \<Rightarrow> (u64 \<times> u64 \<times> bytes) list \<Rightarrow> 'k flush_state \<Rightarrow> unit result \<times> 'k flush_state" where
  "flush_iteration D crc ord cfg write_outcome sync_outcome during st =
     (case drain_hot_to_warm ord (fl_cache st) of
        (entries, cache1) \<Rightarrow>
          (if entries = [] then (Inr (), st\<lparr> fl_cache := cache1 \<rparr>)
           else
             case write_batch crc (fl_writer st) (fl_fs st) entries write_outcome of
               (Inl e, w, f1) \<Rightarrow>
                 (Inl e, st\<lparr> fl_cache := insert_all cache1 during, fl_writer := w, fl_fs := f1 \<rparr>)
             | (Inr offsets, w, f1) \<Rightarrow>
                 (let st1 = st\<lparr> fl_cache := insert_all cache1 during, fl_writer := w, fl_fs := f1 \<rparr> in
                  case writer_sync sync_outcome of
                    Inl e \<Rightarrow> (Inl e, st1)
                  | Inr _ \<Rightarrow>
                      (case index_batch D cfg (ew_id w) (fl_ks st) (fl_ledger_sizes st)
                              (zip entries offsets) of
                         (Inl e, ks1) \<Rightarrow> (Inl e, st1\<lparr> fl_ks := ks1 \<rparr>)
                       | (Inr sizes, ks1) \<Rightarrow>
                           flush_finish D cfg (st1\<lparr> fl_ks := ks1, fl_ledger_sizes := sizes \<rparr>)))))"


text \<open>
  The wait before a turn. Each round looks at the cache before and after the sleep; the result is the
  number of sleeps, or nothing while the wait goes on.
\<close>

fun flush_wait :: "(EntrySegmentCache \<times> EntrySegmentCache) list \<Rightarrow> nat option" where
  "flush_wait [] = None"
| "flush_wait ((before, after) # rounds) =
     (if is_full before then Some 0
      else if \<not> is_hot_empty after then Some 1
      else map_option Suc (flush_wait rounds))"

text \<open>The outcomes of one turn, and the turns of the loop up to the first error.\<close>

record flush_turn =
  ft_order :: drain_order
  ft_write :: io_write
  ft_sync :: "string option"
  ft_during :: "(u64 \<times> u64 \<times> bytes) list"

fun flush_turns ::
  "'k db_api \<Rightarrow> (bytes \<Rightarrow> u32) \<Rightarrow> flush_config \<Rightarrow> flush_turn list \<Rightarrow> 'k flush_state \<Rightarrow> FolioError option \<times> 'k flush_state" where
  "flush_turns D crc cfg [] st = (None, st)"
| "flush_turns D crc cfg (t # ts) st =
     (case flush_iteration D crc (ft_order t) cfg (ft_write t) (ft_sync t) (ft_during t) st of
        (Inl e, st') \<Rightarrow> (Some e, st')
      | (Inr _, st') \<Rightarrow> flush_turns D crc cfg ts st')"

text \<open>The thread: the error that ends it is logged, and nothing starts it again.\<close>

definition spawn_flush_loop ::
  "'k db_api \<Rightarrow> (bytes \<Rightarrow> u32) \<Rightarrow> flush_config \<Rightarrow> flush_turn list \<Rightarrow> 'k \<Rightarrow> fs \<Rightarrow> EntrySegmentCache
   \<Rightarrow> FolioError option \<times> 'k flush_state option" where
  "spawn_flush_loop D crc cfg ts ks f cache =
     (case flush_start D cfg ks f cache of
        Inl e \<Rightarrow> (Some e, None)
      | Inr st \<Rightarrow> apsnd Some (flush_turns D crc cfg ts st))"

lemma flush_turns_append:
  "flush_turns D crc cfg (ts @ us) st =
     (case flush_turns D crc cfg ts st of (Some e, st') \<Rightarrow> (Some e, st') | (None, st') \<Rightarrow> flush_turns D crc cfg us st')"
  by (induction ts arbitrary: st) (auto split: prod.splits sum.splits)


section \<open>The cache as a map\<close>

definition cache_wf :: "EntrySegmentCache \<Rightarrow> bool" where
  "cache_wf c \<longleftrightarrow> distinct (map fst (ec_hot c)) \<and> distinct (map fst (ec_warm c))
     \<and> fst ` set (ec_hot c) \<inter> fst ` set (ec_warm c) = {}"

definition is_drain_order :: "drain_order \<Rightarrow> bool" where
  "is_drain_order ord \<longleftrightarrow> (\<forall>xs. set (ord xs) = set xs \<and> length (ord xs) = length xs)"

lemma cache_contains_get: "cache_contains c l e \<longleftrightarrow> cache_get c l e \<noteq> None"
  by (auto simp: cache_contains_def cache_get_def split: option.splits)

lemma map_of_None_key: "map_of xs k = None \<longleftrightarrow> k \<notin> fst ` set xs"
  by (simp add: map_of_eq_None_iff)

lemma cache_new_wf [simp]: "cache_wf (cache_new n)"
  by (simp add: cache_wf_def cache_new_def)

lemma cache_insert_wf [intro]: "cache_wf c \<Longrightarrow> cache_wf (cache_insert c l e p)"
  by (auto simp: cache_wf_def cache_insert_def map_of_None_key distinct_update dom_update
      simp flip: dom_map_of_conv_image_fst simp: update_conv')

lemma cache_insert_warm [simp]: "ec_warm (cache_insert c l e p) = ec_warm c"
  by (simp add: cache_insert_def)

lemma cache_get_insert:
  "cache_get (cache_insert c l e p) l' e' =
     (if (l', e') = (l, e) \<and> map_of (ec_warm c) (l, e) = None then Some p else cache_get c l' e')"
  by (auto simp: cache_get_def cache_insert_def update_conv' split: option.splits)

lemma insert_all_warm [simp]: "ec_warm (insert_all c xs) = ec_warm c"
  unfolding insert_all_def by (induction xs arbitrary: c) (auto simp: case_prod_beta)

lemma insert_all_wf: "cache_wf c \<Longrightarrow> cache_wf (insert_all c xs)"
  unfolding insert_all_def by (induction xs arbitrary: c) (auto simp: case_prod_beta)

lemma warm_get: "cache_wf c \<Longrightarrow> map_of (ec_warm c) (l, e) = Some p \<Longrightarrow> cache_get c l e = Some p"
proof -
  assume wf: "cache_wf c" and "map_of (ec_warm c) (l, e) = Some p"
  then have "(l, e) \<in> fst ` set (ec_warm c)" by (metis map_of_None_key option.distinct(1))
  with wf have "map_of (ec_hot c) (l, e) = None" by (auto simp: cache_wf_def map_of_None_key)
  then show ?thesis using \<open>map_of (ec_warm c) (l, e) = Some p\<close> by (simp add: cache_get_def)
qed

lemma insert_all_get_warm:
  "cache_wf c \<Longrightarrow> map_of (ec_warm c) (l, e) = Some p \<Longrightarrow> cache_get (insert_all c xs) l e = Some p"
  by (rule warm_get) (auto intro: insert_all_wf)

lemma cache_get_insert_all_other:
  "(l, e) \<notin> (\<lambda>(l, e, p). (l, e)) ` set xs \<Longrightarrow> cache_get (insert_all c xs) l e = cache_get c l e"
  unfolding insert_all_def by (induction xs arbitrary: c) (auto simp: cache_get_insert)

text \<open>Folding updates with distinct keys.\<close>

lemma fold_update_map_of:
  assumes "distinct (map fst xs)"
  shows "map_of (fold (\<lambda>(k, v). AList.update k v) xs ys) k
    = (case map_of xs k of Some v \<Rightarrow> Some v | None \<Rightarrow> map_of ys k)"
  using assms
proof (induction xs arbitrary: ys)
  case (Cons x xs)
  obtain k' v' where x: "x = (k', v')" by force
  with Cons.prems have "map_of xs k' = None" by (auto simp: map_of_None_key)
  with Cons x show ?case
    by (auto simp: update_conv' split: option.splits)
qed simp

lemma fold_update_distinct:
  "distinct (map fst ys) \<Longrightarrow> distinct (map fst (fold (\<lambda>(k, v). AList.update k v) xs ys))"
  by (induction xs arbitrary: ys) (auto simp: distinct_update)

lemma drain_warm:
  "ec_warm (snd (drain_hot_to_warm ord c)) = fold (\<lambda>(k, v). AList.update k v) (ord (ec_hot c)) (ec_warm c)"
  by (simp add: drain_hot_to_warm_def Let_def fold_map comp_def case_prod_unfold)

lemma drain_hot [simp]: "ec_hot (snd (drain_hot_to_warm ord c)) = []"
  by (simp add: drain_hot_to_warm_def Let_def)

lemma drain_fst: "fst (drain_hot_to_warm ord c) = map (\<lambda>((l, e), p). (l, e, p)) (ord (ec_hot c))"
  by (simp add: drain_hot_to_warm_def Let_def)

lemma ord_facts:
  assumes "is_drain_order ord" and "distinct (map fst xs)"
  shows "distinct (map fst (ord xs))" and "map_of (ord xs) = map_of xs" and "set (ord xs) = set xs"
proof -
  from assms(1) show s: "set (ord xs) = set xs" by (simp add: is_drain_order_def)
  have "card (fst ` set (ord xs)) = length (map fst (ord xs))"
    using assms distinct_card[of "map fst xs"] by (simp add: is_drain_order_def)
  then show d: "distinct (map fst (ord xs))"
    by (metis card_distinct list.set_map)
  show "map_of (ord xs) = map_of xs"
    using s d assms(2) by (metis map_of_inject_set)
qed

lemma drain_wf:
  assumes "cache_wf c" and "is_drain_order ord"
  shows "cache_wf (snd (drain_hot_to_warm ord c))"
  using assms unfolding cache_wf_def drain_warm
  by (simp add: fold_update_distinct)

lemma drain_lookup:
  assumes "cache_wf c" and "is_drain_order ord"
  shows "map_of (ec_warm (snd (drain_hot_to_warm ord c))) (l, e) = cache_get c l e"
  unfolding drain_warm
  using assms ord_facts[OF assms(2), of "ec_hot c"] fold_update_map_of[of "ord (ec_hot c)"]
  by (auto simp: cache_wf_def cache_get_def split: option.splits)

text \<open>Draining changes no read: what was hot is warm, and the returned batch is what was hot.\<close>

lemma drain_get:
  assumes "cache_wf c" and "is_drain_order ord"
  shows "cache_get (snd (drain_hot_to_warm ord c)) l e = cache_get c l e"
  unfolding cache_get_def[of "snd _"] drain_lookup[OF assms] by simp

lemma drain_entries:
  assumes "cache_wf c" and "is_drain_order ord"
  shows "(l, e, p) \<in> set (fst (drain_hot_to_warm ord c)) \<longleftrightarrow> map_of (ec_hot c) (l, e) = Some p"
    and "distinct (map (\<lambda>(l, e, p). (l, e)) (fst (drain_hot_to_warm ord c)))"
proof -
  have wf: "distinct (map fst (ec_hot c))" using assms(1) by (simp add: cache_wf_def)
  note o = ord_facts[OF assms(2) wf]
  show "(l, e, p) \<in> set (fst (drain_hot_to_warm ord c)) \<longleftrightarrow> map_of (ec_hot c) (l, e) = Some p"
    using o(3) wf by (force simp: drain_fst)
  have "map (\<lambda>(l, e, p). (l, e)) (fst (drain_hot_to_warm ord c)) = map fst (ord (ec_hot c))"
    by (simp add: drain_fst comp_def case_prod_unfold)
  with o(1) show "distinct (map (\<lambda>(l, e, p). (l, e)) (fst (drain_hot_to_warm ord c)))" by simp
qed


section \<open>The written batch\<close>

lemma write_batch_ok:
  assumes "write_batch crc w f es outcome = (Inr offs, w', f')" and "es \<noteq> []"
    and c: "map_of (fs_files f) (ew_path w) = Some c" and lc: "length c = unat (ew_file_offset w)"
    and fit: "batch_fits crc (length c) es"
  shows "map_of (fs_files f') = (map_of (fs_files f))(ew_path w \<mapsto> c @ padded_batch crc es)"
    and "w' = w\<lparr> ew_file_offset := of_nat (length (c @ padded_batch crc es)) \<rparr>"
    and "offs = map (\<lambda>(off, len). (ew_file_offset w + of_nat off, len)) (batch_offsets 0 es)"
    and "fs_read_err f' = fs_read_err f"
proof -
  have pa: "push_all crc AlignedBuffer_new es = (\<lparr> ab_inner = batch_bytes crc es \<rparr>, batch_offsets 0 es)"
    by (simp add: push_all_eq AlignedBuffer_new_def)
  note pb = padded_batch_eq[OF fit]
  from assms(1,2) obtain n where n: "outcome = WOk n" "\<not> n < length (padded_batch crc es)"
    by (cases outcome) (auto simp: write_batch_def pa Let_def split: if_splits)
  have off: "ew_file_offset w = of_nat (length c)" using lc by simp
  have f': "f' = fs_write_at f (ew_path w) (length c) (padded_batch crc es)"
    using assms(1,2) n lc by (auto simp: write_batch_def pa Let_def pb(4) split: if_splits)
  then show "map_of (fs_files f') = (map_of (fs_files f))(ew_path w \<mapsto> c @ padded_batch crc es)"
    and "fs_read_err f' = fs_read_err f"
    by (simp_all add: fs_write_at_def c write_at_end)
  show "w' = w\<lparr> ew_file_offset := of_nat (length (c @ padded_batch crc es)) \<rparr>"
    using assms(1,2) n off by (auto simp: write_batch_def pa Let_def split: if_splits)
  show "offs = map (\<lambda>(off, len). (ew_file_offset w + of_nat off, len)) (batch_offsets 0 es)"
    using assms(1,2) n by (auto simp: write_batch_def pa Let_def split: if_splits)
qed

lemma write_batch_err:
  "write_batch crc w f es outcome = (Inl err, w', f') \<Longrightarrow>
   w' = w \<and> (\<forall>q. q \<noteq> ew_path w \<longrightarrow> map_of (fs_files f') q = map_of (fs_files f) q)"
  by (auto simp: write_batch_def Let_def fs_write_at_def split: if_splits io_write.splits option.splits prod.splits)

lemma write_batch_appends:
  assumes "write_batch crc w f es outcome = (r, w', f')"
    and c: "map_of (fs_files f) (ew_path w) = Some c" and lc: "length c = unat (ew_file_offset w)"
  shows "\<exists>ext. map_of (fs_files f') = (map_of (fs_files f))(ew_path w \<mapsto> c @ ext)"
    and "ew_id w' = ew_id w" and "ew_path w' = ew_path w"
proof -
  have "es = [] \<and> f' = f \<or> (\<exists>dat. f' = fs_write_at f (ew_path w) (length c) dat)"
    using assms(1) lc by (auto simp: write_batch_def Let_def split: if_splits io_write.splits prod.splits)
  then show "\<exists>ext. map_of (fs_files f') = (map_of (fs_files f))(ew_path w \<mapsto> c @ ext)"
    using c by (auto simp: fs_write_at_def write_at_end fun_upd_idem intro: exI[of _ "[]"])
  show "ew_id w' = ew_id w" and "ew_path w' = ew_path w"
    using assms(1) by (auto simp: write_batch_def Let_def split: if_splits io_write.splits prod.splits)
qed


section \<open>No read gap\<close>

text \<open>An entry is on disk when the index leads to an intact record of an entry segment.\<close>

definition on_disk ::
  "(bytes \<Rightarrow> u32) \<Rightarrow> string \<Rightarrow> fs \<Rightarrow> (entry_key \<Rightarrow> IndexValue option) \<Rightarrow> u64 \<Rightarrow> u64 \<Rightarrow> bytes \<Rightarrow> bool" where
  "on_disk crc d f loc l e p \<longleftrightarrow>
     (\<exists>iv c. loc (l, e) = Some iv \<and> map_of (fs_files f) (entry_seg_path d (iv_segment_id iv)) = Some c
        \<and> unat (iv_length iv) = 24 + length p \<and> rec_at crc c (unat (iv_offset iv)) l e p)"

text \<open>What a reader sees: the cache first, then the index.\<close>

definition entry_visible ::
  "(bytes \<Rightarrow> u32) \<Rightarrow> string \<Rightarrow> fs \<Rightarrow> (entry_key \<Rightarrow> IndexValue option) \<Rightarrow> EntrySegmentCache
   \<Rightarrow> u64 \<Rightarrow> u64 \<Rightarrow> bytes \<Rightarrow> bool" where
  "entry_visible crc d f loc cache l e p \<longleftrightarrow>
     (case cache_get cache l e of Some q \<Rightarrow> q = p | None \<Rightarrow> on_disk crc d f loc l e p)"

definition entry_locs ::
  "'k db_api \<Rightarrow> ('k \<Rightarrow> string \<Rightarrow> bytes \<Rightarrow> bytes option) \<Rightarrow> flush_config \<Rightarrow> 'k \<Rightarrow> entry_key \<Rightarrow> IndexValue option" where
  "entry_locs D kv cfg ks = loc_map D (kv ks (ix_locations (fc_entry_index cfg)))"

definition distinct_partitions :: "flush_config \<Rightarrow> bool" where
  "distinct_partitions cfg \<longleftrightarrow>
     ix_locations (fc_entry_index cfg) \<noteq> ix_locations (fc_wal_index cfg)
     \<and> ix_locations (fc_entry_index cfg) \<noteq> fc_entry_registry cfg"

text \<open>
  The invariant of the flush loop: the writer stands at the end of its file, every warm entry
  has its record in that file and its location in the index, and no index location names a
  segment younger than the active one.
\<close>

definition flush_inv ::
  "'k db_api \<Rightarrow> ('k \<Rightarrow> string \<Rightarrow> bytes \<Rightarrow> bytes option) \<Rightarrow> (bytes \<Rightarrow> u32) \<Rightarrow> flush_config \<Rightarrow> 'k flush_state \<Rightarrow> bool" where
  "flush_inv D kv crc cfg st \<longleftrightarrow>
     (let w = fl_writer st; locs = entry_locs D kv cfg (fl_ks st) in
      cache_wf (fl_cache st) \<and> ew_path w = entry_seg_path (fc_entries_dir cfg) (ew_id w)
      \<and> ew_id w = fl_next_seg_id st
      \<and> (\<exists>c. map_of (fs_files (fl_fs st)) (ew_path w) = Some c \<and> length c = unat (ew_file_offset w))
      \<and> (\<forall>l e p. map_of (ec_warm (fl_cache st)) (l, e) = Some p \<longrightarrow>
            on_disk crc (fc_entries_dir cfg) (fl_fs st) locs l e p
            \<and> (\<forall>iv. locs (l, e) = Some iv \<longrightarrow> iv_segment_id iv = ew_id w))
      \<and> (\<forall>k iv. locs k = Some iv \<longrightarrow> iv_segment_id iv \<le> fl_next_seg_id st))"

text \<open>
  What the environment of the turns must respect: the cache is drained in some order, the batches and
  the segment ids stay below the machine limits. The keys that other threads insert meanwhile.
\<close>

fun turns_fit :: "'k db_api \<Rightarrow> (bytes \<Rightarrow> u32) \<Rightarrow> flush_config \<Rightarrow> flush_turn list \<Rightarrow> 'k flush_state \<Rightarrow> bool" where
  "turns_fit D crc cfg [] st \<longleftrightarrow> True"
| "turns_fit D crc cfg (t # ts) st \<longleftrightarrow>
     is_drain_order (ft_order t) \<and> fl_next_seg_id st \<noteq> - 1
     \<and> batch_fits crc (unat (ew_file_offset (fl_writer st))) (fst (drain_hot_to_warm (ft_order t) (fl_cache st)))
     \<and> (case flush_iteration D crc (ft_order t) cfg (ft_write t) (ft_sync t) (ft_during t) st of
          (Inl _, _) \<Rightarrow> True | (Inr _, st') \<Rightarrow> turns_fit D crc cfg ts st')"

definition inserted_during :: "flush_turn list \<Rightarrow> entry_key set" where
  "inserted_during ts = (\<Union>t \<in> set ts. (\<lambda>(l, e, p). (l, e)) ` set (ft_during t))"

lemma flush_inv_old:
  "flush_inv D kv crc cfg st \<Longrightarrow> entry_locs D kv cfg (fl_ks st) k = Some iv \<Longrightarrow> iv_segment_id iv \<le> fl_next_seg_id st"
  unfolding flush_inv_def Let_def by blast

lemma entry_seg_path_inject [simp]: "entry_seg_path d i = entry_seg_path d j \<longleftrightarrow> i = j"
proof
  assume "entry_seg_path d i = entry_seg_path d j"
  then have "seg_file_name ''entry-'' ''.ent'' i = seg_file_name ''entry-'' ''.ent'' j"
    by (simp add: entry_seg_path_def join_path_def)
  then show "i = j" using segment_id_of_name_seg_file_name by (metis option.inject)
qed simp

lemma on_disk_mono:
  assumes "on_disk crc d f loc l e p"
    and "\<And>iv c. loc (l, e) = Some iv \<Longrightarrow> map_of (fs_files f) (entry_seg_path d (iv_segment_id iv)) = Some c \<Longrightarrow>
      \<exists>ext. map_of (fs_files f') (entry_seg_path d (iv_segment_id iv)) = Some (c @ ext)"
    and "loc' (l, e) = loc (l, e)"
  shows "on_disk crc d f' loc' l e p"
proof -
  from assms(1) obtain iv c where iv: "loc (l, e) = Some iv"
    and c: "map_of (fs_files f) (entry_seg_path d (iv_segment_id iv)) = Some c"
    and r: "unat (iv_length iv) = 24 + length p" "rec_at crc c (unat (iv_offset iv)) l e p"
    by (auto simp: on_disk_def)
  from assms(2)[OF iv c] obtain ext where
    "map_of (fs_files f') (entry_seg_path d (iv_segment_id iv)) = Some (c @ ext)" by blast
  with iv r assms(3) show ?thesis by (auto simp: on_disk_def intro: rec_at_append)
qed

text \<open>An intact record is what a positioned read returns.\<close>

lemma on_disk_read:
  assumes "on_disk crc d f loc l e p" and "\<And>q. fs_read_err f q = None"
    and "\<And>q c. map_of (fs_files f) q = Some c \<Longrightarrow> length c < 2 ^ 64"
  shows "\<exists>iv. loc (l, e) = Some iv
    \<and> read_record_at crc f (entry_seg_path d (iv_segment_id iv)) (iv_offset iv) (iv_length iv) = Inr p"
proof -
  from assms(1) obtain iv c where iv: "loc (l, e) = Some iv"
    and c: "map_of (fs_files f) (entry_seg_path d (iv_segment_id iv)) = Some c"
    and n: "unat (iv_length iv) = 24 + length p" and r: "rec_at crc c (unat (iv_offset iv)) l e p"
    by (auto simp: on_disk_def)
  let ?b = "subrange (unat (iv_offset iv)) (unat (iv_offset iv) + unat (iv_length iv)) c"
  have b: "?b = encode_record crc l e p" using r n by (simp add: rec_at_def)
  have "24 + length p < 2 ^ 32" using n unat_u32_less[of "iv_length iv"] by simp
  then have "decode_record crc (encode_record crc l e p) 0 = Inr (l, e, p, 24 + length p)"
    using decode_record_at[of p "[]" crc l e "[]"] by simp
  then show ?thesis using iv c n assms(2) by (simp add: read_record_at_def b[unfolded n])
qed

text \<open>The ways one turn of the loop can go.\<close>

lemma flush_iteration_cases:
  fixes st :: "'k flush_state"
  assumes it: "flush_iteration D crc ord cfg wo so during st = (r, st')"
    and dr: "drain_hot_to_warm ord (fl_cache st) = (entries, cache1)"
    and wb: "write_batch crc (fl_writer st) (fl_fs st) entries wo = (r1, w, f1)"
  defines "mid \<equiv> st\<lparr> fl_cache := insert_all cache1 during, fl_writer := w, fl_fs := f1 \<rparr>"
  obtains (empty) "entries = []" "r = Inr ()" "st' = st\<lparr> fl_cache := cache1 \<rparr>"
    | (stop) "entries \<noteq> []" "isl r" "st' = mid"
    | (index) offs ks1 err where "entries \<noteq> []" "isl r" "st' = mid\<lparr> fl_ks := ks1 \<rparr>"
        "index_batch D cfg (ew_id w) (fl_ks st) (fl_ledger_sizes st) (zip entries offs) = (Inl err, ks1)" "r1 = Inr offs"
    | (finish) offs ks1 sizes where "entries \<noteq> []" "r1 = Inr offs"
        "index_batch D cfg (ew_id w) (fl_ks st) (fl_ledger_sizes st) (zip entries offs) = (Inr sizes, ks1)"
        "flush_finish D cfg (mid\<lparr> fl_ks := ks1, fl_ledger_sizes := sizes \<rparr>) = (r, st')"
proof (cases "entries = []")
  case True
  with it show thesis by (intro empty) (simp_all add: flush_iteration_def dr)
next
  case ne: False
  note it' = it[unfolded flush_iteration_def dr prod.case if_not_P[OF ne] wb, unfolded Let_def, folded mid_def]
  show thesis
  proof (cases r1)
    case (Inl e)
    with ne it' show thesis by (intro stop) (auto simp: mid_def)
  next
    case (Inr offs)
    obtain r2 ks1 where ib: "index_batch D cfg (ew_id w) (fl_ks st) (fl_ledger_sizes st) (zip entries offs) = (r2, ks1)"
      by force
    show thesis
    proof (cases "so = None")
      case False
      with ne it' Inr show thesis by (intro stop) (auto simp: writer_sync_def mid_def)
    next
      case True
      then have so: "writer_sync so = Inr ()" by (simp add: writer_sync_def)
      show thesis
      proof (cases r2)
        case e: (Inl e)
        show thesis using ne it' Inr so e ib by (intro index[of ks1 offs e]) (auto simp: mid_def)
      next
        case k: (Inr sizes)
        show thesis using ne it' Inr so k ib by (intro finish[of offs sizes ks1]) (auto simp: mid_def)
      qed
    qed
  qed
qed

context db_laws
begin

lemma delete_location_frame:
  assumes "q \<noteq> ix_locations idx"
  shows "kv (snd (delete_location D idx ks l e)) q = kv ks q"
proof (cases "delete_location D idx ks l e")
  case (Pair r ks')
  with assms show ?thesis
    by (cases r) (simp_all add: delete_location_err[of idx ks l e] delete_location_ok(2)[of idx ks l e])
qed

lemma upsert_frame:
  assumes "q \<noteq> p"
  shows "kv (snd (upsert D p ks meta)) q = kv ks q"
proof (cases "upsert D p ks meta")
  case (Pair r ks')
  with assms show ?thesis
    by (cases r) (simp_all add: upsert_err[of p ks meta] upsert_ok(2)[of p ks meta])
qed

lemma cas_status_frame:
  assumes "q \<noteq> p"
  shows "kv (snd (cas_status D p ks i a b)) q = kv ks q"
proof -
  have "snd (cas_status D p ks i a b) = ks \<or> (\<exists>m. snd (cas_status D p ks i a b) = snd (upsert D p ks m))"
    unfolding cas_status_def
    by (auto split: sum.splits option.splits prod.splits if_splits) (metis snd_conv)+
  then show ?thesis using upsert_frame[OF assms] by auto
qed

lemma insert_location_frame:
  "loc_map D (kv (snd (insert_location D idx ks l e seg off len)) (ix_locations idx)) k
     = loc_map D (kv ks (ix_locations idx)) k" if "k \<noteq> (l, e)"
proof (cases "insert_location D idx ks l e seg off len")
  case (Pair r ks')
  with that show ?thesis
    by (cases r) (simp_all add: insert_location_ok(1)[of idx ks l e seg off len] insert_location_err[of idx ks l e seg off len])
qed

lemma index_batch_frame:
  assumes "index_batch D cfg seg ks sizes zs = (r, ks')" and "distinct_partitions cfg"
    and "k \<notin> (\<lambda>((l, e, p), _). (l, e)) ` set zs"
  shows "entry_locs D kv cfg ks' k = entry_locs D kv cfg ks k"
  using assms(1,3)
proof (induction zs arbitrary: ks sizes)
  case (Cons z zs)
  obtain l e p off len where z: "z = ((l, e, p), (off, len))" by (metis prod.collapse)
  with Cons.prems have k: "k \<noteq> (l, e)" by auto
  let ?i = "insert_location D (fc_entry_index cfg) ks l e seg off len"
  have 1: "entry_locs D kv cfg (snd ?i) k = entry_locs D kv cfg ks k"
    using insert_location_frame[OF k] by (simp add: entry_locs_def)
  have 2: "entry_locs D kv cfg (snd (delete_location D (fc_wal_index cfg) ks1 l e)) = entry_locs D kv cfg ks1" for ks1
    using delete_location_frame assms(2) by (simp add: entry_locs_def distinct_partitions_def)
  show ?case
  proof (cases "fst ?i")
    case (Inl err)
    with Cons.prems(1) 1 show ?thesis by (auto simp: z split: prod.splits)
  next
    case (Inr u)
    with Cons.prems(1) have "index_batch D cfg seg (snd (delete_location D (fc_wal_index cfg) (snd ?i) l e))
        (add_size sizes l len) zs = (r, ks')"
      by (auto simp: z split: prod.splits)
    from Cons.IH[OF this] Cons.prems(2) 1 2 show ?thesis by simp
  qed
qed simp

lemma index_batch_ok:
  assumes "index_batch D cfg seg ks sizes zs = (Inr sizes', ks')" and "distinct_partitions cfg"
    and "distinct (map (\<lambda>((l, e, p), _). (l, e)) zs)" and "((l, e, p), (off, len)) \<in> set zs"
  shows "entry_locs D kv cfg ks' (l, e) = Some \<lparr> iv_segment_id = seg, iv_offset = off, iv_length = len \<rparr>"
  using assms(1,3,4)
proof (induction zs arbitrary: ks sizes)
  case (Cons z zs)
  obtain l1 e1 p1 off1 len1 where z: "z = ((l1, e1, p1), (off1, len1))" by (metis prod.collapse)
  from Cons.prems(1) obtain u ks1 where i: "insert_location D (fc_entry_index cfg) ks l1 e1 seg off1 len1 = (Inr u, ks1)"
    and rest: "index_batch D cfg seg (snd (delete_location D (fc_wal_index cfg) ks1 l1 e1))
        (add_size sizes l1 len1) zs = (Inr sizes', ks')"
    by (auto simp: z split: prod.splits sum.splits)
  show ?case
  proof (cases "((l, e, p), (off, len)) \<in> set zs")
    case True
    with Cons.IH[OF rest] Cons.prems show ?thesis by simp
  next
    case False
    with Cons.prems z have eq: "l1 = l" "e1 = e" "off1 = off" "len1 = len" by auto
    have "(l, e) \<notin> (\<lambda>((l, e, p), _). (l, e)) ` set zs"
      using Cons.prems(2) by (auto simp: z eq)
    from index_batch_frame[OF rest assms(2) this]
    have "entry_locs D kv cfg ks' (l, e) = entry_locs D kv cfg (snd (delete_location D (fc_wal_index cfg) ks1 l e)) (l, e)"
      by (simp add: eq)
    also have "\<dots> = entry_locs D kv cfg ks1 (l, e)"
      using delete_location_frame assms(2) by (simp add: entry_locs_def distinct_partitions_def)
    also have "\<dots> = Some \<lparr> iv_segment_id = seg, iv_offset = off, iv_length = len \<rparr>"
      using insert_location_ok(1)[OF i] by (simp add: entry_locs_def eq)
    finally show ?thesis .
  qed
qed simp

lemma open_active_segment_frame:
  assumes "open_active_segment D cfg ks f i = (r, ks', f')" and "distinct_partitions cfg"
  shows "entry_locs D kv cfg ks' = entry_locs D kv cfg ks"
    and "q \<noteq> entry_seg_path (fc_entries_dir cfg) i \<Longrightarrow> map_of (fs_files f') q = map_of (fs_files f) q"
    and "r = Inr w \<Longrightarrow> w = \<lparr> ew_id = i, ew_path = entry_seg_path (fc_entries_dir cfg) i, ew_file_offset = 0 \<rparr>
        \<and> map_of (fs_files f') (ew_path w) = Some []"
proof -
  have "ks' = ks \<or> (\<exists>m. ks' = snd (upsert D (fc_entry_registry cfg) ks m))"
    using assms(1) unfolding open_active_segment_def
    by (auto split: sum.splits prod.splits) (metis snd_conv)+
  then show "entry_locs D kv cfg ks' = entry_locs D kv cfg ks"
    using upsert_frame assms(2) by (auto simp: entry_locs_def distinct_partitions_def)
  show "q \<noteq> entry_seg_path (fc_entries_dir cfg) i \<Longrightarrow> map_of (fs_files f') q = map_of (fs_files f) q"
    using assms(1)
    by (auto simp: open_active_segment_def writer_create_def fs_open_create_def Let_def
        split: sum.splits prod.splits option.splits)
  show "r = Inr w \<Longrightarrow> w = \<lparr> ew_id = i, ew_path = entry_seg_path (fc_entries_dir cfg) i, ew_file_offset = 0 \<rparr>
        \<and> map_of (fs_files f') (ew_path w) = Some []"
    using assms(1)
    by (auto simp: open_active_segment_def writer_create_def fs_open_create_def Let_def
        split: sum.splits prod.splits option.splits)
qed

lemma seal_active_segment_frame:
  assumes "seal_active_segment D cfg ks i sealed = (r, ks', sealed')" and "distinct_partitions cfg"
  shows "entry_locs D kv cfg ks' = entry_locs D kv cfg ks"
proof -
  have "ks' = snd (cas_status D (fc_entry_registry cfg) ks i Active Local)"
    using assms(1) by (auto simp: seal_active_segment_def split: sum.splits prod.splits)
  then show ?thesis
    using cas_status_frame assms(2) by (simp add: entry_locs_def distinct_partitions_def)
qed

text \<open>The three ways \<open>flush_finish\<close> can end.\<close>

lemma flush_finish_cases:
  assumes "flush_finish D cfg st = (r, st')" and dp: "distinct_partitions cfg"
  obtains (keep) "fl_cache st' = fl_cache st" "fl_fs st' = fl_fs st" "fl_writer st' = fl_writer st"
      "fl_next_seg_id st' = fl_next_seg_id st"
      "entry_locs D kv cfg (fl_ks st') = entry_locs D kv cfg (fl_ks st)"
    | (rotate) "fl_cache st' = evict_warm (fl_cache st)"
      "fl_next_seg_id st' = fl_next_seg_id st + 1"
      "entry_locs D kv cfg (fl_ks st') = entry_locs D kv cfg (fl_ks st)"
      "\<forall>q. q \<noteq> entry_seg_path (fc_entries_dir cfg) (fl_next_seg_id st + 1) \<longrightarrow>
         map_of (fs_files (fl_fs st')) q = map_of (fs_files (fl_fs st)) q"
      "r = Inr () \<longrightarrow> fl_writer st' = \<lparr> ew_id = fl_next_seg_id st + 1,
           ew_path = entry_seg_path (fc_entries_dir cfg) (fl_next_seg_id st + 1), ew_file_offset = 0 \<rparr>
         \<and> map_of (fs_files (fl_fs st')) (ew_path (fl_writer st')) = Some []"
proof -
  let ?w = "fl_writer st"
  let ?m = "entry_meta (ew_id ?w) (entry_seg_path (fc_entries_dir cfg) (ew_id ?w)) (ew_file_offset ?w) (fl_ledger_sizes st)"
  obtain u ks1 where up: "upsert D (fc_entry_registry cfg) (fl_ks st) ?m = (u, ks1)" by force
  have l1: "entry_locs D kv cfg ks1 = entry_locs D kv cfg (fl_ks st)"
    using upsert_frame[of "ix_locations (fc_entry_index cfg)" "fc_entry_registry cfg" "fl_ks st" ?m] dp
    by (simp add: up entry_locs_def distinct_partitions_def)
  obtain u2 ks2 sealed where se: "seal_active_segment D cfg ks1 (ew_id ?w) (fl_sealed st) = (u2, ks2, sealed)"
    by (metis prod_cases3)
  note l2 = seal_active_segment_frame[OF se dp]
  obtain u3 ks3 f3 where op: "open_active_segment D cfg ks2 (fl_fs st) (fl_next_seg_id st + 1) = (u3, ks3, f3)"
    by (metis prod_cases3)
  note op' = open_active_segment_frame[OF op dp]
  show thesis
  proof (cases "isl u \<or> \<not> ew_file_offset ?w \<ge> fc_seal_threshold cfg \<or> isl u2")
    case True
    then have "fl_cache st' = fl_cache st \<and> fl_fs st' = fl_fs st \<and> fl_writer st' = fl_writer st
      \<and> fl_next_seg_id st' = fl_next_seg_id st \<and> (fl_ks st' = ks1 \<or> fl_ks st' = ks2)"
      using assms(1) up se by (auto simp: flush_finish_def Let_def isl_def split: sum.splits if_splits)
    with l1 l2 show thesis by (intro keep) auto
  next
    case False
    then have "fl_cache st' = evict_warm (fl_cache st) \<and> fl_next_seg_id st' = fl_next_seg_id st + 1
      \<and> fl_ks st' = ks3 \<and> fl_fs st' = f3 \<and> (r = Inr () \<longrightarrow> u3 = Inr (fl_writer st'))"
      using assms(1) up se op by (auto simp: flush_finish_def Let_def isl_def split: sum.splits if_splits)
    with l1 l2 op' show thesis by (intro rotate) auto
  qed
qed

lemma flush_finish_visible:
  assumes "flush_finish D cfg st = (r, st')" and dp: "distinct_partitions cfg"
    and inv: "flush_inv D kv crc cfg st" and nw: "fl_next_seg_id st \<noteq> - 1"
    and vis: "entry_visible crc (fc_entries_dir cfg) (fl_fs st) (entry_locs D kv cfg (fl_ks st)) (fl_cache st) l e p"
  shows "entry_visible crc (fc_entries_dir cfg) (fl_fs st') (entry_locs D kv cfg (fl_ks st')) (fl_cache st') l e p"
  using assms(1) dp
proof (cases rule: flush_finish_cases)
  case keep
  with vis show ?thesis by simp
next
  case rotate
  let ?loc = "entry_locs D kv cfg (fl_ks st)" and ?d = "fc_entries_dir cfg"
  have young: "iv_segment_id iv \<noteq> fl_next_seg_id st + 1" if "?loc (l, e) = Some iv" for iv
    using flush_inv_old[OF inv that] u64_less_plus1[OF nw] by auto
  have disk: "on_disk crc ?d (fl_fs st') ?loc l e p" if "on_disk crc ?d (fl_fs st) ?loc l e p"
    using that rotate(4) young by (rule_tac on_disk_mono[OF that]) (auto intro: exI[of _ "[]"])
  show ?thesis
  proof (cases "map_of (ec_hot (fl_cache st)) (l, e)")
    case (Some q)
    then show ?thesis using vis rotate(1) by (simp add: entry_visible_def cache_get_def evict_warm_def)
  next
    case None
    then have "on_disk crc ?d (fl_fs st) ?loc l e p"
      using vis inv
      by (auto simp: entry_visible_def cache_get_def flush_inv_def Let_def split: option.splits)
    with disk None rotate(1,3) show ?thesis
      by (simp add: entry_visible_def cache_get_def evict_warm_def)
  qed
qed

lemma flush_finish_inv:
  assumes "flush_finish D cfg st = (Inr (), st')" and dp: "distinct_partitions cfg"
    and inv: "flush_inv D kv crc cfg st" and nw: "fl_next_seg_id st \<noteq> - 1"
  shows "flush_inv D kv crc cfg st'"
  using assms(1) dp
proof (cases rule: flush_finish_cases)
  case keep
  show ?thesis using inv unfolding flush_inv_def Let_def keep .
next
  case rotate
  have "iv_segment_id iv \<le> fl_next_seg_id st + 1" if "entry_locs D kv cfg (fl_ks st) k = Some iv" for k iv
    using flush_inv_old[OF inv that] u64_less_plus1[OF nw] by auto
  moreover have "cache_wf (evict_warm (fl_cache st))"
    using inv by (auto simp: flush_inv_def Let_def cache_wf_def evict_warm_def)
  ultimately show ?thesis using rotate by (auto simp: flush_inv_def Let_def evict_warm_def)
qed

text \<open>The keys of a batch that is zipped with its offsets.\<close>

lemma zip_batch_keys:
  assumes "length offs = length entries"
  shows "map (\<lambda>((l, e, p), _). (l, e)) (zip entries offs) = map (\<lambda>(l, e, p). (l, e)) entries"
    and "(\<lambda>((l, e, p), _). (l, e)) ` set (zip entries offs) = (\<lambda>(l, e, p). (l, e)) ` set entries"
proof -
  have "map (\<lambda>((l, e, p), _). (l, e)) (zip entries offs) = map (\<lambda>(l, e, p). (l, e)) (map fst (zip entries offs))"
    by (simp add: case_prod_unfold comp_def)
  then show k: "map (\<lambda>((l, e, p), _). (l, e)) (zip entries offs) = map (\<lambda>(l, e, p). (l, e)) entries"
    by (simp only: map_fst_zip[OF assms[symmetric]])
  show "(\<lambda>((l, e, p), _). (l, e)) ` set (zip entries offs) = (\<lambda>(l, e, p). (l, e)) ` set entries"
    using arg_cong[OF k, of set] by simp
qed

text \<open>After a batch was written and indexed, every entry of the cache is on disk, in the active segment.\<close>

lemma indexed_on_disk:
  assumes inv: "flush_inv D kv crc cfg st" and dp: "distinct_partitions cfg" and ord: "is_drain_order ord"
    and dr: "drain_hot_to_warm ord (fl_cache st) = (entries, cache1)" and ne: "entries \<noteq> []"
    and wb: "write_batch crc (fl_writer st) (fl_fs st) entries outcome = (Inr offs, w, f1)"
    and fit: "batch_fits crc (unat (ew_file_offset (fl_writer st))) entries"
    and ib: "index_batch D cfg (ew_id w) (fl_ks st) sizes (zip entries offs) = (Inr sizes', ks1)"
    and g: "cache_get (fl_cache st) l e = Some p"
  shows "on_disk crc (fc_entries_dir cfg) f1 (entry_locs D kv cfg ks1) l e p
    \<and> (\<forall>iv. entry_locs D kv cfg ks1 (l, e) = Some iv \<longrightarrow> iv_segment_id iv = ew_id w)"
proof -
  let ?w = "fl_writer st" and ?d = "fc_entries_dir cfg" and ?loc = "entry_locs D kv cfg (fl_ks st)"
  from inv have wf: "cache_wf (fl_cache st)" and path: "ew_path ?w = entry_seg_path ?d (ew_id ?w)" unfolding flush_inv_def Let_def by blast+
  from inv obtain c where c: "map_of (fs_files (fl_fs st)) (ew_path ?w) = Some c" "length c = unat (ew_file_offset ?w)"
    unfolding flush_inv_def Let_def by blast
  have fit': "batch_fits crc (length c) entries" using fit c by simp
  note wb' = write_batch_ok[OF wb ne c(1) c(2) fit']
  have wid: "ew_id w = ew_id ?w" using wb'(2) by simp
  have ent: "(l, e, p) \<in> set entries \<longleftrightarrow> map_of (ec_hot (fl_cache st)) (l, e) = Some p" for l e p
    using drain_entries(1)[OF wf ord] by (simp add: dr)
  have lz: "length offs = length entries" using wb'(3) by simp
  note keys = zip_batch_keys[OF lz]
  have dist: "distinct (map (\<lambda>((l, e, p), _). (l, e)) (zip entries offs))"
    unfolding keys(1) using drain_entries(2)[OF wf ord] by (simp add: dr)
  show ?thesis
  proof (cases "map_of (ec_hot (fl_cache st)) (l, e)")
    case (Some q)
    then have "(l, e, p) \<in> set entries" using g by (simp add: ent cache_get_def)
    then obtain off len where z: "((l, e, p), (off, len)) \<in> set (zip entries offs)"
      using lz by (metis in_set_impl_in_set_zip1 surj_pair)
    from batch_locations[OF fit' z[unfolded wb'(3)], of "[]"] c(2)
    have "rec_at crc (c @ padded_batch crc entries) (unat off) l e p \<and> unat len = 24 + length p" by simp
    with index_batch_ok[OF ib dp dist z] wb'(1) path wid show ?thesis by (simp add: on_disk_def)
  next
    case None
    then have "map_of (ec_warm (fl_cache st)) (l, e) = Some p" using g by (simp add: cache_get_def)
    then have w0: "on_disk crc ?d (fl_fs st) ?loc l e p" "\<forall>iv. ?loc (l, e) = Some iv \<longrightarrow> iv_segment_id iv = ew_id ?w"
      using inv unfolding flush_inv_def Let_def by blast+
    have "(l, e) \<notin> (\<lambda>((l, e, p), _). (l, e)) ` set (zip entries offs)" unfolding keys(2) using None ent by force
    then have same: "entry_locs D kv cfg ks1 (l, e) = ?loc (l, e)" by (rule index_batch_frame[OF ib dp])
    have "on_disk crc ?d f1 (entry_locs D kv cfg ks1) l e p"
      using w0(1) same c(1) by (rule_tac on_disk_mono) (auto simp: wb'(1) intro: exI[of _ "[]"])
    with w0 same wid show ?thesis by simp
  qed
qed

text \<open>The state after the batch has been drained, written, synced and indexed.\<close>

lemma flush_indexed:
  fixes st :: "'k flush_state"
  assumes inv: "flush_inv D kv crc cfg st" and dp: "distinct_partitions cfg" and ord: "is_drain_order ord"
    and dr: "drain_hot_to_warm ord (fl_cache st) = (entries, cache1)" and ne: "entries \<noteq> []"
    and wb: "write_batch crc (fl_writer st) (fl_fs st) entries outcome = (Inr offs, w, f1)"
    and fit: "batch_fits crc (unat (ew_file_offset (fl_writer st))) entries"
    and ib: "index_batch D cfg (ew_id w) (fl_ks st) sizes (zip entries offs) = (Inr sizes', ks1)"
  shows "flush_inv D kv crc cfg (st\<lparr> fl_cache := insert_all cache1 during, fl_writer := w, fl_fs := f1,
      fl_ks := ks1, fl_ledger_sizes := sizes' \<rparr>)" (is "flush_inv D kv crc cfg ?st")
proof -
  let ?w = "fl_writer st" and ?d = "fc_entries_dir cfg"
  let ?loc = "entry_locs D kv cfg (fl_ks st)" and ?loc' = "entry_locs D kv cfg ks1"
  from inv have wf: "cache_wf (fl_cache st)" and path: "ew_path ?w = entry_seg_path ?d (ew_id ?w)"
    and id: "ew_id ?w = fl_next_seg_id st" and old: "\<And>k iv. ?loc k = Some iv \<Longrightarrow> iv_segment_id iv \<le> fl_next_seg_id st"
    unfolding flush_inv_def Let_def by blast+
  from inv obtain c where c: "map_of (fs_files (fl_fs st)) (ew_path ?w) = Some c" "length c = unat (ew_file_offset ?w)"
    unfolding flush_inv_def Let_def by blast
  have fit': "batch_fits crc (length c) entries" using fit c by simp
  note wb' = write_batch_ok[OF wb ne c(1) c(2) fit']
  have wid: "ew_id w = ew_id ?w" "ew_path w = ew_path ?w" using wb'(2) by simp_all
  have loff: "length (c @ padded_batch crc entries) < 2 ^ 64" using padded_batch_eq(3)[OF fit'] by simp
  note keys = zip_batch_keys[of offs entries]
  have dist: "distinct (map (\<lambda>((l, e, p), _). (l, e)) (zip entries offs))"
    using keys(1) drain_entries(2)[OF wf ord] wb'(3) by (simp add: dr)
  have "iv_segment_id iv \<le> fl_next_seg_id st" if "?loc' k = Some iv" for k iv
  proof (cases "k \<in> (\<lambda>((l, e, p), _). (l, e)) ` set (zip entries offs)")
    case True
    then obtain l e p off len where k: "k = (l, e)" "((l, e, p), (off, len)) \<in> set (zip entries offs)" by force
    from index_batch_ok[OF ib dp dist k(2)] that wid id show ?thesis by (auto simp: k(1))
  next
    case False
    show ?thesis by (rule old[of k]) (use index_batch_frame[OF ib dp False] that in simp)
  qed
  moreover have "cache_wf (insert_all cache1 during)"
    using drain_wf[OF wf ord] by (simp add: dr insert_all_wf)
  moreover have "map_of (fs_files f1) (ew_path w) = Some (c @ padded_batch crc entries)
      \<and> length (c @ padded_batch crc entries) = unat (ew_file_offset w)"
    using wb'(1,2) loff by (simp add: unat_of_nat del: of_nat_add)
  moreover have "map_of (ec_warm (insert_all cache1 during)) (l, e) = cache_get (fl_cache st) l e" for l e
    using drain_lookup[OF wf ord] by (simp add: dr)
  ultimately show ?thesis
    unfolding flush_inv_def Let_def using path id wid indexed_on_disk[OF inv dp ord dr ne wb fit ib] by simp
qed

text \<open>Between the drain and the registry update nothing that a reader sees changes.\<close>

lemma flush_mid_visible:
  assumes inv: "flush_inv D kv crc cfg st" and ord: "is_drain_order ord"
    and dr: "drain_hot_to_warm ord (fl_cache st) = (entries, cache1)"
    and wb: "write_batch crc (fl_writer st) (fl_fs st) entries outcome = (r, w, f1)"
    and vis: "entry_visible crc (fc_entries_dir cfg) (fl_fs st) (entry_locs D kv cfg (fl_ks st)) (fl_cache st) l e p"
    and new: "(l, e) \<notin> (\<lambda>(l, e, p). (l, e)) ` set during"
    and loc: "(l, e) \<notin> (\<lambda>(l, e, p). (l, e)) ` set entries \<Longrightarrow> loc' (l, e) = entry_locs D kv cfg (fl_ks st) (l, e)"
  shows "entry_visible crc (fc_entries_dir cfg) f1 loc' (insert_all cache1 during) l e p"
proof -
  let ?loc = "entry_locs D kv cfg (fl_ks st)" and ?d = "fc_entries_dir cfg"
  have wf: "cache_wf (fl_cache st)" and path: "ew_path (fl_writer st) = entry_seg_path ?d (ew_id (fl_writer st))"
    using inv unfolding flush_inv_def Let_def by blast+
  from inv obtain c where c: "map_of (fs_files (fl_fs st)) (ew_path (fl_writer st)) = Some c"
    "length c = unat (ew_file_offset (fl_writer st))"
    unfolding flush_inv_def Let_def by blast
  from write_batch_appends(1)[OF wb c] obtain ext where
    f1: "map_of (fs_files f1) = (map_of (fs_files (fl_fs st)))(ew_path (fl_writer st) \<mapsto> c @ ext)" by blast
  have wf1: "cache_wf cache1" using drain_wf[OF wf ord] by (simp add: dr)
  have dw: "map_of (ec_warm cache1) (l, e) = cache_get (fl_cache st) l e"
    using drain_lookup[OF wf ord] by (simp add: dr)
  show ?thesis
  proof (cases "cache_get (fl_cache st) l e")
    case (Some q)
    then have "cache_get (insert_all cache1 during) l e = Some q"
      using dw by (intro insert_all_get_warm[OF wf1]) simp
    with vis Some show ?thesis by (simp add: entry_visible_def)
  next
    case None
    have "(l, e) \<notin> (\<lambda>(l, e, p). (l, e)) ` set entries"
      using drain_entries(1)[OF wf ord] None by (force simp: dr cache_get_def split: option.splits)
    note same = loc[OF this]
    have od: "on_disk crc ?d (fl_fs st) ?loc l e p" using vis None by (simp add: entry_visible_def)
    have "\<exists>ext. map_of (fs_files f1) q = Some (c' @ ext)" if "map_of (fs_files (fl_fs st)) q = Some c'" for q c'
    proof (cases "q = ew_path (fl_writer st)")
      case True
      with that c(1) show ?thesis by (simp add: f1)
    next
      case False
      with that show ?thesis by (simp add: f1)
    qed
    then have "on_disk crc ?d f1 loc' l e p" using on_disk_mono[where loc' = loc', OF od _ same] by blast
    moreover have "cache_get (insert_all cache1 during) l e = None"
      using new cache_get_insert_all_other[of l e during cache1] drain_get[OF wf ord, of l e] None
      by (simp add: dr)
    ultimately show ?thesis by (simp add: entry_visible_def)
  qed
qed

lemma flush_iteration_visible:
  assumes inv: "flush_inv D kv crc cfg st" and dp: "distinct_partitions cfg" and ord: "is_drain_order ord"
    and it: "flush_iteration D crc ord cfg wo so during st = (r, st')"
    and fit: "batch_fits crc (unat (ew_file_offset (fl_writer st))) (fst (drain_hot_to_warm ord (fl_cache st)))"
    and nw: "fl_next_seg_id st \<noteq> - 1"
  shows "entry_visible crc (fc_entries_dir cfg) (fl_fs st) (entry_locs D kv cfg (fl_ks st)) (fl_cache st) l e p \<Longrightarrow>
      (l, e) \<notin> (\<lambda>(l, e, p). (l, e)) ` set during \<Longrightarrow>
      entry_visible crc (fc_entries_dir cfg) (fl_fs st') (entry_locs D kv cfg (fl_ks st')) (fl_cache st') l e p"
    and "r = Inr () \<Longrightarrow> flush_inv D kv crc cfg st'"
proof -
  obtain entries cache1 where dr: "drain_hot_to_warm ord (fl_cache st) = (entries, cache1)" by force
  obtain r1 w f1 where wb: "write_batch crc (fl_writer st) (fl_fs st) entries wo = (r1, w, f1)"
    by (metis prod_cases3)
  have wf: "cache_wf (fl_cache st)" using inv unfolding flush_inv_def Let_def by blast
  have fit': "batch_fits crc (unat (ew_file_offset (fl_writer st))) entries" using fit by (simp add: dr)
  let ?mid = "st\<lparr> fl_cache := insert_all cache1 during, fl_writer := w, fl_fs := f1 \<rparr>"
  note mid = flush_mid_visible[OF inv ord dr wb]
  have zipk: "(l, e) \<notin> (\<lambda>((l, e, p), _). (l, e)) ` set (zip entries offs)"
    if "(l, e) \<notin> (\<lambda>(l, e, p). (l, e)) ` set entries" for l e and offs :: "(u64 \<times> u32) list"
    using that by (force dest: set_zip_leftD)
  show "entry_visible crc (fc_entries_dir cfg) (fl_fs st') (entry_locs D kv cfg (fl_ks st')) (fl_cache st') l e p"
    if vis: "entry_visible crc (fc_entries_dir cfg) (fl_fs st) (entry_locs D kv cfg (fl_ks st)) (fl_cache st) l e p"
      and new: "(l, e) \<notin> (\<lambda>(l, e, p). (l, e)) ` set during"
    using it dr wb
  proof (cases rule: flush_iteration_cases)
    case empty
    then show ?thesis using vis drain_get[OF wf ord, of l e] by (simp add: dr entry_visible_def)
  next
    case stop
    with mid[OF vis new] show ?thesis by simp
  next
    case (index offs ks1 err)
    from index_batch_frame[OF index(4) dp zipk] mid[OF vis new] index(3) show ?thesis by simp
  next
    case (finish offs ks1 sizes)
    note inv1 = flush_indexed[OF inv dp ord dr finish(1) wb[unfolded finish(2)] fit' finish(3), of during]
    from index_batch_frame[OF finish(3) dp zipk] mid[OF vis new]
    have v1: "entry_visible crc (fc_entries_dir cfg) f1 (entry_locs D kv cfg ks1) (insert_all cache1 during) l e p"
      by simp
    from flush_finish_visible[OF finish(4) dp inv1[simplified]] nw v1 show ?thesis by simp
  qed
  show "flush_inv D kv crc cfg st'" if "r = Inr ()"
    using it dr wb
  proof (cases rule: flush_iteration_cases)
    case empty
    then have "ord (ec_hot (fl_cache st)) = []"
      using arg_cong[OF dr, of fst] by (simp add: drain_fst)
    then have "ec_warm cache1 = ec_warm (fl_cache st)" and "ec_hot cache1 = []"
      using dr by (auto simp: drain_hot_to_warm_def Let_def)
    with inv empty(3) show ?thesis by (auto simp: flush_inv_def Let_def cache_wf_def)
  next
    case (finish offs ks1 sizes)
    note inv1 = flush_indexed[OF inv dp ord dr finish(1) wb[unfolded finish(2)] fit' finish(3), of during]
    from flush_finish_inv[OF finish(4)[unfolded that] dp inv1[simplified]] nw show ?thesis by simp
  qed (use that in \<open>auto simp: isl_def\<close>)
qed

text \<open>The same for the turns of the loop, up to the error that ends it.\<close>

lemma flush_turns_visible:
  assumes dp: "distinct_partitions cfg"
  shows "flush_inv D kv crc cfg st \<Longrightarrow> turns_fit D crc cfg ts st \<Longrightarrow> flush_turns D crc cfg ts st = (r, st') \<Longrightarrow>
      (entry_visible crc (fc_entries_dir cfg) (fl_fs st) (entry_locs D kv cfg (fl_ks st)) (fl_cache st) l e p \<longrightarrow>
        (l, e) \<notin> inserted_during ts \<longrightarrow>
        entry_visible crc (fc_entries_dir cfg) (fl_fs st') (entry_locs D kv cfg (fl_ks st')) (fl_cache st') l e p)
      \<and> (r = None \<longrightarrow> flush_inv D kv crc cfg st')"
proof (induction ts arbitrary: st)
  case (Cons t ts)
  obtain x st1 where it: "flush_iteration D crc (ft_order t) cfg (ft_write t) (ft_sync t) (ft_during t) st = (x, st1)" by force
  have fit: "is_drain_order (ft_order t)" "fl_next_seg_id st \<noteq> - 1"
    "batch_fits crc (unat (ew_file_offset (fl_writer st))) (fst (drain_hot_to_warm (ft_order t) (fl_cache st)))"
    "x = Inr () \<Longrightarrow> turns_fit D crc cfg ts st1"
    using Cons.prems(2) it by auto
  note v = flush_iteration_visible[OF Cons.prems(1) dp fit(1) it fit(3,2)]
  show ?case
  proof (cases x)
    case (Inl err)
    with Cons.prems(3) it v(1) show ?thesis by (auto simp: inserted_during_def)
  next
    case (Inr u)
    then have "flush_inv D kv crc cfg st1" "turns_fit D crc cfg ts st1" "flush_turns D crc cfg ts st1 = (r, st')"
      using Cons.prems(3) it v(2) fit(4) by auto
    from Cons.IH[OF this] v(1) show ?thesis by (auto simp: inserted_during_def)
  qed
qed simp

end

end
