(* ===== verification/TieredReader.thy ===== *)
theory TieredReader
  imports EntryCache
begin

text \<open>
  The read path below the in-memory cache: \<^verbatim>\<open>storage/block_cache.rs\<close> and
  \<^verbatim>\<open>storage/tiered_reader.rs\<close>. The concurrent cache crate behind \<^verbatim>\<open>BlockCache\<close> is a parameter
  (\<open>block_api\<close>) whose only promise is that it never invents a block: a hit is what was inserted
  last under that key (\<open>block_laws\<close>). The object store client is a parameter as well (\<open>s3_api\<close>,
  \<open>s3_laws\<close>); a failed upload may or may not have had an effect. Both contracts are interpreted on
  a reference instance at the end. A positioned read returns everything up to the end of the file.
\<close>


section \<open>Block cache\<close>

type_synonym block_key = "SegmentId \<times> u64"

record 'c block_api =
  bk_build :: "u64 \<Rightarrow> 'c"
  bk_get :: "'c \<Rightarrow> block_key \<Rightarrow> bytes option"
  bk_insert :: "'c \<Rightarrow> block_key \<Rightarrow> bytes \<Rightarrow> 'c"
  bk_invalidate_if :: "'c \<Rightarrow> (block_key \<Rightarrow> bool) \<Rightarrow> 'c"

definition BlockCache_new :: "'c block_api \<Rightarrow> u64 \<Rightarrow> 'c" where
  "BlockCache_new B max_bytes = bk_build B (max (max_bytes div of_nat BLOCK_SIZE) 1)"

definition block_start :: "u64 \<Rightarrow> u64" where
  "block_start off = (off div of_nat BLOCK_SIZE) * of_nat BLOCK_SIZE"

definition block_get :: "'c block_api \<Rightarrow> 'c \<Rightarrow> SegmentId \<Rightarrow> u64 \<Rightarrow> bytes option" where
  "block_get B bc seg start = bk_get B bc (seg, start)"

definition block_insert :: "'c block_api \<Rightarrow> 'c \<Rightarrow> SegmentId \<Rightarrow> u64 \<Rightarrow> bytes \<Rightarrow> 'c" where
  "block_insert B bc seg start dat = bk_insert B bc (seg, start) dat"

definition invalidate_segment :: "'c block_api \<Rightarrow> 'c \<Rightarrow> SegmentId \<Rightarrow> 'c" where
  "invalidate_segment B bc seg = bk_invalidate_if B bc (\<lambda>k. fst k = seg)"


section \<open>Object store\<close>

datatype s3_reply = S3SendErr string | S3BodyErr string | S3Body bytes

record 's s3_api =
  s3_put_object :: "'s \<Rightarrow> string \<Rightarrow> string \<Rightarrow> bytes \<Rightarrow> (string + unit) \<times> 's"
  s3_create_multipart :: "'s \<Rightarrow> string \<Rightarrow> string \<Rightarrow> (string + string option) \<times> 's"
  s3_upload_part :: "'s \<Rightarrow> string \<Rightarrow> string \<Rightarrow> string \<Rightarrow> nat \<Rightarrow> bytes \<Rightarrow> (string + string option) \<times> 's"
  s3_complete_multipart :: "'s \<Rightarrow> string \<Rightarrow> string \<Rightarrow> string \<Rightarrow> (string \<times> nat) list \<Rightarrow> (string + unit) \<times> 's"
  s3_head_object :: "'s \<Rightarrow> string \<Rightarrow> string \<Rightarrow> string + unit"
  s3_get_object :: "'s \<Rightarrow> string \<Rightarrow> string \<Rightarrow> string \<Rightarrow> s3_reply"

record S3Config =
  s3_bucket :: string
  s3_endpoint :: "string option"
  s3_region :: string

definition s3_range :: "u64 \<Rightarrow> u64 \<Rightarrow> string" where
  "s3_range a b = ''bytes='' @ show_u64 a @ ''-'' @ show_u64 b"


section \<open>The reader\<close>

record TieredReader =
  tr_entry_index :: FjallIndex
  tr_entry_registry :: string
  tr_wal_index :: FjallIndex
  tr_wal_registry :: string
  tr_s3 :: "S3Config option"

definition read_local_block :: "fs \<Rightarrow> string \<Rightarrow> u64 \<Rightarrow> bytes result" where
  "read_local_block f path start =
     (case map_of (fs_files f) path of
        None \<Rightarrow> Inl (Storage (''open '' @ path @ '': '' @ not_found))
      | Some c \<Rightarrow>
          (case fs_read_err f path of
             Some e \<Rightarrow> Inl (Storage (''read_at '' @ show_u64 start @ '': '' @ e))
           | None \<Rightarrow> Inr (subrange (unat start) (unat start + BLOCK_SIZE) c)))"

definition get_entry_block ::
  "'c block_api \<Rightarrow> fs \<Rightarrow> SegmentId \<Rightarrow> string \<Rightarrow> u64 \<Rightarrow> bool \<Rightarrow> 'c \<Rightarrow> bytes result \<times> 'c" where
  "get_entry_block B f seg path start cacheable bc =
     (case (if cacheable then block_get B bc seg start else None) of
        Some cached \<Rightarrow> (Inr cached, bc)
      | None \<Rightarrow>
          (case read_local_block f path start of
             Inl e \<Rightarrow> (Inl e, bc)
           | Inr block \<Rightarrow> (Inr block, if cacheable then block_insert B bc seg start block else bc)))"

definition get_wal_block :: "'k db_api \<Rightarrow> TieredReader \<Rightarrow> fs \<Rightarrow> 'k \<Rightarrow> SegmentId \<Rightarrow> u64 \<Rightarrow> bytes result" where
  "get_wal_block D tr f ks seg start =
     (case registry_get D (tr_wal_registry tr) ks seg of
        Inl e \<Rightarrow> Inl e
      | Inr None \<Rightarrow> Inl (Storage (''WAL segment '' @ show_u64 seg @ '' not in registry''))
      | Inr (Some meta) \<Rightarrow>
          (case sm_status meta of
             S3 \<Rightarrow> Inl (Storage (''WAL segment '' @ show_u64 seg @ '' is on S3 (unexpected)''))
           | SegDeleted \<Rightarrow> Inl (Storage (''WAL segment '' @ show_u64 seg @ '' is deleted''))
           | _ \<Rightarrow>
               (case sm_local_path meta of
                  None \<Rightarrow> Inl (Storage (''WAL segment '' @ show_u64 seg @ '' has no local_path''))
                | Some path \<Rightarrow> read_local_block f path start)))"

text \<open>The payload of the record at an offset of the one or two blocks that were read.\<close>

definition payload_at :: "(bytes \<Rightarrow> u32) \<Rightarrow> bytes \<Rightarrow> IndexValue \<Rightarrow> bytes result" where
  "payload_at crc dat iv =
     (case decode_record crc dat (unat (iv_offset iv - block_start (iv_offset iv))) of
        Inl e \<Rightarrow> Inl e
      | Inr (_, _, payload, _) \<Rightarrow> Inr payload)"

text \<open>\<^verbatim>\<open>rec_end <= block_end\<close>: the first block is enough.\<close>

definition one_block :: "IndexValue \<Rightarrow> bool" where
  "one_block iv \<longleftrightarrow>
     iv_offset iv + ucast (iv_length iv) \<le> block_start (iv_offset iv) + of_nat BLOCK_SIZE"

definition read_entry_local ::
  "'c block_api \<Rightarrow> (bytes \<Rightarrow> u32) \<Rightarrow> fs \<Rightarrow> string \<Rightarrow> bool \<Rightarrow> IndexValue \<Rightarrow> 'c \<Rightarrow> bytes result \<times> 'c" where
  "read_entry_local B crc f path cacheable iv bc =
     (let start = block_start (iv_offset iv); seg = iv_segment_id iv in
      case get_entry_block B f seg path start cacheable bc of
        (Inl e, bc1) \<Rightarrow> (Inl e, bc1)
      | (Inr block, bc1) \<Rightarrow>
          (if one_block iv then (payload_at crc block iv, bc1)
           else
             (case get_entry_block B f seg path (start + of_nat BLOCK_SIZE) cacheable bc1 of
                (Inl e, bc2) \<Rightarrow> (Inl e, bc2)
              | (Inr block2, bc2) \<Rightarrow> (payload_at crc (block @ block2) iv, bc2))))"

definition read_s3_record ::
  "'s s3_api \<Rightarrow> (bytes \<Rightarrow> u32) \<Rightarrow> TieredReader \<Rightarrow> 's \<Rightarrow> string \<Rightarrow> u64 \<Rightarrow> u64 \<Rightarrow> bytes result" where
  "read_s3_record S crc tr s key off len =
     (case tr_s3 tr of
        None \<Rightarrow> Inl (Storage ''S3 read required but no S3 configured'')
      | Some cfg \<Rightarrow>
          (case s3_get_object S s (s3_bucket cfg) key (s3_range off (off + len - 1)) of
             S3SendErr e \<Rightarrow> Inl (Storage (''S3 get_object: '' @ e))
           | S3BodyErr e \<Rightarrow> Inl (Storage (''S3 body collect: '' @ e))
           | S3Body dat \<Rightarrow>
               (case decode_record crc dat 0 of
                  Inl e \<Rightarrow> Inl e
                | Inr (_, _, payload, _) \<Rightarrow> Inr payload)))"

definition read_from_entry_segment ::
  "'k db_api \<Rightarrow> 'c block_api \<Rightarrow> 's s3_api \<Rightarrow> (bytes \<Rightarrow> u32) \<Rightarrow> TieredReader \<Rightarrow> fs \<Rightarrow> 'k \<Rightarrow> 's
   \<Rightarrow> IndexValue \<Rightarrow> 'c \<Rightarrow> bytes result \<times> 'c" where
  "read_from_entry_segment D B S crc tr f ks s iv bc =
     (let seg = iv_segment_id iv in
      case registry_get D (tr_entry_registry tr) ks seg of
        Inl e \<Rightarrow> (Inl e, bc)
      | Inr None \<Rightarrow> (Inl (Storage (''entry segment '' @ show_u64 seg @ '' not in registry'')), bc)
      | Inr (Some meta) \<Rightarrow>
          (case sm_status meta of
             S3 \<Rightarrow>
               (case sm_s3_key meta of
                  None \<Rightarrow> (Inl (Storage (''entry segment '' @ show_u64 seg @ '' has no s3_key'')), bc)
                | Some key \<Rightarrow> (read_s3_record S crc tr s key (iv_offset iv) (ucast (iv_length iv)), bc))
           | SegDeleted \<Rightarrow>
               (Inl (Storage (''entry segment '' @ show_u64 seg @ '' is deleted'')), bc)
           | _ \<Rightarrow>
               (case sm_local_path meta of
                  None \<Rightarrow> (Inl (Storage (''entry segment '' @ show_u64 seg @ '' has no local_path'')), bc)
                | Some path \<Rightarrow> read_entry_local B crc f path (sm_status meta \<noteq> Active) iv bc)))"

definition read_from_wal ::
  "'k db_api \<Rightarrow> (bytes \<Rightarrow> u32) \<Rightarrow> TieredReader \<Rightarrow> fs \<Rightarrow> 'k \<Rightarrow> IndexValue \<Rightarrow> bytes result" where
  "read_from_wal D crc tr f ks iv =
     (let start = block_start (iv_offset iv); seg = iv_segment_id iv in
      case get_wal_block D tr f ks seg start of
        Inl e \<Rightarrow> Inl e
      | Inr block \<Rightarrow>
          (if one_block iv then payload_at crc block iv
           else
             (case get_wal_block D tr f ks seg (start + of_nat BLOCK_SIZE) of
                Inl e \<Rightarrow> Inl e
              | Inr block2 \<Rightarrow> payload_at crc (block @ block2) iv)))"

definition tiered_read_entry ::
  "'k db_api \<Rightarrow> 'c block_api \<Rightarrow> 's s3_api \<Rightarrow> (bytes \<Rightarrow> u32) \<Rightarrow> TieredReader \<Rightarrow> fs \<Rightarrow> 'k \<Rightarrow> 's
   \<Rightarrow> u64 \<Rightarrow> u64 \<Rightarrow> 'c \<Rightarrow> bytes result \<times> 'c" where
  "tiered_read_entry D B S crc tr f ks s lid eid bc =
     (case get_location D (tr_entry_index tr) ks lid eid of
        Inl e \<Rightarrow> (Inl e, bc)
      | Inr (Some iv) \<Rightarrow> read_from_entry_segment D B S crc tr f ks s iv bc
      | Inr None \<Rightarrow>
          (case get_location D (tr_wal_index tr) ks lid eid of
             Inl e \<Rightarrow> (Inl e, bc)
           | Inr (Some iv) \<Rightarrow> (read_from_wal D crc tr f ks iv, bc)
           | Inr None \<Rightarrow> (Inl (EntryNotFound lid eid), bc)))"


section \<open>Contracts of the two services\<close>

locale block_laws =
  fixes B :: "'c block_api"
  assumes law_build: "bk_get B (bk_build B n) k = None"
    and law_bk_insert: "bk_get B (bk_insert B bc k v) k' = Some w \<Longrightarrow> (if k' = k then w = v else bk_get B bc k' = Some w)"
    and law_invalidate: "bk_get B (bk_invalidate_if B bc P) k = Some w \<Longrightarrow> \<not> P k \<and> bk_get B bc k = Some w"

text \<open>
  \<open>obj\<close> is the content of the object store and \<open>parts\<close> the parts of an open multipart upload.
  Nothing is promised about the object itself when a call fails; other objects never change.
\<close>

locale s3_laws =
  fixes S :: "'s s3_api" and obj :: "'s \<Rightarrow> string \<times> string \<Rightarrow> bytes option"
    and parts :: "'s \<Rightarrow> string \<Rightarrow> nat \<Rightarrow> bytes option"
  assumes law_put: "s3_put_object S s b k d = (Inr (), s') \<Longrightarrow> obj s' (b, k) = Some d"
    and law_put_frame: "s3_put_object S s b k d = (r, s') \<Longrightarrow> q \<noteq> (b, k) \<Longrightarrow> obj s' q = obj s q"
    and law_create_frame: "s3_create_multipart S s b k = (t, s') \<Longrightarrow> obj s' = obj s"
    and law_part: "s3_upload_part S s b k u n d = (Inr e, s') \<Longrightarrow> parts s' u = (parts s u)(n \<mapsto> d)"
    and law_part_frame: "s3_upload_part S s b k u n d = (t, s') \<Longrightarrow> obj s' = obj s"
    and law_complete: "s3_complete_multipart S s b k u ps = (Inr (), s') \<Longrightarrow>
      (\<forall>p \<in> set ps. parts s u (snd p) \<noteq> None) \<Longrightarrow>
      obj s' (b, k) = Some (concat (map (\<lambda>p. the (parts s u (snd p))) ps))"
    and law_complete_frame: "s3_complete_multipart S s b k u ps = (r, s') \<Longrightarrow> q \<noteq> (b, k) \<Longrightarrow> obj s' q = obj s q"
    and law_get_object: "s3_get_object S s b k (s3_range x y) = S3Body d \<Longrightarrow>
      \<exists>c. obj s (b, k) = Some c \<and> d = subrange (unat x) (unat y + 1) c"


section \<open>Blocks\<close>

lemma BLOCK_SIZE_word [simp]: "unat (of_nat BLOCK_SIZE :: u64) = BLOCK_SIZE"
  by (simp add: BLOCK_SIZE_def)

lemma unat_block_start: "unat (block_start off) = unat off div BLOCK_SIZE * BLOCK_SIZE"
proof -
  have "unat off div BLOCK_SIZE * BLOCK_SIZE \<le> unat off" by simp
  also have "\<dots> < 2 ^ LENGTH(64)" by (rule unsigned_less)
  finally have "unat (off div of_nat BLOCK_SIZE) * unat (of_nat BLOCK_SIZE :: u64) < 2 ^ LENGTH(64)"
    by (simp only: unat_div BLOCK_SIZE_word)
  then show ?thesis by (simp only: block_start_def unat_mult_lem[THEN iffD1] unat_div BLOCK_SIZE_word)
qed

lemma block_start_le: "unat (block_start off) \<le> unat off" "unat off < unat (block_start off) + BLOCK_SIZE"
proof -
  show "unat (block_start off) \<le> unat off" by (simp add: unat_block_start)
  have "unat off mod BLOCK_SIZE < BLOCK_SIZE" by (simp add: BLOCK_SIZE_def)
  then show "unat off < unat (block_start off) + BLOCK_SIZE"
    using div_mult_mod_eq[of "unat off" BLOCK_SIZE] unat_block_start[of off] by linarith
qed

lemma unat_block_offset: "unat (off - block_start off) = unat off - unat (block_start off)"
  using block_start_le(1) by (simp add: unat_sub word_le_nat_alt)

lemma unat_next_block:
  assumes "unat off < 2 ^ 63"
  shows "unat (block_start off + of_nat BLOCK_SIZE) = unat (block_start off) + BLOCK_SIZE"
proof -
  have "unat (block_start off) + unat (of_nat BLOCK_SIZE :: u64) < 2 ^ LENGTH(64)"
    using assms block_start_le(1)[of off] unfolding BLOCK_SIZE_word by (simp add: BLOCK_SIZE_def)
  then show ?thesis by (simp only: unat_add_lem[THEN iffD1] BLOCK_SIZE_word)
qed

lemma one_block_iff:
  assumes "unat (iv_offset iv) + unat (iv_length iv) < 2 ^ 63"
  shows "one_block iv \<longleftrightarrow>
    unat (iv_offset iv) + unat (iv_length iv) \<le> unat (block_start (iv_offset iv)) + BLOCK_SIZE"
proof -
  have u: "unat (ucast (iv_length iv) :: u64) = unat (iv_length iv)" by simp
  have "unat (iv_offset iv) + unat (ucast (iv_length iv) :: u64) < 2 ^ LENGTH(64)"
    using assms unfolding u by simp
  then have "unat (iv_offset iv + ucast (iv_length iv)) = unat (iv_offset iv) + unat (iv_length iv)"
    by (simp only: unat_add_lem[THEN iffD1] u)
  moreover have "unat (block_start (iv_offset iv) + of_nat BLOCK_SIZE) = unat (block_start (iv_offset iv)) + BLOCK_SIZE"
    using assms by (intro unat_next_block) simp
  ultimately show ?thesis by (simp add: one_block_def word_le_nat_alt)
qed

lemma rec_at_window:
  assumes "rec_at crc c off l e p" and "s \<le> off" and "off + (24 + length p) \<le> t"
  shows "rec_at crc (subrange s t c) (off - s) l e p"
proof -
  have "subrange (off - s) (off - s + (24 + length p)) (subrange s t c) = subrange off (off + (24 + length p)) c"
    using assms(2,3) by (simp add: subrange_def take_drop)
  moreover have "off - s + (24 + length p) \<le> length (subrange s t c)"
    using assms by (auto simp: subrange_def rec_at_def)
  ultimately show ?thesis using assms(1) by (simp add: rec_at_def)
qed

text \<open>The cached blocks of the sealed segments are blocks of their files.\<close>

definition blocks_ok :: "'c block_api \<Rightarrow> (SegmentId \<Rightarrow> bytes option) \<Rightarrow> 'c \<Rightarrow> bool" where
  "blocks_ok B content bc \<longleftrightarrow>
     (\<forall>seg start blk c. bk_get B bc (seg, start) = Some blk \<longrightarrow> content seg = Some c \<longrightarrow>
        blk = subrange (unat start) (unat start + BLOCK_SIZE) c)"


section \<open>Reading through the blocks\<close>

lemma read_local_block_ok:
  "map_of (fs_files f) path = Some c \<Longrightarrow> fs_read_err f path = None \<Longrightarrow>
   read_local_block f path start = Inr (subrange (unat start) (unat start + BLOCK_SIZE) c)"
  by (simp add: read_local_block_def)

text \<open>
  The window that is read: it contains the record whenever two blocks are enough for it.
\<close>

definition window_end :: "IndexValue \<Rightarrow> nat" where
  "window_end iv = unat (block_start (iv_offset iv)) + (if one_block iv then 1 else 2) * BLOCK_SIZE"

definition two_blocks :: "IndexValue \<Rightarrow> bool" where
  "two_blocks iv \<longleftrightarrow>
     unat (iv_offset iv) + unat (iv_length iv) \<le> unat (block_start (iv_offset iv)) + 2 * BLOCK_SIZE"

lemma window_end_iff:
  assumes "unat (iv_offset iv) + unat (iv_length iv) < 2 ^ 63"
  shows "unat (iv_offset iv) + unat (iv_length iv) \<le> window_end iv \<longleftrightarrow> two_blocks iv"
  using one_block_iff[OF assms] by (auto simp: window_end_def two_blocks_def)

text \<open>The record at a location, found in the window of one or two blocks.\<close>

lemma payload_at_window:
  assumes r: "rec_at crc c (unat (iv_offset iv)) l e p" and n: "unat (iv_length iv) = 24 + length p"
    and c: "length c < 2 ^ 63" and t: "unat (iv_offset iv) + unat (iv_length iv) \<le> t"
  shows "payload_at crc (subrange (unat (block_start (iv_offset iv))) t c) iv = Inr p"
proof -
  let ?s = "unat (block_start (iv_offset iv))"
  have w: "rec_at crc (subrange ?s t c) (unat (iv_offset iv) - ?s) l e p"
    using r t n block_start_le(1)[of "iv_offset iv"] by (intro rec_at_window) simp_all
  have "length p < 2 ^ 32" using n unat_u32_less[of "iv_length iv"] by simp
  moreover have "length (subrange ?s t c) < 2 ^ 64" using c by (simp add: subrange_def)
  ultimately show ?thesis
    using rec_at_decode[OF w] by (simp add: payload_at_def unat_block_offset)
qed

context block_laws begin

lemma get_entry_block_ok:
  assumes "map_of (fs_files f) path = Some c" and "fs_read_err f path = None"
    and "cacheable \<Longrightarrow> content seg = Some c" and "blocks_ok B content bc"
  shows "\<exists>bc'. get_entry_block B f seg path start cacheable bc
      = (Inr (subrange (unat start) (unat start + BLOCK_SIZE) c), bc') \<and> blocks_ok B content bc'"
proof (cases "if cacheable then block_get B bc seg start else None")
  case None
  then have "get_entry_block B f seg path start cacheable bc
      = (Inr (subrange (unat start) (unat start + BLOCK_SIZE) c),
         if cacheable then block_insert B bc seg start (subrange (unat start) (unat start + BLOCK_SIZE) c) else bc)"
    by (simp add: get_entry_block_def read_local_block_ok[OF assms(1,2)])
  moreover have "blocks_ok B content (block_insert B bc seg start (subrange (unat start) (unat start + BLOCK_SIZE) c))"
    if "cacheable"
    using assms(3)[OF that] assms(4) unfolding blocks_ok_def block_insert_def
    by (auto dest!: law_bk_insert split: if_splits)
  ultimately show ?thesis using assms(4) by simp
next
  case (Some cached)
  then have "cacheable" and hit: "bk_get B bc (seg, start) = Some cached"
    by (simp_all add: block_get_def split: if_splits)
  then have "cached = subrange (unat start) (unat start + BLOCK_SIZE) c"
    using assms(3,4) unfolding blocks_ok_def by blast
  with Some assms(4) show ?thesis by (simp add: get_entry_block_def)
qed

text \<open>What a local read decodes: the window of one or two blocks of the file.\<close>

lemma read_entry_local_eq:
  assumes f: "map_of (fs_files f) path = Some c" "fs_read_err f path = None"
    and coh: "cacheable \<Longrightarrow> content (iv_segment_id iv) = Some c" "blocks_ok B content bc"
    and fits: "unat (iv_offset iv) < 2 ^ 63"
  shows "\<exists>bc'. read_entry_local B crc f path cacheable iv bc
      = (payload_at crc (subrange (unat (block_start (iv_offset iv))) (window_end iv) c) iv, bc')
    \<and> blocks_ok B content bc'"
proof -
  let ?s = "block_start (iv_offset iv)"
  have next_block: "unat (?s + of_nat BLOCK_SIZE) = unat ?s + BLOCK_SIZE"
    using fits by (rule unat_next_block)
  obtain bc1 where g1: "get_entry_block B f (iv_segment_id iv) path ?s cacheable bc
      = (Inr (subrange (unat ?s) (unat ?s + BLOCK_SIZE) c), bc1)" and ok1: "blocks_ok B content bc1"
    using get_entry_block_ok[OF f coh] by blast
  obtain bc2 where g2: "get_entry_block B f (iv_segment_id iv) path (?s + of_nat BLOCK_SIZE) cacheable bc1
      = (Inr (subrange (unat ?s + BLOCK_SIZE) (unat ?s + BLOCK_SIZE + BLOCK_SIZE) c), bc2)" and ok2: "blocks_ok B content bc2"
    using get_entry_block_ok[OF f coh(1) ok1, where start = "?s + of_nat BLOCK_SIZE"] unfolding next_block by blast
  have join: "subrange (unat ?s) (unat ?s + BLOCK_SIZE) c @ subrange (unat ?s + BLOCK_SIZE) (unat ?s + BLOCK_SIZE + BLOCK_SIZE) c
      = subrange (unat ?s) (unat ?s + 2 * BLOCK_SIZE) c"
    using subrange_join[of "unat ?s" "unat ?s + BLOCK_SIZE" "unat ?s + 2 * BLOCK_SIZE" c] by (simp add: mult_2 add.assoc)
  show ?thesis
    using ok1 ok2 by (simp add: read_entry_local_def g1 g2 join window_end_def Let_def)
qed

lemma read_entry_local_ok:
  assumes f: "map_of (fs_files f) path = Some c" "fs_read_err f path = None"
    and coh: "cacheable \<Longrightarrow> content (iv_segment_id iv) = Some c" "blocks_ok B content bc"
    and r: "rec_at crc c (unat (iv_offset iv)) l e p" and n: "unat (iv_length iv) = 24 + length p"
    and c: "length c < 2 ^ 63" and two: "two_blocks iv"
  shows "\<exists>bc'. read_entry_local B crc f path cacheable iv bc = (Inr p, bc') \<and> blocks_ok B content bc'"
proof -
  have len: "unat (iv_offset iv) + unat (iv_length iv) < 2 ^ 63" using r n c by (simp add: rec_at_def)
  then have fits: "unat (iv_offset iv) < 2 ^ 63" by simp
  have "payload_at crc (subrange (unat (block_start (iv_offset iv))) (window_end iv) c) iv = Inr p"
    using window_end_iff[OF len] two by (intro payload_at_window[OF r n c]) simp
  with read_entry_local_eq[OF f coh fits, where crc = crc] show ?thesis by simp
qed

end

text \<open>
  A record that reaches beyond its second block: the two blocks that are read do not contain it,
  so it is rejected although it is intact in the file.
\<close>

lemma payload_at_cut:
  assumes r: "rec_at crc c (unat (iv_offset iv)) l e p" and n: "unat (iv_length iv) = 24 + length p"
    and c: "length c < 2 ^ 63" and s: "s = unat (block_start (iv_offset iv))"
    and t: "unat (iv_offset iv) + 4 \<le> t" "t < unat (iv_offset iv) + unat (iv_length iv)"
  shows "isl (payload_at crc (subrange s t c) iv)"
proof -
  let ?o = "unat (iv_offset iv)" and ?w = "subrange s t c"
  have so: "s \<le> ?o" using s block_start_le(1) by simp
  have len: "?o + (24 + length p) \<le> length c" using r by (simp add: rec_at_def)
  have lw: "length ?w = t - s" using so t n len by simp
  have "subrange (?o - s) (?o - s + 4) ?w = subrange ?o (?o + 4) c"
    using so t by (simp add: subrange_def take_drop)
  also have "\<dots> = subrange 0 4 (encode_record crc l e p)"
    using r unfolding rec_at_def by (intro subrange_prefix[where n = "24 + length p"]) simp_all
  finally have len_at: "len_at ?w (?o - s) = of_nat (length p)"
    by (simp add: encode_record_def record_header_def)
  have "length p < 2 ^ 32" using n unat_u32_less[of "iv_length iv"] by simp
  then have "unat (len_at ?w (?o - s)) = length p" using len_at by (simp add: unat_of_nat)
  then have "isl (decode_record crc ?w (?o - s))"
    using so t n c len by (intro decode_too_long) (simp_all add: lw)
  then show ?thesis
    by (auto simp: payload_at_def unat_block_offset s isl_def)
qed


section \<open>Reference instances\<close>

text \<open>A bounded cache that drops its oldest block.\<close>

type_synonym ref_blocks = "nat \<times> (block_key \<times> bytes) list"

definition ref_block :: "ref_blocks block_api" where
  "ref_block =
     \<lparr> bk_build = (\<lambda>n. (unat n, [])),
       bk_get = (\<lambda>(_, xs) k. map_of xs k),
       bk_insert = (\<lambda>(n, xs) k v. (n, take n ((k, v) # filter (\<lambda>x. fst x \<noteq> k) xs))),
       bk_invalidate_if = (\<lambda>(n, xs) P. (n, filter (\<lambda>x. \<not> P (fst x)) xs)) \<rparr>"

lemma map_of_filter_key: "map_of (filter (\<lambda>x. P (fst x)) xs) k = (if P k then map_of xs k else None)"
  by (induction xs) auto

lemma map_of_take:
  "map_of (take n xs) k = Some v \<Longrightarrow> map_of xs k = Some v"
proof (induction xs arbitrary: n)
  case (Cons x xs)
  then show ?case by (cases n) (auto split: if_splits)
qed simp

interpretation rb: block_laws ref_block
proof (unfold_locales, goal_cases)
  case (2 bc k v k' w)
  obtain n xs where bc: "bc = (n, xs)" by force
  from 2 have "map_of (take n ((k, v) # filter (\<lambda>x. fst x \<noteq> k) xs)) k' = Some w"
    by (simp add: ref_block_def bc)
  then have "map_of ((k, v) # filter (\<lambda>x. fst x \<noteq> k) xs) k' = Some w"
    by (rule map_of_take)
  then show ?case using map_of_filter_key[of "\<lambda>y. y \<noteq> k" xs k'] by (simp add: ref_block_def bc split: if_splits)
next
  case (3 bc P k w)
  then show ?case
    using map_of_filter_key[of "\<lambda>y. \<not> P y" "snd bc" k]
    by (auto simp: ref_block_def split: if_splits prod.splits)
qed (simp add: ref_block_def)

text \<open>An object store that keeps everything in memory; a range is parsed back from its text.\<close>

record ref_s3 =
  rs3_objects :: "((string \<times> string) \<times> bytes) list"
  rs3_parts :: "((string \<times> nat) \<times> bytes) list"
  rs3_next :: nat

definition parse_range :: "string \<Rightarrow> (u64 \<times> u64) option" where
  "parse_range r =
     (case strip_prefix ''bytes='' r of
        None \<Rightarrow> None
      | Some t \<Rightarrow>
          (case split_once ''-'' t of
             None \<Rightarrow> None
           | Some (a, b) \<Rightarrow>
               (case (u64_from_str a, u64_from_str b) of (Some x, Some y) \<Rightarrow> Some (x, y) | _ \<Rightarrow> None)))"

definition ref_s3 :: "ref_s3 s3_api" where
  "ref_s3 =
     \<lparr> s3_put_object = (\<lambda>s b k d. (Inr (), s\<lparr> rs3_objects := AList.update (b, k) d (rs3_objects s) \<rparr>)),
       s3_create_multipart = (\<lambda>s b k. (Inr (Some (show_nat (rs3_next s))), s\<lparr> rs3_next := rs3_next s + 1 \<rparr>)),
       s3_upload_part = (\<lambda>s b k u n d. (Inr (Some (show_nat n)), s\<lparr> rs3_parts := AList.update (u, n) d (rs3_parts s) \<rparr>)),
       s3_complete_multipart = (\<lambda>s b k u ps.
          (Inr (), s\<lparr> rs3_objects := AList.update (b, k)
             (concat (map (\<lambda>p. the (map_of (rs3_parts s) (u, snd p))) ps)) (rs3_objects s) \<rparr>)),
       s3_head_object = (\<lambda>s b k. if map_of (rs3_objects s) (b, k) = None then Inl ''NotFound'' else Inr ()),
       s3_get_object = (\<lambda>s b k r.
          case (map_of (rs3_objects s) (b, k), parse_range r) of
            (Some c, Some (x, y)) \<Rightarrow> S3Body (subrange (unat x) (unat y + 1) c)
          | _ \<Rightarrow> S3SendErr ''NoSuchKey'') \<rparr>"

lemma parse_s3_range: "parse_range (s3_range x y) = Some (x, y)"
proof -
  have "CHR ''-'' \<notin> set (show_u64 x)" by (simp add: show_u64_def show_nat_no_dash)
  then have "split_once ''-'' (show_u64 x @ ''-'' @ show_u64 y) = Some (show_u64 x, show_u64 y)"
    by (rule split_once_first)
  then show ?thesis
    using strip_prefix_append[of "''bytes=''" "show_u64 x @ ''-'' @ show_u64 y"]
    by (simp add: parse_range_def s3_range_def)
qed

interpretation rs3: s3_laws ref_s3 "\<lambda>s. map_of (rs3_objects s)" "\<lambda>s u n. map_of (rs3_parts s) (u, n)"
  by unfold_locales
    (auto simp: ref_s3_def update_conv' parse_s3_range fun_eq_iff split: option.splits)

lemma ref_s3_ops:
  "s3_put_object ref_s3 s b k d = (Inr (), s\<lparr> rs3_objects := AList.update (b, k) d (rs3_objects s) \<rparr>)"
  "s3_head_object ref_s3 s b k = (if map_of (rs3_objects s) (b, k) = None then Inl ''NotFound'' else Inr ())"
  "s3_get_object ref_s3 s b k (s3_range x y) =
     (case map_of (rs3_objects s) (b, k) of
        Some c \<Rightarrow> S3Body (subrange (unat x) (unat y + 1) c) | None \<Rightarrow> S3SendErr ''NoSuchKey'')"
  by (simp_all add: ref_s3_def parse_s3_range split: option.splits)

end
