(* ===== verification/Offloader.thy ===== *)
theory Offloader
  imports TieredReader
begin

text \<open>
  \<^verbatim>\<open>storage/offloader.rs\<close>: uploading sealed entry segments to the object store, and deleting
  segments of the write-ahead log. The age of a file is a parameter (\<open>None\<close> when its metadata cannot
  be read or its time stamp lies in the future); a \<^verbatim>\<open>Duration\<close> is a number of nanoseconds. Waiting
  between retries and log messages have no effect on the state and are left out. The invariant
  \<open>registry_inv\<close> and the notion of a stored segment are at the end, with the proof that a pass of
  the offloader never loses the contents of a segment.
\<close>


section \<open>Policy\<close>

definition MULTIPART_PART_BYTES :: nat where "MULTIPART_PART_BYTES = 10 * 1024 * 1024"

definition MAX_RETRIES :: nat where "MAX_RETRIES = 5"

definition secs :: "nat \<Rightarrow> nat" where "secs n = n * 1000000000"

definition DEFAULT_WAL_MIN_AGE :: nat where "DEFAULT_WAL_MIN_AGE = secs 3600"

record OffloadPolicy =
  op_min_age :: nat
  op_max_local_bytes :: "u64 option"

definition OffloadPolicy_default :: OffloadPolicy where
  "OffloadPolicy_default = \<lparr> op_min_age = 0, op_max_local_bytes = None \<rparr>"

definition wal_min_age :: "OffloadPolicy \<Rightarrow> nat" where
  "wal_min_age policy = max (op_min_age policy) DEFAULT_WAL_MIN_AGE"

definition poll_interval :: "OffloadPolicy \<Rightarrow> nat" where
  "poll_interval policy =
     (if op_min_age policy \<noteq> 0 then max (op_min_age policy div 4) (secs 60) else secs 3600)"

definition is_old_enough :: "(string \<Rightarrow> nat option) \<Rightarrow> string \<Rightarrow> nat \<Rightarrow> bool" where
  "is_old_enough age path min_age \<longleftrightarrow>
     min_age = 0 \<or> (case age path of None \<Rightarrow> True | Some a \<Rightarrow> min_age \<le> a)"

definition compute_disk_pressure :: "'k db_api \<Rightarrow> string \<Rightarrow> 'k \<Rightarrow> u64 option \<Rightarrow> bool" where
  "compute_disk_pressure D reg ks max_local_bytes =
     (case list_by_status D reg ks Local of
        Inl _ \<Rightarrow> False
      | Inr pending \<Rightarrow>
          (case max_local_bytes of
             None \<Rightarrow> False
           | Some budget \<Rightarrow> budget < sum_list (map sm_byte_len pending)))"


section \<open>Upload\<close>

text \<open>
  The parts of a multipart upload. The request that aborts the upload after a failed part is built
  but never sent, so it does not appear here.
\<close>

function upload_parts ::
  "'s s3_api \<Rightarrow> fs \<Rightarrow> string \<Rightarrow> string \<Rightarrow> string \<Rightarrow> string \<Rightarrow> nat \<Rightarrow> nat \<Rightarrow> nat \<Rightarrow> (string \<times> nat) list \<Rightarrow> 's
   \<Rightarrow> (string + (string \<times> nat) list) \<times> 's" where
  "upload_parts S f bucket key uid path len off part_num parts s =
     (if off < len then
        (let read_len = min (len - off) MULTIPART_PART_BYTES in
         case fs_read f path of
           Inl e \<Rightarrow> (Inl e, s)
         | Inr c \<Rightarrow>
             (case s3_upload_part S s bucket key uid part_num (subrange off (off + read_len) c) of
                (Inl e, s') \<Rightarrow> (Inl e, s')
              | (Inr tag, s') \<Rightarrow>
                  upload_parts S f bucket key uid path len (off + read_len) (part_num + 1)
                    (parts @ [(case tag of None \<Rightarrow> [] | Some t \<Rightarrow> t, part_num)]) s'))
      else (Inr parts, s))"
  by pat_completeness auto

termination
  by (relation "measure (\<lambda>(S, f, b, k, u, p, len, off, n, ps, s). len - off)")
    (auto simp: MULTIPART_PART_BYTES_def)

declare upload_parts.simps [simp del]

definition do_upload ::
  "'s s3_api \<Rightarrow> fs \<Rightarrow> string \<Rightarrow> string \<Rightarrow> string \<Rightarrow> 's \<Rightarrow> (string + unit) \<times> 's" where
  "do_upload S f bucket key path s =
     (case map_of (fs_files f) path of
        None \<Rightarrow> (Inl not_found, s)
      | Some c0 \<Rightarrow>
          (let len = length c0 in
           if len \<le> MULTIPART_PART_BYTES then
             (case fs_read f path of
                Inl e \<Rightarrow> (Inl e, s)
              | Inr c \<Rightarrow> s3_put_object S s bucket key c)
           else
             (case s3_create_multipart S s bucket key of
                (Inl e, s1) \<Rightarrow> (Inl e, s1)
              | (Inr None, s1) \<Rightarrow> (Inl ''no upload_id'', s1)
              | (Inr (Some uid), s1) \<Rightarrow>
                  (case upload_parts S f bucket key uid path len 0 1 [] s1 of
                     (Inl e, s2) \<Rightarrow> (Inl e, s2)
                   | (Inr parts, s2) \<Rightarrow> s3_complete_multipart S s2 bucket key uid parts))))"

primrec upload_attempts ::
  "'s s3_api \<Rightarrow> fs \<Rightarrow> string \<Rightarrow> string \<Rightarrow> string \<Rightarrow> nat \<Rightarrow> 's \<Rightarrow> unit result \<times> 's" where
  "upload_attempts S f bucket key path 0 s =
     (case do_upload S f bucket key path s of
        (Inr _, s') \<Rightarrow> (Inr (), s')
      | (Inl e, s') \<Rightarrow>
          (Inl (Storage (''S3 upload failed after '' @ show_nat MAX_RETRIES @ '' retries: '' @ e)), s'))"
| "upload_attempts S f bucket key path (Suc n) s =
     (case do_upload S f bucket key path s of
        (Inr _, s') \<Rightarrow> (Inr (), s')
      | (Inl _, s') \<Rightarrow> upload_attempts S f bucket key path n s')"

definition upload_with_retry ::
  "'s s3_api \<Rightarrow> fs \<Rightarrow> string \<Rightarrow> string \<Rightarrow> string \<Rightarrow> 's \<Rightarrow> unit result \<times> 's" where
  "upload_with_retry S f bucket key path s = upload_attempts S f bucket key path MAX_RETRIES s"


lemma upload_first_try: "do_upload S f b k path s = (Inr u, s') \<Longrightarrow> upload_with_retry S f b k path s = (Inr (), s')"
proof -
  assume "do_upload S f b k path s = (Inr u, s')"
  then have "upload_attempts S f b k path n s = (Inr (), s')" for n by (cases n) simp_all
  then show ?thesis by (simp add: upload_with_retry_def)
qed


section \<open>A pass over the entry segments\<close>

record ('k, 's) offload_state =
  os_ks :: 'k
  os_fs :: fs
  os_s3 :: 's

definition entry_s3_key :: "SegmentId \<Rightarrow> string" where
  "entry_s3_key i = ''entries/'' @ show_hex16 i @ ''.ent''"

text \<open>The status change that undoes a failed attempt; its own failure is ignored.\<close>

definition roll_back ::
  "'k db_api \<Rightarrow> string \<Rightarrow> SegmentId \<Rightarrow> ('k, 's) offload_state \<Rightarrow> ('k, 's) offload_state" where
  "roll_back D reg i st = st\<lparr> os_ks := snd (cas_status D reg (os_ks st) i Offloading Local) \<rparr>"

text \<open>From the upload on: the segment is marked, its local path is known.\<close>

definition upload_and_commit ::
  "'k db_api \<Rightarrow> 's s3_api \<Rightarrow> string \<Rightarrow> string \<Rightarrow> SegmentId \<Rightarrow> string \<Rightarrow> ('k, 's) offload_state
   \<Rightarrow> ('k, 's) offload_state" where
  "upload_and_commit D S reg bucket i path st =
     (case upload_with_retry S (os_fs st) bucket (entry_s3_key i) path (os_s3 st) of
        (Inl _, s1) \<Rightarrow> roll_back D reg i (st\<lparr> os_s3 := s1 \<rparr>)
      | (Inr _, s1) \<Rightarrow>
          (let st1 = st\<lparr> os_s3 := s1 \<rparr> in
           case s3_head_object S s1 bucket (entry_s3_key i) of
             Inl _ \<Rightarrow> roll_back D reg i st1
           | Inr _ \<Rightarrow>
               (case cas_to_s3 D reg (os_ks st1) i Offloading (entry_s3_key i) of
                  (Inl _, ks) \<Rightarrow> roll_back D reg i (st1\<lparr> os_ks := ks \<rparr>)
                | (Inr _, ks) \<Rightarrow>
                    st1\<lparr> os_ks := ks, os_fs := snd (fs_remove (os_fs st1) path) \<rparr>)))"

definition offload_segment ::
  "'k db_api \<Rightarrow> 's s3_api \<Rightarrow> string \<Rightarrow> string \<Rightarrow> (string \<Rightarrow> nat option) \<Rightarrow> OffloadPolicy \<Rightarrow> bool \<Rightarrow> SegmentMeta
   \<Rightarrow> ('k, 's) offload_state \<Rightarrow> ('k, 's) offload_state" where
  "offload_segment D S reg bucket age policy disk_pressure meta st =
     (case sm_local_path meta of
        None \<Rightarrow> st
      | Some path \<Rightarrow>
          (if \<not> disk_pressure \<and> \<not> is_old_enough age path (op_min_age policy) then st
           else
             (case cas_status D reg (os_ks st) (sm_id meta) Local Offloading of
                (Inr True, ks) \<Rightarrow> upload_and_commit D S reg bucket (sm_id meta) path (st\<lparr> os_ks := ks \<rparr>)
              | (_, ks) \<Rightarrow> st\<lparr> os_ks := ks \<rparr>)))"

definition process_pending ::
  "'k db_api \<Rightarrow> 's s3_api \<Rightarrow> string \<Rightarrow> string \<Rightarrow> (string \<Rightarrow> nat option) \<Rightarrow> OffloadPolicy \<Rightarrow> bool
   \<Rightarrow> ('k, 's) offload_state \<Rightarrow> ('k, 's) offload_state" where
  "process_pending D S reg bucket age policy disk_pressure st =
     (case list_by_status D reg (os_ks st) Local of
        Inl _ \<Rightarrow> st
      | Inr pending \<Rightarrow> fold (offload_segment D S reg bucket age policy disk_pressure) pending st)"


section \<open>Garbage collection of the log\<close>

definition gc_segment ::
  "'k db_api \<Rightarrow> string \<Rightarrow> (string \<Rightarrow> nat option) \<Rightarrow> SegmentId set \<Rightarrow> nat \<Rightarrow> bool \<Rightarrow> SegmentMeta
   \<Rightarrow> ('k, 's) offload_state \<Rightarrow> ('k, 's) offload_state" where
  "gc_segment D reg age still_needed min_age disk_pressure meta st =
     (let mark = (\<lambda>st. st\<lparr> os_ks := snd (cas_status D reg (os_ks st) (sm_id meta) Local SegDeleted) \<rparr>) in
      if sm_id meta \<in> still_needed then st
      else
        case sm_local_path meta of
          None \<Rightarrow> mark st
        | Some path \<Rightarrow>
            (if \<not> disk_pressure \<and> \<not> is_old_enough age path min_age then st
             else
               (case fs_remove (os_fs st) path of
                  (Inl _, f) \<Rightarrow> st\<lparr> os_fs := f \<rparr>
                | (Inr _, f) \<Rightarrow> mark (st\<lparr> os_fs := f \<rparr>))))"

definition wal_gc ::
  "'k db_api \<Rightarrow> string \<Rightarrow> FjallIndex \<Rightarrow> (string \<Rightarrow> nat option) \<Rightarrow> nat \<Rightarrow> bool
   \<Rightarrow> ('k, 's) offload_state \<Rightarrow> ('k, 's) offload_state" where
  "wal_gc D reg wal_index age min_age disk_pressure st =
     (case referenced_segment_ids D wal_index (os_ks st) of
        Inl _ \<Rightarrow> st
      | Inr still_needed \<Rightarrow>
          (case list_by_status D reg (os_ks st) Local of
             Inl _ \<Rightarrow> st
           | Inr local_segs \<Rightarrow> fold (gc_segment D reg age still_needed min_age disk_pressure) local_segs st))"

text \<open>One turn of \<^verbatim>\<open>offload_loop\<close>, after it was woken up.\<close>

record offload_config =
  oc_entry_registry :: string
  oc_wal_registry :: string
  oc_wal_index :: FjallIndex
  oc_s3 :: "S3Config option"
  oc_policy :: OffloadPolicy

definition offload_turn ::
  "'k db_api \<Rightarrow> 's s3_api \<Rightarrow> offload_config \<Rightarrow> (string \<Rightarrow> nat option)
   \<Rightarrow> ('k, 's) offload_state \<Rightarrow> ('k, 's) offload_state" where
  "offload_turn D S cfg age st =
     (let policy = oc_policy cfg;
          pressure = compute_disk_pressure D (oc_entry_registry cfg) (os_ks st) (op_max_local_bytes policy);
          st1 = (case oc_s3 cfg of
                   None \<Rightarrow> st
                 | Some s3 \<Rightarrow> process_pending D S (oc_entry_registry cfg) (s3_bucket s3) age policy pressure st)
      in wal_gc D (oc_wal_registry cfg) (oc_wal_index cfg) age (wal_min_age policy) pressure st1)"


section \<open>What an upload stores\<close>

text \<open>One part: what the recursion does when it goes on.\<close>

lemma upload_parts_step:
  assumes "upload_parts S f b k u path len off n ps s = (Inr ps', s')" and "off < len"
  obtains c tag s1 where "fs_read f path = Inr c"
    and "s3_upload_part S s b k u n (subrange off (off + min (len - off) MULTIPART_PART_BYTES) c) = (Inr tag, s1)"
    and "upload_parts S f b k u path len (off + min (len - off) MULTIPART_PART_BYTES) (n + 1)
           (ps @ [(case tag of None \<Rightarrow> [] | Some t \<Rightarrow> t, n)]) s1 = (Inr ps', s')"
  using assms by (subst (asm) upload_parts.simps) (auto simp: Let_def split: sum.splits prod.splits)

lemma part_progress: "off < len \<Longrightarrow> len - (off + min (len - off) MULTIPART_PART_BYTES) < len - off"
  by (simp add: MULTIPART_PART_BYTES_def min_def) arith

context s3_laws begin

lemma upload_parts_frame:
  "upload_parts S f b k u path len off n ps s = (r, s') \<Longrightarrow> obj s' = obj s"
proof (induction "len - off" arbitrary: off n ps s rule: less_induct)
  case less
  show ?case
  proof (cases "off < len")
    case False
    with less.prems show ?thesis by (simp add: upload_parts.simps)
  next
    case True
    let ?n = "min (len - off) MULTIPART_PART_BYTES"
    show ?thesis
    proof (cases "fs_read f path")
      case (Inl e)
      with less.prems True show ?thesis by (simp add: upload_parts.simps Let_def)
    next
      case (Inr c)
      obtain t s1 where up: "s3_upload_part S s b k u n (subrange off (off + ?n) c) = (t, s1)" by force
      have o1: "obj s1 = obj s" using law_part_frame[OF up] .
      show ?thesis
      proof (cases t)
        case (Inl e)
        with less.prems True Inr up o1 show ?thesis by (subst (asm) upload_parts.simps) (simp add: Let_def)
      next
        case (Inr tag)
        with less.prems True \<open>fs_read f path = Inr c\<close> up
        have "upload_parts S f b k u path len (off + ?n) (n + 1) (ps @ [(case tag of None \<Rightarrow> [] | Some t \<Rightarrow> t, n)]) s1 = (r, s')"
          by (subst (asm) upload_parts.simps) (simp add: Let_def)
        with less.hyps[OF part_progress[OF True]] o1 show ?thesis by simp
      qed
    qed
  qed
qed

text \<open>The listed parts, put together, are the file up to the current offset.\<close>

definition joined :: "'s \<Rightarrow> string \<Rightarrow> (string \<times> nat) list \<Rightarrow> bytes" where
  "joined s u ps = concat (map (\<lambda>p. the (parts s u (snd p))) ps)"

lemma upload_parts_joined:
  assumes "upload_parts S f b k u path len off n ps s = (Inr ps', s')" and "fs_read f path = Inr c" and "len = length c"
    and "\<forall>p \<in> set ps. snd p < n \<and> parts s u (snd p) \<noteq> None" and "joined s u ps = take off c" and "off \<le> len"
  shows "(\<forall>p \<in> set ps'. parts s' u (snd p) \<noteq> None) \<and> joined s' u ps' = c"
  using assms(1,4,5,6)
proof (induction "len - off" arbitrary: off n ps s rule: less_induct)
  case less
  show ?case
  proof (cases "off < len")
    case False
    with less.prems assms(3) show ?thesis by (simp add: upload_parts.simps)
  next
    case True
    let ?n = "min (len - off) MULTIPART_PART_BYTES"
    obtain tag s1 where up: "s3_upload_part S s b k u n (subrange off (off + ?n) c) = (Inr tag, s1)"
      and rest: "upload_parts S f b k u path len (off + ?n) (n + 1) (ps @ [(case tag of None \<Rightarrow> [] | Some t \<Rightarrow> t, n)]) s1 = (Inr ps', s')"
      using upload_parts_step[OF less.prems(1) True] assms(2) by (metis Inr_inject)
    note p1 = law_part[OF up]
    let ?ps = "ps @ [(case tag of None \<Rightarrow> [] | Some t \<Rightarrow> t, n)]"
    have old: "parts s1 u (snd p) = parts s u (snd p)" if "p \<in> set ps" for p
      using less.prems(2) that p1 by auto
    then have "map (\<lambda>p. the (parts s1 u (snd p))) ps = map (\<lambda>p. the (parts s u (snd p))) ps" by simp
    moreover have "joined s1 u ?ps = concat (map (\<lambda>p. the (parts s1 u (snd p))) ps) @ the (parts s1 u n)"
      by (simp add: joined_def)
    ultimately have "joined s1 u ?ps = joined s u ps @ subrange off (off + ?n) c"
      by (simp only: joined_def p1 fun_upd_same option.sel)
    then have j: "joined s1 u ?ps = take (off + ?n) c"
      using less.prems(3) take_subrange_join[of off "off + ?n" c] by simp
    have "\<forall>p \<in> set ?ps. snd p < n + 1 \<and> parts s1 u (snd p) \<noteq> None"
      using less.prems(2) old p1 by (auto simp: less_Suc_eq)
    from less.hyps[OF part_progress[OF True] rest this j] True show ?thesis by simp
  qed
qed

lemma do_upload_ok:
  assumes "do_upload S f b k path s = (Inr u, s')"
  shows "\<exists>c. map_of (fs_files f) path = Some c \<and> obj s' (b, k) = Some c"
proof -
  from assms obtain c where c: "map_of (fs_files f) path = Some c"
    by (auto simp: do_upload_def split: option.splits)
  show ?thesis
  proof (cases "length c \<le> MULTIPART_PART_BYTES")
    case True
    with assms c show ?thesis
      by (auto simp: do_upload_def fs_read_def Let_def dest: law_put split: option.splits sum.splits)
  next
    case False
    from assms c False obtain uid s1 ps s2 where
      up: "upload_parts S f b k uid path (length c) 0 1 [] s1 = (Inr ps, s2)"
      and fin: "s3_complete_multipart S s2 b k uid ps = (Inr (), s')"
      by (auto simp: do_upload_def Let_def split: option.splits sum.splits prod.splits)
    have "0 < length c" using False by linarith
    then have rd: "fs_read f path = Inr c"
      using upload_parts_step[OF up] c by (metis (no_types, lifting) fs_read_def option.simps(5) sum.distinct(1) option.case_eq_if)
    from upload_parts_joined[OF up rd refl] have
      "\<forall>p \<in> set ps. parts s2 uid (snd p) \<noteq> None" "joined s2 uid ps = c" by (simp_all add: joined_def)
    with law_complete[OF fin] c show ?thesis by (simp add: joined_def)
  qed
qed

lemma do_upload_frame:
  assumes "do_upload S f b k path s = (r, s')" and "q \<noteq> (b, k)"
  shows "obj s' q = obj s q"
  using assms(1) law_put_frame[OF _ assms(2)] law_complete_frame[OF _ assms(2)]
  by (auto simp: do_upload_def Let_def split: option.splits sum.splits prod.splits if_splits)
    (metis law_create_frame upload_parts_frame)+

lemma upload_attempts_ok:
  "upload_attempts S f b k path n s = (Inr u, s') \<Longrightarrow> \<exists>c. map_of (fs_files f) path = Some c \<and> obj s' (b, k) = Some c"
  by (induction n arbitrary: s) (auto split: sum.splits prod.splits dest: do_upload_ok)

lemma upload_attempts_frame:
  "upload_attempts S f b k path n s = (r, s') \<Longrightarrow> q \<noteq> (b, k) \<Longrightarrow> obj s' q = obj s q"
  by (induction n arbitrary: s) (auto split: sum.splits prod.splits dest: do_upload_frame)

end


section \<open>The contents of a segment are never lost\<close>

text \<open>
  What the reader relies on: a segment that is not offloaded has its contents in its own local file,
  an offloaded one has them in its own object.
\<close>

type_synonym seg_metas = "SegmentId \<Rightarrow> SegmentMeta option"

definition registry_inv :: "seg_metas \<Rightarrow> bool" where
  "registry_inv m \<longleftrightarrow>
     (\<forall>i j mi mj p. i \<noteq> j \<longrightarrow> m i = Some mi \<longrightarrow> m j = Some mj \<longrightarrow> sm_local_path mi = Some p \<longrightarrow> sm_local_path mj \<noteq> Some p)
     \<and> (\<forall>i meta. m i = Some meta \<longrightarrow> sm_status meta = S3 \<longrightarrow> sm_s3_key meta = Some (entry_s3_key i))"

definition seg_stored ::
  "seg_metas \<Rightarrow> fs \<Rightarrow> (string \<times> string \<Rightarrow> bytes option) \<Rightarrow> string \<Rightarrow> SegmentId \<Rightarrow> bytes \<Rightarrow> bool" where
  "seg_stored m f objects bucket i c \<longleftrightarrow>
     (\<exists>meta. m i = Some meta
        \<and> (if sm_status meta = S3 then \<exists>key. sm_s3_key meta = Some key \<and> objects (bucket, key) = Some c
           else sm_status meta \<noteq> SegDeleted \<and> (\<exists>path. sm_local_path meta = Some path \<and> map_of (fs_files f) path = Some c)))"

lemma entry_s3_key_inject [simp]: "entry_s3_key i = entry_s3_key j \<longleftrightarrow> i = j"
  by (metis entry_s3_key_def append_same_eq same_append_eq u64_from_str_radix_show_hex16 option.inject)

lemma fs_remove_other:
  "q \<noteq> p \<Longrightarrow> map_of (fs_files (snd (fs_remove f p))) q = map_of (fs_files f) q"
  by (auto simp: fs_remove_def delete_conv' split: option.splits)

text \<open>A status change that stays local, and the final move to the object store.\<close>

lemma stored_status_change:
  assumes "registry_inv m" and "m i = Some meta" and "sm_status meta \<in> {Local, Offloading}" and "new \<in> {Local, Offloading}"
    and "\<And>q. q \<noteq> (bucket, entry_s3_key i) \<Longrightarrow> o' q = objects q"
  shows "registry_inv (m(i \<mapsto> meta\<lparr> sm_status := new \<rparr>))"
    and "seg_stored m f objects bucket j c \<Longrightarrow> seg_stored (m(i \<mapsto> meta\<lparr> sm_status := new \<rparr>)) f o' bucket j c"
proof -
  show "registry_inv (m(i \<mapsto> meta\<lparr> sm_status := new \<rparr>))"
    using assms(1-4) unfolding registry_inv_def by (auto split: if_splits)
  assume s: "seg_stored m f objects bucket j c"
  show "seg_stored (m(i \<mapsto> meta\<lparr> sm_status := new \<rparr>)) f o' bucket j c"
  proof (cases "j = i")
    case True
    with s assms(2-4) show ?thesis by (auto simp: seg_stored_def)
  next
    case False
    from s obtain mj where mj: "m j = Some mj" by (auto simp: seg_stored_def)
    have k: "sm_s3_key mj = Some (entry_s3_key j)" if "sm_status mj = S3"
      using assms(1) mj that unfolding registry_inv_def by blast
    have oj: "o' (bucket, entry_s3_key j) = objects (bucket, entry_s3_key j)"
      using False by (intro assms(5)) simp
    show ?thesis
      using s False mj k oj by (cases "sm_status mj = S3") (simp_all add: seg_stored_def)
  qed
qed

lemma stored_move:
  assumes inv: "registry_inv m" and i: "m i = Some meta" and loc: "sm_status meta \<in> {Local, Offloading}" "sm_local_path meta = Some path"
    and f: "map_of (fs_files f) path = Some c0" and obj: "o' (bucket, entry_s3_key i) = Some c0"
    and other: "\<And>q. q \<noteq> (bucket, entry_s3_key i) \<Longrightarrow> o' q = objects q"
  defines "m' \<equiv> m(i \<mapsto> meta\<lparr> sm_status := S3, sm_s3_key := Some (entry_s3_key i), sm_local_path := None \<rparr>)"
  shows "registry_inv m'"
    and "seg_stored m f objects bucket j c \<Longrightarrow> seg_stored m' (snd (fs_remove f path)) o' bucket j c"
proof -
  show "registry_inv m'"
    using inv unfolding registry_inv_def m'_def by (auto split: if_splits)
  assume s: "seg_stored m f objects bucket j c"
  show "seg_stored m' (snd (fs_remove f path)) o' bucket j c"
  proof (cases "j = i")
    case True
    with s i loc f have "c = c0" by (auto simp: seg_stored_def)
    with True obj show ?thesis by (simp add: seg_stored_def m'_def)
  next
    case False
    from s obtain mj where mj: "m j = Some mj" by (auto simp: seg_stored_def)
    have p: "sm_local_path mj \<noteq> Some path" using inv False mj i loc(2) unfolding registry_inv_def by blast
    have k: "sm_s3_key mj = Some (entry_s3_key j)" if "sm_status mj = S3"
      using inv mj that unfolding registry_inv_def by blast
    have oj: "o' (bucket, entry_s3_key j) = objects (bucket, entry_s3_key j)"
      using False by (intro other) simp
    have rm: "map_of (fs_files (snd (fs_remove f path))) q = map_of (fs_files f) q" if "sm_local_path mj = Some q" for q
      using p that by (intro fs_remove_other) simp
    show ?thesis
      using s False mj k oj rm by (cases "sm_status mj = S3") (auto simp: seg_stored_def m'_def)
  qed
qed

text \<open>
  A pass works on a list of segments that was read at its start. \<open>tracks\<close>: how the registry entry
  of a listed segment can look later in the pass.
\<close>

definition tracks :: "seg_metas \<Rightarrow> SegmentMeta \<Rightarrow> bool" where
  "tracks m meta \<longleftrightarrow>
     (\<exists>cur. m (sm_id meta) = Some cur
        \<and> (cur = meta \<or> cur = meta\<lparr> sm_status := Offloading \<rparr> \<or> sm_status cur = S3))"

lemma tracks_change:
  assumes "tracks m meta" and "sm_status meta = Local" and "m i = Some cur" and "sm_status cur \<noteq> S3"
    and "new = cur\<lparr> sm_status := Local \<rparr> \<or> new = cur\<lparr> sm_status := Offloading \<rparr> \<or> sm_status new = S3"
  shows "tracks (m(i \<mapsto> new)) meta"
proof -
  have "meta\<lparr> sm_status := Local \<rparr> = meta" using assms(2) by simp
  with assms show ?thesis by (auto simp: tracks_def)
qed

locale offload_laws = db_laws D kv + s3_laws S obj parts
  for D :: "'k db_api" and kv and S :: "'s s3_api" and obj and parts
begin

abbreviation metas :: "string \<Rightarrow> ('k, 's) offload_state \<Rightarrow> seg_metas" where
  "metas reg st \<equiv> seg_map D (kv (os_ks st) reg)"

text \<open>\<open>keeps\<close>: a step that keeps the invariant and every stored segment.\<close>

definition keeps :: "string \<Rightarrow> string \<Rightarrow> ('k, 's) offload_state \<Rightarrow> ('k, 's) offload_state \<Rightarrow> bool" where
  "keeps reg bucket st st' \<longleftrightarrow>
     (seg_wf D (kv (os_ks st) reg) \<and> registry_inv (metas reg st) \<longrightarrow>
        seg_wf D (kv (os_ks st') reg) \<and> registry_inv (metas reg st')
        \<and> (\<forall>i c. seg_stored (metas reg st) (os_fs st) (obj (os_s3 st)) bucket i c \<longrightarrow>
               seg_stored (metas reg st') (os_fs st') (obj (os_s3 st')) bucket i c)
        \<and> (\<forall>meta. sm_status meta = Local \<longrightarrow> tracks (metas reg st) meta \<longrightarrow> tracks (metas reg st') meta))"

lemma keeps_refl [simp]: "keeps reg bucket st st"
  by (simp add: keeps_def)

lemma keeps_trans: "keeps reg bucket st st1 \<Longrightarrow> keeps reg bucket st1 st2 \<Longrightarrow> keeps reg bucket st st2"
  by (simp add: keeps_def)

end


context offload_laws begin

lemma keeps_same:
  "kv (os_ks st') reg = kv (os_ks st) reg \<Longrightarrow> os_fs st' = os_fs st \<Longrightarrow> os_s3 st' = os_s3 st \<Longrightarrow> keeps reg bucket st st'"
  by (simp add: keeps_def)

lemma cas_keeps:
  assumes "expected \<in> {Local, Offloading}" and "new \<in> {Local, Offloading}"
  shows "keeps reg bucket st (st\<lparr> os_ks := snd (cas_status D reg (os_ks st) i expected new) \<rparr>)"
proof -
  obtain r ks where c: "cas_status D reg (os_ks st) i expected new = (r, ks)" by force
  show ?thesis
  proof (cases r)
    case (Inl e)
    with c have "kv ks = kv (os_ks st)" using cas_status_err by simp
    with c show ?thesis by (intro keeps_same) simp_all
  next
    case (Inr sw)
    show ?thesis
      unfolding keeps_def
    proof (intro impI, elim conjE)
      assume wf: "seg_wf D (kv (os_ks st) reg)" and inv: "registry_inv (metas reg st)"
      note ok = cas_status_ok[OF c[unfolded Inr] wf]
      let ?st = "st\<lparr> os_ks := snd (cas_status D reg (os_ks st) i expected new) \<rparr>"
      show "seg_wf D (kv (os_ks ?st) reg) \<and> registry_inv (metas reg ?st)
        \<and> (\<forall>j c. seg_stored (metas reg st) (os_fs st) (obj (os_s3 st)) bucket j c \<longrightarrow>
             seg_stored (metas reg ?st) (os_fs ?st) (obj (os_s3 ?st)) bucket j c)
        \<and> (\<forall>meta. sm_status meta = Local \<longrightarrow> tracks (metas reg st) meta \<longrightarrow> tracks (metas reg ?st) meta)"
      proof (cases sw)
        case False
        with ok(2,4) inv show ?thesis by (simp add: c)
      next
        case True
        then obtain meta where m: "metas reg st i = Some meta" "sm_status meta = expected" using ok(1) by blast
        note ch = stored_status_change[OF inv m(1), of new bucket "obj (os_s3 st)" "obj (os_s3 st)"]
        have "tracks ((metas reg st)(i \<mapsto> meta\<lparr> sm_status := new \<rparr>)) x"
          if "sm_status x = Local" "tracks (metas reg st) x" for x
          using tracks_change[OF that(2,1) m(1)] m(2) assms by auto
        with ok(2,4) True m ch assms show ?thesis by (simp add: c)
      qed
    qed
  qed
qed

lemma roll_back_keeps: "keeps reg bucket st (roll_back D reg i st)"
  unfolding roll_back_def by (rule cas_keeps) simp_all

lemma upload_keeps:
  assumes "metas reg st i = Some meta" and "sm_status meta = Offloading"
    and "\<And>q. q \<noteq> (bucket, entry_s3_key i) \<Longrightarrow> obj s1 q = obj (os_s3 st) q"
  shows "keeps reg bucket st (st\<lparr> os_s3 := s1 \<rparr>)"
proof -
  have "seg_stored (metas reg st) (os_fs st) (obj s1) bucket j c"
    if "registry_inv (metas reg st)" "seg_stored (metas reg st) (os_fs st) (obj (os_s3 st)) bucket j c" for j c
    using stored_status_change(2)[OF that(1) assms(1) _ _ assms(3) that(2), of Offloading] assms(1,2)
    by (simp add: fun_upd_idem)
  then show ?thesis by (simp add: keeps_def)
qed

lemma commit_keeps:
  assumes m: "metas reg st i = Some meta" "sm_status meta = Offloading" "sm_local_path meta = Some path"
    and up: "map_of (fs_files (os_fs st)) path = Some c0" "obj s1 (bucket, entry_s3_key i) = Some c0"
    and other: "\<And>q. q \<noteq> (bucket, entry_s3_key i) \<Longrightarrow> obj s1 q = obj (os_s3 st) q"
    and cas: "cas_to_s3 D reg (os_ks st) i Offloading (entry_s3_key i) = (Inr sw, ks)"
  shows "keeps reg bucket st (st\<lparr> os_s3 := s1, os_ks := ks, os_fs := snd (fs_remove (os_fs st) path) \<rparr>)"
  unfolding keeps_def
proof (intro impI, elim conjE)
  assume wf: "seg_wf D (kv (os_ks st) reg)" and inv: "registry_inv (metas reg st)"
  note ok = cas_to_s3_ok[OF cas wf]
  have sw: "sw" using ok(1) m by blast
  have loc: "sm_status meta \<in> {Local, Offloading}" using m(2) by simp
  note mv = stored_move[where o' = "obj s1" and objects = "obj (os_s3 st)", OF inv m(1) loc m(3) up other]
  let ?st = "st\<lparr> os_s3 := s1, os_ks := ks, os_fs := snd (fs_remove (os_fs st) path) \<rparr>"
  show "seg_wf D (kv (os_ks ?st) reg) \<and> registry_inv (metas reg ?st)
    \<and> (\<forall>j c. seg_stored (metas reg st) (os_fs st) (obj (os_s3 st)) bucket j c \<longrightarrow>
         seg_stored (metas reg ?st) (os_fs ?st) (obj (os_s3 ?st)) bucket j c)
    \<and> (\<forall>x. sm_status x = Local \<longrightarrow> tracks (metas reg st) x \<longrightarrow> tracks (metas reg ?st) x)"
    using ok(2,4) sw m mv tracks_change[where m = "metas reg st" and i = i and cur = meta
      and new = "meta\<lparr> sm_status := S3, sm_s3_key := Some (entry_s3_key i), sm_local_path := None \<rparr>"] by simp
qed

lemma upload_and_commit_keeps:
  assumes m: "metas reg st i = Some meta" "sm_status meta = Offloading" "sm_local_path meta = Some path"
  shows "keeps reg bucket st (upload_and_commit D S reg bucket i path st)"
proof -
  obtain r s1 where up: "upload_with_retry S (os_fs st) bucket (entry_s3_key i) path (os_s3 st) = (r, s1)" by force
  have other: "obj s1 q = obj (os_s3 st) q" if "q \<noteq> (bucket, entry_s3_key i)" for q
    using upload_attempts_frame[OF up[unfolded upload_with_retry_def] that] .
  note k1 = upload_keeps[OF m(1,2) other]
  have rb: "keeps reg bucket st (roll_back D reg i (st\<lparr> os_s3 := s1 \<rparr>))"
    by (rule keeps_trans[OF k1 roll_back_keeps])
  show ?thesis
  proof (cases "\<exists>u v. r = Inr u \<and> s3_head_object S s1 bucket (entry_s3_key i) = Inr v")
    case False
    then show ?thesis using rb by (auto simp: upload_and_commit_def up Let_def split: sum.splits)
  next
    case True
    then obtain u v where r: "r = Inr u" and hd: "s3_head_object S s1 bucket (entry_s3_key i) = Inr v" by blast
    obtain t ks where cas: "cas_to_s3 D reg (os_ks st) i Offloading (entry_s3_key i) = (t, ks)" by force
    show ?thesis
    proof (cases t)
      case (Inl e)
      then have "kv ks = kv (os_ks st)" using cas cas_to_s3_err by blast
      then have "keeps reg bucket (st\<lparr> os_s3 := s1 \<rparr>) (st\<lparr> os_s3 := s1, os_ks := ks \<rparr>)"
        by (intro keeps_same) simp_all
      from keeps_trans[OF keeps_trans[OF k1 this] roll_back_keeps] show ?thesis
        using Inl by (simp add: upload_and_commit_def up r hd cas Let_def)
    next
      case (Inr sw)
      obtain c0 where c0: "map_of (fs_files (os_fs st)) path = Some c0" "obj s1 (bucket, entry_s3_key i) = Some c0"
        using upload_attempts_ok[OF up[unfolded upload_with_retry_def r]] by blast
      from commit_keeps[OF m c0 other cas[unfolded Inr]] show ?thesis
        using Inr by (simp add: upload_and_commit_def up r hd cas Let_def)
    qed
  qed
qed

lemma offload_segment_keeps:
  assumes "sm_status meta = Local" and tr: "seg_wf D (kv (os_ks st) reg) \<Longrightarrow> tracks (metas reg st) meta"
  shows "keeps reg bucket st (offload_segment D S reg bucket age policy pressure meta st)"
proof (cases "sm_local_path meta")
  case None
  then show ?thesis by (simp add: offload_segment_def)
next
  case (Some path)
  obtain r ks where c: "cas_status D reg (os_ks st) (sm_id meta) Local Offloading = (r, ks)" by force
  have k: "keeps reg bucket st (st\<lparr> os_ks := ks \<rparr>)"
    using cas_keeps[of Local Offloading reg bucket st "sm_id meta"] by (simp add: c)
  show ?thesis
  proof (cases "r = Inr True \<and> seg_wf D (kv (os_ks st) reg)")
    case True
    then have r: "r = Inr True" and wf: "seg_wf D (kv (os_ks st) reg)" by simp_all
    note ok = cas_status_ok[OF c[unfolded r] wf]
    have "metas reg st (sm_id meta) = Some meta" using ok(1) tr[OF wf] by (auto simp: tracks_def)
    then have "metas reg (st\<lparr> os_ks := ks \<rparr>) (sm_id meta) = Some (meta\<lparr> sm_status := Offloading \<rparr>)"
      using ok(2) by simp
    then have "keeps reg bucket (st\<lparr> os_ks := ks \<rparr>) (upload_and_commit D S reg bucket (sm_id meta) path (st\<lparr> os_ks := ks \<rparr>))"
      by (rule upload_and_commit_keeps) (simp_all add: Some)
    with k show ?thesis by (auto simp: offload_segment_def Some c r intro: keeps_trans)
  next
    case False
    with k show ?thesis
      by (auto simp: offload_segment_def Some c keeps_def split: sum.splits bool.splits)
  qed
qed

lemma process_pending_keeps: "keeps reg bucket st (process_pending D S reg bucket age policy pressure st)"
proof (cases "list_by_status D reg (os_ks st) Local")
  case (Inl e)
  then show ?thesis by (simp add: process_pending_def)
next
  case (Inr pending)
  have "keeps reg bucket st (fold (offload_segment D S reg bucket age policy pressure) xs st)"
    if "\<forall>meta \<in> set xs. sm_status meta = Local \<and> tracks (metas reg st) meta"
      "seg_wf D (kv (os_ks st) reg)" "registry_inv (metas reg st)" for xs
    using that
  proof (induction xs arbitrary: st)
    case (Cons x xs)
    have k: "keeps reg bucket st (offload_segment D S reg bucket age policy pressure x st)"
      using Cons.prems by (intro offload_segment_keeps) simp_all
    then show ?case
      using Cons.prems by (simp, intro keeps_trans[OF k] Cons.IH) (simp_all add: keeps_def)
  qed simp
  moreover have "\<forall>meta \<in> set pending. sm_status meta = Local \<and> tracks (metas reg st) meta"
    if wf: "seg_wf D (kv (os_ks st) reg)"
    using list_by_status_ok[OF Inr wf] wf by (auto simp: tracks_def seg_wf_def)
  ultimately show ?thesis
    using Inr by (simp add: process_pending_def) (simp add: keeps_def)
qed

end


section \<open>What the log collection removes\<close>

lemma fs_remove_gone:
  "fs_write_err f p = None \<Longrightarrow> map_of (fs_files (snd (fs_remove f p))) p = None"
  by (auto simp: fs_remove_def delete_conv' split: option.splits)

lemma fs_remove_none:
  "map_of (fs_files f) q = None \<Longrightarrow> map_of (fs_files (snd (fs_remove f p))) q = None"
  by (auto simp: fs_remove_def delete_conv' split: option.splits)

lemma fs_remove_sel [simp]: "fs_write_err (snd (fs_remove f p)) = fs_write_err f"
  by (auto simp: fs_remove_def split: option.splits)

lemma gc_segment_fs:
  "os_fs (gc_segment D reg age needed min_age pressure meta st) =
     (case sm_local_path meta of
        None \<Rightarrow> os_fs st
      | Some path \<Rightarrow>
          if sm_id meta \<in> needed \<or> \<not> pressure \<and> \<not> is_old_enough age path min_age then os_fs st
          else snd (fs_remove (os_fs st) path))"
  by (auto simp: gc_segment_def Let_def split: option.splits sum.splits prod.splits)

lemma gc_segment_ks:
  "os_ks (gc_segment D reg age needed min_age pressure meta st) = os_ks st \<or>
   sm_id meta \<notin> needed \<and> os_ks (gc_segment D reg age needed min_age pressure meta st)
     = snd (cas_status D reg (os_ks st) (sm_id meta) Local SegDeleted)"
  by (auto simp: gc_segment_def Let_def split: option.splits sum.splits prod.splits)

lemma gc_fold_gone:
  assumes "\<exists>x \<in> set xs. sm_id x \<notin> needed \<and> sm_local_path x = Some p"
    and "fs_write_err (os_fs st) p = None" and "pressure"
  shows "map_of (fs_files (os_fs (fold (gc_segment D reg age needed min_age pressure) xs st))) p = None"
  using assms(1,2)
proof (induction xs arbitrary: st)
  case (Cons x xs)
  let ?st = "gc_segment D reg age needed min_age pressure x st"
  have gone: "map_of (fs_files (os_fs (fold (gc_segment D reg age needed min_age pressure) ys st'))) p = None"
    if "map_of (fs_files (os_fs st')) p = None" for ys st'
    using that
    by (induction ys arbitrary: st') (simp_all add: gc_segment_fs fs_remove_none split: option.splits)
  have we: "fs_write_err (os_fs ?st) p = None"
    using Cons.prems(2) by (simp add: gc_segment_fs split: option.splits)
  show ?case
  proof (cases "map_of (fs_files (os_fs ?st)) p = None")
    case True
    then show ?thesis using gone by simp
  next
    case False
    then have "\<not> (sm_id x \<notin> needed \<and> sm_local_path x = Some p)"
      using fs_remove_gone[OF Cons.prems(2)] assms(3) by (auto simp: gc_segment_fs)
    with Cons.prems(1) have "\<exists>y \<in> set xs. sm_id y \<notin> needed \<and> sm_local_path y = Some p" by auto
    then show ?thesis using Cons.IH we by simp
  qed
qed simp

context db_laws begin

lemma cas_other:
  assumes "seg_wf D (kv ks reg)"
  shows "seg_wf D (kv (snd (cas_status D reg ks i expected new)) reg)"
    and "j \<noteq> i \<Longrightarrow> seg_map D (kv (snd (cas_status D reg ks i expected new)) reg) j = seg_map D (kv ks reg) j"
    and "q \<noteq> reg \<Longrightarrow> kv (snd (cas_status D reg ks i expected new)) q = kv ks q"
proof -
  obtain r ks' where c: "cas_status D reg ks i expected new = (r, ks')" by force
  have "seg_wf D (kv ks' reg) \<and> (j \<noteq> i \<longrightarrow> seg_map D (kv ks' reg) j = seg_map D (kv ks reg) j) \<and> (q \<noteq> reg \<longrightarrow> kv ks' q = kv ks q)"
  proof (cases r)
    case (Inl e)
    with c cas_status_err assms show ?thesis by fastforce
  next
    case (Inr sw)
    from cas_status_ok[OF c[unfolded Inr] assms] show ?thesis by simp
  qed
  with c show "seg_wf D (kv (snd (cas_status D reg ks i expected new)) reg)"
    and "j \<noteq> i \<Longrightarrow> seg_map D (kv (snd (cas_status D reg ks i expected new)) reg) j = seg_map D (kv ks reg) j"
    and "q \<noteq> reg \<Longrightarrow> kv (snd (cas_status D reg ks i expected new)) q = kv ks q" by simp_all
qed

lemma gc_fold_keeps:
  fixes st :: "('k, 's) offload_state"
  assumes "\<forall>x \<in> set xs. sm_id x \<in> needed \<or> sm_id x \<noteq> i \<and> sm_local_path x \<noteq> Some p" and "seg_wf D (kv (os_ks st) reg)"
  shows "map_of (fs_files (os_fs (fold (gc_segment D reg age needed min_age pressure) xs st))) p = map_of (fs_files (os_fs st)) p
    \<and> (i \<in> needed \<longrightarrow> seg_map D (kv (os_ks (fold (gc_segment D reg age needed min_age pressure) xs st)) reg) i = seg_map D (kv (os_ks st) reg) i)"
  using assms
proof (induction xs arbitrary: st)
  case (Cons x xs)
  let ?st = "gc_segment D reg age needed min_age pressure x st"
  have f: "map_of (fs_files (os_fs ?st)) p = map_of (fs_files (os_fs st)) p"
    using Cons.prems(1) fs_remove_other[of p _ "os_fs st"] by (auto simp: gc_segment_fs split: option.splits)
  have "seg_wf D (kv (os_ks ?st) reg) \<and> (i \<in> needed \<longrightarrow> seg_map D (kv (os_ks ?st) reg) i = seg_map D (kv (os_ks st) reg) i)"
    using gc_segment_ks[of D reg age needed min_age pressure x st] Cons.prems cas_other[OF Cons.prems(2)] by metis
  with Cons.IH[of ?st] Cons.prems(1) f show ?case by auto
qed simp

lemma gc_fold_frame:
  fixes st :: "('k, 's) offload_state"
  assumes "seg_wf D (kv (os_ks st) reg)" and "q \<noteq> reg"
  shows "kv (os_ks (fold (gc_segment D reg age needed min_age pressure) xs st)) q = kv (os_ks st) q"
  using assms(1)
proof (induction xs arbitrary: st)
  case (Cons x xs)
  let ?st = "gc_segment D reg age needed min_age pressure x st"
  have "seg_wf D (kv (os_ks ?st) reg) \<and> kv (os_ks ?st) q = kv (os_ks st) q"
    using gc_segment_ks[of D reg age needed min_age pressure x st] Cons.prems cas_other[OF Cons.prems] assms(2) by metis
  with Cons.IH show ?case by simp
qed simp

end

end
