(* ===== verification/ReaderSpec.thy ===== *)
theory ReaderSpec
  imports RefStore Offloader
begin

text \<open>
  Properties of the read path below the cache and of the offloader: the reader finds every intact
  record that fits into two blocks, an upload stores exactly the file, a pass of the offloader loses
  nothing and leaves every entry readable, and what the collection of log segments keeps and
  deletes. The examples run on the reference store, block cache and object store.
\<close>

interpretation ro: offload_laws ref_db ref_kv ref_s3 "\<lambda>s. map_of (rs3_objects s)" "\<lambda>s u n. map_of (rs3_parts s) (u, n)"
  by unfold_locales


section \<open>Example state\<close>

text \<open>One entry segment, number four, with a single record.\<close>

definition demo_entry_index :: FjallIndex where
  "demo_entry_index = \<lparr> ix_entries = ''entry.entries'', ix_locations = ''entry.locations'',
     ix_checkpoints = ''entry.checkpoints'', ix_ledgers = ''entry.ledgers'' \<rparr>"

definition demo_wal_index :: FjallIndex where
  "demo_wal_index = \<lparr> ix_entries = ''wal.entries'', ix_locations = ''wal.locations'',
     ix_checkpoints = ''wal.checkpoints'', ix_ledgers = ''wal.ledgers'' \<rparr>"

definition demo_s3cfg :: S3Config where
  "demo_s3cfg = \<lparr> s3_bucket = ''b'', s3_endpoint = None, s3_region = ''r'' \<rparr>"

definition demo_tr :: TieredReader where
  "demo_tr = \<lparr> tr_entry_index = demo_entry_index, tr_entry_registry = ''entry.registry'',
     tr_wal_index = demo_wal_index, tr_wal_registry = ''wal.registry'', tr_s3 = Some demo_s3cfg \<rparr>"

definition demo_seg :: SegmentMeta where
  "demo_seg = \<lparr> sm_id = 4, sm_kind = EntryKind, sm_status = Local, sm_local_path = Some ''d/e'',
     sm_s3_key = None, sm_byte_len = 0, sm_ledger_sizes = [] \<rparr>"

definition demo_file :: "bytes \<Rightarrow> bytes" where
  "demo_file p = encode_record (\<lambda>_. 0) 3 7 p"

definition demo_iv :: "bytes \<Rightarrow> IndexValue" where
  "demo_iv p = \<lparr> iv_segment_id = 4, iv_offset = 0, iv_length = of_nat (24 + length p) \<rparr>"

definition demo_reader_fs :: "bytes \<Rightarrow> fs" where
  "demo_reader_fs p = \<lparr> fs_files = [(''d/e'', demo_file p)], fs_dirs = [''d''],
     fs_read_err = (\<lambda>_. None), fs_write_err = (\<lambda>_. None) \<rparr>"

definition demo_reg_ks :: ref_ks where
  "demo_reg_ks = snd (upsert ref_db ''entry.registry'' [] demo_seg)"

definition demo_reader_ks :: "bytes \<Rightarrow> ref_ks" where
  "demo_reader_ks p = snd (insert_location ref_db demo_entry_index demo_reg_ks 3 7 4 0 (of_nat (24 + length p)))"

definition demo_s3 :: ref_s3 where
  "demo_s3 = \<lparr> rs3_objects = [], rs3_parts = [], rs3_next = 0 \<rparr>"

lemmas reader_demos = demo_tr_def demo_entry_index_def demo_seg_def demo_reg_ks_def demo_reader_ks_def
  demo_iv_def demo_reader_fs_def insert_location_def get_location_def upsert_def registry_get_def
  storage_err_simps ref_simps

lemma demo_location: "get_location ref_db (tr_entry_index demo_tr) (demo_reader_ks p) 3 7 = Inr (Some (demo_iv p))"
  by (simp add: reader_demos)

lemma demo_registered: "registry_get ref_db (tr_entry_registry demo_tr) (demo_reader_ks p) (iv_segment_id (demo_iv p)) = Inr (Some demo_seg)"
  by (simp add: reader_demos id_key_def)

lemma demo_contents:
  "map_of (fs_files (demo_reader_fs p)) ''d/e'' = Some (demo_file p)" "fs_read_err (demo_reader_fs p) q = None"
  by (simp_all add: demo_reader_fs_def)

lemma demo_rec: "rec_at (\<lambda>_. 0) (demo_file p) (unat (iv_offset (demo_iv p))) 3 7 p"
  using rec_at_here[of "\<lambda>_. 0" "[]" 3 7 p "[]"] by (simp add: demo_file_def demo_iv_def)

lemma demo_length: "length p < 2 ^ 31 \<Longrightarrow> unat (iv_length (demo_iv p)) = 24 + length p"
  by (simp add: demo_iv_def unat_of_nat del: of_nat_add)

lemma demo_small: "length p < 2 ^ 31 \<Longrightarrow> length (demo_file p) < 2 ^ 63"
  by (simp add: demo_file_def)

lemma demo_blocks: "blocks_ok ref_block (\<lambda>_. Some c) (8, [])"
  by (simp add: blocks_ok_def ref_block_def)

lemma demo_seg_map:
  "seg_map ref_db (ref_kv demo_reg_ks ''entry.registry'') = [4 \<mapsto> demo_seg]"
  "seg_wf ref_db (ref_kv demo_reg_ks ''entry.registry'')"
proof -
  have u: "upsert ref_db ''entry.registry'' [] demo_seg = (Inr (), demo_reg_ks)"
    by (simp add: reader_demos)
  have empty: "seg_map ref_db (\<lambda>_. None) = (\<lambda>_. None)" by (simp add: seg_map_def abs_map_def fun_eq_iff)
  show "seg_map ref_db (ref_kv demo_reg_ks ''entry.registry'') = [4 \<mapsto> demo_seg]"
    using ref.upsert_ok(1)[OF u] by (simp add: empty demo_seg_def ref_kv_empty)
  show "seg_wf ref_db (ref_kv demo_reg_ks ''entry.registry'')"
    by (rule ref.upsert_ok(3)[OF u]) (simp add: seg_wf_def seg_map_def abs_map_def ref_simps)
qed

lemma demo_inv: "registry_inv [4 \<mapsto> demo_seg]"
  by (simp add: registry_inv_def demo_seg_def)


section \<open>Reading\<close>

text \<open>
  C23. The reader returns the payload: the entry index has a location, the registry knows the segment
  as a local one, its file holds the record there, and the record does not reach beyond the second
  block. Then the read succeeds with exactly the payload, from the file or from the block cache,
  and the block cache still holds only blocks of the files.
\<close>

theorem tiered_read_local_correct:
  assumes "block_laws B" and "get_location D (tr_entry_index tr) ks l e = Inr (Some iv)"
    and "registry_get D (tr_entry_registry tr) ks (iv_segment_id iv) = Inr (Some meta)"
    and "sm_status meta \<in> {Active, Local, Offloading}" and "sm_local_path meta = Some path"
    and "map_of (fs_files f) path = Some c" and "fs_read_err f path = None" and "length c < 2 ^ 63"
    and "rec_at crc c (unat (iv_offset iv)) l e p" and "unat (iv_length iv) = 24 + length p" and "two_blocks iv"
    and "blocks_ok B content bc" and "sm_status meta \<noteq> Active \<Longrightarrow> content (iv_segment_id iv) = Some c"
  shows "\<exists>bc'. tiered_read_entry D B S crc tr f ks s l e bc = (Inr p, bc') \<and> blocks_ok B content bc'"
proof -
  obtain bc' where "read_entry_local B crc f path (sm_status meta \<noteq> Active) iv bc = (Inr p, bc')"
    and "blocks_ok B content bc'"
    using block_laws.read_entry_local_ok[OF assms(1,6,7,13,12,9,10,8,11)] by blast
  with assms(2-5) show ?thesis
    by (auto simp: tiered_read_entry_def read_from_entry_segment_def Let_def)
qed

theorem tiered_read_local_correct_witness:
  "fst (tiered_read_entry ref_db ref_block ref_s3 (\<lambda>_. 0) demo_tr (demo_reader_fs [9]) (demo_reader_ks [9]) demo_s3 3 7 (8, [])) = Inr [9]"
proof -
  have "two_blocks (demo_iv [9])" by (simp add: two_blocks_def demo_iv_def BLOCK_SIZE_def)
  from tiered_read_local_correct[OF rb.block_laws_axioms demo_location demo_registered _ _ demo_contents demo_small
      demo_rec demo_length this demo_blocks, where S = ref_s3 and s = demo_s3]
  show ?thesis by (auto simp: demo_seg_def)
qed

text \<open>
  C39. A record that reaches beyond its second block is never returned: with the same file, index and
  registry the read fails, although the record is intact on disk.
\<close>

theorem tiered_read_large_fails:
  assumes "block_laws B" and "get_location D (tr_entry_index tr) ks l e = Inr (Some iv)"
    and "registry_get D (tr_entry_registry tr) ks (iv_segment_id iv) = Inr (Some meta)"
    and "sm_status meta \<in> {Active, Local, Offloading}" and "sm_local_path meta = Some path"
    and "map_of (fs_files f) path = Some c" and "fs_read_err f path = None" and "length c < 2 ^ 63"
    and "rec_at crc c (unat (iv_offset iv)) l e p" and "unat (iv_length iv) = 24 + length p" and "\<not> two_blocks iv"
    and "blocks_ok B content bc" and "sm_status meta \<noteq> Active \<Longrightarrow> content (iv_segment_id iv) = Some c"
  shows "isl (fst (tiered_read_entry D B S crc tr f ks s l e bc))"
proof -
  have len: "unat (iv_offset iv) + unat (iv_length iv) < 2 ^ 63"
    using assms(8,9,10) by (simp add: rec_at_def)
  then have fits: "unat (iv_offset iv) < 2 ^ 63" by simp
  obtain bc' where r: "read_entry_local B crc f path (sm_status meta \<noteq> Active) iv bc
      = (payload_at crc (subrange (unat (block_start (iv_offset iv))) (window_end iv) c) iv, bc')"
    using block_laws.read_entry_local_eq[OF assms(1,6,7,13,12) fits] by blast
  have one: "\<not> one_block iv" using one_block_iff[OF len] assms(11) by (auto simp: two_blocks_def)
  have "isl (payload_at crc (subrange (unat (block_start (iv_offset iv))) (window_end iv) c) iv)"
  proof (rule payload_at_cut[OF assms(9,10,8) refl])
    show "unat (iv_offset iv) + 4 \<le> window_end iv"
      using block_start_le(2)[of "iv_offset iv"] one by (simp add: window_end_def BLOCK_SIZE_def)
    show "window_end iv < unat (iv_offset iv) + unat (iv_length iv)"
      using window_end_iff[OF len] assms(11) by simp
  qed
  with r assms(2-5) show ?thesis
    by (auto simp: tiered_read_entry_def read_from_entry_segment_def Let_def)
qed


theorem tiered_read_large_fails_witness:
  "isl (fst (tiered_read_entry ref_db ref_block ref_s3 (\<lambda>_. 0) demo_tr (demo_reader_fs (replicate 600000 1))
     (demo_reader_ks (replicate 600000 1)) demo_s3 3 7 (8, [])))"
proof -
  let ?p = "replicate 600000 (1 :: u8)"
  have "\<not> two_blocks (demo_iv ?p)" by (simp add: two_blocks_def demo_iv_def unat_block_start BLOCK_SIZE_def)
  from tiered_read_large_fails[OF rb.block_laws_axioms demo_location demo_registered _ _ demo_contents demo_small
      demo_rec demo_length this demo_blocks, where S = ref_s3 and s = demo_s3]
  show ?thesis by (auto simp: demo_seg_def)
qed


section \<open>Offloading\<close>

text \<open>
  An upload stores exactly the file: when \<open>do_upload\<close> succeeds, in one request or in parts of ten
  megabytes, the object is the content of the local file, and no other object changed.
\<close>

theorem upload_stores_file:
  assumes "s3_laws S obj parts" and "do_upload S f bucket key path s = (Inr (), s')"
  shows "map_of (fs_files f) path \<noteq> None \<and> obj s' (bucket, key) = map_of (fs_files f) path
    \<and> (\<forall>q. q \<noteq> (bucket, key) \<longrightarrow> obj s' q = obj s q)"
  using s3_laws.do_upload_ok[OF assms] s3_laws.do_upload_frame[OF assms] by auto

theorem upload_stores_file_witness:
  "map_of (rs3_objects (snd (do_upload ref_s3 (demo_reader_fs [9]) ''b'' ''k'' ''d/e'' demo_s3))) (''b'', ''k'') = Some (demo_file [9])"
proof -
  let ?r = "do_upload ref_s3 (demo_reader_fs [9]) ''b'' ''k'' ''d/e'' demo_s3"
  have "?r = (Inr (), snd ?r)"
    by (simp add: do_upload_def demo_reader_fs_def demo_file_def fs_read_def MULTIPART_PART_BYTES_def ref_s3_def)
  from upload_stores_file[OF rs3.s3_laws_axioms this] show ?thesis by (simp add: demo_reader_fs_def)
qed

text \<open>
  C25. Offloading loses nothing: whatever the object store answers, a pass over the entry segments
  keeps the registry well-formed, and the contents of every segment stay available, in its own
  local file or in its own object.
\<close>

theorem offload_keeps_contents:
  assumes "db_laws D kv" and "s3_laws S obj parts" and "seg_wf D (kv (os_ks st) reg)"
    and "registry_inv (seg_map D (kv (os_ks st) reg))"
    and "seg_stored (seg_map D (kv (os_ks st) reg)) (os_fs st) (obj (os_s3 st)) bucket i c"
    and "st' = process_pending D S reg bucket age policy pressure st"
  shows "seg_wf D (kv (os_ks st') reg) \<and> registry_inv (seg_map D (kv (os_ks st') reg))
    \<and> seg_stored (seg_map D (kv (os_ks st') reg)) (os_fs st') (obj (os_s3 st')) bucket i c"
proof -
  have ol: "offload_laws D kv S obj parts" using assms(1,2) by (simp add: offload_laws_def)
  from offload_laws.process_pending_keeps[OF ol, where st = st] assms(3-5) show ?thesis
    unfolding assms(6) offload_laws.keeps_def[OF ol] by blast
qed

definition demo_offload :: "bytes \<Rightarrow> (ref_ks, ref_s3) offload_state" where
  "demo_offload p = \<lparr> os_ks = demo_reg_ks, os_fs = demo_reader_fs p, os_s3 = demo_s3 \<rparr>"

lemma demo_stored:
  "seg_stored [4 \<mapsto> demo_seg] (demo_reader_fs p) (map_of (rs3_objects demo_s3)) b 4 (demo_file p)"
  by (simp add: seg_stored_def demo_seg_def demo_reader_fs_def)

theorem offload_keeps_contents_witness:
  "seg_stored (seg_map ref_db (ref_kv (os_ks (process_pending ref_db ref_s3 ''entry.registry'' ''b'' (\<lambda>_. None)
        OffloadPolicy_default False (demo_offload [9]))) ''entry.registry''))
     (os_fs (process_pending ref_db ref_s3 ''entry.registry'' ''b'' (\<lambda>_. None) OffloadPolicy_default False (demo_offload [9])))
     (map_of (rs3_objects (os_s3 (process_pending ref_db ref_s3 ''entry.registry'' ''b'' (\<lambda>_. None)
        OffloadPolicy_default False (demo_offload [9]))))) ''b'' 4 (demo_file [9])"
proof -
  have "seg_wf ref_db (ref_kv (os_ks (demo_offload [9])) ''entry.registry'')"
    "registry_inv (seg_map ref_db (ref_kv (os_ks (demo_offload [9])) ''entry.registry''))"
    "seg_stored (seg_map ref_db (ref_kv (os_ks (demo_offload [9])) ''entry.registry'')) (os_fs (demo_offload [9]))
       (map_of (rs3_objects (os_s3 (demo_offload [9])))) ''b'' 4 (demo_file [9])"
    by (simp_all add: demo_offload_def demo_seg_map demo_inv demo_stored)
  from offload_keeps_contents[OF ref.db_laws_axioms rs3.s3_laws_axioms this refl] show ?thesis by blast
qed

text \<open>Decoding a record that was fetched as a range.\<close>

lemma decode_range:
  fixes off len :: u64
  assumes "rec_at crc c (unat off) l e p" and "unat len = 24 + length p" and "length c < 2 ^ 63" and "length p < 2 ^ 32"
  shows "decode_record crc (subrange (unat off) (unat (off + len - 1) + 1) c) 0 = Inr (l, e, p, 24 + length p)"
proof -
  have le: "unat off + unat len \<le> length c" using assms(1,2) by (simp add: rec_at_def)
  then have "unat (off + len) = unat off + unat len"
    using assms(3) by (intro unat_add_lem[THEN iffD1]) simp
  moreover have "unat (off + len - 1) = unat (off + len) - 1"
    using calculation assms(2) by (subst unat_sub) (simp_all add: word_le_nat_alt)
  ultimately have "unat (off + len - 1) + 1 = unat off + (24 + length p)" using assms(2) by simp
  then have "subrange (unat off) (unat (off + len - 1) + 1) c = encode_record crc l e p"
    using assms(1) by (simp only: rec_at_def)
  moreover have "rec_at crc (encode_record crc l e p) 0 l e p"
    using rec_at_here[of crc "[]" l e p "[]"] by simp
  ultimately show ?thesis using assms(3,4) le assms(2) by (simp add: rec_at_decode)
qed

lemma stored_read:
  assumes bl: "block_laws B" and sl: "s3_laws S obj parts"
    and loc: "get_location D (tr_entry_index tr) ks l e = Inr (Some iv)"
    and reg: "registry_get D (tr_entry_registry tr) ks (iv_segment_id iv) = Inr (Some meta)"
    and st: "seg_stored m f (obj s) (s3_bucket cfg) (iv_segment_id iv) c" "m (iv_segment_id iv) = Some meta"
    and cfg: "tr_s3 tr = Some cfg" and io: "\<And>path. fs_read_err f path = None"
    and get: "\<And>key. sm_status meta = S3 \<Longrightarrow> sm_s3_key meta = Some key \<Longrightarrow>
      \<exists>d. s3_get_object S s (s3_bucket cfg) key (s3_range (iv_offset iv) (iv_offset iv + ucast (iv_length iv) - 1)) = S3Body d"
    and c: "length c < 2 ^ 63" and r: "rec_at crc c (unat (iv_offset iv)) l e p"
    and n: "unat (iv_length iv) = 24 + length p" and two: "two_blocks iv"
    and coh: "blocks_ok B content bc" "content (iv_segment_id iv) = Some c"
  shows "\<exists>bc'. tiered_read_entry D B S crc tr f ks s l e bc = (Inr p, bc')"
proof (cases "sm_status meta = S3")
  case True
  with st obtain key where key: "sm_s3_key meta = Some key" and o: "obj s (s3_bucket cfg, key) = Some c"
    by (auto simp: seg_stored_def)
  obtain d where d: "s3_get_object S s (s3_bucket cfg) key (s3_range (iv_offset iv) (iv_offset iv + ucast (iv_length iv) - 1)) = S3Body d"
    using get[OF True key] by blast
  have "length p < 2 ^ 32" using n unat_u32_less[of "iv_length iv"] by simp
  then have "decode_record crc d 0 = Inr (l, e, p, 24 + length p)"
    using s3_laws.law_get_object[OF sl d] o decode_range[OF r _ c, of "ucast (iv_length iv)"] n by auto
  with True loc reg key cfg d show ?thesis
    by (simp add: tiered_read_entry_def read_from_entry_segment_def read_s3_record_def Let_def)
next
  case False
  with st obtain path where p: "sm_local_path meta = Some path" "map_of (fs_files f) path = Some c" "sm_status meta \<noteq> SegDeleted"
    by (auto simp: seg_stored_def)
  obtain bc' where "read_entry_local B crc f path (sm_status meta \<noteq> Active) iv bc = (Inr p, bc')"
    using block_laws.read_entry_local_ok[OF bl p(2) io coh(2,1) r n c two] by blast
  with False loc reg p show ?thesis
    by (cases "sm_status meta") (simp_all add: tiered_read_entry_def read_from_entry_segment_def Let_def)
qed

text \<open>
  C24. An entry stays readable across offloading: its record is in a stored segment and fits into two
  blocks. After a pass of the offloader the read of the entry returns its payload, from the local
  file, from the block cache or from the object store, provided that the store answers the request.
\<close>

theorem offloaded_entry_readable:
  assumes "db_laws D kv" and "s3_laws S obj parts" and "block_laws B" and "seg_wf D (kv (os_ks st) (tr_entry_registry tr))"
    and "registry_inv (seg_map D (kv (os_ks st) (tr_entry_registry tr)))" and "tr_s3 tr = Some cfg"
    and "seg_stored (seg_map D (kv (os_ks st) (tr_entry_registry tr))) (os_fs st) (obj (os_s3 st)) (s3_bucket cfg) (iv_segment_id iv) c"
    and "st' = process_pending D S (tr_entry_registry tr) (s3_bucket cfg) age policy pressure st"
    and "get_location D (tr_entry_index tr) (os_ks st') l e = Inr (Some iv)"
    and "registry_get D (tr_entry_registry tr) (os_ks st') (iv_segment_id iv) = Inr (Some meta)"
    and "\<And>path. fs_read_err (os_fs st') path = None"
    and "\<And>key. sm_status meta = S3 \<Longrightarrow> sm_s3_key meta = Some key \<Longrightarrow> \<exists>d. s3_get_object S (os_s3 st') (s3_bucket cfg)
      key (s3_range (iv_offset iv) (iv_offset iv + ucast (iv_length iv) - 1)) = S3Body d"
    and "length c < 2 ^ 63" and "rec_at crc c (unat (iv_offset iv)) l e p"
    and "unat (iv_length iv) = 24 + length p" and "two_blocks iv"
    and "blocks_ok B content bc" and "content (iv_segment_id iv) = Some c"
  shows "\<exists>bc'. tiered_read_entry D B S crc tr (os_fs st') (os_ks st') (os_s3 st') l e bc = (Inr p, bc')"
proof -
  have ol: "offload_laws D kv S obj parts" using assms(1,2) by (simp add: offload_laws_def)
  have st: "seg_stored (seg_map D (kv (os_ks st') (tr_entry_registry tr))) (os_fs st') (obj (os_s3 st')) (s3_bucket cfg) (iv_segment_id iv) c"
    using offload_laws.process_pending_keeps[OF ol, where st = st] assms(4,5,7)
    unfolding assms(8) offload_laws.keeps_def[OF ol] by blast
  have m: "seg_map D (kv (os_ks st') (tr_entry_registry tr)) (iv_segment_id iv) = Some meta"
    using db_laws.registry_get_ok[OF assms(1,10)] by simp
  show ?thesis
    by (rule stored_read[OF assms(3,2,9,10) st m assms(6,11-18)])
qed


text \<open>In the example the segment goes to the object store and its file is removed.\<close>

definition demo_state :: "bytes \<Rightarrow> (ref_ks, ref_s3) offload_state" where
  "demo_state p = \<lparr> os_ks = demo_reader_ks p, os_fs = demo_reader_fs p, os_s3 = demo_s3 \<rparr>"

lemma demo_upload:
  "upload_with_retry ref_s3 (demo_reader_fs [9]) ''b'' k ''d/e'' demo_s3
     = (Inr (), demo_s3\<lparr> rs3_objects := [((''b'', k), demo_file [9])] \<rparr>)"
  by (rule upload_first_try[where u = "()"])
    (simp add: do_upload_def demo_contents fs_read_def MULTIPART_PART_BYTES_def ref_s3_ops demo_file_def demo_s3_def)

definition demo_moved :: SegmentMeta where
  "demo_moved = demo_seg\<lparr> sm_status := S3, sm_s3_key := Some (entry_s3_key 4), sm_local_path := None \<rparr>"

lemma demo_pass:
  "process_pending ref_db ref_s3 ''entry.registry'' ''b'' (\<lambda>_. None) OffloadPolicy_default False (demo_state [9]) =
   \<lparr> os_ks = ref_insert (ref_insert (demo_reader_ks [9]) ''entry.registry'' (id_key 4) (write_sm (demo_seg\<lparr> sm_status := Offloading \<rparr>)))
       ''entry.registry'' (id_key 4) (write_sm demo_moved),
     os_fs = snd (fs_remove (demo_reader_fs [9]) ''d/e''),
     os_s3 = demo_s3\<lparr> rs3_objects := [((''b'', entry_s3_key 4), demo_file [9])] \<rparr> \<rparr>"
proof -
  have seg: "sm_id demo_seg = 4" "sm_status demo_seg = Local" "sm_local_path demo_seg = Some ''d/e''"
    "sm_s3_key demo_seg = None" "sm_ledger_sizes demo_seg = []" by (simp_all add: demo_seg_def)
  have items: "ref_items (demo_reader_ks [9]) ''entry.registry'' = [(id_key 4, write_sm demo_seg)]"
    by (simp add: demo_reader_ks_def demo_reg_ks_def demo_entry_index_def insert_location_def upsert_def
        storage_err_simps ref_simps seg)
  have kv: "ref_kv (demo_reader_ks [9]) ''entry.registry'' (id_key 4) = Some (write_sm demo_seg)"
    by (simp add: demo_reader_ks_def demo_reg_ks_def demo_entry_index_def insert_location_def upsert_def
        storage_err_simps ref_simps seg)
  have key: "length (entry_s3_key 4) < 256" by (simp add: entry_s3_key_def show_hex16_def nat_digits.simps)
  show ?thesis
    by (simp add: process_pending_def demo_state_def list_by_status_def offload_segment_def is_old_enough_def
        OffloadPolicy_default_def cas_status_def upload_and_commit_def demo_upload ref_s3_ops cas_to_s3_def
        registry_get_def upsert_def items kv seg key demo_moved_def storage_err_simps ref_simps)
qed

lemma demo_reader_seg_map:
  "seg_map ref_db (ref_kv (demo_reader_ks p) ''entry.registry'') = [4 \<mapsto> demo_seg]"
  "seg_wf ref_db (ref_kv (demo_reader_ks p) ''entry.registry'')"
proof -
  have "insert_location ref_db demo_entry_index demo_reg_ks 3 7 4 0 (of_nat (24 + length p)) = (Inr (), demo_reader_ks p)"
    by (simp add: demo_reader_ks_def demo_entry_index_def insert_location_def storage_err_simps ref_simps)
  from ref.insert_location_ok(2)[OF this, of "''entry.registry''"]
  have "ref_kv (demo_reader_ks p) ''entry.registry'' = ref_kv demo_reg_ks ''entry.registry''"
    by (simp add: demo_entry_index_def)
  then show "seg_map ref_db (ref_kv (demo_reader_ks p) ''entry.registry'') = [4 \<mapsto> demo_seg]"
    "seg_wf ref_db (ref_kv (demo_reader_ks p) ''entry.registry'')" using demo_seg_map by simp_all
qed

theorem offloaded_entry_readable_witness:
  "sm_status demo_moved = S3 \<and>
   fst (tiered_read_entry ref_db ref_block ref_s3 (\<lambda>_. 0) demo_tr
     (os_fs (process_pending ref_db ref_s3 ''entry.registry'' ''b'' (\<lambda>_. None) OffloadPolicy_default False (demo_state [9])))
     (os_ks (process_pending ref_db ref_s3 ''entry.registry'' ''b'' (\<lambda>_. None) OffloadPolicy_default False (demo_state [9])))
     (os_s3 (process_pending ref_db ref_s3 ''entry.registry'' ''b'' (\<lambda>_. None) OffloadPolicy_default False (demo_state [9])))
     3 7 (8, [])) = Inr [9]"
proof -
  let ?st = "process_pending ref_db ref_s3 ''entry.registry'' ''b'' (\<lambda>_. None) OffloadPolicy_default False (demo_state [9])"
  have tr: "tr_entry_registry demo_tr = ''entry.registry''" "tr_s3 demo_tr = Some demo_s3cfg" "s3_bucket demo_s3cfg = ''b''"
    by (simp_all add: demo_tr_def demo_s3cfg_def)
  have st: "?st = process_pending ref_db ref_s3 (tr_entry_registry demo_tr) (s3_bucket demo_s3cfg) (\<lambda>_. None)
      OffloadPolicy_default False (demo_state [9])" by (simp add: tr)
  have mv: "short_opt (sm_local_path demo_moved)" "short_opt (sm_s3_key demo_moved)" "length (sm_ledger_sizes demo_moved) < 256"
    by (simp_all add: demo_moved_def demo_seg_def short_opt_simps entry_s3_key_def show_hex16_def nat_digits.simps)
  have wf: "seg_wf ref_db (ref_kv (os_ks (demo_state [9])) (tr_entry_registry demo_tr))"
    "registry_inv (seg_map ref_db (ref_kv (os_ks (demo_state [9])) (tr_entry_registry demo_tr)))"
    by (simp_all add: tr demo_state_def demo_reader_seg_map demo_inv)
  have stored: "seg_stored (seg_map ref_db (ref_kv (os_ks (demo_state [9])) (tr_entry_registry demo_tr))) (os_fs (demo_state [9]))
      (map_of (rs3_objects (os_s3 (demo_state [9])))) (s3_bucket demo_s3cfg) (iv_segment_id (demo_iv [9])) (demo_file [9])"
    using demo_stored by (simp add: tr demo_state_def demo_reader_seg_map demo_iv_def)
  have loc: "get_location ref_db (tr_entry_index demo_tr) (os_ks ?st) 3 7 = Inr (Some (demo_iv [9]))"
    by (simp add: demo_pass reader_demos)
  have reg: "registry_get ref_db (tr_entry_registry demo_tr) (os_ks ?st) (iv_segment_id (demo_iv [9])) = Inr (Some demo_moved)"
    using mv by (simp add: demo_pass tr registry_get_def demo_iv_def ref_simps)
  have err: "fs_read_err (os_fs ?st) path = None" for path
    by (simp add: demo_pass fs_remove_def demo_reader_fs_def)
  have get: "\<exists>d. s3_get_object ref_s3 (os_s3 ?st) (s3_bucket demo_s3cfg) key (s3_range (iv_offset (demo_iv [9]))
      (iv_offset (demo_iv [9]) + ucast (iv_length (demo_iv [9])) - 1)) = S3Body d" if "sm_s3_key demo_moved = Some key" for key
    using that by (simp add: demo_pass ref_s3_ops tr demo_moved_def)
  have "two_blocks (demo_iv [9])" by (simp add: two_blocks_def demo_iv_def BLOCK_SIZE_def)
  from offloaded_entry_readable[OF ref.db_laws_axioms rs3.s3_laws_axioms rb.block_laws_axioms wf tr(2) stored st loc reg err
      get demo_small demo_rec demo_length this demo_blocks]
  show ?thesis by (auto simp: demo_moved_def)
qed


section \<open>Log collection\<close>

text \<open>
  The collection keeps what the log index refers to: a log segment with a location in the log
  index keeps its file and its registry entry, whatever the age of the file and the disk pressure.
\<close>

theorem wal_gc_keeps_referenced:
  assumes "db_laws D kv" and "seg_wf D (kv (os_ks st) reg)" and "loc_wf D (kv (os_ks st) (ix_locations wal_index))"
    and "registry_inv (seg_map D (kv (os_ks st) reg))"
    and "loc_map D (kv (os_ks st) (ix_locations wal_index)) k = Some iv" and "iv_segment_id iv = i"
    and "seg_map D (kv (os_ks st) reg) i = Some meta" and "sm_local_path meta = Some path"
    and "st' = wal_gc D reg wal_index age min_age pressure st"
  shows "map_of (fs_files (os_fs st')) path = map_of (fs_files (os_fs st)) path
    \<and> seg_map D (kv (os_ks st') reg) i = Some meta"
proof (cases "\<exists>R xs. referenced_segment_ids D wal_index (os_ks st) = Inr R \<and> list_by_status D reg (os_ks st) Local = Inr xs")
  case False
  with assms(7,9) show ?thesis by (auto simp: wal_gc_def split: sum.splits)
next
  case True
  then obtain R xs where R: "referenced_segment_ids D wal_index (os_ks st) = Inr R"
    and xs: "list_by_status D reg (os_ks st) Local = Inr xs" by blast
  have i: "i \<in> R" using db_laws.referenced_ok[OF assms(1) R assms(3)] assms(5,6) by blast
  have "sm_id x \<in> R \<or> sm_id x \<noteq> i \<and> sm_local_path x \<noteq> Some path" if "x \<in> set xs" for x
  proof -
    have x: "seg_map D (kv (os_ks st) reg) (sm_id x) = Some x"
      using db_laws.list_by_status_ok[OF assms(1) xs assms(2)] that assms(2) by (auto simp: seg_wf_def)
    then show ?thesis using i assms(4,7,8) unfolding registry_inv_def by metis
  qed
  then have "\<forall>x \<in> set xs. sm_id x \<in> R \<or> sm_id x \<noteq> i \<and> sm_local_path x \<noteq> Some path" by blast
  from db_laws.gc_fold_keeps[OF assms(1) this assms(2), of age min_age pressure] i assms(7,9)
  show ?thesis by (simp add: wal_gc_def R xs)
qed

theorem wal_gc_keeps_referenced_witness:
  "map_of (fs_files (os_fs (wal_gc ref_db ''entry.registry'' demo_entry_index (\<lambda>_. None) 5 True (demo_state [9])))) ''d/e''
     = Some (demo_file [9])"
proof -
  let ?st = "demo_state [9]"
  have i: "insert_location ref_db demo_entry_index demo_reg_ks 3 7 4 0 25 = (Inr (), demo_reader_ks [9])"
    by (simp add: demo_reader_ks_def demo_entry_index_def insert_location_def storage_err_simps ref_simps)
  have e: "ref_kv demo_reg_ks (ix_locations demo_entry_index) = (\<lambda>_. None)"
    by (simp add: demo_reg_ks_def upsert_def demo_seg_def demo_entry_index_def storage_err_simps ref_simps fun_eq_iff)
  have wf: "seg_wf ref_db (ref_kv (os_ks ?st) ''entry.registry'')" "loc_wf ref_db (ref_kv (os_ks ?st) (ix_locations demo_entry_index))"
    "registry_inv (seg_map ref_db (ref_kv (os_ks ?st) ''entry.registry''))"
    using ref.insert_location_ok(3)[OF i] by (simp_all add: demo_state_def demo_reader_seg_map demo_inv e loc_wf_def)
  have l: "loc_map ref_db (ref_kv (os_ks ?st) (ix_locations demo_entry_index)) (3, 7)
      = Some \<lparr> iv_segment_id = 4, iv_offset = 0, iv_length = 25 \<rparr>"
    using ref.insert_location_ok(1)[OF i] by (simp add: demo_state_def)
  have m: "seg_map ref_db (ref_kv (os_ks ?st) ''entry.registry'') 4 = Some demo_seg" "sm_local_path demo_seg = Some ''d/e''"
    by (simp_all add: demo_state_def demo_reader_seg_map demo_seg_def)
  from wal_gc_keeps_referenced[OF ref.db_laws_axioms wf l _ m refl, where age = "\<lambda>_. None" and min_age = 5 and pressure = True]
  show ?thesis by (simp add: demo_state_def demo_contents)
qed

text \<open>
  C38. The collection does not look at the entry index. Under disk pressure it deletes the file of a
  sealed log segment that the log index does not mention, even when an entry of that segment has no
  location in the entry index either: the log index is filled by crash recovery only, so this is the
  state of every entry that was acknowledged and not flushed yet.
\<close>

theorem wal_gc_deletes_unflushed:
  assumes "db_laws D kv" and "seg_wf D (kv (os_ks st) reg)" and "loc_wf D (kv (os_ks st) (ix_locations wal_index))"
    and "\<And>k iv. loc_map D (kv (os_ks st) (ix_locations wal_index)) k = Some iv \<Longrightarrow> iv_segment_id iv \<noteq> i"
    and "seg_map D (kv (os_ks st) reg) i = Some meta" and "sm_status meta = Local" and "sm_local_path meta = Some path"
    and "loc_map D (kv (os_ks st) (ix_locations entry_index)) (l, e) = None" and "ix_locations entry_index \<noteq> reg"
    and "referenced_segment_ids D wal_index (os_ks st) = Inr R" and "list_by_status D reg (os_ks st) Local = Inr xs"
    and "fs_write_err (os_fs st) path = None" and "st' = wal_gc D reg wal_index age min_age True st"
  shows "map_of (fs_files (os_fs st')) path = None
    \<and> loc_map D (kv (os_ks st') (ix_locations entry_index)) (l, e) = None"
proof -
  have "i \<notin> R" using db_laws.referenced_ok[OF assms(1,10,3)] assms(4) by blast
  moreover have "sm_id meta = i" using assms(2,5) by (simp add: seg_wf_def)
  moreover have "meta \<in> set xs" using db_laws.list_by_status_ok[OF assms(1,11,2)] assms(5,6) by blast
  ultimately have x: "\<exists>x \<in> set xs. sm_id x \<notin> R \<and> sm_local_path x = Some path" using assms(7) by blast
  have st': "st' = fold (gc_segment D reg age R min_age True) xs st" by (simp add: assms(10,11,13) wal_gc_def)
  show ?thesis
    using gc_fold_gone[OF x assms(12) TrueI, of D reg age min_age]
      db_laws.gc_fold_frame[OF assms(1,2,9), of age R min_age True xs] assms(8) by (simp add: st')
qed

theorem wal_gc_deletes_unflushed_witness:
  "map_of (fs_files (demo_reader_fs [9])) ''d/e'' = Some (demo_file [9])
   \<and> map_of (fs_files (os_fs (wal_gc ref_db ''entry.registry'' demo_wal_index (\<lambda>_. None) 5 True (demo_offload [9])))) ''d/e'' = None"
proof -
  let ?st = "demo_offload [9]"
  have e: "ref_kv demo_reg_ks (ix_locations demo_entry_index) = (\<lambda>_. None)" "ref_kv demo_reg_ks (ix_locations demo_wal_index) = (\<lambda>_. None)"
    by (simp_all add: demo_reg_ks_def upsert_def demo_seg_def demo_entry_index_def demo_wal_index_def storage_err_simps ref_simps fun_eq_iff)
  have none: "loc_map ref_db (\<lambda>_. None) k = None" for k by (simp add: loc_map_def abs_map_def)
  have wf: "seg_wf ref_db (ref_kv (os_ks ?st) ''entry.registry'')" "loc_wf ref_db (ref_kv (os_ks ?st) (ix_locations demo_wal_index))"
    by (simp_all add: demo_offload_def demo_seg_map e loc_wf_def)
  have m: "seg_map ref_db (ref_kv (os_ks ?st) ''entry.registry'') 4 = Some demo_seg" "sm_status demo_seg = Local"
    "sm_local_path demo_seg = Some ''d/e''"
    by (simp_all add: demo_offload_def demo_seg_map demo_seg_def)
  have loc: "loc_map ref_db (ref_kv (os_ks ?st) (ix_locations demo_entry_index)) (3, 7) = None" "ix_locations demo_entry_index \<noteq> ''entry.registry''"
    by (simp_all add: demo_offload_def e none) (simp add: demo_entry_index_def)
  have items: "ref_items demo_reg_ks (ix_locations demo_wal_index) = []"
    "ref_items demo_reg_ks ''entry.registry'' = [(id_key 4, write_sm demo_seg)]"
    by (simp_all add: demo_reg_ks_def upsert_def demo_seg_def demo_wal_index_def storage_err_simps ref_simps)
  have ops: "referenced_segment_ids ref_db demo_wal_index (os_ks ?st) = Inr {}"
    "list_by_status ref_db ''entry.registry'' (os_ks ?st) Local = Inr [demo_seg]"
    by (simp_all add: referenced_segment_ids_def list_by_status_def demo_offload_def items ref_simps demo_seg_def)
  have we: "fs_write_err (os_fs ?st) ''d/e'' = None" by (simp add: demo_offload_def demo_reader_fs_def)
  have nowal: "iv_segment_id iv \<noteq> 4" if "loc_map ref_db (ref_kv (os_ks ?st) (ix_locations demo_wal_index)) k = Some iv" for k iv
    using that by (simp add: demo_offload_def e none)
  from wal_gc_deletes_unflushed[OF ref.db_laws_axioms wf nowal m loc ops we refl, where age = "\<lambda>_. None" and min_age = 5]
  show ?thesis by (simp add: demo_contents)
qed

end
