(* ===== verification/LsmcJournal.thy ===== *)
theory LsmcJournal
  imports EntryCache
begin

text \<open>
  The write-ahead log (\<^verbatim>\<open>storage/lsmc_journal.rs\<close>). The journal thread owns one file handle;
  the state records which path the handle's file has at the moment, because sealing renames
  the file under the open handle. One turn of \<^verbatim>\<open>journal_loop\<close> is \<open>journal_step\<close>: it takes the
  message that \<^verbatim>\<open>recv\<close> returned, the messages that \<^verbatim>\<open>try_recv\<close> finds in the channel, and the
  outcomes of the asynchronous write and syncs, and returns the replies sent on the one-shot
  channels. Requests are identified by a number, standing for their reply channel.
\<close>

definition MAX_BATCH_BYTES :: nat where
  "MAX_BATCH_BYTES = 64 * 1024"

record WriteReq =
  wr_ack :: nat
  wr_ledger_id :: u64
  wr_entry_id :: u64
  wr_payload :: bytes

datatype JournalMsg = JWrite WriteReq | JSeal nat

datatype reply =
    WriteReply nat "(SegmentId \<times> u64 \<times> u32) result"
  | SealReply nat "SegmentId result"


section \<open>Paths and identifiers\<close>

definition active_seg_path :: "string \<Rightarrow> string" where
  "active_seg_path d = join_path d ''active.seg''"

definition sealed_seg_path :: "string \<Rightarrow> SegmentId \<Rightarrow> string" where
  "sealed_seg_path d i = join_path d (seg_file_name ''seg-'' ''.seg'' i)"

definition scan_next_segment_id :: "fs \<Rightarrow> string \<Rightarrow> SegmentId" where
  "scan_next_segment_id f d = scan_next_id ''seg-'' ''.seg'' (fs_list f d)"

definition next_wal_segment_id :: "'k db_api \<Rightarrow> string \<Rightarrow> 'k \<Rightarrow> fs \<Rightarrow> string \<Rightarrow> SegmentId result" where
  "next_wal_segment_id D reg ks f d =
     (case max_id D reg ks of
        Inl e \<Rightarrow> Inl e
      | Inr m \<Rightarrow>
          Inr (max (scan_next_segment_id f d) (case m of None \<Rightarrow> 0 | Some i \<Rightarrow> i + 1)))"

definition resume_offset :: "fs \<Rightarrow> string \<Rightarrow> u64" where
  "resume_offset f d = (fs_len f (active_seg_path d) div of_nat ALIGN) * of_nat ALIGN"


section \<open>The journal thread\<close>

record journal_config =
  jc_dir :: string
  jc_threshold :: u64
  jc_registry :: string

record 'k journal_state =
  js_ks :: 'k
  js_fs :: fs
  js_path :: string
  js_seg_id :: SegmentId
  js_file_offset :: u64
  js_sealed :: "SegmentId option"

definition wal_meta :: "SegmentId \<Rightarrow> SegmentStatus \<Rightarrow> string \<Rightarrow> u64 \<Rightarrow> SegmentMeta" where
  "wal_meta i status path len =
     \<lparr> sm_id = i, sm_kind = Wal, sm_status = status, sm_local_path = Some path, sm_s3_key = None,
       sm_byte_len = len, sm_ledger_sizes = [] \<rparr>"

text \<open>A registry failure is logged and otherwise ignored.\<close>

definition register_active :: "'k db_api \<Rightarrow> journal_config \<Rightarrow> 'k \<Rightarrow> SegmentId \<Rightarrow> 'k" where
  "register_active D cfg ks i =
     snd (upsert D (jc_registry cfg) ks (wal_meta i Active (active_seg_path (jc_dir cfg)) 0))"

definition open_odirect :: "journal_config \<Rightarrow> fs \<Rightarrow> (string + unit) \<times> fs" where
  "open_odirect cfg f = fs_open_create f (active_seg_path (jc_dir cfg)) False"

definition do_seal ::
  "'k db_api \<Rightarrow> journal_config \<Rightarrow> string option \<Rightarrow> 'k journal_state
   \<Rightarrow> (string + SegmentId) \<times> 'k journal_state" where
  "do_seal D cfg sync_outcome st =
     (case sync_outcome of
        Some e \<Rightarrow> (Inl e, st)
      | None \<Rightarrow>
          let i = js_seg_id st; sealed_path = sealed_seg_path (jc_dir cfg) i in
          case fs_rename (js_fs st) (active_seg_path (jc_dir cfg)) sealed_path of
            (Inl e, f) \<Rightarrow> (Inl e, st\<lparr> js_fs := f \<rparr>)
          | (Inr _, f) \<Rightarrow>
              (let byte_len = fs_len f sealed_path;
                   ks1 = snd (upsert D (jc_registry cfg) (js_ks st) (wal_meta i Local sealed_path byte_len));
                   path = (if js_path st = active_seg_path (jc_dir cfg) then sealed_path else js_path st);
                   st1 = st\<lparr> js_ks := ks1, js_fs := f, js_path := path, js_sealed := Some i \<rparr>
               in case open_odirect cfg f of
                    (Inl e, f2) \<Rightarrow> (Inl e, st1\<lparr> js_fs := f2 \<rparr>)
                  | (Inr _, f2) \<Rightarrow>
                      (Inr (i + 1),
                       st1\<lparr> js_fs := f2, js_path := active_seg_path (jc_dir cfg),
                            js_ks := register_active D cfg ks1 (i + 1) \<rparr>)))"

text \<open>The body of the loop after a successful \<^verbatim>\<open>do_seal\<close>.\<close>

definition after_seal :: "SegmentId \<Rightarrow> 'k journal_state \<Rightarrow> 'k journal_state" where
  "after_seal next_id st = st\<lparr> js_seg_id := next_id, js_file_offset := 0 \<rparr>"

text \<open>
  Adaptive batching: \<^verbatim>\<open>while buf.len() < MAX_BATCH_BYTES\<close> take the next message of the channel.
  Returns the buffer, the collected requests, the replies to seal requests met on the way and
  what is left in the channel.
\<close>

fun drain_channel ::
  "(bytes \<Rightarrow> u32) \<Rightarrow> AlignedBuffer \<Rightarrow> JournalMsg list
   \<Rightarrow> AlignedBuffer \<times> (WriteReq \<times> nat \<times> u32) list \<times> reply list \<times> JournalMsg list" where
  "drain_channel crc buf [] = (buf, [], [], [])"
| "drain_channel crc buf (m # ms) =
     (if length (ab_inner buf) < MAX_BATCH_BYTES then
        (case m of
           JWrite r \<Rightarrow>
             (case push crc buf (wr_ledger_id r) (wr_entry_id r) (wr_payload r) of
                (buf1, off, len) \<Rightarrow>
                  (case drain_channel crc buf1 ms of
                     (buf2, reqs, replies, rest) \<Rightarrow> (buf2, (r, off, len) # reqs, replies, rest)))
         | JSeal a \<Rightarrow>
             (case drain_channel crc buf ms of
                (buf2, reqs, replies, rest) \<Rightarrow>
                  (buf2, reqs, SealReply a (Inl (Storage ''seal during batch; retry'')) # replies, rest)))
      else (buf, [], [], m # ms))"

definition fail_all :: "(WriteReq \<times> nat \<times> u32) list \<Rightarrow> string \<Rightarrow> reply list" where
  "fail_all reqs msg = map (\<lambda>(r, _, _). WriteReply (wr_ack r) (Inl (Storage msg))) reqs"

text \<open>The write, the sync and the replies for one batch.\<close>

definition write_and_ack ::
  "io_write \<Rightarrow> string option \<Rightarrow> AlignedBuffer \<Rightarrow> (WriteReq \<times> nat \<times> u32) list \<Rightarrow> 'k journal_state
   \<Rightarrow> reply list \<times> 'k journal_state" where
  "write_and_ack write_outcome sync_outcome buf reqs st =
     (let padded = padded_aligned buf;
          write_len = length padded;
          write_pos = js_file_offset st;
          aligned = make_aligned padded;
          st1 = st\<lparr> js_fs := fs_write_at (js_fs st) (js_path st) (unat write_pos)
                               (take (io_written write_outcome) aligned) \<rparr>
      in case write_outcome of
           WOk n \<Rightarrow>
             (if n < write_len then
                (fail_all reqs (''lsmc-journal: short write at offset '' @ show_u64 write_pos
                   @ '': expected '' @ show_nat write_len @ '' bytes, wrote '' @ show_nat n), st1)
              else
                case sync_outcome of
                  None \<Rightarrow>
                    (map (\<lambda>(r, off, len).
                            WriteReply (wr_ack r) (Inr (js_seg_id st, write_pos + of_nat off, len))) reqs,
                     st1\<lparr> js_file_offset := write_pos + of_nat write_len \<rparr>)
                | Some e \<Rightarrow> (fail_all reqs (''fdatasync failed: '' @ e), st1))
         | WErr e _ \<Rightarrow> (fail_all reqs e, st1))"

record journal_env =
  je_write :: io_write
  je_sync_data :: "string option"
  je_sync_all :: "string option"

definition journal_step ::
  "'k db_api \<Rightarrow> (bytes \<Rightarrow> u32) \<Rightarrow> journal_config \<Rightarrow> journal_env \<Rightarrow> JournalMsg \<Rightarrow> JournalMsg list
   \<Rightarrow> 'k journal_state \<Rightarrow> reply list \<times> JournalMsg list \<times> 'k journal_state" where
  "journal_step D crc cfg env first channel st =
     (case first of
        JSeal a \<Rightarrow>
          (case do_seal D cfg (je_sync_all env) st of
             (Inr next_id, st1) \<Rightarrow> ([SealReply a (Inr (next_id - 1))], channel, after_seal next_id st1)
           | (Inl e, st1) \<Rightarrow> ([SealReply a (Inl (Storage e))], channel, st1))
      | JWrite r \<Rightarrow>
          (case push crc AlignedBuffer_new (wr_ledger_id r) (wr_entry_id r) (wr_payload r) of
             (buf0, off, len) \<Rightarrow>
               (case drain_channel crc buf0 channel of
                  (buf, reqs, seal_replies, rest) \<Rightarrow>
                    (case write_and_ack (je_write env) (je_sync_data env) buf ((r, off, len) # reqs) st of
                       (replies, st1) \<Rightarrow>
                         (seal_replies @ replies, rest,
                          if js_file_offset st1 \<ge> jc_threshold cfg then
                            (case do_seal D cfg (je_sync_all env) st1 of
                               (Inr next_id, st2) \<Rightarrow> after_seal next_id st2
                             | (Inl _, st2) \<Rightarrow> st2)
                          else st1)))))"

text \<open>
  What happens before the loop: \<^verbatim>\<open>LsmcJournal::open\<close> and the head of \<^verbatim>\<open>journal_loop\<close>. When the
  file cannot be opened the thread ends with a log message, while \<^verbatim>\<open>open\<close> has returned a handle:
  that is \<open>Inr None\<close>.
\<close>

definition journal_open ::
  "'k db_api \<Rightarrow> journal_config \<Rightarrow> 'k \<Rightarrow> fs \<Rightarrow> 'k journal_state option result" where
  "journal_open D cfg ks f =
     (let f0 = f\<lparr> fs_dirs := List.insert (jc_dir cfg) (fs_dirs f) \<rparr> in
      case next_wal_segment_id D (jc_registry cfg) ks f0 (jc_dir cfg) of
        Inl e \<Rightarrow> Inl e
      | Inr start_id \<Rightarrow>
          (case open_odirect cfg f0 of
             (Inl e, _) \<Rightarrow> Inr None
           | (Inr _, f1) \<Rightarrow>
               Inr (Some \<lparr> js_ks = register_active D cfg ks start_id, js_fs = f1,
                     js_path = active_seg_path (jc_dir cfg), js_seg_id = start_id,
                     js_file_offset = resume_offset f0 (jc_dir cfg), js_sealed = None \<rparr>)))"

text \<open>\<^verbatim>\<open>LsmcJournal::append\<close> as its caller sees it: the reply to its own message.\<close>

fun reply_for :: "nat \<Rightarrow> reply list \<Rightarrow> (SegmentId \<times> u64 \<times> u32) result" where
  "reply_for a [] = Inl (Storage ''lsmc-journal: ack channel dropped'')"
| "reply_for a (r # rs) =
     (case r of
        WriteReply b x \<Rightarrow> (if a = b then x else reply_for a rs)
      | SealReply _ _ \<Rightarrow> reply_for a rs)"

definition journal_append ::
  "'k db_api \<Rightarrow> (bytes \<Rightarrow> u32) \<Rightarrow> journal_config \<Rightarrow> journal_env \<Rightarrow> JournalMsg list \<Rightarrow> WriteReq
   \<Rightarrow> 'k journal_state \<Rightarrow> (SegmentId \<times> u64 \<times> u32) result \<times> 'k journal_state" where
  "journal_append D crc cfg env channel r st =
     (case journal_step D crc cfg env (JWrite r) channel st of
        (replies, _, st') \<Rightarrow> (reply_for (wr_ack r) replies, st'))"


section \<open>An acknowledged record is on disk\<close>

definition req_entry :: "WriteReq \<Rightarrow> u64 \<times> u64 \<times> bytes" where
  "req_entry r = (wr_ledger_id r, wr_entry_id r, wr_payload r)"

definition wal_image :: "(bytes \<Rightarrow> u32) \<Rightarrow> (u64 \<times> u64 \<times> bytes) list list \<Rightarrow> bytes" where
  "wal_image crc bss = concat (map (padded_batch crc) bss)"

lemma zip_map_same: "zip (map f xs) (map g xs) = map (\<lambda>x. (f x, g x)) xs"
  by (induction xs) simp_all

lemma wal_image_simps [simp]:
  "wal_image crc [] = []"
  "wal_image crc (bs # bss) = padded_batch crc bs @ wal_image crc bss"
  "wal_image crc (bss @ bss') = wal_image crc bss @ wal_image crc bss'"
  by (simp_all add: wal_image_def)

lemma drain_channel_spec:
  assumes "drain_channel crc buf ms = (buf', reqs, replies, rest)"
  shows "ab_inner buf' = ab_inner buf @ batch_bytes crc (map (req_entry \<circ> fst) reqs)"
    and "map snd reqs = batch_offsets (length (ab_inner buf)) (map (req_entry \<circ> fst) reqs)"
    and "x \<in> set replies \<Longrightarrow> \<exists>a e. x = SealReply a (Inl e)"
    and "\<exists>pre. ms = pre @ rest \<and> map fst reqs = List.map_filter (\<lambda>m. case m of JWrite r \<Rightarrow> Some r | JSeal _ \<Rightarrow> None) pre"
proof -
  have "ab_inner buf' = ab_inner buf @ batch_bytes crc (map (req_entry \<circ> fst) reqs)
    \<and> map snd reqs = batch_offsets (length (ab_inner buf)) (map (req_entry \<circ> fst) reqs)
    \<and> (\<forall>x \<in> set replies. \<exists>a e. x = SealReply a (Inl e))
    \<and> (\<exists>pre. ms = pre @ rest \<and> map fst reqs = List.map_filter (\<lambda>m. case m of JWrite r \<Rightarrow> Some r | JSeal _ \<Rightarrow> None) pre)"
    using assms
  proof (induction ms arbitrary: buf buf' reqs replies rest)
    case Nil
    then show ?case by (simp add: List.map_filter_def)
  next
    case (Cons m ms)
    show ?case
    proof (cases "length (ab_inner buf) < MAX_BATCH_BYTES")
      case False
      with Cons.prems show ?thesis by (simp add: List.map_filter_def)
    next
      case full: True
      show ?thesis
      proof (cases m)
        case (JWrite r)
        obtain buf1 off len where p: "push crc buf (wr_ledger_id r) (wr_entry_id r) (wr_payload r) = (buf1, off, len)"
          by (metis prod_cases3)
        obtain reqs1 where d: "drain_channel crc buf1 ms = (buf', reqs1, replies, rest)"
          and reqs: "reqs = (r, off, len) # reqs1"
          using Cons.prems full JWrite p by (auto split: prod.splits)
        from Cons.IH[OF d] obtain pre where IH: "ms = pre @ rest"
          "map fst reqs1 = List.map_filter (\<lambda>m. case m of JWrite r \<Rightarrow> Some r | JSeal _ \<Rightarrow> None) pre" by blast
        have "m # ms = (m # pre) @ rest \<and> map fst reqs
            = List.map_filter (\<lambda>m. case m of JWrite r \<Rightarrow> Some r | JSeal _ \<Rightarrow> None) (m # pre)"
          using IH by (simp add: reqs JWrite List.map_filter_def)
        with Cons.IH[OF d] p show ?thesis
          by (auto simp: reqs push_def req_entry_def add.assoc intro!: exI[of _ "m # pre"])
      next
        case (JSeal a)
        obtain replies1 where d: "drain_channel crc buf ms = (buf', reqs, replies1, rest)"
          and rep: "replies = SealReply a (Inl (Storage ''seal during batch; retry'')) # replies1"
          using Cons.prems full JSeal by (auto split: prod.splits)
        from Cons.IH[OF d] obtain pre where IH: "ms = pre @ rest"
          "map fst reqs = List.map_filter (\<lambda>m. case m of JWrite r \<Rightarrow> Some r | JSeal _ \<Rightarrow> None) pre" by blast
        have "m # ms = (m # pre) @ rest \<and> map fst reqs
            = List.map_filter (\<lambda>m. case m of JWrite r \<Rightarrow> Some r | JSeal _ \<Rightarrow> None) (m # pre)"
          using IH by (simp add: JSeal List.map_filter_def)
        with Cons.IH[OF d] show ?thesis by (auto simp: rep)
      qed
    qed
  qed
  then show "ab_inner buf' = ab_inner buf @ batch_bytes crc (map (req_entry \<circ> fst) reqs)"
    and "map snd reqs = batch_offsets (length (ab_inner buf)) (map (req_entry \<circ> fst) reqs)"
    and "x \<in> set replies \<Longrightarrow> \<exists>a e. x = SealReply a (Inl e)"
    and "\<exists>pre. ms = pre @ rest \<and> map fst reqs = List.map_filter (\<lambda>m. case m of JWrite r \<Rightarrow> Some r | JSeal _ \<Rightarrow> None) pre"
    by blast+
qed

text \<open>
  Only the part of the file from the write position on can change, and a batch is acknowledged
  exactly when the whole padded batch was written and the sync succeeded.
\<close>

lemma write_and_ack_cases:
  fixes st :: "'k journal_state"
  assumes wa: "write_and_ack wo so buf reqs st = (replies, st1)"
    and c: "map_of (fs_files (js_fs st)) (js_path st) = Some c" "unat (js_file_offset st) \<le> length c"
    and buf: "ab_inner buf = batch_bytes crc es" and fit: "batch_fits crc (unat (js_file_offset st)) es"
  obtains c1 where
    "st1 = st\<lparr> js_fs := fs_set (js_fs st) (js_path st) c1, js_file_offset := js_file_offset st1 \<rparr>"
    "take (unat (js_file_offset st)) c1 = take (unat (js_file_offset st)) c"
    "unat (js_file_offset st) \<le> length c1"
    "(so = None \<and> (\<exists>n \<ge> length (padded_batch crc es). wo = WOk n)
        \<and> take (unat (js_file_offset st) + length (padded_batch crc es)) c1
            = take (unat (js_file_offset st)) c @ padded_batch crc es
        \<and> js_file_offset st1 = js_file_offset st + of_nat (length (padded_batch crc es))
        \<and> replies = map (\<lambda>(r, off, len). WriteReply (wr_ack r)
                       (Inr (js_seg_id st, js_file_offset st + of_nat off, len))) reqs)
     \<or> js_file_offset st1 = js_file_offset st \<and> (\<exists>msg. replies = fail_all reqs msg)"
proof -
  have b: "buf = \<lparr> ab_inner = batch_bytes crc es \<rparr>" using buf by simp
  let ?pos = "unat (js_file_offset st)" and ?pad = "padded_batch crc es"
  define dat where "dat = take (io_written wo) (make_aligned (padded_aligned buf))"
  define c1 where "c1 = write_at c ?pos dat"
  have fs: "fs_write_at (js_fs st) (js_path st) ?pos dat = fs_set (js_fs st) (js_path st) c1"
    by (simp add: fs_write_at_def c c1_def)
  have 1: "st1 = st\<lparr> js_fs := fs_set (js_fs st) (js_path st) c1, js_file_offset := js_file_offset st1 \<rparr>"
    using wa unfolding fs[symmetric]
    by (auto simp: write_and_ack_def Let_def dat_def split: io_write.splits if_splits option.splits)
  have 2: "take ?pos c1 = take ?pos c" "?pos \<le> length c1"
    using take_write_at[OF c(2), of ?pos dat] c(2) by (simp_all add: c1_def)
  show thesis
  proof (cases "so = None \<and> (\<exists>n \<ge> length ?pad. wo = WOk n)")
    case True
    then obtain n where n: "wo = WOk n" "n \<ge> length ?pad" "so = None" by blast
    then have "dat = ?pad" using padded_batch_eq(4)[OF fit] by (simp add: dat_def b)
    then have "take (?pos + length ?pad) c1 = take ?pos c @ ?pad"
      using take_write_at_full[OF c(2), of ?pad] by (simp add: c1_def)
    with wa n show thesis
      by (intro that[OF 1 2] disjI1) (auto simp: write_and_ack_def Let_def b)
  next
    case False
    then have "wo = WOk n \<Longrightarrow> n < length ?pad \<or> so \<noteq> None" for n by (auto simp: not_less)
    then have "js_file_offset st1 = js_file_offset st \<and> (\<exists>msg. replies = fail_all reqs msg)"
      using wa by (auto simp: write_and_ack_def Let_def b split: io_write.splits if_splits option.splits)
    then show thesis by (intro that[OF 1 2] disjI2)
  qed
qed

text \<open>The whole batch of a write turn: the request that was received and the drained ones.\<close>

lemma write_turn:
  assumes "push crc AlignedBuffer_new (wr_ledger_id r) (wr_entry_id r) (wr_payload r) = (buf0, off, len)"
    and "drain_channel crc buf0 channel = (buf, reqs, seal_replies, rest)"
  shows "ab_inner buf = batch_bytes crc (map (req_entry \<circ> fst) ((r, off, len) # reqs))"
    and "map snd ((r, off, len) # reqs) = batch_offsets 0 (map (req_entry \<circ> fst) ((r, off, len) # reqs))"
    and "fst ` set reqs \<subseteq> set (List.map_filter (\<lambda>m. case m of JWrite r \<Rightarrow> Some r | JSeal _ \<Rightarrow> None) channel)"
proof -
  from assms(1) have p: "ab_inner buf0 = encode_record crc (wr_ledger_id r) (wr_entry_id r) (wr_payload r)"
    "off = 0" "len = of_nat (24 + length (wr_payload r))"
    by (auto simp: push_def AlignedBuffer_new_def)
  note d = drain_channel_spec[OF assms(2)]
  show "ab_inner buf = batch_bytes crc (map (req_entry \<circ> fst) ((r, off, len) # reqs))"
    using d(1) p by (simp add: req_entry_def)
  show "map snd ((r, off, len) # reqs) = batch_offsets 0 (map (req_entry \<circ> fst) ((r, off, len) # reqs))"
    using d(2) p by (simp add: req_entry_def)
  from d(4) obtain pre where pre: "channel = pre @ rest"
    "map fst reqs = List.map_filter (\<lambda>m. case m of JWrite r \<Rightarrow> Some r | JSeal _ \<Rightarrow> None) pre" by blast
  have "fst ` set reqs = set (List.map_filter (\<lambda>m. case m of JWrite r \<Rightarrow> Some r | JSeal _ \<Rightarrow> None) pre)"
    using pre(2) by (metis list.set_map)
  then show "fst ` set reqs \<subseteq> set (List.map_filter (\<lambda>m. case m of JWrite r \<Rightarrow> Some r | JSeal _ \<Rightarrow> None) channel)"
    by (simp add: List.map_filter_def pre(1))
qed

section \<open>Sealing\<close>

lemma sealed_not_active [simp]: "sealed_seg_path d i \<noteq> active_seg_path d"
  by (simp add: sealed_seg_path_def active_seg_path_def join_path_def seg_file_name_def)

lemma fs_rename_ok:
  assumes "fs_rename f p q = (Inr u, f')" and "distinct (map fst (fs_files f))" and "p \<noteq> q"
  shows "map_of (fs_files f') = (map_of (fs_files f))(p := None, q := map_of (fs_files f) p)"
    and "map_of (fs_files f) p \<noteq> None"
  using assms by (auto simp: fs_rename_def delete_conv' split: option.splits)

text \<open>
  A seal moves the active file, whole, to its permanent name (or leaves everything in place on
  an error before the rename); no other file but the fresh active one is touched.
\<close>

lemma do_seal_files:
  fixes st :: "'k journal_state"
  assumes seal: "do_seal D cfg so st = (r, st')" and d: "distinct (map fst (fs_files (js_fs st)))"
  defines "a \<equiv> active_seg_path (jc_dir cfg)" and "s \<equiv> sealed_seg_path (jc_dir cfg) (js_seg_id st)"
  shows "map_of (fs_files (js_fs st')) = map_of (fs_files (js_fs st)) \<and> isl r \<and> js_path st' = js_path st
    \<or> (map_of (fs_files (js_fs st')) s = map_of (fs_files (js_fs st)) a
       \<and> (\<forall>q. q \<noteq> a \<and> q \<noteq> s \<longrightarrow> map_of (fs_files (js_fs st')) q = map_of (fs_files (js_fs st)) q)
       \<and> (r = Inr (js_seg_id st + 1) \<and> js_path st' = a \<and> map_of (fs_files (js_fs st')) a = Some []
          \<or> isl r))"
proof (cases "so = None")
  case False
  then show ?thesis using seal by (auto simp: do_seal_def)
next
  case True
  obtain rr f where rn: "fs_rename (js_fs st) a s = (rr, f)" by force
  have sa: "a \<noteq> s" unfolding a_def s_def by (rule not_sym[OF sealed_not_active])
  show ?thesis
  proof (cases rr)
    case (Inl e)
    then have "f = js_fs st" using rn by (auto simp: fs_rename_def split: option.splits)
    with Inl seal True rn show ?thesis by (auto simp: do_seal_def Let_def a_def s_def)
  next
    case (Inr u)
    note ren = fs_rename_ok[OF rn[unfolded Inr] d sa]
    obtain ro f2 where op: "open_odirect cfg f = (ro, f2)" by force
    have f2: "map_of (fs_files f2) = map_of (fs_files f) \<and> isl ro
        \<or> ro = Inr () \<and> map_of (fs_files f2) = (map_of (fs_files f))(a \<mapsto> [])"
      using op ren sa by (auto simp: open_odirect_def fs_open_create_def a_def split: option.splits)
    have "js_fs st' = f2 \<and> (ro = Inr () \<longrightarrow> r = Inr (js_seg_id st + 1) \<and> js_path st' = a) \<and> (isl ro \<longrightarrow> isl r)"
      using seal True rn Inr op by (auto simp: do_seal_def Let_def a_def s_def split: sum.splits)
    with f2 ren sa show ?thesis by auto
  qed
qed


section \<open>The journal invariant\<close>

text \<open>
  The handle stands on the active file, the file is at least as long as the write position, and
  what is before that position is the image of the batches written so far (\<open>bss\<close>), each padded
  to the alignment.
\<close>

definition journal_inv ::
  "(bytes \<Rightarrow> u32) \<Rightarrow> journal_config \<Rightarrow> (u64 \<times> u64 \<times> bytes) list list \<Rightarrow> 'k journal_state \<Rightarrow> bool" where
  "journal_inv crc cfg bss st \<longleftrightarrow>
     js_path st = active_seg_path (jc_dir cfg) \<and> distinct (map fst (fs_files (js_fs st)))
     \<and> (\<exists>c. map_of (fs_files (js_fs st)) (js_path st) = Some c
          \<and> take (unat (js_file_offset st)) c = wal_image crc bss
          \<and> unat (js_file_offset st) = length (wal_image crc bss))"

text \<open>What a turn of the loop does to the files: the batch it writes and where the file ends up.\<close>

definition turn_batch :: "(bytes \<Rightarrow> u32) \<Rightarrow> WriteReq \<Rightarrow> JournalMsg list \<Rightarrow> (u64 \<times> u64 \<times> bytes) list" where
  "turn_batch crc r channel =
     (case push crc AlignedBuffer_new (wr_ledger_id r) (wr_entry_id r) (wr_payload r) of
        (buf0, off, len) \<Rightarrow>
          (case drain_channel crc buf0 channel of
             (_, reqs, _, _) \<Rightarrow> req_entry r # map (req_entry \<circ> fst) reqs))"

lemma distinct_fs_set: "distinct (map fst (fs_files f)) \<Longrightarrow> distinct (map fst (fs_files (fs_set f p c)))"
  by (simp add: fs_set_def distinct_update)

lemma distinct_fs_delete: "distinct (map fst xs) \<Longrightarrow> distinct (map fst (AList.delete p xs))"
  by (rule distinct_delete)

lemma distinct_fs_rename:
  "fs_rename f p q = (r, f') \<Longrightarrow> distinct (map fst (fs_files f)) \<Longrightarrow> distinct (map fst (fs_files f'))"
  by (auto simp: fs_rename_def distinct_fs_set distinct_delete split: option.splits)

lemma distinct_fs_open:
  "fs_open_create f p t = (r, f') \<Longrightarrow> distinct (map fst (fs_files f)) \<Longrightarrow> distinct (map fst (fs_files f'))"
  by (auto simp: fs_open_create_def distinct_fs_set split: option.splits if_splits)

lemma distinct_do_seal:
  fixes st :: "'k journal_state"
  assumes "do_seal D cfg so st = (r, st')" and "distinct (map fst (fs_files (js_fs st)))"
  shows "distinct (map fst (fs_files (js_fs st')))"
proof (cases so)
  case None
  obtain rr f where rn: "fs_rename (js_fs st) (active_seg_path (jc_dir cfg)) (sealed_seg_path (jc_dir cfg) (js_seg_id st)) = (rr, f)"
    by force
  obtain ro f2 where op: "open_odirect cfg f = (ro, f2)" by force
  note d1 = distinct_fs_rename[OF rn assms(2)]
  note d2 = distinct_fs_open[OF op[unfolded open_odirect_def] d1]
  from assms(1) None rn op d1 d2 show ?thesis
    by (auto simp: do_seal_def Let_def split: sum.splits)
qed (use assms in \<open>auto simp: do_seal_def\<close>)


section \<open>Runs of the journal\<close>

text \<open>
  A run starts on an empty active file and takes turns of \<open>journal_step\<close> with arbitrary
  outcomes of the environment. The ghost set collects, for every location that was sent to a
  caller, the request it answers. Side conditions: a turn's reply channels are distinct, sizes
  stay below the machine limits, the segment counter is not at its maximum and the active file
  can be reopened after a seal. The predicate \<open>ok\<close> restricts the batches of the run; \<open>\<lambda>_. True\<close>
  restricts nothing.
\<close>

fun log_fits ::
  "((u64 \<times> u64 \<times> bytes) list \<Rightarrow> bool) \<Rightarrow> (bytes \<Rightarrow> u32) \<Rightarrow> nat \<Rightarrow> (u64 \<times> u64 \<times> bytes) list list \<Rightarrow> bool" where
  "log_fits ok crc pos [] = True"
| "log_fits ok crc pos (es # bss) \<longleftrightarrow>
     batch_fits crc pos es \<and> ok es \<and> log_fits ok crc (pos + length (padded_batch crc es)) bss"

lemma log_fits_snoc:
  "log_fits ok crc pos (bss @ [es]) \<longleftrightarrow>
     log_fits ok crc pos bss \<and> batch_fits crc (pos + length (wal_image crc bss)) es \<and> ok es"
  by (induction bss arbitrary: pos) (auto simp: add.assoc)

definition writes_of :: "JournalMsg list \<Rightarrow> WriteReq list" where
  "writes_of ms = List.map_filter (\<lambda>m. case m of JWrite r \<Rightarrow> Some r | JSeal _ \<Rightarrow> None) ms"

definition acked_by :: "WriteReq \<Rightarrow> JournalMsg list \<Rightarrow> reply list \<Rightarrow> (SegmentId \<times> u64 \<times> WriteReq) set" where
  "acked_by r channel replies =
     {(seg, off, q). \<exists>len. WriteReply (wr_ack q) (Inr (seg, off, len)) \<in> set replies
        \<and> q \<in> set (r # writes_of channel)}"

inductive journal_run ::
  "((u64 \<times> u64 \<times> bytes) list \<Rightarrow> bool) \<Rightarrow> 'k db_api \<Rightarrow> (bytes \<Rightarrow> u32) \<Rightarrow> journal_config
   \<Rightarrow> 'k journal_state \<Rightarrow> (SegmentId \<times> u64 \<times> WriteReq) set \<Rightarrow> bool"
  for ok D crc cfg where
  run_start: "journal_inv crc cfg [] st \<Longrightarrow> fs_write_err (js_fs st) (active_seg_path (jc_dir cfg)) = None \<Longrightarrow>
    journal_run ok D crc cfg st {}"
| run_write: "journal_run ok D crc cfg st acks \<Longrightarrow>
    journal_step D crc cfg env (JWrite r) channel st = (replies, rest, st') \<Longrightarrow>
    batch_fits crc (unat (js_file_offset st)) (turn_batch crc r channel) \<Longrightarrow> ok (turn_batch crc r channel) \<Longrightarrow>
    distinct (map wr_ack (r # writes_of channel)) \<Longrightarrow> js_seg_id st \<noteq> - 1 \<Longrightarrow>
    journal_run ok D crc cfg st' (acks \<union> acked_by r channel replies)"
| run_seal: "journal_run ok D crc cfg st acks \<Longrightarrow>
    journal_step D crc cfg env (JSeal a) channel st = (replies, rest, st') \<Longrightarrow> js_seg_id st \<noteq> - 1 \<Longrightarrow>
    journal_run ok D crc cfg st' acks"

text \<open>Where the file of a segment is, in a given state.\<close>

definition segment_file :: "journal_config \<Rightarrow> 'k journal_state \<Rightarrow> SegmentId \<Rightarrow> bytes option" where
  "segment_file cfg st seg =
     map_of (fs_files (js_fs st))
       (if seg = js_seg_id st then active_seg_path (jc_dir cfg) else sealed_seg_path (jc_dir cfg) seg)"

definition acks_intact ::
  "(bytes \<Rightarrow> u32) \<Rightarrow> journal_config \<Rightarrow> 'k journal_state \<Rightarrow> (SegmentId \<times> u64 \<times> WriteReq) set \<Rightarrow> bool" where
  "acks_intact crc cfg st acks \<longleftrightarrow>
     (\<forall>(seg, off, q) \<in> acks. seg \<le> js_seg_id st \<and>
        (\<exists>c. segment_file cfg st seg = Some c
           \<and> rec_at crc (if seg = js_seg_id st then take (unat (js_file_offset st)) c else c) (unat off)
               (wr_ledger_id q) (wr_entry_id q) (wr_payload q)))"

text \<open>The acknowledged requests of the active segment are among the logged batches.\<close>

definition acks_logged ::
  "'k journal_state \<Rightarrow> (u64 \<times> u64 \<times> bytes) list list \<Rightarrow> (SegmentId \<times> u64 \<times> WriteReq) set \<Rightarrow> bool" where
  "acks_logged st bss acks \<longleftrightarrow>
     (\<forall>(seg, off, q) \<in> acks. seg = js_seg_id st \<longrightarrow> req_entry q \<in> set (concat bss))"

lemma acks_logged_mono:
  "acks_logged st bss acks \<Longrightarrow> js_seg_id st' = js_seg_id st \<Longrightarrow> set (concat bss) \<subseteq> set (concat bss') \<Longrightarrow>
   acks_logged st' bss' acks"
  unfolding acks_logged_def by (fastforce dest: subsetD)

lemma sealed_seg_path_inject [simp]: "sealed_seg_path d i = sealed_seg_path d j \<longleftrightarrow> i = j"
proof
  assume "sealed_seg_path d i = sealed_seg_path d j"
  then have "seg_file_name ''seg-'' ''.seg'' i = seg_file_name ''seg-'' ''.seg'' j"
    by (simp add: sealed_seg_path_def join_path_def)
  then show "i = j" using segment_id_of_name_seg_file_name by (metis option.inject)
qed simp

lemma do_seal_total:
  fixes st :: "'k journal_state"
  assumes seal: "do_seal D cfg so st = (r, st')" and d: "distinct (map fst (fs_files (js_fs st)))"
    and w: "fs_write_err (js_fs st) (active_seg_path (jc_dir cfg)) = None"
    and path: "js_path st = active_seg_path (jc_dir cfg)"
  shows "fs_write_err (js_fs st') = fs_write_err (js_fs st) \<and> js_seg_id st' = js_seg_id st
    \<and> js_file_offset st' = js_file_offset st
    \<and> (isl r \<and> map_of (fs_files (js_fs st')) = map_of (fs_files (js_fs st)) \<and> js_path st' = js_path st
     \<or> r = Inr (js_seg_id st + 1) \<and> js_path st' = js_path st
       \<and> map_of (fs_files (js_fs st')) =
          (map_of (fs_files (js_fs st)))(sealed_seg_path (jc_dir cfg) (js_seg_id st)
              := map_of (fs_files (js_fs st)) (active_seg_path (jc_dir cfg)), active_seg_path (jc_dir cfg) \<mapsto> []))"
proof (cases "so = None")
  case False
  then show ?thesis using seal by (auto simp: do_seal_def)
next
  case True
  let ?a = "active_seg_path (jc_dir cfg)" and ?s = "sealed_seg_path (jc_dir cfg) (js_seg_id st)"
  obtain rr f where rn: "fs_rename (js_fs st) ?a ?s = (rr, f)" by force
  have we: "fs_write_err f = fs_write_err (js_fs st)"
    using rn by (auto simp: fs_rename_def split: option.splits)
  show ?thesis
  proof (cases rr)
    case (Inl e)
    then have "f = js_fs st" using rn by (auto simp: fs_rename_def split: option.splits)
    with Inl seal True rn show ?thesis by (auto simp: do_seal_def Let_def)
  next
    case (Inr u)
    note ren = fs_rename_ok[OF rn[unfolded Inr] d not_sym[OF sealed_not_active]]
    obtain f2 where op: "open_odirect cfg f = (Inr (), f2)" and f2: "map_of (fs_files f2) = (map_of (fs_files f))(?a \<mapsto> [])"
      and we2: "fs_write_err f2 = fs_write_err f"
      using ren w we not_sym[OF sealed_not_active, of "jc_dir cfg" "js_seg_id st"]
      by (auto simp: open_odirect_def fs_open_create_def)
    have "r = Inr (js_seg_id st + 1) \<and> js_fs st' = f2 \<and> js_path st' = ?a \<and> js_seg_id st' = js_seg_id st
        \<and> js_file_offset st' = js_file_offset st"
      using seal True rn Inr op by (auto simp: do_seal_def Let_def)
    with f2 ren we we2 path show ?thesis
      by (auto simp: fun_upd_twist[OF not_sym[OF sealed_not_active]])
  qed
qed

text \<open>A request that is answered with a location has its record there, in the padded batch.\<close>

lemma acked_record:
  fixes pos :: u64
  assumes p: "push crc AlignedBuffer_new (wr_ledger_id r) (wr_entry_id r) (wr_payload r) = (buf0, o0, n0)"
    and dc: "drain_channel crc buf0 channel = (buf, reqs, srep, rest)"
    and fit: "batch_fits crc (length img) (turn_batch crc r channel)" and pos: "unat pos = length img"
    and dis: "distinct (map wr_ack (r # writes_of channel))"
    and a: "(seg, off, q) \<in> acked_by r channel (srep @ map (\<lambda>(r, off, len). WriteReply (wr_ack r)
        (Inr (i, pos + of_nat off, len))) ((r, o0, n0) # reqs))"
  shows "seg = i \<and> rec_at crc (img @ padded_batch crc (turn_batch crc r channel)) (unat off)
      (wr_ledger_id q) (wr_entry_id q) (wr_payload q) \<and> req_entry q \<in> set (turn_batch crc r channel)"
proof -
  let ?reqs = "(r, o0, n0) # reqs" and ?es = "turn_batch crc r channel"
  have es: "?es = map (req_entry \<circ> fst) ?reqs" by (simp add: turn_batch_def p dc)
  note t = write_turn[OF p dc, folded es, folded writes_of_def]
  from a obtain len where "WriteReply (wr_ack q) (Inr (seg, off, len))
      \<in> set (srep @ map (\<lambda>(r, off, len). WriteReply (wr_ack r) (Inr (i, pos + of_nat off, len))) ?reqs)"
    and qm: "q \<in> set (r # writes_of channel)" unfolding acked_by_def by blast
  then have "WriteReply (wr_ack q) (Inr (seg, off, len))
      \<in> (\<lambda>(r, off, len). WriteReply (wr_ack r) (Inr (i, pos + of_nat off, len))) ` set ?reqs"
    using drain_channel_spec(3)[OF dc] by auto
  then obtain q' b len' where mem: "(q', b, len') \<in> set ?reqs"
    and eq: "WriteReply (wr_ack q) (Inr (seg, off, len)) = WriteReply (wr_ack q') (Inr (i, pos + of_nat b, len'))"
    by (elim imageE) (metis (no_types, lifting) case_prod_conv prod_cases3)
  from mem eq have q': "(q', b, len) \<in> set ?reqs" "wr_ack q' = wr_ack q" "seg = i" "off = pos + of_nat b" by simp_all
  have "q' \<in> set (r # writes_of channel)" using q'(1) t(3) by force
  then have q: "q' = q" using q'(2) qm dis unfolding distinct_map inj_on_def by blast
  have "zip ?es (batch_offsets 0 ?es) = map (\<lambda>x. (req_entry (fst x), snd x)) ?reqs"
    unfolding t(2)[symmetric] unfolding es zip_map_same by simp
  with q'(1) q have "(req_entry q, (b, len)) \<in> set (zip ?es (batch_offsets 0 ?es))" by force
  then have z: "(req_entry q, (off, len)) \<in> set (zip ?es (map (\<lambda>(o', n). (pos + of_nat o', n)) (batch_offsets 0 ?es)))"
    by (force simp: zip_map2 q'(4))
  have "rec_at crc (img @ padded_batch crc ?es @ []) (unat off) (wr_ledger_id q) (wr_entry_id q) (wr_payload q)"
    using batch_locations[OF fit z[unfolded req_entry_def] pos] by blast
  moreover have "req_entry q \<in> set ?es" using z by (rule set_zip_leftD)
  ultimately show ?thesis using q'(3) by simp
qed

text \<open>
  The central lemma about a write turn, up to the automatic seal. Whatever the environment does,
  the bytes before the old write position survive; if a request is answered with a location, its
  record is intact there, below the new write position.
\<close>

lemma write_turn_state:
  fixes st :: "'k journal_state"
  assumes inv: "journal_inv crc cfg bss st"
    and st: "journal_step D crc cfg env (JWrite r) channel st = (replies, rest, st')"
    and fit: "batch_fits crc (unat (js_file_offset st)) (turn_batch crc r channel)"
    and dis: "distinct (map wr_ack (r # writes_of channel))"
  obtains c1 st1 bss1 where
    "map_of (fs_files (js_fs st1)) = (map_of (fs_files (js_fs st)))(active_seg_path (jc_dir cfg) \<mapsto> c1)"
    "journal_inv crc cfg bss1 st1" "take (unat (js_file_offset st)) (wal_image crc bss1) = wal_image crc bss"
    "bss1 = bss \<or> bss1 = bss @ [turn_batch crc r channel]"
    "js_seg_id st1 = js_seg_id st" "fs_write_err (js_fs st1) = fs_write_err (js_fs st)"
    "\<And>seg off q. (seg, off, q) \<in> acked_by r channel replies \<Longrightarrow> seg = js_seg_id st
       \<and> rec_at crc (wal_image crc bss1) (unat off) (wr_ledger_id q) (wr_entry_id q) (wr_payload q)
       \<and> req_entry q \<in> set (concat bss1)"
    "acked_by r channel replies \<noteq> {} \<Longrightarrow> je_sync_data env = None \<and> bss1 = bss @ [turn_batch crc r channel]"
    "st' = st1 \<or> st' = (case do_seal D cfg (je_sync_all env) st1 of
                          (Inr next_id, st2) \<Rightarrow> after_seal next_id st2 | (Inl _, st2) \<Rightarrow> st2)"
proof -
  from inv obtain c0 where path: "js_path st = active_seg_path (jc_dir cfg)"
    and dfs: "distinct (map fst (fs_files (js_fs st)))"
    and c0: "map_of (fs_files (js_fs st)) (js_path st) = Some c0"
    and img: "take (unat (js_file_offset st)) c0 = wal_image crc bss"
    and off: "unat (js_file_offset st) = length (wal_image crc bss)"
    by (auto simp: journal_inv_def)
  have le: "unat (js_file_offset st) \<le> length c0"
    using arg_cong[OF img, of length] off by simp
  obtain buf0 o0 n0 where p: "push crc AlignedBuffer_new (wr_ledger_id r) (wr_entry_id r) (wr_payload r) = (buf0, o0, n0)"
    by (metis prod_cases3)
  obtain buf reqs srep rest' where dc: "drain_channel crc buf0 channel = (buf, reqs, srep, rest')"
    by (metis prod_cases4)
  let ?reqs = "(r, o0, n0) # reqs" and ?es = "turn_batch crc r channel"
  let ?pad = "padded_batch crc ?es" and ?pos = "unat (js_file_offset st)"
  have es: "?es = map (req_entry \<circ> fst) ?reqs" by (simp add: turn_batch_def p dc)
  note t = write_turn[OF p dc, folded es, folded writes_of_def]
  obtain wrep st1 where wa: "write_and_ack (je_write env) (je_sync_data env) buf ?reqs st = (wrep, st1)" by force
  from st p dc wa have rep: "replies = srep @ wrep"
    and st': "st' = st1 \<or> st' = (case do_seal D cfg (je_sync_all env) st1 of
                          (Inr next_id, st2) \<Rightarrow> after_seal next_id st2 | (Inl _, st2) \<Rightarrow> st2)"
    by (auto simp: journal_step_def split: if_splits)
  obtain c1 where
    s1: "st1 = st\<lparr> js_fs := fs_set (js_fs st) (js_path st) c1, js_file_offset := js_file_offset st1 \<rparr>"
    and keep: "take ?pos c1 = take ?pos c0" and "?pos \<le> length c1"
    and out: "(je_sync_data env = None \<and> (\<exists>n \<ge> length ?pad. je_write env = WOk n)
        \<and> take (?pos + length ?pad) c1 = take ?pos c0 @ ?pad
        \<and> js_file_offset st1 = js_file_offset st + of_nat (length ?pad)
        \<and> wrep = map (\<lambda>(r, off, len). WriteReply (wr_ack r)
                       (Inr (js_seg_id st, js_file_offset st + of_nat off, len))) ?reqs)
     \<or> js_file_offset st1 = js_file_offset st \<and> (\<exists>msg. wrep = fail_all ?reqs msg)"
    by (rule write_and_ack_cases[OF wa c0 le t(1) fit])
  have seg1: "js_seg_id st1 = js_seg_id st" and w1: "fs_write_err (js_fs st1) = fs_write_err (js_fs st)"
    and f1: "map_of (fs_files (js_fs st1)) = (map_of (fs_files (js_fs st)))(active_seg_path (jc_dir cfg) \<mapsto> c1)"
    and p1: "js_path st1 = active_seg_path (jc_dir cfg)" and d1: "distinct (map fst (fs_files (js_fs st1)))"
    using path dfs by (subst s1, simp add: distinct_fs_set)+
  from out show thesis
  proof
    assume fail: "js_file_offset st1 = js_file_offset st \<and> (\<exists>msg. wrep = fail_all ?reqs msg)"
    have inv1: "journal_inv crc cfg bss st1"
      using keep img off fail f1 p1 d1 by (simp add: journal_inv_def)
    have none: "acked_by r channel replies = {}"
      using fail rep drain_channel_spec(3)[OF dc] by (auto simp: acked_by_def fail_all_def)
    show thesis
      by (rule that[OF f1 inv1 _ _ seg1 w1 _ _ st']) (use none off in simp_all)
  next
    assume ok: "je_sync_data env = None \<and> (\<exists>n \<ge> length ?pad. je_write env = WOk n)
        \<and> take (?pos + length ?pad) c1 = take ?pos c0 @ ?pad
        \<and> js_file_offset st1 = js_file_offset st + of_nat (length ?pad)
        \<and> wrep = map (\<lambda>(r, off, len). WriteReply (wr_ack r)
                       (Inr (js_seg_id st, js_file_offset st + of_nat off, len))) ?reqs"
    have "?pos + length ?pad < 2 ^ 64" by (rule padded_batch_eq(3)[OF fit])
    then have off1: "unat (js_file_offset st1) = ?pos + length ?pad"
      using ok by (simp add: unat_word_ariths unat_of_nat)
    have inv1: "journal_inv crc cfg (bss @ [?es]) st1"
      using ok img off off1 f1 p1 d1 by (simp add: journal_inv_def)
    have acked: "seg = js_seg_id st
       \<and> rec_at crc (wal_image crc (bss @ [?es])) (unat off') (wr_ledger_id q) (wr_entry_id q) (wr_payload q)
       \<and> req_entry q \<in> set (concat (bss @ [?es]))"
      if "(seg, off', q) \<in> acked_by r channel replies" for seg off' q
    proof -
      have "replies = srep @ map (\<lambda>(r, off, len). WriteReply (wr_ack r)
          (Inr (js_seg_id st, js_file_offset st + of_nat off, len))) ?reqs" using rep ok by (simp only:)
      from acked_record[OF p dc fit[unfolded off] off dis that[unfolded this]] show ?thesis by auto
    qed
    show thesis
      by (rule that[OF f1 inv1 _ _ seg1 w1 acked _ st']) (use ok off in simp_all)
  qed
qed

text \<open>Sealing moves the active file to its sealed name: the acknowledged records move with it.\<close>

lemma seal_moves_acks:
  assumes acks: "acks_intact crc cfg st acks" and nw: "js_seg_id st \<noteq> - 1" and id': "js_seg_id st' = js_seg_id st + 1"
    and f': "map_of (fs_files (js_fs st')) = (map_of (fs_files (js_fs st)))(sealed_seg_path (jc_dir cfg) (js_seg_id st)
        := map_of (fs_files (js_fs st)) (active_seg_path (jc_dir cfg)), active_seg_path (jc_dir cfg) \<mapsto> [])"
  shows "acks_intact crc cfg st' acks"
  unfolding acks_intact_def
proof safe
  fix seg off q assume m: "(seg, off, q) \<in> acks"
  with acks obtain c where le: "seg \<le> js_seg_id st" and c: "segment_file cfg st seg = Some c"
    and rec: "rec_at crc (if seg = js_seg_id st then take (unat (js_file_offset st)) c else c) (unat off)
           (wr_ledger_id q) (wr_entry_id q) (wr_payload q)"
    by (auto simp: acks_intact_def)
  note lt = u64_less_plus1[OF nw]
  from le lt have ne: "seg \<noteq> js_seg_id st + 1" by auto
  show "seg \<le> js_seg_id st'" using le lt id' by simp
  have "segment_file cfg st' seg = Some c"
    using c ne by (auto simp: segment_file_def f' id' split: if_splits)
  moreover have "rec_at crc c (unat off) (wr_ledger_id q) (wr_entry_id q) (wr_payload q)"
    using rec by (auto split: if_splits dest: rec_at_take)
  ultimately show "\<exists>c. segment_file cfg st' seg = Some c
       \<and> rec_at crc (if seg = js_seg_id st' then take (unat (js_file_offset st')) c else c) (unat off)
           (wr_ledger_id q) (wr_entry_id q) (wr_payload q)"
    using ne id' by simp
qed

lemma seal_inv:
  fixes st :: "'k journal_state"
  assumes inv: "journal_inv crc cfg bss st" and w: "fs_write_err (js_fs st) (active_seg_path (jc_dir cfg)) = None"
    and nw: "js_seg_id st \<noteq> - 1" and acks: "acks_intact crc cfg st acks"
    and st': "st' = (case do_seal D cfg so st of (Inr next_id, st2) \<Rightarrow> after_seal next_id st2 | (Inl _, st2) \<Rightarrow> st2)"
  shows "(journal_inv crc cfg bss st' \<and> js_seg_id st' = js_seg_id st \<or> journal_inv crc cfg [] st' \<and> acks_logged st' [] acks)
    \<and> fs_write_err (js_fs st') = fs_write_err (js_fs st) \<and> acks_intact crc cfg st' acks"
proof -
  let ?a = "active_seg_path (jc_dir cfg)" and ?s = "sealed_seg_path (jc_dir cfg) (js_seg_id st)"
  obtain r st2 where ds: "do_seal D cfg so st = (r, st2)" by force
  have d: "distinct (map fst (fs_files (js_fs st)))" and path: "js_path st = ?a"
    using inv by (simp_all add: journal_inv_def)
  from do_seal_total[OF ds d w path] have same: "fs_write_err (js_fs st2) = fs_write_err (js_fs st)"
    "js_seg_id st2 = js_seg_id st" "js_file_offset st2 = js_file_offset st" and
    cases: "isl r \<and> map_of (fs_files (js_fs st2)) = map_of (fs_files (js_fs st)) \<and> js_path st2 = js_path st
     \<or> r = Inr (js_seg_id st + 1) \<and> js_path st2 = js_path st
       \<and> map_of (fs_files (js_fs st2)) = (map_of (fs_files (js_fs st)))(?s := map_of (fs_files (js_fs st)) ?a, ?a \<mapsto> [])"
    by blast+
  note d2 = distinct_do_seal[OF ds d]
  from cases show ?thesis
  proof
    assume k: "isl r \<and> map_of (fs_files (js_fs st2)) = map_of (fs_files (js_fs st)) \<and> js_path st2 = js_path st"
    then have "st' = st2" using st' ds by (auto simp: isl_def)
    moreover have "journal_inv crc cfg bss st2" using inv k same d2 by (auto simp: journal_inv_def)
    moreover have "acks_intact crc cfg st2 acks"
      using acks unfolding acks_intact_def segment_file_def same conjunct1[OF conjunct2[OF k]] .
    ultimately show ?thesis using same by blast
  next
    assume k: "r = Inr (js_seg_id st + 1) \<and> js_path st2 = js_path st
       \<and> map_of (fs_files (js_fs st2)) = (map_of (fs_files (js_fs st)))(?s := map_of (fs_files (js_fs st)) ?a, ?a \<mapsto> [])"
    then have s': "st' = after_seal (js_seg_id st + 1) st2" using st' ds by simp
    then have f': "map_of (fs_files (js_fs st')) = (map_of (fs_files (js_fs st)))(?s := map_of (fs_files (js_fs st)) ?a, ?a \<mapsto> [])"
      using k by (simp add: after_seal_def)
    have "journal_inv crc cfg [] st'" using k d2 path by (simp add: s' after_seal_def journal_inv_def)
    moreover have "acks_intact crc cfg st' acks"
      by (rule seal_moves_acks[OF acks nw _ f']) (simp add: s' after_seal_def)
    moreover have "acks_logged st' [] acks"
      using acks u64_less_plus1[OF nw] by (auto simp: acks_logged_def acks_intact_def s' after_seal_def)
    ultimately show ?thesis using same by (auto simp: s' after_seal_def)
  qed
qed

text \<open>What every run keeps.\<close>

definition run_inv ::
  "((u64 \<times> u64 \<times> bytes) list \<Rightarrow> bool) \<Rightarrow> (bytes \<Rightarrow> u32) \<Rightarrow> journal_config \<Rightarrow> (u64 \<times> u64 \<times> bytes) list list
   \<Rightarrow> 'k journal_state \<Rightarrow> (SegmentId \<times> u64 \<times> WriteReq) set \<Rightarrow> bool" where
  "run_inv ok crc cfg bss st acks \<longleftrightarrow> journal_inv crc cfg bss st \<and> log_fits ok crc 0 bss \<and> acks_logged st bss acks
     \<and> fs_write_err (js_fs st) (active_seg_path (jc_dir cfg)) = None \<and> acks_intact crc cfg st acks"

lemma seal_run_inv:
  assumes inv: "run_inv ok crc cfg bss st acks" and nw: "js_seg_id st \<noteq> - 1"
    and st': "st' = (case do_seal D cfg so st of (Inr next_id, st2) \<Rightarrow> after_seal next_id st2 | (Inl _, st2) \<Rightarrow> st2)"
  shows "\<exists>bss. run_inv ok crc cfg bss st' acks"
proof -
  from inv have i: "journal_inv crc cfg bss st" "log_fits ok crc 0 bss" "acks_logged st bss acks"
    "fs_write_err (js_fs st) (active_seg_path (jc_dir cfg)) = None" "acks_intact crc cfg st acks" by (auto simp: run_inv_def)
  note s = seal_inv[OF i(1,4) nw i(5) st']
  then consider "journal_inv crc cfg bss st'" "js_seg_id st' = js_seg_id st" | "journal_inv crc cfg [] st'" "acks_logged st' [] acks"
    by blast
  then show ?thesis
  proof cases
    case 1
    then have "run_inv ok crc cfg bss st' acks" using s i acks_logged_mono[OF i(3), of st' bss] by (simp add: run_inv_def)
    then show ?thesis by blast
  next
    case 2
    then have "run_inv ok crc cfg [] st' acks" using s i by (simp add: run_inv_def)
    then show ?thesis by blast
  qed
qed

text \<open>A write keeps the earlier records: the active file only grows behind them.\<close>

lemma write_keeps_acks:
  assumes ai: "acks_intact crc cfg st acks" and inv: "journal_inv crc cfg bss st" and inv1: "journal_inv crc cfg bss1 st1"
    and f1: "map_of (fs_files (js_fs st1)) = (map_of (fs_files (js_fs st)))(active_seg_path (jc_dir cfg) \<mapsto> c1)"
    and pre: "take (unat (js_file_offset st)) (wal_image crc bss1) = wal_image crc bss" and seg1: "js_seg_id st1 = js_seg_id st"
    and new: "\<And>seg off q. (seg, off, q) \<in> fresh \<Longrightarrow> seg = js_seg_id st
       \<and> rec_at crc (wal_image crc bss1) (unat off) (wr_ledger_id q) (wr_entry_id q) (wr_payload q)"
  shows "acks_intact crc cfg st1 (acks \<union> fresh)"
proof -
  let ?a = "active_seg_path (jc_dir cfg)"
  from inv1 f1 have c1: "take (unat (js_file_offset st1)) c1 = wal_image crc bss1" by (auto simp: journal_inv_def)
  have active: "\<exists>c. segment_file cfg st1 seg = Some c
      \<and> rec_at crc (if seg = js_seg_id st1 then take (unat (js_file_offset st1)) c else c) (unat off) l e p"
    if "seg = js_seg_id st" "rec_at crc (wal_image crc bss1) (unat off) l e p" for seg l e p and off :: u64
    using that c1 seg1 f1 by (simp add: segment_file_def)
  have old: "\<exists>c. segment_file cfg st1 seg = Some c
      \<and> rec_at crc (if seg = js_seg_id st1 then take (unat (js_file_offset st1)) c else c) (unat off)
          (wr_ledger_id q) (wr_entry_id q) (wr_payload q)" if m: "(seg, off, q) \<in> acks" for seg off q
  proof -
    from ai m obtain c where c: "segment_file cfg st seg = Some c"
      and rec: "rec_at crc (if seg = js_seg_id st then take (unat (js_file_offset st)) c else c) (unat off)
               (wr_ledger_id q) (wr_entry_id q) (wr_payload q)" by (auto simp: acks_intact_def)
    show ?thesis
    proof (cases "seg = js_seg_id st")
      case True
      then have "map_of (fs_files (js_fs st)) ?a = Some c" using c by (simp add: segment_file_def)
      then have "take (unat (js_file_offset st)) c = wal_image crc bss" using inv by (auto simp: journal_inv_def)
      with rec True pre have "rec_at crc (wal_image crc bss1) (unat off) (wr_ledger_id q) (wr_entry_id q) (wr_payload q)"
        by (metis rec_at_take)
      with True show ?thesis by (rule active)
    next
      case False
      with c rec seg1 f1 show ?thesis by (simp add: segment_file_def)
    qed
  qed
  have "seg \<le> js_seg_id st1" if "(seg, off, q) \<in> acks \<union> fresh" for seg off q
    using that ai new seg1 by (fastforce simp: acks_intact_def)
  with old active new show ?thesis unfolding acks_intact_def by blast
qed

lemma write_run_inv:
  assumes inv: "run_inv ok crc cfg bss st acks"
    and st: "journal_step D crc cfg env (JWrite r) channel st = (replies, rest, st')"
    and fit: "batch_fits crc (unat (js_file_offset st)) (turn_batch crc r channel)" and ok: "ok (turn_batch crc r channel)"
    and dis: "distinct (map wr_ack (r # writes_of channel))" and nw: "js_seg_id st \<noteq> - 1"
  shows "\<exists>bss. run_inv ok crc cfg bss st' (acks \<union> acked_by r channel replies)"
proof -
  from inv have i: "journal_inv crc cfg bss st" "log_fits ok crc 0 bss" "acks_logged st bss acks"
    "fs_write_err (js_fs st) (active_seg_path (jc_dir cfg)) = None" "acks_intact crc cfg st acks" by (auto simp: run_inv_def)
  obtain c1 st1 bss1 where
    f1: "map_of (fs_files (js_fs st1)) = (map_of (fs_files (js_fs st)))(active_seg_path (jc_dir cfg) \<mapsto> c1)"
    and inv1: "journal_inv crc cfg bss1 st1"
    and pre: "take (unat (js_file_offset st)) (wal_image crc bss1) = wal_image crc bss"
    and b1: "bss1 = bss \<or> bss1 = bss @ [turn_batch crc r channel]"
    and seg1: "js_seg_id st1 = js_seg_id st" and w1: "fs_write_err (js_fs st1) = fs_write_err (js_fs st)"
    and new: "\<And>seg off q. (seg, off, q) \<in> acked_by r channel replies \<Longrightarrow> seg = js_seg_id st
       \<and> rec_at crc (wal_image crc bss1) (unat off) (wr_ledger_id q) (wr_entry_id q) (wr_payload q)
       \<and> req_entry q \<in> set (concat bss1)"
    and st': "st' = st1 \<or> st' = (case do_seal D cfg (je_sync_all env) st1 of
                          (Inr next_id, st2) \<Rightarrow> after_seal next_id st2 | (Inl _, st2) \<Rightarrow> st2)"
    by (rule write_turn_state[OF i(1) st fit dis]) blast
  have "acks_intact crc cfg st1 (acks \<union> acked_by r channel replies)"
    by (rule write_keeps_acks[OF i(5,1) inv1 f1 pre seg1]) (use new in blast)
  moreover have "log_fits ok crc 0 bss1" using b1 i(1,2) fit ok by (auto simp: log_fits_snoc journal_inv_def)
  moreover have "acks_logged st1 bss1 acks" using b1 by (intro acks_logged_mono[OF i(3) seg1]) auto
  then have "acks_logged st1 bss1 (acks \<union> acked_by r channel replies)"
    using new unfolding acks_logged_def by (auto dest!: new)
  ultimately have r1: "run_inv ok crc cfg bss1 st1 (acks \<union> acked_by r channel replies)" using inv1 w1 i(4) by (simp add: run_inv_def)
  have nw1: "js_seg_id st1 \<noteq> - 1" using nw seg1 by simp
  from st' show ?thesis using r1 seal_run_inv[OF r1 nw1] by blast
qed

lemma journal_run_inv:
  assumes "journal_run ok D crc cfg st acks"
  shows "\<exists>bss. run_inv ok crc cfg bss st acks"
  using assms
proof induction
  case (run_start st)
  then have "run_inv ok crc cfg [] st {}" by (simp add: run_inv_def acks_intact_def acks_logged_def)
  then show ?case by blast
next
  case (run_write st acks env r channel replies rest st')
  then show ?case using write_run_inv by blast
next
  case (run_seal st acks env a channel replies rest st')
  have "st' = (case do_seal D cfg (je_sync_all env) st of
                          (Inr next_id, st2) \<Rightarrow> after_seal next_id st2 | (Inl _, st2) \<Rightarrow> st2)"
    using run_seal.hyps(2) by (auto simp: journal_step_def split: sum.splits prod.splits)
  with run_seal.IH run_seal.hyps(3) seal_run_inv show ?case by blast
qed

end
