(* ===== verification/CrashRecovery.thy ===== *)
theory CrashRecovery
  imports LsmcJournal
begin

text \<open>
  Two-phase crash recovery (\<^verbatim>\<open>recovery/crash_recovery.rs\<close>). The two scan loops are
  \<open>partial_function (option)\<close> definitions, because they need not end: a loop that never
  returns has the value \<open>None\<close>. Everything that calls them returns an option as well. The
  state is what recovery reads and writes: the keyspace, the file system, the shared cache
  and the statistics.
\<close>


section \<open>State\<close>

record RecoveryStats =
  rs_entry_seg_entries :: u64
  rs_entry_segs_registered :: u64
  rs_wal_entries_replayed :: u64
  rs_wal_segs_registered :: u64
  rs_torn_writes :: u64
  rs_entry_locations_purged :: u64
  rs_wal_locations_purged :: u64
  rs_wal_entries_recovered :: u64
  rs_candidates :: "(u64 \<times> u64) list"

definition RecoveryStats_default :: RecoveryStats where
  "RecoveryStats_default =
     \<lparr> rs_entry_seg_entries = 0, rs_entry_segs_registered = 0, rs_wal_entries_replayed = 0,
       rs_wal_segs_registered = 0, rs_torn_writes = 0, rs_entry_locations_purged = 0,
       rs_wal_locations_purged = 0, rs_wal_entries_recovered = 0, rs_candidates = [] \<rparr>"

record recovery_config =
  rc_wal_index :: FjallIndex
  rc_entry_index :: FjallIndex
  rc_wal_registry :: string
  rc_entry_registry :: string
  rc_wal_dir :: string
  rc_entries_dir :: string

record 'k recovery_state =
  r_ks :: 'k
  r_fs :: fs
  r_cache :: EntrySegmentCache
  r_stats :: RecoveryStats


section \<open>Helpers\<close>

definition truncate_file :: "fs \<Rightarrow> string \<Rightarrow> nat \<Rightarrow> (string + unit) \<times> fs" where
  "truncate_file f path len = fs_truncate f path len"

definition sorted_entry_segment_files :: "fs \<Rightarrow> string \<Rightarrow> (u64 \<times> string) list" where
  "sorted_entry_segment_files f d = sorted_segment_files f d ''entry-'' ''.ent''"

definition sorted_wal_segment_files :: "fs \<Rightarrow> string \<Rightarrow> (u64 \<times> string) list" where
  "sorted_wal_segment_files f d = sorted_segment_files f d ''seg-'' ''.seg''"

definition sort_segment_metas :: "SegmentMeta list \<Rightarrow> SegmentMeta list" where
  "sort_segment_metas metas = sort_key sm_id metas"

text \<open>\<^verbatim>\<open>Vec::swap_remove(i)\<close>: the last element takes the place of the removed one.\<close>

definition swap_remove :: "nat \<Rightarrow> 'a list \<Rightarrow> 'a list" where
  "swap_remove i xs = (if i = length xs - 1 then butlast xs else butlast (xs[i := last xs]))"

fun position :: "('a \<Rightarrow> bool) \<Rightarrow> 'a list \<Rightarrow> nat option" where
  "position P [] = None"
| "position P (x # xs) = (if P x then Some 0 else map_option Suc (position P xs))"

definition remove_recovery_candidate :: "RecoveryStats \<Rightarrow> u64 \<Rightarrow> u64 \<Rightarrow> bool \<times> RecoveryStats" where
  "remove_recovery_candidate stats lid eid =
     (case position (\<lambda>c. c = (lid, eid)) (rs_candidates stats) of
        None \<Rightarrow> (False, stats)
      | Some i \<Rightarrow> (True, stats\<lparr> rs_candidates := swap_remove i (rs_candidates stats) \<rparr>))"

text \<open>The exit test of both loops: fewer than four bytes are left.\<close>

definition scan_done :: "bytes \<Rightarrow> nat \<Rightarrow> bool" where
  "scan_done dat pos \<longleftrightarrow> (case usize_checked_add pos 4 of None \<Rightarrow> True | Some e \<Rightarrow> e > length dat)"


section \<open>Phase 1: entry segments\<close>

definition purge_entry_locations_after_torn_segment ::
  "'k db_api \<Rightarrow> recovery_config \<Rightarrow> u64 \<Rightarrow> nat \<Rightarrow> 'k recovery_state \<Rightarrow> unit result \<times> 'k recovery_state" where
  "purge_entry_locations_after_torn_segment D cfg seg valid_len st =
     (case delete_locations_in_segment_tail D (rc_entry_index cfg) (r_ks st) seg (of_nat valid_len) of
        (Inl e, ks) \<Rightarrow> (Inl e, st\<lparr> r_ks := ks \<rparr>)
      | (Inr purged, ks) \<Rightarrow>
          (if purged = [] then (Inr (), st\<lparr> r_ks := ks \<rparr>)
           else (Inr (), st\<lparr> r_ks := ks, r_stats := (r_stats st)\<lparr>
                   rs_entry_locations_purged := rs_entry_locations_purged (r_stats st) + of_nat (length purged),
                   rs_candidates := rs_candidates (r_stats st) @ purged \<rparr> \<rparr>)))"

text \<open>The \<^verbatim>\<open>Ok\<close> arm of the loop: index the record unless the index knows it.\<close>

definition entry_scan_record ::
  "'k db_api \<Rightarrow> recovery_config \<Rightarrow> u64 \<Rightarrow> nat \<Rightarrow> u64 \<Rightarrow> u64 \<Rightarrow> nat \<Rightarrow> 'k recovery_state
   \<Rightarrow> unit result \<times> 'k recovery_state" where
  "entry_scan_record D cfg seg pos lid eid rec_len st =
     (case get_location D (rc_entry_index cfg) (r_ks st) lid eid of
        Inl e \<Rightarrow> (Inl e, st)
      | Inr (Some _) \<Rightarrow> (Inr (), st)
      | Inr None \<Rightarrow>
          (case insert_location D (rc_entry_index cfg) (r_ks st) lid eid seg (of_nat pos) (of_nat rec_len) of
             (Inl e, ks) \<Rightarrow> (Inl e, st\<lparr> r_ks := ks \<rparr>)
           | (Inr _, ks) \<Rightarrow>
               (Inr (), st\<lparr> r_ks := ks, r_stats := (r_stats st)\<lparr>
                  rs_entry_seg_entries := rs_entry_seg_entries (r_stats st) + 1 \<rparr> \<rparr>)))"

text \<open>The \<^verbatim>\<open>Err\<close> arm: count, truncate (a failure is only logged), purge the index.\<close>

definition entry_torn ::
  "'k db_api \<Rightarrow> recovery_config \<Rightarrow> u64 \<Rightarrow> string \<Rightarrow> nat \<Rightarrow> 'k recovery_state
   \<Rightarrow> unit result \<times> 'k recovery_state" where
  "entry_torn D cfg seg path last_valid_pos st =
     purge_entry_locations_after_torn_segment D cfg seg last_valid_pos
       (st\<lparr> r_fs := snd (truncate_file (r_fs st) path last_valid_pos),
            r_stats := (r_stats st)\<lparr> rs_torn_writes := rs_torn_writes (r_stats st) + 1 \<rparr> \<rparr>)"

partial_function (option) entry_scan_loop ::
  "'k db_api \<Rightarrow> (bytes \<Rightarrow> u32) \<Rightarrow> recovery_config \<Rightarrow> u64 \<Rightarrow> string \<Rightarrow> bytes \<Rightarrow> nat \<Rightarrow> nat
   \<Rightarrow> 'k recovery_state \<Rightarrow> (unit result \<times> 'k recovery_state) option" where
  "entry_scan_loop D crc cfg seg path dat pos last_valid_pos st =
     (if scan_done dat pos then Some (Inr (), st)
      else if len_at dat pos = 0 then
        entry_scan_loop D crc cfg seg path dat (align_up pos) last_valid_pos st
      else
        case decode_record crc dat pos of
          Inr (lid, eid, payload, rec_len) \<Rightarrow>
            (case entry_scan_record D cfg seg pos lid eid rec_len st of
               (Inl e, st') \<Rightarrow> Some (Inl e, st')
             | (Inr _, st') \<Rightarrow>
                 entry_scan_loop D crc cfg seg path dat (pos + rec_len) (pos + rec_len) st')
        | Inl _ \<Rightarrow> Some (entry_torn D cfg seg path last_valid_pos st))"

definition recover_entry_segment ::
  "'k db_api \<Rightarrow> (bytes \<Rightarrow> u32) \<Rightarrow> recovery_config \<Rightarrow> u64 \<Rightarrow> string \<Rightarrow> 'k recovery_state
   \<Rightarrow> (unit result \<times> 'k recovery_state) option" where
  "recover_entry_segment D crc cfg seg path st =
     (case fs_read (r_fs st) path of
        Inl _ \<Rightarrow> Some (Inr (), st)
      | Inr dat \<Rightarrow>
          (case registry_get D (rc_entry_registry cfg) (r_ks st) seg of
             Inl e \<Rightarrow> Some (Inl e, st)
           | Inr (Some _) \<Rightarrow> entry_scan_loop D crc cfg seg path dat 0 0 st
           | Inr None \<Rightarrow>
               (case upsert D (rc_entry_registry cfg) (r_ks st)
                       \<lparr> sm_id = seg, sm_kind = EntryKind, sm_status = Local, sm_local_path = Some path,
                         sm_s3_key = None, sm_byte_len = of_nat (length dat), sm_ledger_sizes = [] \<rparr> of
                  (Inl e, ks) \<Rightarrow> Some (Inl e, st\<lparr> r_ks := ks \<rparr>)
                | (Inr _, ks) \<Rightarrow>
                    entry_scan_loop D crc cfg seg path dat 0 0
                      (st\<lparr> r_ks := ks, r_stats := (r_stats st)\<lparr>
                         rs_entry_segs_registered := rs_entry_segs_registered (r_stats st) + 1 \<rparr> \<rparr>))))"

fun recover_entry_files ::
  "'k db_api \<Rightarrow> (bytes \<Rightarrow> u32) \<Rightarrow> recovery_config \<Rightarrow> (u64 \<times> string) list \<Rightarrow> 'k recovery_state
   \<Rightarrow> (unit result \<times> 'k recovery_state) option" where
  "recover_entry_files D crc cfg [] st = Some (Inr (), st)"
| "recover_entry_files D crc cfg ((seg, path) # files) st =
     (case recover_entry_segment D crc cfg seg path st of
        None \<Rightarrow> None
      | Some (Inl e, st') \<Rightarrow> Some (Inl e, st')
      | Some (Inr _, st') \<Rightarrow> recover_entry_files D crc cfg files st')"

definition recover_entry_segments ::
  "'k db_api \<Rightarrow> (bytes \<Rightarrow> u32) \<Rightarrow> recovery_config \<Rightarrow> 'k recovery_state
   \<Rightarrow> (unit result \<times> 'k recovery_state) option" where
  "recover_entry_segments D crc cfg st =
     (if \<not> fs_exists (r_fs st) (rc_entries_dir cfg) then Some (Inr (), st)
      else recover_entry_files D crc cfg (sorted_entry_segment_files (r_fs st) (rc_entries_dir cfg)) st)"


section \<open>Phase 2: write-ahead log\<close>

definition register_wal_if_absent ::
  "'k db_api \<Rightarrow> recovery_config \<Rightarrow> u64 \<Rightarrow> string \<Rightarrow> 'k recovery_state \<Rightarrow> unit result \<times> 'k recovery_state" where
  "register_wal_if_absent D cfg i path st =
     (case registry_get D (rc_wal_registry cfg) (r_ks st) i of
        Inl e \<Rightarrow> (Inl e, st)
      | Inr (Some _) \<Rightarrow> (Inr (), st)
      | Inr None \<Rightarrow>
          (case upsert D (rc_wal_registry cfg) (r_ks st) (wal_meta i Local path (fs_len (r_fs st) path)) of
             (Inl e, ks) \<Rightarrow> (Inl e, st\<lparr> r_ks := ks \<rparr>)
           | (Inr _, ks) \<Rightarrow>
               (Inr (), st\<lparr> r_ks := ks, r_stats := (r_stats st)\<lparr>
                  rs_wal_segs_registered := rs_wal_segs_registered (r_stats st) + 1 \<rparr> \<rparr>)))"

definition purge_wal_locations_after_torn_segment ::
  "'k db_api \<Rightarrow> recovery_config \<Rightarrow> u64 \<Rightarrow> nat \<Rightarrow> 'k recovery_state \<Rightarrow> unit result \<times> 'k recovery_state" where
  "purge_wal_locations_after_torn_segment D cfg seg valid_len st =
     (case delete_locations_in_segment_tail D (rc_wal_index cfg) (r_ks st) seg (of_nat valid_len) of
        (Inl e, ks) \<Rightarrow> (Inl e, st\<lparr> r_ks := ks \<rparr>)
      | (Inr purged, ks) \<Rightarrow>
          (if purged = [] then (Inr (), st\<lparr> r_ks := ks \<rparr>)
           else (Inr (), st\<lparr> r_ks := ks, r_stats := (r_stats st)\<lparr>
                   rs_wal_locations_purged := rs_wal_locations_purged (r_stats st) + of_nat (length purged) \<rparr> \<rparr>)))"

text \<open>After the index steps: refill the cache and strike the entry off the candidates.\<close>

definition repopulate :: "u64 \<Rightarrow> u64 \<Rightarrow> bytes \<Rightarrow> 'k recovery_state \<Rightarrow> 'k recovery_state" where
  "repopulate lid eid payload st =
     (case remove_recovery_candidate (r_stats st) lid eid of
        (found, stats) \<Rightarrow>
          st\<lparr> r_cache := cache_insert (r_cache st) lid eid payload,
              r_stats := (if found then stats\<lparr> rs_wal_entries_recovered := rs_wal_entries_recovered stats + 1 \<rparr>
                          else stats) \<rparr>)"

definition wal_scan_record ::
  "'k db_api \<Rightarrow> recovery_config \<Rightarrow> u64 \<Rightarrow> nat \<Rightarrow> u64 \<Rightarrow> u64 \<Rightarrow> bytes \<Rightarrow> nat \<Rightarrow> 'k recovery_state
   \<Rightarrow> unit result \<times> 'k recovery_state" where
  "wal_scan_record D cfg seg pos lid eid payload rec_len st =
     (case get_location D (rc_entry_index cfg) (r_ks st) lid eid of
        Inl e \<Rightarrow> (Inl e, st)
      | Inr (Some _) \<Rightarrow> (Inr (), st)
      | Inr None \<Rightarrow>
          (case get_location D (rc_wal_index cfg) (r_ks st) lid eid of
             Inl e \<Rightarrow> (Inl e, st)
           | Inr (Some _) \<Rightarrow> (Inr (), repopulate lid eid payload st)
           | Inr None \<Rightarrow>
               (case insert_location D (rc_wal_index cfg) (r_ks st) lid eid seg (of_nat pos) (of_nat rec_len) of
                  (Inl e, ks) \<Rightarrow> (Inl e, st\<lparr> r_ks := ks \<rparr>)
                | (Inr _, ks) \<Rightarrow>
                    (Inr (), repopulate lid eid payload
                       (st\<lparr> r_ks := ks, r_stats := (r_stats st)\<lparr>
                          rs_wal_entries_replayed := rs_wal_entries_replayed (r_stats st) + 1 \<rparr> \<rparr>)))))"

text \<open>The dash of the message is one UTF-8 character, written here as its three bytes.\<close>

definition truncate_error :: "u64 \<Rightarrow> nat \<Rightarrow> string \<Rightarrow> FolioError" where
  "truncate_error seg last_valid_pos e =
     Storage (''crash recovery: cannot truncate torn WAL segment '' @ show_u64 seg @ '' at offset ''
       @ show_nat last_valid_pos @ '': '' @ e @ '' '' @ [CHR 0xE2, CHR 0x80, CHR 0x94]
       @ '' remove or truncate the file manually'')"

definition wal_torn ::
  "'k db_api \<Rightarrow> recovery_config \<Rightarrow> u64 \<Rightarrow> string \<Rightarrow> nat \<Rightarrow> 'k recovery_state
   \<Rightarrow> unit result \<times> 'k recovery_state" where
  "wal_torn D cfg seg path last_valid_pos st =
     (let st1 = st\<lparr> r_stats := (r_stats st)\<lparr> rs_torn_writes := rs_torn_writes (r_stats st) + 1 \<rparr> \<rparr> in
      case truncate_file (r_fs st1) path last_valid_pos of
        (Inl e, f) \<Rightarrow> (Inl (truncate_error seg last_valid_pos e), st1\<lparr> r_fs := f \<rparr>)
      | (Inr _, f) \<Rightarrow> purge_wal_locations_after_torn_segment D cfg seg last_valid_pos (st1\<lparr> r_fs := f \<rparr>))"

text \<open>The loop gives back the last valid position, which becomes the checkpoint.\<close>

partial_function (option) wal_scan_loop ::
  "'k db_api \<Rightarrow> (bytes \<Rightarrow> u32) \<Rightarrow> recovery_config \<Rightarrow> u64 \<Rightarrow> string \<Rightarrow> bytes \<Rightarrow> nat \<Rightarrow> nat
   \<Rightarrow> 'k recovery_state \<Rightarrow> (nat result \<times> 'k recovery_state) option" where
  "wal_scan_loop D crc cfg seg path dat pos last_valid_pos st =
     (if scan_done dat pos then Some (Inr last_valid_pos, st)
      else if len_at dat pos = 0 then
        wal_scan_loop D crc cfg seg path dat (align_up pos) last_valid_pos st
      else
        case decode_record crc dat pos of
          Inr (lid, eid, payload, rec_len) \<Rightarrow>
            (case wal_scan_record D cfg seg pos lid eid payload rec_len st of
               (Inl e, st') \<Rightarrow> Some (Inl e, st')
             | (Inr _, st') \<Rightarrow>
                 wal_scan_loop D crc cfg seg path dat (pos + rec_len) (pos + rec_len) st')
        | Inl _ \<Rightarrow>
            (case wal_torn D cfg seg path last_valid_pos st of
               (Inl e, st') \<Rightarrow> Some (Inl e, st')
             | (Inr _, st') \<Rightarrow> Some (Inr last_valid_pos, st')))"

definition replay_wal_segment ::
  "'k db_api \<Rightarrow> (bytes \<Rightarrow> u32) \<Rightarrow> recovery_config \<Rightarrow> u64 \<Rightarrow> string \<Rightarrow> 'k recovery_state
   \<Rightarrow> (unit result \<times> 'k recovery_state) option" where
  "replay_wal_segment D crc cfg seg path st =
     (case fs_read (r_fs st) path of
        Inl _ \<Rightarrow> Some (Inr (), st)
      | Inr dat \<Rightarrow>
          (case get_checkpoint D (rc_wal_index cfg) (r_ks st) seg of
             Inl e \<Rightarrow> Some (Inl e, st)
           | Inr checkpoint \<Rightarrow>
               (case wal_scan_loop D crc cfg seg path dat (unat checkpoint) (unat checkpoint) st of
                  None \<Rightarrow> None
                | Some (Inl e, st') \<Rightarrow> Some (Inl e, st')
                | Some (Inr last_valid_pos, st') \<Rightarrow>
                    (case set_checkpoint D (rc_wal_index cfg) (r_ks st') seg (of_nat last_valid_pos) of
                       (r, ks) \<Rightarrow> Some (r, st'\<lparr> r_ks := ks \<rparr>)))))"

fun register_wal_files ::
  "'k db_api \<Rightarrow> recovery_config \<Rightarrow> (u64 \<times> string) list \<Rightarrow> 'k recovery_state \<Rightarrow> unit result \<times> 'k recovery_state" where
  "register_wal_files D cfg [] st = (Inr (), st)"
| "register_wal_files D cfg ((i, path) # files) st =
     (case register_wal_if_absent D cfg i path st of
        (Inl e, st') \<Rightarrow> (Inl e, st')
      | (Inr _, st') \<Rightarrow> register_wal_files D cfg files st')"

fun replay_metas ::
  "'k db_api \<Rightarrow> (bytes \<Rightarrow> u32) \<Rightarrow> recovery_config \<Rightarrow> SegmentMeta list \<Rightarrow> 'k recovery_state
   \<Rightarrow> (unit result \<times> 'k recovery_state) option" where
  "replay_metas D crc cfg [] st = Some (Inr (), st)"
| "replay_metas D crc cfg (meta # metas) st =
     (case sm_local_path meta of
        None \<Rightarrow> replay_metas D crc cfg metas st
      | Some path \<Rightarrow>
          (case replay_wal_segment D crc cfg (sm_id meta) path st of
             None \<Rightarrow> None
           | Some (Inl e, st') \<Rightarrow> Some (Inl e, st')
           | Some (Inr _, st') \<Rightarrow> replay_metas D crc cfg metas st'))"

definition recover_wal ::
  "'k db_api \<Rightarrow> (bytes \<Rightarrow> u32) \<Rightarrow> recovery_config \<Rightarrow> 'k recovery_state
   \<Rightarrow> (unit result \<times> 'k recovery_state) option" where
  "recover_wal D crc cfg st =
     (let d = rc_wal_dir cfg; active = active_seg_path d in
      case (if fs_exists (r_fs st) d
            then register_wal_files D cfg (sorted_wal_segment_files (r_fs st) d) st else (Inr (), st)) of
        (Inl e, st1) \<Rightarrow> Some (Inl e, st1)
      | (Inr _, st1) \<Rightarrow>
          (case (if fs_exists (r_fs st1) active
                 then register_wal_if_absent D cfg (scan_next_segment_id (r_fs st1) d) active st1
                 else (Inr (), st1)) of
             (Inl e, st2) \<Rightarrow> Some (Inl e, st2)
           | (Inr _, st2) \<Rightarrow>
               (case list_by_status D (rc_wal_registry cfg) (r_ks st2) Local of
                  Inl e \<Rightarrow> Some (Inl e, st2)
                | Inr local \<Rightarrow>
                    (case list_by_status D (rc_wal_registry cfg) (r_ks st2) Active of
                       Inl e \<Rightarrow> Some (Inl e, st2)
                     | Inr act \<Rightarrow> replay_metas D crc cfg (sort_segment_metas (local @ act)) st2))))"

definition recover ::
  "'k db_api \<Rightarrow> (bytes \<Rightarrow> u32) \<Rightarrow> recovery_config \<Rightarrow> 'k recovery_state
   \<Rightarrow> (RecoveryStats result \<times> 'k recovery_state) option" where
  "recover D crc cfg st =
     (case recover_entry_segments D crc cfg (st\<lparr> r_stats := RecoveryStats_default \<rparr>) of
        None \<Rightarrow> None
      | Some (Inl e, st1) \<Rightarrow> Some (Inl e, st1)
      | Some (Inr _, st1) \<Rightarrow>
          (case recover_wal D crc cfg st1 of
             None \<Rightarrow> None
           | Some (Inl e, st2) \<Rightarrow> Some (Inl e, st2)
           | Some (Inr _, st2) \<Rightarrow> Some (Inr (r_stats st2), st2)))"


section \<open>What a scan visits\<close>

text \<open>
  Both loops visit the same records of a file. \<open>scan\<close> is that traversal on its own: the visited
  records with their positions, whether it stopped at a torn record, and the last valid position.
\<close>

datatype scan_end = Clean | Torn

type_synonym scan_rec = "nat \<times> u64 \<times> u64 \<times> bytes \<times> nat"

definition scan_cons :: "scan_rec \<Rightarrow> scan_rec list \<times> scan_end \<times> nat \<Rightarrow> scan_rec list \<times> scan_end \<times> nat" where
  "scan_cons x r = (x # fst r, snd r)"

partial_function (option) scan ::
  "(bytes \<Rightarrow> u32) \<Rightarrow> bytes \<Rightarrow> nat \<Rightarrow> nat \<Rightarrow> (scan_rec list \<times> scan_end \<times> nat) option" where
  "scan crc dat pos last_valid_pos =
     (if scan_done dat pos then Some ([], Clean, last_valid_pos)
      else if len_at dat pos = 0 then scan crc dat (align_up pos) last_valid_pos
      else
        case decode_record crc dat pos of
          Inr (lid, eid, payload, rec_len) \<Rightarrow>
            Option.bind (scan crc dat (pos + rec_len) (pos + rec_len))
              (\<lambda>r. Some (scan_cons (pos, lid, eid, payload, rec_len) r))
        | Inl _ \<Rightarrow> Some ([], Torn, last_valid_pos))"

text \<open>The two loops as folds over the visited records.\<close>

fun entry_apply ::
  "'k db_api \<Rightarrow> recovery_config \<Rightarrow> u64 \<Rightarrow> string \<Rightarrow> scan_rec list \<Rightarrow> scan_end \<Rightarrow> nat \<Rightarrow> 'k recovery_state
   \<Rightarrow> unit result \<times> 'k recovery_state" where
  "entry_apply D cfg seg path [] Clean lvp st = (Inr (), st)"
| "entry_apply D cfg seg path [] Torn lvp st = entry_torn D cfg seg path lvp st"
| "entry_apply D cfg seg path ((pos, lid, eid, payload, rec_len) # recs) e lvp st =
     (case entry_scan_record D cfg seg pos lid eid rec_len st of
        (Inl err, st') \<Rightarrow> (Inl err, st')
      | (Inr _, st') \<Rightarrow> entry_apply D cfg seg path recs e lvp st')"

fun wal_apply ::
  "'k db_api \<Rightarrow> recovery_config \<Rightarrow> u64 \<Rightarrow> string \<Rightarrow> scan_rec list \<Rightarrow> scan_end \<Rightarrow> nat \<Rightarrow> 'k recovery_state
   \<Rightarrow> nat result \<times> 'k recovery_state" where
  "wal_apply D cfg seg path [] Clean lvp st = (Inr lvp, st)"
| "wal_apply D cfg seg path [] Torn lvp st =
     (case wal_torn D cfg seg path lvp st of
        (Inl e, st') \<Rightarrow> (Inl e, st') | (Inr _, st') \<Rightarrow> (Inr lvp, st'))"
| "wal_apply D cfg seg path ((pos, lid, eid, payload, rec_len) # recs) e lvp st =
     (case wal_scan_record D cfg seg pos lid eid payload rec_len st of
        (Inl err, st') \<Rightarrow> (Inl err, st')
      | (Inr _, st') \<Rightarrow> wal_apply D cfg seg path recs e lvp st')"

lemma scan_induct [consumes 1, case_names stop pad torn found]:
  assumes "scan crc dat pos lvp = Some r"
    and stop: "\<And>pos lvp. scan_done dat pos \<Longrightarrow> P pos lvp ([], Clean, lvp)"
    and pad: "\<And>pos lvp r. \<not> scan_done dat pos \<Longrightarrow> len_at dat pos = 0 \<Longrightarrow> P (align_up pos) lvp r \<Longrightarrow> P pos lvp r"
    and torn: "\<And>pos lvp err. \<not> scan_done dat pos \<Longrightarrow> len_at dat pos \<noteq> 0 \<Longrightarrow> decode_record crc dat pos = Inl err \<Longrightarrow>
      P pos lvp ([], Torn, lvp)"
    and found: "\<And>pos lvp l e p n r. \<not> scan_done dat pos \<Longrightarrow> len_at dat pos \<noteq> 0 \<Longrightarrow>
      decode_record crc dat pos = Inr (l, e, p, n) \<Longrightarrow> P (pos + n) (pos + n) r \<Longrightarrow> P pos lvp (scan_cons (pos, l, e, p, n) r)"
  shows "P pos lvp r"
proof -
  let ?Q = "\<lambda>crc' dat' pos lvp r. crc' = crc \<longrightarrow> dat' = dat \<longrightarrow> P pos lvp r"
  have "?Q crc dat pos lvp r"
  proof (rule scan.raw_induct[of ?Q, OF _ assms(1)], intro impI)
    fix self crc' dat' pos lvp r
    assume IH: "\<And>crc' dat' pos lvp r. self crc' dat' pos lvp = Some r \<Longrightarrow> ?Q crc' dat' pos lvp r"
      and body: "(if scan_done dat' pos then Some ([], Clean, lvp)
          else if len_at dat' pos = 0 then self crc' dat' (align_up pos) lvp
          else case decode_record crc' dat' pos of
                 Inl x \<Rightarrow> Some ([], Torn, lvp)
               | Inr (lid, eid, payload, rec_len) \<Rightarrow>
                   Option.bind (self crc' dat' (pos + rec_len) (pos + rec_len))
                     (\<lambda>r. Some (scan_cons (pos, lid, eid, payload, rec_len) r))) = Some r"
      and eq: "crc' = crc" "dat' = dat"
    show "P pos lvp r"
    proof (cases "scan_done dat pos \<or> len_at dat pos = 0")
      case True
      with body IH stop pad eq show ?thesis by (auto split: if_splits)
    next
      case False
      show ?thesis
      proof (cases "decode_record crc dat pos")
        case (Inl err)
        with body False torn eq show ?thesis by auto
      next
        case (Inr d)
        obtain l e p n where d: "d = (l, e, p, n)" by (metis prod_cases4)
        with body False Inr eq obtain r1 where "self crc dat (pos + n) (pos + n) = Some r1"
          and "r = scan_cons (pos, l, e, p, n) r1"
          by (auto split: Option.bind_splits)
        with IH found False Inr d show ?thesis by auto
      qed
    qed
  qed
  then show ?thesis by simp
qed

lemma entry_scan_loop_fold:
  assumes "scan crc dat pos lvp = Some r"
  shows "entry_scan_loop D crc cfg seg path dat pos lvp st
    = Some (entry_apply D cfg seg path (fst r) (fst (snd r)) (snd (snd r)) st)"
  using assms
proof (induction arbitrary: st rule: scan_induct)
  case (found pos lvp l e p n r)
  then show ?case
    by (subst entry_scan_loop.simps) (auto simp: scan_cons_def split: prod.splits sum.splits)
qed (subst entry_scan_loop.simps, simp)+

lemma wal_scan_loop_fold:
  assumes "scan crc dat pos lvp = Some r"
  shows "wal_scan_loop D crc cfg seg path dat pos lvp st
    = Some (wal_apply D cfg seg path (fst r) (fst (snd r)) (snd (snd r)) st)"
  using assms
proof (induction arbitrary: st rule: scan_induct)
  case (found pos lvp l e p n r)
  then show ?case
    by (subst wal_scan_loop.simps) (auto simp: scan_cons_def split: prod.splits sum.splits)
next
  case (torn pos lvp err)
  then show ?case by (subst wal_scan_loop.simps) (auto split: prod.splits sum.splits)
qed (subst wal_scan_loop.simps, simp)+


section \<open>Scanning the image of a log\<close>

text \<open>The records of a batch and of a sequence of padded batches, with their positions.\<close>

fun batch_recs :: "nat \<Rightarrow> (u64 \<times> u64 \<times> bytes) list \<Rightarrow> scan_rec list" where
  "batch_recs pos [] = []"
| "batch_recs pos ((l, e, p) # es) = (pos, l, e, p, 24 + length p) # batch_recs (pos + (24 + length p)) es"

fun image_recs :: "(bytes \<Rightarrow> u32) \<Rightarrow> nat \<Rightarrow> (u64 \<times> u64 \<times> bytes) list list \<Rightarrow> scan_rec list" where
  "image_recs crc pos [] = []"
| "image_recs crc pos (es # bss) =
     batch_recs pos es @ image_recs crc (pos + length (padded_batch crc es)) bss"

fun image_lvp :: "(bytes \<Rightarrow> u32) \<Rightarrow> nat \<Rightarrow> nat \<Rightarrow> (u64 \<times> u64 \<times> bytes) list list \<Rightarrow> nat" where
  "image_lvp crc pos lvp [] = lvp"
| "image_lvp crc pos lvp (es # bss) =
     image_lvp crc (pos + length (padded_batch crc es))
       (if es = [] then lvp else pos + length (batch_bytes crc es)) bss"

definition scan_app :: "scan_rec list \<Rightarrow> scan_rec list \<times> scan_end \<times> nat \<Rightarrow> scan_rec list \<times> scan_end \<times> nat" where
  "scan_app xs r = (xs @ fst r, snd r)"

text \<open>Payloads as the node writes them (never empty) and below the 32-bit limit.\<close>

definition payloads_ok :: "(u64 \<times> u64 \<times> bytes) list \<Rightarrow> bool" where
  "payloads_ok es \<longleftrightarrow> (\<forall>(l, e, p) \<in> set es. p \<noteq> [] \<and> 24 + length p < 2 ^ 32)"

text \<open>The padding of the batch is not one, two or three bytes long.\<close>

definition pad_ok :: "(bytes \<Rightarrow> u32) \<Rightarrow> (u64 \<times> u64 \<times> bytes) list \<Rightarrow> bool" where
  "pad_ok crc es \<longleftrightarrow> length (batch_bytes crc es) mod 4096 \<notin> {4093, 4094, 4095}"

lemma scan_app_simps [simp]:
  "scan_app [] r = r" "scan_app xs (scan_app ys r) = scan_app (xs @ ys) r"
  "scan_cons x (scan_app xs r) = scan_app (x # xs) r"
  by (simp_all add: scan_app_def scan_cons_def)

lemma len_at_record:
  "len_at (pre @ encode_record crc l e p @ post) (length pre) = of_nat (length p)"
proof -
  have "subrange (length pre) (length pre + 4) (pre @ encode_record crc l e p @ post)
      = u32_to_le_bytes (of_nat (length p))"
    by (simp add: subrange_def encode_record_def record_header_def)
  then show ?thesis by simp
qed

lemma len_at_zeros:
  assumes "4 \<le> k"
  shows "len_at (pre @ replicate k 0 @ post) (length pre) = 0"
proof -
  have "subrange (length pre) (length pre + 4) (pre @ replicate k 0 @ post) = replicate 4 0"
    using assms by (simp add: subrange_def min_def)
  then have "len_at (pre @ replicate k 0 @ post) (length pre) = u32_from_le_bytes (replicate 4 0)" by simp
  also have "\<dots> = 0" by (simp add: u32_from_le_bytes_def numeral_eq_Suc)
  finally show ?thesis .
qed

lemma not_done: "pos + 4 \<le> length dat \<Longrightarrow> length dat < 2 ^ 64 \<Longrightarrow> \<not> scan_done dat pos"
  by (simp add: scan_done_def usize_checked_add_def)

lemma scan_found:
  assumes "length (pre @ encode_record crc l e p @ post) < 2 ^ 64" and "p \<noteq> []" and "24 + length p < 2 ^ 32"
  shows "scan crc (pre @ encode_record crc l e p @ post) (length pre) lvp
    = Option.bind (scan crc (pre @ encode_record crc l e p @ post) (length pre + (24 + length p)) (length pre + (24 + length p)))
        (\<lambda>r. Some (scan_cons (length pre, l, e, p, 24 + length p) r))"
proof -
  let ?d = "pre @ encode_record crc l e p @ post"
  have "unat (of_nat (length p) :: u32) = length p" using assms(3) by (simp add: unat_of_nat)
  then have "len_at ?d (length pre) \<noteq> 0" using assms(2) by (auto simp: len_at_record)
  moreover have "\<not> scan_done ?d (length pre)" using assms(1) by (intro not_done) simp_all
  moreover have "decode_record crc ?d (length pre) = Inr (l, e, p, 24 + length p)"
    using assms by (intro decode_record_at) simp_all
  ultimately show ?thesis by (subst scan.simps) simp
qed

lemma scan_records:
  assumes "dat = pre @ batch_bytes crc es @ post" and "length dat < 2 ^ 64" and "payloads_ok es"
  shows "scan crc dat (length pre) lvp
    = Option.bind (scan crc dat (length pre + length (batch_bytes crc es))
          (if es = [] then lvp else length pre + length (batch_bytes crc es)))
        (\<lambda>r. Some (scan_app (batch_recs (length pre) es) r))"
  using assms
proof (induction es arbitrary: pre lvp)
  case Nil
  then show ?case by simp
next
  case (Cons x es)
  obtain l e p where x: "x = (l, e, p)" by (cases x)
  let ?pre = "pre @ encode_record crc l e p"
  have dat: "dat = pre @ encode_record crc l e p @ (batch_bytes crc es @ post)"
    and dat': "dat = ?pre @ batch_bytes crc es @ post" using Cons.prems(1) by (simp_all add: x)
  have p: "p \<noteq> []" "24 + length p < 2 ^ 32" and ok: "payloads_ok es"
    using Cons.prems(3) by (auto simp: x payloads_ok_def)
  have "scan crc dat (length pre) lvp
      = Option.bind (scan crc dat (length pre + (24 + length p)) (length pre + (24 + length p)))
          (\<lambda>r. Some (scan_cons (length pre, l, e, p, 24 + length p) r))"
    using scan_found[of pre crc l e p "batch_bytes crc es @ post" lvp] Cons.prems(2) p by (simp add: dat)
  also have "scan crc dat (length pre + (24 + length p)) (length pre + (24 + length p))
      = Option.bind (scan crc dat (length ?pre + length (batch_bytes crc es)) (length ?pre + length (batch_bytes crc es)))
          (\<lambda>r. Some (scan_app (batch_recs (length ?pre) es) r))"
    using Cons.IH[OF dat' Cons.prems(2) ok, of "length ?pre"] by (cases "es = []") simp_all
  finally show ?case by (simp add: x bind_assoc comp_def add.assoc)
qed

text \<open>At the end of a batch the scan steps over the padding to the next aligned position.\<close>

lemma pad_length:
  assumes "n + 4095 < 2 ^ 64" and "n mod 4096 \<notin> {4093, 4094, 4095}"
  shows "align_up n - n = 0 \<or> 4 \<le> align_up n - n"
proof -
  obtain q r where n: "n = 4096 * q + r" and r: "r = n mod 4096" "r < 4096"
    by (metis mod_less_divisor mult_div_mod_eq zero_less_numeral)
  have "(4096 * q + r + 4095) div 4096 = q + (r + 4095) div 4096"
    using div_mult_self2[of 4096 "r + 4095" q] by (simp add: algebra_simps)
  then have a: "align_up n = 4096 * (q + (r + 4095) div 4096)"
    using assms(1) by (simp add: align_up_eq n mult.commute)
  show ?thesis
  proof (cases "r = 0")
    case True
    with a n show ?thesis by simp
  next
    case False
    with r have "(r + 4095) div 4096 = 1" by (simp add: div_nat_eqI)
    moreover have "r \<le> 4092" using assms(2) r by auto
    ultimately show ?thesis using a n by simp
  qed
qed

lemma scan_padding:
  assumes "dat = pre @ replicate k 0 @ post" and "length dat < 2 ^ 64" and "k = 0 \<or> 4 \<le> k"
    and "align_up (length pre) = length pre + k"
  shows "scan crc dat (length pre) lvp = scan crc dat (length pre + k) lvp"
proof (cases "k = 0")
  case False
  then have "\<not> scan_done dat (length pre)" using assms(1-3) by (intro not_done) auto
  moreover have "len_at dat (length pre) = 0" using assms(1,3) False by (simp add: len_at_zeros)
  ultimately show ?thesis using assms(4) by (subst scan.simps) simp
qed simp

lemma scan_batch:
  assumes dat: "dat = pre @ padded_batch crc es @ post" and small: "length dat < 2 ^ 64"
    and fit: "batch_fits crc (length pre) es"
    and ok: "payloads_ok es" and pad: "pad_ok crc es" and al: "ALIGN dvd length pre"
  shows "scan crc dat (length pre) lvp
    = Option.bind (scan crc dat (length pre + length (padded_batch crc es))
          (if es = [] then lvp else length pre + length (batch_bytes crc es)))
        (\<lambda>r. Some (scan_app (batch_recs (length pre) es) r))"
proof -
  let ?B = "batch_bytes crc es" and ?P = "padded_batch crc es"
  define k where "k = align_up (length ?B) - length ?B"
  have n: "length pre + length ?B + 4095 < 2 ^ 64" and n': "length ?B + 4095 < 2 ^ 64"
    using fit by (simp_all add: batch_fits_def)
  have P: "?P = ?B @ replicate k 0" using padded_batch_eq(1)[OF fit] by (simp add: k_def)
  have k: "align_up (length ?B) = length ?B + k" using align_up_bounds[OF n'] by (simp add: k_def)
  have "k = 0 \<or> 4 \<le> k" using pad_length[OF n'] pad by (simp add: k_def pad_ok_def)
  moreover have "align_up (length (pre @ ?B)) = length (pre @ ?B) + k"
    using align_up_add[OF al n] k by simp
  ultimately have "scan crc dat (length (pre @ ?B)) v = scan crc dat (length (pre @ ?B) + k) v" for v
    using dat small P by (intro scan_padding[of dat "pre @ ?B" k post]) simp_all
  then have "scan crc dat (length pre + length ?B) v = scan crc dat (length pre + length ?P) v" for v
    by (simp add: P add.assoc)
  then show ?thesis
    using scan_records[of dat pre crc es "replicate k 0 @ post" lvp] dat small ok P by simp
qed

definition scannable :: "(bytes \<Rightarrow> u32) \<Rightarrow> (u64 \<times> u64 \<times> bytes) list \<Rightarrow> bool" where
  "scannable crc es \<longleftrightarrow> payloads_ok es \<and> pad_ok crc es"

abbreviation images_fit :: "(bytes \<Rightarrow> u32) \<Rightarrow> nat \<Rightarrow> (u64 \<times> u64 \<times> bytes) list list \<Rightarrow> bool" where
  "images_fit crc \<equiv> log_fits (scannable crc) crc"

text \<open>
  The traversal of a log: from the first aligned position the scan finds every record of every
  batch, in order, and continues where the image ends.
\<close>

lemma scan_image:
  assumes "dat = pre @ wal_image crc bss @ post" and "length dat < 2 ^ 64"
    and "images_fit crc (length pre) bss" and "ALIGN dvd length pre"
  shows "scan crc dat (length pre) lvp
    = Option.bind (scan crc dat (length pre + length (wal_image crc bss)) (image_lvp crc (length pre) lvp bss))
        (\<lambda>r. Some (scan_app (image_recs crc (length pre) bss) r))"
  using assms
proof (induction bss arbitrary: pre lvp)
  case Nil
  then show ?case by simp
next
  case (Cons es bss)
  let ?pre = "pre @ padded_batch crc es"
  have dat: "dat = pre @ padded_batch crc es @ (wal_image crc bss @ post)"
    and dat': "dat = ?pre @ wal_image crc bss @ post" using Cons.prems(1) by simp_all
  from Cons.prems(3) have fit: "batch_fits crc (length pre) es" and "scannable crc es"
    and rest: "images_fit crc (length ?pre) bss" by simp_all
  from this(2) have ok: "payloads_ok es" "pad_ok crc es" by (simp_all add: scannable_def)
  have al: "ALIGN dvd length ?pre" using Cons.prems(4) padded_batch_eq(5)[OF fit] by simp
  note b = scan_batch[OF dat Cons.prems(2) fit ok Cons.prems(4), of lvp]
  note i = Cons.IH[OF dat' Cons.prems(2) rest al]
  show ?case unfolding b using i by (simp add: add.assoc)
qed

text \<open>
  A batch whose write was cut short: the scan ends, and it has found exactly a prefix of the
  batch's records.
\<close>

lemma scan_cut_padding:
  assumes dat: "dat = pre @ replicate m 0" and "m \<le> z" and "length dat + 4096 < 2 ^ 64" and al: "align_up (length pre) = length pre + z"
  shows "\<exists>e v. scan crc dat (length pre) lvp = Some ([], e, v)"
proof (cases "scan_done dat (length pre)")
  case True
  then show ?thesis by (subst scan.simps) auto
next
  case False
  with assms(3) have 4: "4 \<le> m" by (auto simp: dat scan_done_def usize_checked_add_def split: if_splits)
  have "length dat < length pre + z + 4" using assms(2) by (simp add: dat)
  then have "scan_done dat (length pre + z)" by (auto simp: scan_done_def usize_checked_add_def)
  moreover have "len_at dat (length pre) = 0" using len_at_zeros[OF 4, of pre "[]"] dat by simp
  ultimately have "scan crc dat (length pre) lvp = Some ([], Clean, lvp)"
    using False al by (subst scan.simps, subst scan.simps) simp
  then show ?thesis by blast
qed

lemma scan_cut_record:
  assumes dat: "dat = pre @ take k (encode_record crc l e p)" and k: "k < 24 + length p" and p: "p \<noteq> []" "24 + length p < 2 ^ 32"
    and "length dat + 4096 < 2 ^ 64"
  shows "\<exists>ed v. scan crc dat (length pre) lvp = Some ([], ed, v)"
proof (cases "scan_done dat (length pre)")
  case True
  then show ?thesis by (subst scan.simps) auto
next
  case False
  then have "4 \<le> k" using dat assms(5) by (auto simp: scan_done_def usize_checked_add_def split: if_splits)
  then have "subrange (length pre) (length pre + 4) dat = u32_to_le_bytes (of_nat (length p))"
    by (simp add: dat subrange_def encode_record_def record_header_def min_def)
  moreover have "unat (of_nat (length p) :: u32) = length p" using p by (simp add: unat_of_nat)
  ultimately have "len_at dat (length pre) \<noteq> 0" using p by auto
  moreover have "isl (decode_record crc dat (length pre))"
    using decode_record_truncated[of k p crc pre l e] k p by (simp add: dat)
  ultimately have "scan crc dat (length pre) lvp = Some ([], Torn, lvp)"
    using False by (subst scan.simps) (auto simp: isl_def)
  then show ?thesis by blast
qed

lemma scan_cut_records:
  assumes "dat = pre @ take k (batch_bytes crc es @ replicate z 0)" and "length dat + 4096 < 2 ^ 64"
    and "payloads_ok es" and "align_up (length pre + length (batch_bytes crc es)) = length pre + length (batch_bytes crc es) + z"
  shows "\<exists>n e v. scan crc dat (length pre) lvp = Some (batch_recs (length pre) (take n es), e, v)"
  using assms
proof (induction es arbitrary: pre k lvp)
  case Nil
  then have "\<exists>e v. scan crc dat (length pre) lvp = Some ([], e, v)" by (intro scan_cut_padding[of dat pre "min k z" z]) simp_all
  then show ?case by (intro exI[of _ 0]) simp
next
  case (Cons x es)
  obtain l e p where x: "x = (l, e, p)" by (cases x)
  let ?r = "encode_record crc l e p"
  have p: "p \<noteq> []" "24 + length p < 2 ^ 32" and ok: "payloads_ok es"
    using Cons.prems(3) by (auto simp: x payloads_ok_def)
  show ?case
  proof (cases "24 + length p \<le> k")
    case True
    let ?k = "k - (24 + length p)"
    have dat: "dat = (pre @ ?r) @ take ?k (batch_bytes crc es @ replicate z 0)"
      using Cons.prems(1) True by (simp add: x)
    have "align_up (length (pre @ ?r) + length (batch_bytes crc es)) = length (pre @ ?r) + length (batch_bytes crc es) + z"
      using Cons.prems(4) by (simp add: x add.assoc)
    from Cons.IH[OF dat Cons.prems(2) ok this, of "length (pre @ ?r)"] obtain n ed v where
      r: "scan crc dat (length pre + (24 + length p)) (length pre + (24 + length p))
        = Some (batch_recs (length pre + (24 + length p)) (take n es), ed, v)" by auto
    have "scan crc dat (length pre) lvp = Some (scan_cons (length pre, l, e, p, 24 + length p)
        (batch_recs (length pre + (24 + length p)) (take n es), ed, v))"
      using scan_found[of pre crc l e p "take ?k (batch_bytes crc es @ replicate z 0)" lvp] Cons.prems(2) p r
      by (simp add: dat)
    then show ?thesis by (intro exI[of _ "Suc n"]) (simp add: x scan_cons_def)
  next
    case False
    then have "\<exists>ed v. scan crc dat (length pre) lvp = Some ([], ed, v)"
      using Cons.prems(1,2) p by (intro scan_cut_record[of dat pre k crc l e p]) (simp_all add: x)
    then show ?thesis by (intro exI[of _ 0]) simp
  qed
qed

lemma scan_cut_batch:
  assumes "dat = pre @ take k (padded_batch crc es)" and fit: "batch_fits crc (length pre) es"
    and ok: "payloads_ok es" and al: "ALIGN dvd length pre"
  shows "\<exists>n e v. scan crc dat (length pre) lvp = Some (batch_recs (length pre) (take n es), e, v)"
proof -
  let ?B = "batch_bytes crc es"
  define z where "z = align_up (length ?B) - length ?B"
  have n: "length pre + length ?B + 4095 < 2 ^ 64" and n': "length ?B + 4095 < 2 ^ 64"
    using fit by (simp_all add: batch_fits_def)
  note P = padded_batch_eq[OF fit]
  have "align_up (length pre + length ?B) = length pre + length ?B + z"
    using align_up_add[OF al n] align_up_bounds[OF n'] by (simp add: z_def)
  moreover have "length dat + 4096 < 2 ^ 64"
    using fit P(2) by (auto simp: assms(1) batch_fits_def min_def)
  ultimately show ?thesis
    using assms(1) ok P(1) by (intro scan_cut_records[of dat pre k crc es z]) (simp_all add: z_def)
qed

text \<open>A log that ends in an interrupted write: everything before it is found.\<close>

lemma scan_torn_log:
  assumes dat: "dat = wal_image crc bss @ take k (padded_batch crc es)"
    and fit: "images_fit crc 0 bss" and fit': "batch_fits crc (length (wal_image crc bss)) es"
    and ok: "payloads_ok es"
  shows "\<exists>n e v. scan crc dat 0 0
    = Some (image_recs crc 0 bss @ batch_recs (length (wal_image crc bss)) (take n es), e, v)"
proof -
  have al: "images_fit crc pos bss \<Longrightarrow> ALIGN dvd pos \<Longrightarrow> ALIGN dvd pos + length (wal_image crc bss)" for pos
  proof (induction bss arbitrary: pos)
    case (Cons es bss)
    then have "ALIGN dvd pos + length (padded_batch crc es)"
      using padded_batch_eq(5)[of crc pos es] by simp
    from Cons.IH[OF _ this] Cons.prems show ?case by (simp add: add.assoc)
  qed simp
  have al0: "ALIGN dvd length (wal_image crc bss)" using al[of 0] fit by simp
  have "length dat < 2 ^ 64"
    using fit' padded_batch_eq(3)[OF fit'] by (simp add: dat)
  from scan_image[of dat "[]" crc bss "take k (padded_batch crc es)" 0] this fit dat
  have "scan crc dat 0 0 = Option.bind (scan crc dat (length (wal_image crc bss)) (image_lvp crc 0 0 bss))
      (\<lambda>r. Some (scan_app (image_recs crc 0 bss) r))" by simp
  moreover obtain n e v where "scan crc dat (length (wal_image crc bss)) (image_lvp crc 0 0 bss)
      = Some (batch_recs (length (wal_image crc bss)) (take n es), e, v)"
    using scan_cut_batch[OF dat fit' ok al0] by blast
  ultimately show ?thesis by (auto simp: scan_app_def)
qed


section \<open>Replaying a log\<close>

definition recovery_partitions :: "recovery_config \<Rightarrow> bool" where
  "recovery_partitions cfg \<longleftrightarrow>
     ix_locations (rc_entry_index cfg) \<notin> {ix_locations (rc_wal_index cfg), ix_checkpoints (rc_wal_index cfg),
        rc_wal_registry cfg, rc_entry_registry cfg}"

definition r_entry_locs ::
  "'k db_api \<Rightarrow> ('k \<Rightarrow> string \<Rightarrow> bytes \<Rightarrow> bytes option) \<Rightarrow> recovery_config \<Rightarrow> 'k recovery_state \<Rightarrow> entry_key \<Rightarrow> IndexValue option" where
  "r_entry_locs D kv cfg st = loc_map D (kv (r_ks st) (ix_locations (rc_entry_index cfg)))"

definition rec_key :: "scan_rec \<Rightarrow> entry_key" where
  "rec_key x = (case x of (pos, l, e, p, n) \<Rightarrow> (l, e))"

lemma rec_key_simp [simp]: "rec_key (pos, l, e, p, n) = (l, e)"
  by (simp add: rec_key_def)

text \<open>After recovery, an entry is found: by the entry index, or in the cache with its payload.\<close>

definition recovered ::
  "(entry_key \<Rightarrow> IndexValue option) \<Rightarrow> EntrySegmentCache \<Rightarrow> u64 \<Rightarrow> u64 \<Rightarrow> bytes \<Rightarrow> bool" where
  "recovered locs cache l e p \<longleftrightarrow> locs (l, e) \<noteq> None \<or> cache_get cache l e = Some p"

lemma repopulate_sel [simp]:
  "r_ks (repopulate l e p st) = r_ks st" "r_fs (repopulate l e p st) = r_fs st"
  "r_cache (repopulate l e p st) = cache_insert (r_cache st) l e p"
  by (simp_all add: repopulate_def split: prod.splits)

definition rec_entry :: "scan_rec \<Rightarrow> u64 \<times> u64 \<times> bytes" where
  "rec_entry x = (case x of (pos, l, e, p, n) \<Rightarrow> (l, e, p))"

lemma map_rec_entry:
  "map rec_entry (batch_recs pos es) = es" "map rec_entry (image_recs crc pos bss) = concat bss"
proof -
  show b: "map rec_entry (batch_recs pos es) = es" for pos es
    by (induction es arbitrary: pos) (auto simp: rec_entry_def)
  show "map rec_entry (image_recs crc pos bss) = concat bss"
    by (induction bss arbitrary: pos) (auto simp: b)
qed

lemma rec_key_entry: "rec_key x = (case rec_entry x of (l, e, p) \<Rightarrow> (l, e))"
  by (cases x) (simp add: rec_entry_def)

lemma map_rec_key: "map rec_key xs = map (\<lambda>(l, e, p). (l, e)) (map rec_entry xs)"
  by (simp add: rec_key_entry)

context db_laws
begin

lemma set_checkpoint_frame:
  "set_checkpoint D idx ks seg off = (r, ks') \<Longrightarrow> q \<noteq> ix_checkpoints idx \<Longrightarrow> kv ks' q = kv ks q"
proof -
  assume s: "set_checkpoint D idx ks seg off = (r, ks')" and q: "q \<noteq> ix_checkpoints idx"
  then obtain r' where i: "fj_insert D ks (ix_checkpoints idx) (u64_to_be_bytes seg) (u64_to_be_bytes off) = (r', ks')"
    by (auto simp: set_checkpoint_def split: prod.splits)
  show ?thesis using i q law_insert[of ks "ix_checkpoints idx"] law_insert_err[of ks "ix_checkpoints idx"]
    by (cases r') auto
qed

lemma insert_location_other:
  assumes "q \<noteq> ix_locations idx"
  shows "kv (snd (insert_location D idx ks l e seg off len)) q = kv ks q"
proof (cases "insert_location D idx ks l e seg off len")
  case (Pair r ks')
  with assms show ?thesis
    by (cases r) (simp_all add: insert_location_ok(2)[of idx ks l e seg off len] insert_location_err[of idx ks l e seg off len])
qed

lemma delete_all_frame:
  assumes "q \<noteq> ix_locations idx"
  shows "kv (snd (delete_all D idx ks keys)) q = kv ks q"
proof (induction keys arbitrary: ks)
  case (Cons key keys)
  obtain l e where key: "key = (l, e)" by force
  obtain r ks1 where d: "delete_location D idx ks l e = (r, ks1)" by force
  have "kv ks1 q = kv ks q" using delete_location_frame[OF assms, of ks l e] by (simp add: d)
  with Cons.IH[of ks1] show ?case by (cases r) (simp_all add: key d)
qed simp

lemma delete_tail_frame:
  assumes "q \<noteq> ix_locations idx"
  shows "kv (snd (delete_locations_in_segment_tail D idx ks seg off)) q = kv ks q"
  using delete_all_frame[OF assms, of ks]
  by (auto simp: delete_locations_in_segment_tail_def split: sum.splits prod.splits) (metis snd_conv)+

lemma wal_torn_frame:
  assumes "wal_torn D cfg seg path lvp st = (r, st')" and "recovery_partitions cfg"
  shows "r_entry_locs D kv cfg st' = r_entry_locs D kv cfg st" and "r_cache st' = r_cache st"
proof -
  let ?p = "\<lambda>ks. snd (delete_locations_in_segment_tail D (rc_wal_index cfg) ks seg (of_nat lvp))"
  have "r_ks st' = r_ks st \<or> r_ks st' = ?p (r_ks st)"
    using assms(1)
    by (auto simp: wal_torn_def purge_wal_locations_after_torn_segment_def Let_def
        split: sum.splits prod.splits if_splits)
  then show "r_entry_locs D kv cfg st' = r_entry_locs D kv cfg st"
    using delete_tail_frame assms(2) by (auto simp: r_entry_locs_def recovery_partitions_def)
  show "r_cache st' = r_cache st"
    using assms(1)
    by (auto simp: wal_torn_def purge_wal_locations_after_torn_segment_def Let_def
        split: sum.splits prod.splits if_splits)
qed

lemma wal_scan_record_ok:
  assumes r: "wal_scan_record D cfg seg pos l e p n st = (Inr u, st')" and dp: "recovery_partitions cfg"
    and warm: "ec_warm (r_cache st) = []"
  shows "r_entry_locs D kv cfg st' = r_entry_locs D kv cfg st"
    and "recovered (r_entry_locs D kv cfg st') (r_cache st') l e p"
    and "k \<noteq> (l, e) \<Longrightarrow> cache_get (r_cache st') (fst k) (snd k) = cache_get (r_cache st) (fst k) (snd k)"
    and "ec_warm (r_cache st') = []"
proof -
  from r obtain g where g: "get_location D (rc_entry_index cfg) (r_ks st) l e = Inr g"
    by (auto simp: wal_scan_record_def split: sum.splits)
  have gl: "g = r_entry_locs D kv cfg st (l, e)" using get_location_ok[OF g] by (simp add: r_entry_locs_def)
  consider (known) y where "g = Some y" "st' = st"
    | (fresh) "g = None" "r_cache st' = cache_insert (r_cache st) l e p"
        "r_ks st' = r_ks st \<or> (\<exists>a b. r_ks st' = snd (insert_location D (rc_wal_index cfg) (r_ks st) l e seg a b))"
    using r g by (cases g) (auto simp: wal_scan_record_def split: sum.splits option.splits prod.splits; metis snd_conv)+
  note cases = this
  show loc: "r_entry_locs D kv cfg st' = r_entry_locs D kv cfg st"
    using cases
  proof cases
    case fresh
    then show ?thesis
      using insert_location_other[of "ix_locations (rc_entry_index cfg)" "rc_wal_index cfg"] dp
      by (auto simp: r_entry_locs_def recovery_partitions_def)
  qed simp
  show "recovered (r_entry_locs D kv cfg st') (r_cache st') l e p"
    using cases
  proof cases
    case known
    then show ?thesis using gl by (simp add: recovered_def)
  next
    case fresh
    then show ?thesis using warm by (simp add: recovered_def cache_get_insert)
  qed
  show "k \<noteq> (l, e) \<Longrightarrow> cache_get (r_cache st') (fst k) (snd k) = cache_get (r_cache st) (fst k) (snd k)"
    using cases by cases (auto simp: cache_get_insert)
  show "ec_warm (r_cache st') = []"
    using cases warm by cases auto
qed

lemma wal_scan_record_keeps:
  "wal_scan_record D cfg seg pos l e p n st = (r, st') \<Longrightarrow> cache_get (r_cache st) l' e' \<noteq> None \<Longrightarrow>
   cache_get (r_cache st') l' e' \<noteq> None"
  by (auto simp: wal_scan_record_def cache_get_insert split: sum.splits option.splits prod.splits)

lemma wal_apply_ok:
  assumes "wal_apply D cfg seg path recs ed lvp st = (Inr v, st')" and dp: "recovery_partitions cfg"
    and "ec_warm (r_cache st) = []" and "distinct (map rec_key recs)"
  shows "r_entry_locs D kv cfg st' = r_entry_locs D kv cfg st
    \<and> (\<forall>(pos, l, e, p, n) \<in> set recs. recovered (r_entry_locs D kv cfg st') (r_cache st') l e p)
    \<and> (\<forall>k. k \<notin> rec_key ` set recs \<longrightarrow> cache_get (r_cache st') (fst k) (snd k) = cache_get (r_cache st) (fst k) (snd k))"
  using assms(1,3,4)
proof (induction recs arbitrary: st)
  case Nil
  show ?case
  proof (cases ed)
    case Clean
    with Nil show ?thesis by simp
  next
    case Torn
    with Nil obtain r where "wal_torn D cfg seg path lvp st = (r, st')"
      by (auto split: prod.splits sum.splits)
    from wal_torn_frame[OF this dp] show ?thesis by simp
  qed
next
  case (Cons x recs)
  obtain pos l e p n where x: "x = (pos, l, e, p, n)" by (metis prod_cases5)
  from Cons.prems(1) obtain u st1 where r1: "wal_scan_record D cfg seg pos l e p n st = (Inr u, st1)"
    and rest: "wal_apply D cfg seg path recs ed lvp st1 = (Inr v, st')"
    by (auto simp: x split: prod.splits sum.splits)
  note ok = wal_scan_record_ok[OF r1 dp Cons.prems(2)]
  have d: "distinct (map rec_key recs)" "(l, e) \<notin> rec_key ` set recs"
    using Cons.prems(3) by (auto simp: x)
  note IH = Cons.IH[OF rest ok(4) d(1)]
  have "recovered (r_entry_locs D kv cfg st') (r_cache st') l e p"
    using ok(1,2) IH d(2) by (auto simp: recovered_def)
  with IH ok(1,3) show ?case by (auto simp: x)
qed

text \<open>Without any assumption on the keys: what was visited is found under its key.\<close>

lemma wal_apply_contains:
  assumes "wal_apply D cfg seg path recs ed lvp st = (Inr v, st')" and dp: "recovery_partitions cfg"
    and "ec_warm (r_cache st) = []"
  shows "r_entry_locs D kv cfg st' = r_entry_locs D kv cfg st
    \<and> (\<forall>x \<in> set recs. r_entry_locs D kv cfg st' (rec_key x) \<noteq> None
          \<or> cache_get (r_cache st') (fst (rec_key x)) (snd (rec_key x)) \<noteq> None)
    \<and> (\<forall>l e. cache_get (r_cache st) l e \<noteq> None \<longrightarrow> cache_get (r_cache st') l e \<noteq> None)"
  using assms(1,3)
proof (induction recs arbitrary: st)
  case Nil
  show ?case
  proof (cases ed)
    case Clean
    with Nil show ?thesis by simp
  next
    case Torn
    with Nil obtain r where "wal_torn D cfg seg path lvp st = (r, st')"
      by (auto split: prod.splits sum.splits)
    from wal_torn_frame[OF this dp] show ?thesis by simp
  qed
next
  case (Cons x recs)
  obtain pos l e p n where x: "x = (pos, l, e, p, n)" by (metis prod_cases5)
  from Cons.prems(1) obtain u st1 where r1: "wal_scan_record D cfg seg pos l e p n st = (Inr u, st1)"
    and rest: "wal_apply D cfg seg path recs ed lvp st1 = (Inr v, st')"
    by (auto simp: x split: prod.splits sum.splits)
  note ok = wal_scan_record_ok[OF r1 dp Cons.prems(2)]
  note IH = Cons.IH[OF rest ok(4)]
  have here: "r_entry_locs D kv cfg st' (l, e) \<noteq> None \<or> cache_get (r_cache st') l e \<noteq> None"
    using ok(1,2) IH by (fastforce simp: recovered_def)
  have keep: "cache_get (r_cache st1) l' e' \<noteq> None" if "cache_get (r_cache st) l' e' \<noteq> None" for l' e'
    using wal_scan_record_keeps[OF r1 that] .
  from IH ok(1) here keep show ?case by (auto simp: x)
qed

text \<open>
  Replaying a log segment that ends in an interrupted write. The replay returns, and if it
  returns without an error every complete record of the log is found afterwards.
\<close>

lemma replay_torn_log:
  fixes st :: "'k recovery_state"
  assumes dat: "dat = wal_image crc bss @ take k (padded_batch crc es)"
    and rd: "fs_read (r_fs st) path = Inr dat"
    and cp: "get_checkpoint D (rc_wal_index cfg) (r_ks st) seg = Inr 0"
    and fit: "images_fit crc 0 bss" "batch_fits crc (length (wal_image crc bss)) es" "payloads_ok es"
    and dp: "recovery_partitions cfg" and warm: "ec_warm (r_cache st) = []"
    and keys: "distinct (map (\<lambda>(l, e, p). (l, e)) (concat bss @ es))"
  shows "\<exists>r st'. replay_wal_segment D crc cfg seg path st = Some (r, st')
    \<and> (r = Inr () \<longrightarrow> (\<forall>(l, e, p) \<in> set (concat bss). recovered (r_entry_locs D kv cfg st') (r_cache st') l e p))"
proof -
  obtain n ed v where sc: "scan crc dat 0 0
      = Some (image_recs crc 0 bss @ batch_recs (length (wal_image crc bss)) (take n es), ed, v)" (is "_ = Some (?recs, _, _)")
    using scan_torn_log[OF dat fit] by blast
  obtain w st1 where wa: "wal_apply D cfg seg path ?recs ed v st = (w, st1)" by force
  have loop: "wal_scan_loop D crc cfg seg path dat 0 0 st = Some (w, st1)"
    using wal_scan_loop_fold[OF sc, of D cfg seg path st] wa by simp
  obtain r2 ks2 where cpt: "set_checkpoint D (rc_wal_index cfg) (r_ks st1) seg (of_nat (projr w)) = (r2, ks2)" by force
  show ?thesis
  proof (cases w)
    case (Inl err)
    then have "replay_wal_segment D crc cfg seg path st = Some (Inl err, st1)"
      by (simp add: replay_wal_segment_def rd cp loop)
    then show ?thesis by blast
  next
    case (Inr lvp)
    then have rep: "replay_wal_segment D crc cfg seg path st = Some (r2, st1\<lparr> r_ks := ks2 \<rparr>)"
      using cpt by (simp add: replay_wal_segment_def rd cp loop)
    have ks2: "r_entry_locs D kv cfg (st1\<lparr> r_ks := ks2 \<rparr>) = r_entry_locs D kv cfg st1"
      using set_checkpoint_frame[OF cpt] dp by (auto simp: r_entry_locs_def recovery_partitions_def)
    have "map rec_key ?recs = map (\<lambda>(l, e, p). (l, e)) (concat bss @ take n es)"
      unfolding map_rec_key by (simp only: map_append map_rec_entry)
    also have "\<dots> = take (length (concat bss) + n) (map (\<lambda>(l, e, p). (l, e)) (concat bss @ es))"
      by (simp add: take_map)
    finally have "distinct (map rec_key ?recs)" using keys by (metis distinct_take)
    from wal_apply_ok[OF wa[unfolded Inr] dp warm this]
    have "\<forall>(pos, l, e, p, n) \<in> set ?recs. recovered (r_entry_locs D kv cfg st1) (r_cache st1) l e p" by blast
    then have "\<forall>x \<in> set (image_recs crc 0 bss). case rec_entry x of (l, e, p) \<Rightarrow>
        recovered (r_entry_locs D kv cfg st1) (r_cache st1) l e p"
      by (fastforce simp: rec_entry_def)
    then have "\<forall>(l, e, p) \<in> set (map rec_entry (image_recs crc 0 bss)).
        recovered (r_entry_locs D kv cfg st1) (r_cache st1) l e p"
      by simp
    then have "\<forall>(l, e, p) \<in> set (concat bss). recovered (r_entry_locs D kv cfg st1) (r_cache st1) l e p"
      by (simp only: map_rec_entry)
    with rep ks2 show ?thesis by auto
  qed
qed

end


context db_laws
begin

lemma replay_torn_log_contains:
  fixes st :: "'k recovery_state"
  assumes dat: "dat = wal_image crc bss @ take k (padded_batch crc es)"
    and rd: "fs_read (r_fs st) path = Inr dat"
    and cp: "get_checkpoint D (rc_wal_index cfg) (r_ks st) seg = Inr 0"
    and fit: "images_fit crc 0 bss" "batch_fits crc (length (wal_image crc bss)) es" "payloads_ok es"
    and dp: "recovery_partitions cfg" and warm: "ec_warm (r_cache st) = []"
  shows "\<exists>r st'. replay_wal_segment D crc cfg seg path st = Some (r, st')
    \<and> (r = Inr () \<longrightarrow> (\<forall>(l, e, p) \<in> set (concat bss). r_entry_locs D kv cfg st' (l, e) \<noteq> None
           \<or> cache_contains (r_cache st') l e))"
proof -
  obtain n ed v where sc: "scan crc dat 0 0
      = Some (image_recs crc 0 bss @ batch_recs (length (wal_image crc bss)) (take n es), ed, v)" (is "_ = Some (?recs, _, _)")
    using scan_torn_log[OF dat fit] by blast
  obtain w st1 where wa: "wal_apply D cfg seg path ?recs ed v st = (w, st1)" by force
  have loop: "wal_scan_loop D crc cfg seg path dat 0 0 st = Some (w, st1)"
    using wal_scan_loop_fold[OF sc, of D cfg seg path st] wa by simp
  obtain r2 ks2 where cpt: "set_checkpoint D (rc_wal_index cfg) (r_ks st1) seg (of_nat (projr w)) = (r2, ks2)" by force
  show ?thesis
  proof (cases w)
    case (Inl err)
    then have "replay_wal_segment D crc cfg seg path st = Some (Inl err, st1)"
      by (simp add: replay_wal_segment_def rd cp loop)
    then show ?thesis by blast
  next
    case (Inr lvp)
    then have rep: "replay_wal_segment D crc cfg seg path st = Some (r2, st1\<lparr> r_ks := ks2 \<rparr>)"
      using cpt by (simp add: replay_wal_segment_def rd cp loop)
    have ks2: "r_entry_locs D kv cfg (st1\<lparr> r_ks := ks2 \<rparr>) = r_entry_locs D kv cfg st1"
      using set_checkpoint_frame[OF cpt] dp by (auto simp: r_entry_locs_def recovery_partitions_def)
    let ?P = "\<lambda>k. r_entry_locs D kv cfg st1 k \<noteq> None \<or> cache_get (r_cache st1) (fst k) (snd k) \<noteq> None"
    have "\<forall>x \<in> set ?recs. ?P (rec_key x)"
      using wal_apply_contains[OF wa[unfolded Inr] dp warm] by blast
    then have "\<forall>x \<in> set (image_recs crc 0 bss). ?P (rec_key x)"
      unfolding set_append by blast
    then have "\<forall>k \<in> set (map rec_key (image_recs crc 0 bss)). ?P k" by simp
    then have "\<forall>k \<in> set (map (\<lambda>(l, e, p). (l, e)) (concat bss)). ?P k"
      unfolding map_rec_key map_rec_entry .
    then have "\<forall>(l, e, p) \<in> set (concat bss). r_entry_locs D kv cfg st1 (l, e) \<noteq> None \<or> cache_contains (r_cache st1) l e"
      by (fastforce simp: cache_contains_get)
    with rep ks2 show ?thesis by auto
  qed
qed

end


section \<open>Where the scan does not do what it is meant to\<close>

text \<open>
  A zero length prefix at a position that is already aligned: \<open>pos\<close> does not move, so the loop
  never ends.
\<close>

definition stuck :: "bytes \<Rightarrow> nat \<Rightarrow> bool" where
  "stuck dat pos \<longleftrightarrow> \<not> scan_done dat pos \<and> len_at dat pos = 0 \<and> align_up pos = pos"

lemma wal_scan_loop_stuck:
  assumes "stuck dat pos"
  shows "wal_scan_loop D crc cfg seg path dat pos lvp st = None"
proof -
  let ?Q = "\<lambda>D crc cfg seg path dat' pos' lvp st r. dat' = dat \<longrightarrow> pos' \<noteq> pos"
  have "?Q D crc cfg seg path dat pos lvp st y"
    if "wal_scan_loop D crc cfg seg path dat pos lvp st = Some y" for y
    by (rule wal_scan_loop.raw_induct[of ?Q, OF _ that])
       (use assms in \<open>auto simp: stuck_def split: if_splits\<close>)
  then show ?thesis by (cases "wal_scan_loop D crc cfg seg path dat pos lvp st") auto
qed

lemma entry_scan_loop_stuck:
  assumes "stuck dat pos"
  shows "entry_scan_loop D crc cfg seg path dat pos lvp st = None"
proof -
  let ?Q = "\<lambda>D crc cfg seg path dat' pos' lvp st r. dat' = dat \<longrightarrow> pos' \<noteq> pos"
  have "?Q D crc cfg seg path dat pos lvp st y"
    if "entry_scan_loop D crc cfg seg path dat pos lvp st = Some y" for y
    by (rule entry_scan_loop.raw_induct[of ?Q, OF _ that])
       (use assms in \<open>auto simp: stuck_def split: if_splits\<close>)
  then show ?thesis by (cases "entry_scan_loop D crc cfg seg path dat pos lvp st") auto
qed

lemma stuck_zeros:
  assumes "ALIGN dvd length pre" and "4 \<le> k" and "length (pre @ replicate k 0 @ post) + 4096 < 2 ^ 64"
  shows "stuck (pre @ replicate k 0 @ post) (length pre)"
  using assms not_done[of "length pre" "pre @ replicate k 0 @ post"] len_at_zeros[OF assms(2), of pre post]
    align_up_aligned[of "length pre"]
  by (simp add: stuck_def)

text \<open>
  Padding of three bytes: the four bytes read as a length prefix are three zeros and the low
  byte of the next batch's first length, a length of at least sixteen megabytes.
\<close>

lemma len_at_straddle:
  assumes "x \<noteq> 0"
  shows "2 ^ 24 \<le> unat (len_at (pre @ replicate 3 0 @ x # post) (length pre))"
proof -
  have "subrange (length pre) (length pre + 4) (pre @ replicate 3 0 @ x # post) = [0, 0, 0, x]"
    by (simp add: subrange_def numeral_eq_Suc)
  then have v: "len_at (pre @ replicate 3 0 @ x # post) (length pre) = of_nat (16777216 * unat x)"
    by (simp add: u32_from_le_bytes_def)
  have "unat x < 256" "0 < unat x" using assms by (simp_all add: unat_gt_0)
  then have "16777216 * unat x < 2 ^ LENGTH(32)" by simp
  then have "unat (of_nat (16777216 * unat x) :: u32) = 16777216 * unat x"
    by (simp only: unat_of_nat mod_less)
  with v \<open>0 < unat x\<close> show ?thesis by simp
qed

lemma scan_straddle:
  assumes dat: "dat = pre @ batch_bytes crc es @ replicate 3 0 @ x # post" and ne: "es \<noteq> []"
    and ok: "payloads_ok es" and x: "x \<noteq> 0" and small: "length dat < 2 ^ 24"
  shows "scan crc dat (length pre) lvp
    = Some (batch_recs (length pre) es, Torn, length pre + length (batch_bytes crc es))"
proof -
  let ?p = "length pre + length (batch_bytes crc es)"
  have dat': "dat = (pre @ batch_bytes crc es) @ replicate 3 0 @ x # post" using dat by simp
  have l: "2 ^ 24 \<le> unat (len_at dat ?p)"
    using len_at_straddle[OF x, of "pre @ batch_bytes crc es" post] dat' by simp
  have "\<not> scan_done dat ?p" using small by (intro not_done) (simp_all add: dat)
  moreover have "len_at dat ?p \<noteq> 0" using l by auto
  moreover have "isl (decode_record crc dat ?p)"
    using l small by (intro decode_too_long) (simp_all add: dat)
  ultimately have "scan crc dat ?p v = Some ([], Torn, v)" for v
    by (subst scan.simps) (auto simp: isl_def)
  then show ?thesis
    using scan_records[OF dat, of lvp] ok ne small by (simp add: scan_app_def)
qed


section \<open>What a torn segment file becomes\<close>

lemma wal_scan_record_fs: "wal_scan_record D cfg seg pos l e p n st = (r, st') \<Longrightarrow> r_fs st' = r_fs st"
  by (auto simp: wal_scan_record_def repopulate_def split: sum.splits option.splits prod.splits)

lemma wal_torn_fs:
  assumes "wal_torn D cfg seg path lvp st = (Inr u, st')" and "fs_read (r_fs st) path = Inr dat" and "lvp \<le> length dat"
  shows "fs_read (r_fs st') path = Inr (take lvp dat)"
  using assms
  by (auto simp: wal_torn_def truncate_file_def fs_truncate_def fs_read_def resize_def Let_def
      purge_wal_locations_after_torn_segment_def split: sum.splits option.splits prod.splits if_splits)

lemma wal_apply_torn_fs:
  assumes "wal_apply D cfg seg path recs Torn lvp st = (Inr v, st')" and "fs_read (r_fs st) path = Inr dat"
    and "lvp \<le> length dat"
  shows "fs_read (r_fs st') path = Inr (take lvp dat)"
  using assms(1,2)
proof (induction recs arbitrary: st)
  case Nil
  then show ?case using wal_torn_fs assms(3) by (auto split: prod.splits sum.splits)
next
  case (Cons x recs)
  obtain pos l e p n where x: "x = (pos, l, e, p, n)" by (metis prod_cases5)
  from Cons.prems(1) obtain u st1 where r1: "wal_scan_record D cfg seg pos l e p n st = (Inr u, st1)"
    and rest: "wal_apply D cfg seg path recs Torn lvp st1 = (Inr v, st')"
    by (auto simp: x split: prod.splits sum.splits)
  show ?case using Cons.IH[OF rest] wal_scan_record_fs[OF r1] Cons.prems(2) by simp
qed

lemma replay_torn_fs:
  assumes rd: "fs_read (r_fs st) path = Inr dat"
    and cp: "get_checkpoint D (rc_wal_index cfg) (r_ks st) seg = Inr cp"
    and sc: "scan crc dat (unat cp) (unat cp) = Some (recs, Torn, v)" and v: "v \<le> length dat"
  shows "\<exists>r st'. replay_wal_segment D crc cfg seg path st = Some (r, st')
    \<and> (r = Inr () \<longrightarrow> fs_read (r_fs st') path = Inr (take v dat))"
proof -
  obtain w st1 where wa: "wal_apply D cfg seg path recs Torn v st = (w, st1)" by force
  have loop: "wal_scan_loop D crc cfg seg path dat (unat cp) (unat cp) st = Some (w, st1)"
    using wal_scan_loop_fold[OF sc, of D cfg seg path st] wa by simp
  show ?thesis
  proof (cases w)
    case (Inl err)
    with loop show ?thesis by (simp add: replay_wal_segment_def rd cp)
  next
    case (Inr n)
    with wa have "fs_read (r_fs st1) path = Inr (take v dat)" using wal_apply_torn_fs rd v by blast
    with loop Inr show ?thesis
      by (auto simp: replay_wal_segment_def rd cp split: prod.splits)
  qed
qed

context db_laws begin

text \<open>Indexing one record of an entry segment: it is indexed afterwards, and nothing is forgotten.\<close>

lemma entry_scan_record_ok:
  assumes "entry_scan_record D cfg seg pos l e n st = (Inr u, st')"
  shows "r_entry_locs D kv cfg st' (l, e) \<noteq> None"
    and "r_entry_locs D kv cfg st k \<noteq> None \<Longrightarrow> r_entry_locs D kv cfg st' k \<noteq> None"
    and "loc_wf D (kv (r_ks st) (ix_locations (rc_entry_index cfg))) \<Longrightarrow>
         loc_wf D (kv (r_ks st') (ix_locations (rc_entry_index cfg)))"
proof -
  consider (known) y where "get_location D (rc_entry_index cfg) (r_ks st) l e = Inr (Some y)" "st' = st"
    | (fresh) u' where "insert_location D (rc_entry_index cfg) (r_ks st) l e seg (of_nat pos) (of_nat n) = (Inr u', r_ks st')"
    using assms by (auto simp: entry_scan_record_def split: sum.splits option.splits prod.splits)
  note cases = this
  show "r_entry_locs D kv cfg st' (l, e) \<noteq> None"
    using cases
    by cases (auto simp: r_entry_locs_def insert_location_ok(1) dest!: get_location_ok[symmetric])
  show "r_entry_locs D kv cfg st k \<noteq> None \<Longrightarrow> r_entry_locs D kv cfg st' k \<noteq> None"
    using cases by cases (auto simp: r_entry_locs_def insert_location_ok(1))
  show "loc_wf D (kv (r_ks st) (ix_locations (rc_entry_index cfg))) \<Longrightarrow>
         loc_wf D (kv (r_ks st') (ix_locations (rc_entry_index cfg)))"
    using cases by cases (auto simp: insert_location_ok(3))
qed

lemma entry_torn_ok:
  assumes "entry_torn D cfg seg path lvp st = (Inr u, st')"
    and "loc_wf D (kv (r_ks st) (ix_locations (rc_entry_index cfg)))"
  shows "r_entry_locs D kv cfg st' k = Some iv \<Longrightarrow> iv_segment_id iv = seg \<Longrightarrow> iv_offset iv < of_nat lvp"
    and "r_entry_locs D kv cfg st k \<noteq> None \<Longrightarrow>
         r_entry_locs D kv cfg st' k \<noteq> None \<or> k \<in> set (rs_candidates (r_stats st'))"
proof -
  obtain purged where d: "delete_locations_in_segment_tail D (rc_entry_index cfg) (r_ks st) seg (of_nat lvp) = (Inr purged, r_ks st')"
    and c: "set purged \<subseteq> set (rs_candidates (r_stats st'))"
    using assms(1)
    by (auto simp: entry_torn_def purge_entry_locations_after_torn_segment_def split: sum.splits prod.splits if_splits)
  note ok = delete_tail_ok[OF d assms(2)]
  show "r_entry_locs D kv cfg st' k = Some iv \<Longrightarrow> iv_segment_id iv = seg \<Longrightarrow> iv_offset iv < of_nat lvp"
    using ok(1,2) by (auto simp: r_entry_locs_def not_less split: if_splits)
  show "r_entry_locs D kv cfg st k \<noteq> None \<Longrightarrow>
         r_entry_locs D kv cfg st' k \<noteq> None \<or> k \<in> set (rs_candidates (r_stats st'))"
    using ok(2) c by (auto simp: r_entry_locs_def split: if_splits)
qed

lemma entry_apply_torn:
  assumes "entry_apply D cfg seg path recs Torn lvp st = (Inr u, st')"
    and "loc_wf D (kv (r_ks st) (ix_locations (rc_entry_index cfg)))"
  shows "(\<forall>k iv. r_entry_locs D kv cfg st' k = Some iv \<longrightarrow> iv_segment_id iv = seg \<longrightarrow> iv_offset iv < of_nat lvp)
    \<and> (\<forall>k. r_entry_locs D kv cfg st k \<noteq> None \<or> k \<in> rec_key ` set recs \<longrightarrow>
         r_entry_locs D kv cfg st' k \<noteq> None \<or> k \<in> set (rs_candidates (r_stats st')))"
  using assms
proof (induction recs arbitrary: st)
  case Nil
  then have t: "entry_torn D cfg seg path lvp st = (Inr u, st')" by simp
  show ?case using entry_torn_ok[OF t Nil.prems(2)] by (metis empty_iff empty_set image_empty)
next
  case (Cons x recs)
  obtain pos l e p n where x: "x = (pos, l, e, p, n)" by (metis prod_cases5)
  from Cons.prems(1) obtain w st1 where r1: "entry_scan_record D cfg seg pos l e n st = (Inr w, st1)"
    and rest: "entry_apply D cfg seg path recs Torn lvp st1 = (Inr u, st')"
    by (auto simp: x split: prod.splits sum.splits)
  note ok = entry_scan_record_ok[OF r1]
  note IH = Cons.IH[OF rest ok(3)[OF Cons.prems(2)]]
  have k: "rec_key x = (l, e)" by (simp add: x)
  show ?case
  proof (intro conjI allI impI)
    fix k assume "r_entry_locs D kv cfg st k \<noteq> None \<or> k \<in> rec_key ` set (x # recs)"
    then have "r_entry_locs D kv cfg st1 k \<noteq> None \<or> k \<in> rec_key ` set recs"
      using ok(1) ok(2)[of k] k by (auto simp del: not_None_eq)
    with IH show "r_entry_locs D kv cfg st' k \<noteq> None \<or> k \<in> set (rs_candidates (r_stats st'))" by blast
  qed (use IH in blast)
qed

lemma recover_entry_segment_torn:
  assumes res: "recover_entry_segment D crc cfg seg path st = Some (Inr u, st')"
    and rd: "fs_read (r_fs st) path = Inr dat" and sc: "scan crc dat 0 0 = Some (recs, Torn, v)"
    and wf: "loc_wf D (kv (r_ks st) (ix_locations (rc_entry_index cfg)))" and dp: "recovery_partitions cfg"
  shows "(\<forall>k iv. r_entry_locs D kv cfg st' k = Some iv \<longrightarrow> iv_segment_id iv = seg \<longrightarrow> iv_offset iv < of_nat v)
    \<and> (\<forall>k. r_entry_locs D kv cfg st k \<noteq> None \<or> k \<in> rec_key ` set recs \<longrightarrow>
         r_entry_locs D kv cfg st' k \<noteq> None \<or> k \<in> set (rs_candidates (r_stats st')))"
proof -
  have loop: "entry_scan_loop D crc cfg seg path dat 0 0 s = Some (entry_apply D cfg seg path recs Torn v s)" for s
    using entry_scan_loop_fold[OF sc] by simp
  obtain s meta where a: "entry_apply D cfg seg path recs Torn v s = (Inr u, st')"
    and s: "r_ks s = r_ks st \<or> r_ks s = snd (upsert D (rc_entry_registry cfg) (r_ks st) meta)"
  proof (cases "registry_get D (rc_entry_registry cfg) (r_ks st) seg")
    case (Inl e)
    with res that show ?thesis by (simp add: recover_entry_segment_def rd)
  next
    case (Inr g)
    show ?thesis
    proof (cases g)
      case (Some y)
      with res Inr that[of st] show ?thesis by (simp add: recover_entry_segment_def rd loop)
    next
      case None
      let ?meta = "\<lparr> sm_id = seg, sm_kind = EntryKind, sm_status = Local, sm_local_path = Some path,
         sm_s3_key = None, sm_byte_len = of_nat (length dat), sm_ledger_sizes = [] \<rparr>"
      obtain w ks where up: "upsert D (rc_entry_registry cfg) (r_ks st) ?meta = (w, ks)" by force
      with res Inr None that[of _ ?meta] show ?thesis
        by (cases w) (simp_all add: recover_entry_segment_def rd loop)
    qed
  qed
  have "kv (r_ks s) (ix_locations (rc_entry_index cfg)) = kv (r_ks st) (ix_locations (rc_entry_index cfg))"
    using s upsert_frame[of "ix_locations (rc_entry_index cfg)" "rc_entry_registry cfg"] dp
    by (auto simp: recovery_partitions_def)
  then show ?thesis using entry_apply_torn[OF a] wf by (simp add: r_entry_locs_def)
qed

end

end
