(* ===== verification/StorageSpec.thy ===== *)
theory StorageSpec
  imports RefStore CrashRecovery
begin

text \<open>
  The durability properties of the storage engine: the flush loop, the write-ahead log and crash
  recovery. Examples run on the reference store and on small file systems.
\<close>


section \<open>The flush loop\<close>

text \<open>
  C4. No read gap: from a state that satisfies the flush invariant, any number of turns of the flush
  loop, whatever the outcomes of the writes and the syncs, up to the first error, which ends the
  thread, and whatever other threads insert meanwhile, leave every readable entry readable with the
  same payload, in the cache or through the index; turns without an error keep the invariant.
\<close>

theorem flush_keeps_entries_readable:
  assumes "db_laws D kv" and "flush_inv D kv crc cfg st" and "distinct_partitions cfg" and "turns_fit D crc cfg ts st"
    and "flush_turns D crc cfg ts st = (r, st')"
  shows "(\<forall>l e p. entry_visible crc (fc_entries_dir cfg) (fl_fs st) (entry_locs D kv cfg (fl_ks st)) (fl_cache st) l e p
        \<and> (l, e) \<notin> inserted_during ts \<longrightarrow>
      entry_visible crc (fc_entries_dir cfg) (fl_fs st') (entry_locs D kv cfg (fl_ks st')) (fl_cache st') l e p)
    \<and> (r = None \<longrightarrow> flush_inv D kv crc cfg st')"
  using db_laws.flush_turns_visible[OF assms(1,3,2,4,5)] by blast

definition demo_fs :: fs where
  "demo_fs = \<lparr> fs_files = [(entry_seg_path ''d'' 0, [])], fs_dirs = [''d''],
               fs_read_err = (\<lambda>_. None), fs_write_err = (\<lambda>_. None) \<rparr>"

definition demo_flush_cfg :: flush_config where
  "demo_flush_cfg =
     \<lparr> fc_entries_dir = ''d'',
       fc_entry_index = \<lparr> ix_entries = ''entry.entries'', ix_locations = ''entry.locations'',
          ix_checkpoints = ''entry.checkpoints'', ix_ledgers = ''entry.ledgers'' \<rparr>,
       fc_wal_index = \<lparr> ix_entries = ''wal.entries'', ix_locations = ''wal.locations'',
          ix_checkpoints = ''wal.checkpoints'', ix_ledgers = ''wal.ledgers'' \<rparr>,
       fc_entry_registry = ''entry.registry'', fc_seal_threshold = 1000000 \<rparr>"

definition demo_flush :: "ref_ks flush_state" where
  "demo_flush =
     \<lparr> fl_ks = [], fl_fs = demo_fs, fl_cache = cache_insert (cache_new 100) 3 7 [1, 2],
       fl_writer = \<lparr> ew_id = 0, ew_path = entry_seg_path ''d'' 0, ew_file_offset = 0 \<rparr>,
       fl_next_seg_id = 0, fl_ledger_sizes = [], fl_sealed = None \<rparr>"

definition demo_turn :: flush_turn where
  "demo_turn = \<lparr> ft_order = id, ft_write = WOk 4096, ft_sync = None, ft_during = [] \<rparr>"

theorem flush_keeps_entries_readable_witness:
  "let st = snd (flush_turns ref_db (\<lambda>_. 0) demo_flush_cfg [demo_turn] demo_flush)
   in entry_visible (\<lambda>_. 0) ''d'' (fl_fs st) (entry_locs ref_db ref_kv demo_flush_cfg (fl_ks st)) (fl_cache st) 3 7 [1, 2]"
proof -
  let ?r = "flush_turns ref_db (\<lambda>_. 0) demo_flush_cfg [demo_turn] demo_flush"
  have c: "ec_hot (fl_cache demo_flush) = [((3, 7), [1, 2])]" "ec_warm (fl_cache demo_flush) = []"
    by (simp_all add: demo_flush_def cache_insert_def cache_new_def)
  have dr: "fst (drain_hot_to_warm id (fl_cache demo_flush)) = [(3, 7, [1, 2])]"
    by (simp add: drain_fst c)
  have loc: "entry_locs ref_db ref_kv demo_flush_cfg (fl_ks demo_flush) = (\<lambda>_. None)"
    by (simp add: entry_locs_def loc_map_def abs_map_def demo_flush_def ref_simps fun_eq_iff)
  have "flush_inv ref_db ref_kv (\<lambda>_. 0) demo_flush_cfg demo_flush"
    unfolding flush_inv_def Let_def loc
    by (simp add: c cache_wf_def) (simp add: demo_flush_def demo_flush_cfg_def demo_fs_def)
  moreover have "distinct_partitions demo_flush_cfg"
    by (simp add: distinct_partitions_def demo_flush_cfg_def)
  moreover have "turns_fit ref_db (\<lambda>_. 0) demo_flush_cfg [demo_turn] demo_flush"
  proof -
    have "batch_fits (\<lambda>_. 0) (unat (ew_file_offset (fl_writer demo_flush))) (fst (drain_hot_to_warm id (fl_cache demo_flush)))"
      unfolding dr by (simp add: batch_fits_def demo_flush_def)
    then show ?thesis by (simp add: demo_turn_def is_drain_order_def split: prod.splits sum.splits) (simp add: demo_flush_def)
  qed
  ultimately have "\<forall>l e p. entry_visible (\<lambda>_. 0) ''d'' (fl_fs demo_flush)
        (entry_locs ref_db ref_kv demo_flush_cfg (fl_ks demo_flush)) (fl_cache demo_flush) l e p
        \<and> (l, e) \<notin> inserted_during [demo_turn] \<longrightarrow>
      entry_visible (\<lambda>_. 0) ''d'' (fl_fs (snd ?r)) (entry_locs ref_db ref_kv demo_flush_cfg (fl_ks (snd ?r))) (fl_cache (snd ?r)) l e p"
    using flush_keeps_entries_readable[OF ref.db_laws_axioms, of "\<lambda>_. 0" demo_flush_cfg demo_flush "[demo_turn]" "fst ?r" "snd ?r"]
    by (simp add: demo_flush_cfg_def)
  moreover have "entry_visible (\<lambda>_. 0) ''d'' (fl_fs demo_flush)
        (entry_locs ref_db ref_kv demo_flush_cfg (fl_ks demo_flush)) (fl_cache demo_flush) 3 7 [1, 2]"
    by (simp add: entry_visible_def cache_get_def c)
  ultimately show ?thesis by (simp add: inserted_during_def demo_turn_def Let_def)
qed


section \<open>The write-ahead log\<close>

text \<open>
  C17. Acknowledged means on disk, for good: in every run of the journal thread, whatever the disk
  answers in later turns and however often the log is sealed, each location that was ever sent to a
  caller still holds the intact record of that caller's entry, in the file of its segment.
\<close>

theorem acknowledged_records_intact:
  assumes "journal_run (\<lambda>_. True) D crc cfg st acks" and "(seg, off, q) \<in> acks"
  shows "\<exists>c. segment_file cfg st seg = Some c
    \<and> rec_at crc c (unat off) (wr_ledger_id q) (wr_entry_id q) (wr_payload q)"
proof -
  from journal_run_inv[OF assms(1)] have "acks_intact crc cfg st acks" by (auto simp: run_inv_def)
  with assms(2) obtain c where "segment_file cfg st seg = Some c"
    "rec_at crc (if seg = js_seg_id st then take (unat (js_file_offset st)) c else c) (unat off)
       (wr_ledger_id q) (wr_entry_id q) (wr_payload q)"
    by (fastforce simp: acks_intact_def)
  then show ?thesis by (auto split: if_splits dest: rec_at_take)
qed

definition demo_jcfg :: journal_config where
  "demo_jcfg = \<lparr> jc_dir = ''w'', jc_threshold = 1000000, jc_registry = ''wal.registry'' \<rparr>"

definition demo_journal :: "ref_ks journal_state" where
  "demo_journal =
     \<lparr> js_ks = [], js_fs = \<lparr> fs_files = [(''w/active.seg'', [])], fs_dirs = [''w''],
                            fs_read_err = (\<lambda>_. None), fs_write_err = (\<lambda>_. None) \<rparr>,
       js_path = ''w/active.seg'', js_seg_id = 0, js_file_offset = 0, js_sealed = None \<rparr>"

definition demo_req :: WriteReq where
  "demo_req = \<lparr> wr_ack = 1, wr_ledger_id = 3, wr_entry_id = 7, wr_payload = [9] \<rparr>"

definition demo_env :: journal_env where
  "demo_env = \<lparr> je_write = WOk 4096, je_sync_data = None, je_sync_all = None \<rparr>"

abbreviation demo_step :: "reply list \<times> JournalMsg list \<times> ref_ks journal_state" where
  "demo_step \<equiv> journal_step ref_db (\<lambda>_. 0) demo_jcfg demo_env (JWrite demo_req) [] demo_journal"

lemma demo_step_eq:
  "fst demo_step = [WriteReply 1 (Inr (0, 0, 25))]" "js_seg_id (snd (snd demo_step)) = 0"
  "js_file_offset (snd (snd demo_step)) = 4096"
  "map_of (fs_files (js_fs (snd (snd demo_step)))) ''w/active.seg'' = Some (padded_batch (\<lambda>_. 0) [(3, 7, [9])])"
proof -
  let ?b = "\<lparr> ab_inner = encode_record (\<lambda>_. 0) 3 7 [9] \<rparr>"
  have l: "length (padded_aligned ?b) = 4096" by (simp add: length_padded align_up_eq)
  have m: "make_aligned (padded_aligned ?b) = padded_aligned ?b" by (rule make_aligned_padded) simp
  note defs = journal_step_def push_def AlignedBuffer_new_def write_and_ack_def Let_def demo_env_def demo_req_def
    demo_journal_def demo_jcfg_def l m fs_write_at_def write_at_def resize_def
  show "fst demo_step = [WriteReply 1 (Inr (0, 0, 25))]" "js_seg_id (snd (snd demo_step)) = 0"
    "js_file_offset (snd (snd demo_step)) = 4096"
    "map_of (fs_files (js_fs (snd (snd demo_step)))) ''w/active.seg'' = Some (padded_batch (\<lambda>_. 0) [(3, 7, [9])])"
    by (simp_all add: defs)
qed

lemma demo_turn_batch: "turn_batch (\<lambda>_. 0) demo_req [] = [(3, 7, [9])]"
  by (simp add: turn_batch_def push_def req_entry_def demo_req_def)

lemma demo_run:
  assumes "ok [(3, 7, [9])]"
  shows "journal_run ok ref_db (\<lambda>_. 0) demo_jcfg (snd (snd demo_step)) ({} \<union> acked_by demo_req [] (fst demo_step))"
    and "(0, 0, demo_req) \<in> {} \<union> acked_by demo_req [] (fst demo_step)"
proof -
  have a: "active_seg_path (jc_dir demo_jcfg) = ''w/active.seg''"
    by (simp add: active_seg_path_def demo_jcfg_def join_path_def)
  have "journal_inv (\<lambda>_. 0) demo_jcfg [] demo_journal"
    unfolding journal_inv_def a by (simp add: demo_journal_def)
  then have s: "journal_run ok ref_db (\<lambda>_. 0) demo_jcfg demo_journal {}"
    by (rule run_start) (simp add: demo_journal_def)
  show "journal_run ok ref_db (\<lambda>_. 0) demo_jcfg (snd (snd demo_step)) ({} \<union> acked_by demo_req [] (fst demo_step))"
    by (rule run_write[OF s, of demo_env demo_req "[]" "fst demo_step" "fst (snd demo_step)"])
       (simp_all add: demo_turn_batch assms batch_fits_def, simp_all add: demo_journal_def writes_of_def List.map_filter_def)
  show "(0, 0, demo_req) \<in> {} \<union> acked_by demo_req [] (fst demo_step)"
  proof -
    have "wr_ack demo_req = 1" by (simp add: demo_req_def)
    then show ?thesis by (simp add: acked_by_def demo_step_eq)
  qed
qed

theorem acknowledged_records_intact_witness:
  "\<exists>c. segment_file demo_jcfg (snd (snd demo_step)) 0 = Some c
    \<and> rec_at (\<lambda>_. 0) c 0 (wr_ledger_id demo_req) (wr_entry_id demo_req) (wr_payload demo_req)"
  using acknowledged_records_intact[OF demo_run(1) demo_run(2)[of "\<lambda>_. True"]] by simp

text \<open>
  C18. The durability gate: a location is sent to a caller only in a turn whose write covered the
  whole padded batch and whose \<^verbatim>\<open>fdatasync\<close> succeeded; and every request of a turn, failed or not, is
  answered exactly once.
\<close>

theorem journal_replies_correct:
  assumes "journal_step D crc cfg env (JWrite r) channel st = (replies, rest, st')"
  shows "(\<forall>a loc. WriteReply a (Inr loc) \<in> set replies \<longrightarrow> je_sync_data env = None
            \<and> (\<exists>n \<ge> length (padded_batch crc (turn_batch crc r channel)). je_write env = WOk n))
    \<and> (\<exists>taken. channel = taken @ rest
         \<and> List.map_filter (\<lambda>x. case x of WriteReply a _ \<Rightarrow> Some a | SealReply _ _ \<Rightarrow> None) replies
             = wr_ack r # map wr_ack (writes_of taken))"
proof -
  obtain buf0 o0 n0 where p: "push crc AlignedBuffer_new (wr_ledger_id r) (wr_entry_id r) (wr_payload r) = (buf0, o0, n0)"
    by (metis prod_cases3)
  obtain buf reqs srep rest' where dc: "drain_channel crc buf0 channel = (buf, reqs, srep, rest')"
    by (metis prod_cases4)
  let ?reqs = "(r, o0, n0) # reqs"
  obtain wrep st1 where wa: "write_and_ack (je_write env) (je_sync_data env) buf ?reqs st = (wrep, st1)" by force
  have rep: "replies = srep @ wrep" and rest: "rest = rest'"
    using assms p dc wa by (auto simp: journal_step_def)
  note t = write_turn[OF p dc]
  have tb: "turn_batch crc r channel = map (req_entry \<circ> fst) ?reqs" by (simp add: turn_batch_def p dc)
  have buf: "buf = \<lparr> ab_inner = batch_bytes crc (turn_batch crc r channel) \<rparr>" using t(1) tb by simp
  have seal: "\<forall>x \<in> set srep. \<exists>a e. x = SealReply a (Inl e)" using drain_channel_spec(3)[OF dc] by blast
  have gate: "je_sync_data env = None \<and> (\<exists>n \<ge> length (padded_batch crc (turn_batch crc r channel)). je_write env = WOk n)"
    if "WriteReply a (Inr loc) \<in> set replies" for a loc
  proof -
    have "WriteReply a (Inr loc) \<in> set wrep" using that rep seal by auto
    with wa show ?thesis
      by (auto simp: write_and_ack_def Let_def fail_all_def buf not_less split: io_write.splits if_splits option.splits)
  qed
  from drain_channel_spec(4)[OF dc] obtain taken where tk: "channel = taken @ rest'" "map fst reqs = writes_of taken"
    by (auto simp: writes_of_def)
  have one: "List.map_filter (\<lambda>x. case x of WriteReply a _ \<Rightarrow> Some a | SealReply _ _ \<Rightarrow> None) wrep = map (wr_ack \<circ> fst) ?reqs"
    using wa by (auto simp: write_and_ack_def Let_def fail_all_def List.map_filter_def comp_def case_prod_unfold
        split: io_write.splits if_splits option.splits)
  have none: "List.map_filter (\<lambda>x. case x of WriteReply a _ \<Rightarrow> Some a | SealReply _ _ \<Rightarrow> None) srep = []"
    using seal by (induction srep) (auto simp: List.map_filter_def)
  have "List.map_filter (\<lambda>x. case x of WriteReply a _ \<Rightarrow> Some a | SealReply _ _ \<Rightarrow> None) replies = wr_ack r # map wr_ack (writes_of taken)"
    using one none by (simp add: rep List.map_filter_def flip: tk(2))
  with gate tk rest show ?thesis by blast
qed

theorem journal_replies_correct_witness:
  "je_sync_data demo_env = None \<and> (\<exists>n \<ge> length (padded_batch (\<lambda>_. 0) (turn_batch (\<lambda>_. 0) demo_req [])). je_write demo_env = WOk n)"
proof -
  have s: "demo_step = (fst demo_step, fst (snd demo_step), snd (snd demo_step))" by simp
  have "WriteReply 1 (Inr (0, 0, 25)) \<in> set (fst demo_step)" by (simp add: demo_step_eq)
  with journal_replies_correct[OF s] show ?thesis by blast
qed


section \<open>Crash recovery\<close>


definition demo_rcfg :: recovery_config where
  "demo_rcfg =
     \<lparr> rc_wal_index = fc_wal_index demo_flush_cfg, rc_entry_index = fc_entry_index demo_flush_cfg,
       rc_wal_registry = ''wal.registry'', rc_entry_registry = ''entry.registry'',
       rc_wal_dir = ''w'', rc_entries_dir = ''d'' \<rparr>"

definition demo_recovery :: "bytes \<Rightarrow> ref_ks recovery_state" where
  "demo_recovery c =
     \<lparr> r_ks = [], r_fs = \<lparr> fs_files = [(''w/active.seg'', c)], fs_dirs = [''w''],
                           fs_read_err = (\<lambda>_. None), fs_write_err = (\<lambda>_. None) \<rparr>,
       r_cache = cache_new 100, r_stats = RecoveryStats_default \<rparr>"

lemma demo_recovery_facts:
  "fs_read (r_fs (demo_recovery c)) ''w/active.seg'' = Inr c"
  "get_checkpoint ref_db (rc_wal_index demo_rcfg) (r_ks (demo_recovery c)) seg = Inr 0"
  "recovery_partitions demo_rcfg" "ec_warm (r_cache (demo_recovery c)) = []"
  by (simp_all add: demo_recovery_def fs_read_def get_checkpoint_def ref_simps demo_rcfg_def
      demo_flush_cfg_def recovery_partitions_def cache_new_def)





text \<open>
  C19. A torn entry segment leaves no dangling location and forgets nothing. When the scan of a
  segment file stops at a torn record, and the phase returns without an error, no location in the
  entry index points at or beyond the last valid byte of that segment; and every entry that the
  index knew before, and every complete record of the file, is still indexed or is listed as a
  candidate for the replay of the log.
\<close>

theorem torn_entry_segment_purged:
  assumes "db_laws D kv" and "recover_entry_segment D crc cfg seg path rst = Some (Inr (), rst')"
    and "fs_read (r_fs rst) path = Inr dat" and "scan crc dat 0 0 = Some (recs, Torn, v)"
    and "loc_wf D (kv (r_ks rst) (ix_locations (rc_entry_index cfg)))" and "recovery_partitions cfg"
  shows "(\<forall>k iv. r_entry_locs D kv cfg rst' k = Some iv \<and> iv_segment_id iv = seg \<longrightarrow> iv_offset iv < of_nat v)
    \<and> (\<forall>k. r_entry_locs D kv cfg rst k \<noteq> None \<or> k \<in> rec_key ` set recs \<longrightarrow>
         r_entry_locs D kv cfg rst' k \<noteq> None \<or> k \<in> set (rs_candidates (r_stats rst')))"
  using db_laws.recover_entry_segment_torn[OF assms] unfolding imp_conjL .

definition demo_torn :: "ref_ks recovery_state" where
  "demo_torn =
     \<lparr> r_ks = snd (insert_location ref_db (rc_entry_index demo_rcfg) [] 3 7 0 0 25),
       r_fs = \<lparr> fs_files = [(''d/e'', [1, 0, 0, 0])], fs_dirs = [''d''],
                fs_read_err = (\<lambda>_. None), fs_write_err = (\<lambda>_. None) \<rparr>,
       r_cache = cache_new 100, r_stats = RecoveryStats_default \<rparr>"

lemma demo_torn_scan: "scan (\<lambda>_. 0) [1, 0, 0, 0] 0 0 = Some ([], Torn, 0)"
proof -
  have u: "u32_from_le_bytes [1, 0, 0, 0] = 1" by (simp add: u32_from_le_bytes_def)
  have l: "len_at [1, 0, 0, 0] 0 = 1" by (simp add: subrange_def u)
  have "isl (decode_record (\<lambda>_. 0) [1, 0, 0, 0] 0)" by (rule decode_too_long) (simp_all add: l)
  moreover have "\<not> scan_done [1, 0, 0, 0] 0" by (intro not_done) simp_all
  ultimately show ?thesis by (subst scan.simps) (auto simp: subrange_def u isl_def)
qed

lemma demo_torn_run:
  "\<exists>st'. recover_entry_segment ref_db (\<lambda>_. 0) demo_rcfg 0 ''d/e'' demo_torn = Some (Inr (), st')"
  by (simp add: recover_entry_segment_def demo_torn_def fs_read_def registry_get_def upsert_def
      entry_scan_loop_fold[OF demo_torn_scan] entry_torn_def purge_entry_locations_after_torn_segment_def
      delete_locations_in_segment_tail_def demo_rcfg_def demo_flush_cfg_def insert_location_def
      delete_location_def storage_err_simps ref_simps)

theorem torn_entry_segment_purged_witness:
  "\<exists>st'. recover_entry_segment ref_db (\<lambda>_. 0) demo_rcfg 0 ''d/e'' demo_torn = Some (Inr (), st')
    \<and> (\<forall>k iv. r_entry_locs ref_db ref_kv demo_rcfg st' k = Some iv \<and> iv_segment_id iv = 0 \<longrightarrow> iv_offset iv < 0)
    \<and> (r_entry_locs ref_db ref_kv demo_rcfg st' (3, 7) \<noteq> None \<or> (3, 7) \<in> set (rs_candidates (r_stats st')))"
proof -
  let ?ix = "rc_entry_index demo_rcfg"
  have i: "insert_location ref_db ?ix [] 3 7 0 0 25 = (Inr (), r_ks demo_torn)"
    by (simp add: demo_torn_def insert_location_def storage_err_simps ref_simps)
  have wf: "loc_wf ref_db (ref_kv (r_ks demo_torn) (ix_locations ?ix))"
    using ref.insert_location_ok(3)[OF i] by (simp add: loc_wf_def ref_simps)
  have known: "r_entry_locs ref_db ref_kv demo_rcfg demo_torn (3, 7) \<noteq> None"
    using ref.insert_location_ok(1)[OF i] by (simp add: r_entry_locs_def)
  have rd: "fs_read (r_fs demo_torn) ''d/e'' = Inr [1, 0, 0, 0]" by (simp add: demo_torn_def fs_read_def)
  from demo_torn_run obtain st' where
    r: "recover_entry_segment ref_db (\<lambda>_. 0) demo_rcfg 0 ''d/e'' demo_torn = Some (Inr (), st')" by blast
  note t = torn_entry_segment_purged[OF ref.db_laws_axioms r rd demo_torn_scan wf demo_recovery_facts(3)]
  have z: "(of_nat 0 :: u64) = 0" by simp
  show ?thesis
    using r conjunct1[OF t] mp[OF spec[OF conjunct2[OF t], of "(3, 7)"] disjI1[OF known]]
    unfolding z by (intro exI[of _ st'] conjI) assumption+
qed

lemma padded_batch_three:
  assumes "length (batch_bytes crc es) mod 4096 = 4093" and "length (batch_bytes crc es) < 2 ^ 22"
  shows "padded_batch crc es = batch_bytes crc es @ replicate 3 0"
proof -
  let ?n = "length (batch_bytes crc es)"
  define q where "q = ?n div 4096"
  have n: "?n = 4096 * q + 4093" using assms(1) div_mult_mod_eq[of ?n 4096] by (simp add: q_def)
  have "align_up ?n = (?n + 4095) div 4096 * 4096" using assms(2) by (intro align_up_eq) simp
  also have "(?n + 4095) div 4096 = q + 1" unfolding n by (rule div_nat_eqI) simp_all
  finally have "align_up ?n = ?n + 3" by (simp add: n)
  then show ?thesis by (simp add: padded_aligned_def resize_def)
qed

lemma encode_record_first_byte: "\<exists>ys. encode_record crc l e p = (of_nat (length p) :: 8 word) # ys"
proof -
  have "(of_nat (unat (of_nat (length p) :: u32) mod 256) :: 8 word) = of_nat (length p)"
    by (rule word_unat_eq_iff[THEN iffD2]) (simp add: unat_of_nat mod_mod_cancel)
  moreover have "le_digits 4 n = n mod 256 # le_digits 3 (n div 256)" for n
    using le_digits.simps(2)[of 3 n] by simp
  ultimately show ?thesis
    by (simp add: encode_record_def record_header_def u32_to_le_bytes_def)
qed

lemma padded_batch_first_byte:
  assumes "length (batch_bytes crc ((l, e, p) # es)) < 2 ^ 22"
  shows "\<exists>post. padded_batch crc ((l, e, p) # es) = (of_nat (length p) :: 8 word) # post"
proof -
  let ?n = "length (batch_bytes crc ((l, e, p) # es))"
  obtain ys where ys: "batch_bytes crc ((l, e, p) # es) = (of_nat (length p) :: 8 word) # ys"
    using encode_record_first_byte[of crc l e p] by auto
  have "?n \<le> align_up ?n" using assms align_up_bounds[of ?n] by simp
  then show ?thesis
    unfolding ys by (auto simp: padded_aligned_def resize_def)
qed

text \<open>
  C40. A valid log can be cut. Two batches are completely on disk and the first one ends three bytes
  before a block boundary. The scan reads a length prefix that straddles the padding and the second
  batch, takes it for a torn write, and the replay truncates the file after the first batch: the
  acknowledged entries of the second batch are gone from the file.
\<close>

theorem straddled_padding_truncates_log:
  assumes "fs_read (r_fs rst) path = Inr (padded_batch crc es @ padded_batch crc ((l, e, p) # es'))"
    and "get_checkpoint D (rc_wal_index cfg) (r_ks rst) seg = Inr 0"
    and "es \<noteq> []" and "payloads_ok es" and "length (batch_bytes crc es) mod 4096 = 4093"
    and "length p mod 256 \<noteq> 0"
    and "length (batch_bytes crc es) < 2 ^ 22" and "length (batch_bytes crc ((l, e, p) # es')) < 2 ^ 22"
  shows "\<exists>r rst'. replay_wal_segment D crc cfg seg path rst = Some (r, rst')
    \<and> (r = Inr () \<longrightarrow> fs_read (r_fs rst') path = Inr (batch_bytes crc es))"
proof -
  let ?dat = "padded_batch crc es @ padded_batch crc ((l, e, p) # es')"
  let ?x = "of_nat (length p) :: 8 word"
  obtain post where post: "padded_batch crc ((l, e, p) # es') = ?x # post"
    using padded_batch_first_byte[OF assms(8)] by blast
  have pad: "padded_batch crc es = batch_bytes crc es @ replicate 3 0"
    using assms(5,7) by (rule padded_batch_three)
  have dat: "?dat = [] @ batch_bytes crc es @ replicate 3 0 @ ?x # post" unfolding pad post by simp
  have x: "?x \<noteq> 0"
  proof
    assume "?x = 0"
    then have "unat ?x = 0" by simp
    with assms(6) show False by (simp add: unat_of_nat)
  qed
  have small: "length ?dat < 2 ^ 24"
    using assms(7,8) align_up_bounds[of "length (batch_bytes crc es)"]
      align_up_bounds[of "length (batch_bytes crc ((l, e, p) # es'))"]
    by (simp add: length_padded ALIGN_def)
  have sc: "scan crc ?dat (unat (0 :: u64)) (unat (0 :: u64)) = Some (batch_recs 0 es, Torn, length (batch_bytes crc es))"
    using scan_straddle[OF dat assms(3,4) x small, of 0] by simp
  from replay_torn_fs[OF assms(1,2) sc] show ?thesis by (simp add: pad)
qed

theorem straddled_padding_truncates_log_witness:
  "\<exists>r rst'. replay_wal_segment ref_db (\<lambda>_. 0) demo_rcfg 0 ''w/active.seg''
      (demo_recovery (padded_batch (\<lambda>_. 0) [(3, 7, replicate 4069 1)] @ padded_batch (\<lambda>_. 0) [(3, 8, [9])])) = Some (r, rst')
    \<and> (r = Inr () \<longrightarrow> fs_read (r_fs rst') ''w/active.seg'' = Inr (batch_bytes (\<lambda>_. 0) [(3, 7, replicate 4069 1)]))"
  by (rule straddled_padding_truncates_log[OF demo_recovery_facts(1,2)]) (simp_all add: payloads_ok_def)

text \<open>
  A block of zeros stops recovery for good. If the checkpoint is at a block boundary and at
  least four zero bytes follow there, the replay of the log segment never returns.
\<close>

theorem zero_block_replay_diverges:
  assumes "fs_read (r_fs rst) path = Inr (pre @ replicate k 0 @ post)"
    and "get_checkpoint D (rc_wal_index cfg) (r_ks rst) seg = Inr (of_nat (length pre))"
    and "4096 dvd length pre" and "4 \<le> k" and "length (pre @ replicate k 0 @ post) + 4096 < 2 ^ 64"
  shows "replay_wal_segment D crc cfg seg path rst = None"
proof -
  have "stuck (pre @ replicate k 0 @ post) (length pre)"
    using assms(3-5) by (intro stuck_zeros) (simp_all add: ALIGN_def)
  moreover have "unat (of_nat (length pre) :: u64) = length pre" using assms(5) by (simp add: unat_of_nat)
  ultimately show ?thesis by (simp add: replay_wal_segment_def assms(1,2) wal_scan_loop_stuck)
qed

theorem zero_block_replay_diverges_witness:
  "replay_wal_segment ref_db (\<lambda>_. 0) demo_rcfg 0 ''w/active.seg'' (demo_recovery (replicate 4096 0)) = None"
  using zero_block_replay_diverges[where pre = "[]" and post = "[]" and k = 4096 and D = ref_db
      and rst = "demo_recovery (replicate 4096 0)" and seg = 0 and cfg = demo_rcfg and path = "''w/active.seg''"]
  by (simp add: demo_recovery_facts)

end
