(* ===== verification/NodeParts.thy ===== *)
theory NodeParts
  imports Fjall FileSystem
begin

text \<open>
  Small parts of a storage node: the in-memory index and the trait it implements
  (\<^verbatim>\<open>storage/index.rs\<close>), the file journal of the in-process backend (\<^verbatim>\<open>storage/journal.rs\<close>) and the
  health monitor (\<^verbatim>\<open>node/health.rs\<close>). The trait \<^verbatim>\<open>LedgerIndex\<close> is the contract \<open>ledger_index_laws\<close>,
  which both of its implementations satisfy. A \<^verbatim>\<open>Duration\<close> is a number of nanoseconds.
\<close>


section \<open>The ledger index\<close>

record 'i ledger_index =
  li_insert :: "'i \<Rightarrow> StoredEntry \<Rightarrow> unit result \<times> 'i"
  li_get :: "'i \<Rightarrow> u64 \<Rightarrow> u64 \<Rightarrow> StoredEntry option result"
  li_range :: "'i \<Rightarrow> u64 \<Rightarrow> StoredEntry list result"

text \<open>\<^verbatim>\<open>MemoryLedgerIndex\<close>: a \<^verbatim>\<open>BTreeMap\<close> over pairs, kept as an association list.\<close>

type_synonym MemoryLedgerIndex = "((u64 \<times> u64) \<times> StoredEntry) list"

definition entry_ids :: "StoredEntry \<Rightarrow> u64 \<times> u64" where
  "entry_ids s = (e_ledger_id (se_entry s), e_entry_id (se_entry s))"

definition memory_insert :: "MemoryLedgerIndex \<Rightarrow> StoredEntry \<Rightarrow> unit result \<times> MemoryLedgerIndex" where
  "memory_insert m s = (Inr (), AList.update (entry_ids s) s m)"

definition memory_get :: "MemoryLedgerIndex \<Rightarrow> u64 \<Rightarrow> u64 \<Rightarrow> StoredEntry option result" where
  "memory_get m lid eid = Inr (map_of m (lid, eid))"

text \<open>The range from \<^verbatim>\<open>(ledger_id, 0)\<close> to \<^verbatim>\<open>(ledger_id, u64::MAX)\<close>, in key order.\<close>

definition memory_range :: "MemoryLedgerIndex \<Rightarrow> u64 \<Rightarrow> StoredEntry list result" where
  "memory_range m lid =
     Inr (map snd (sort_key (\<lambda>x. snd (fst x)) (filter (\<lambda>x. fst (fst x) = lid) m)))"

definition memory_index :: "MemoryLedgerIndex ledger_index" where
  "memory_index = \<lparr> li_insert = memory_insert, li_get = memory_get, li_range = memory_range \<rparr>"

definition fjall_index :: "'k db_api \<Rightarrow> FjallIndex \<Rightarrow> 'k ledger_index" where
  "fjall_index D idx = \<lparr> li_insert = fjall_insert D idx, li_get = fjall_get D idx, li_range = fjall_range D idx \<rparr>"


section \<open>The file journal\<close>

text \<open>
  The journal file with the outcome of the next append: \<open>None\<close> when every call succeeds, otherwise
  the number of bytes that reached the file before the error.
\<close>

record FileJournal =
  fj_path :: string
  fj_fs :: fs
  fj_outcome :: "(nat \<times> string) option"

text \<open>\<^verbatim>\<open>Path::parent\<close> of a path without a trailing slash.\<close>

definition parent_path :: "string \<Rightarrow> string option" where
  "parent_path p =
     (case dropWhile (\<lambda>c. c \<noteq> CHR ''/'') (rev p) of
        [] \<Rightarrow> (if p = [] then None else Some [])
      | _ # cs \<Rightarrow> Some (rev cs))"

definition FileJournal_new :: "string \<Rightarrow> fs \<Rightarrow> FileJournal result" where
  "FileJournal_new path f =
     (case parent_path path of
        None \<Rightarrow> Inr \<lparr> fj_path = path, fj_fs = f, fj_outcome = None \<rparr>
      | Some d \<Rightarrow>
          (case create_dir_all f d of
             Inl e \<Rightarrow> Inl (Io e)
           | Inr f1 \<Rightarrow> Inr \<lparr> fj_path = path, fj_fs = f1, fj_outcome = None \<rparr>))"

definition file_journal_frame :: "bytes \<Rightarrow> bytes" where
  "file_journal_frame bs = u32_to_le_bytes (of_nat (length bs)) @ bs"

definition file_journal_append :: "'k db_api \<Rightarrow> FileJournal \<Rightarrow> StoredEntry \<Rightarrow> unit result \<times> FileJournal" where
  "file_journal_append D j s =
     (case fs_open_create (fj_fs j) (fj_path j) False of
        (Inl e, f) \<Rightarrow> (Inl (Io e), j\<lparr> fj_fs := f \<rparr>)
      | (Inr _, f) \<Rightarrow>
          (case bc_ser_se D s of
             Inl e \<Rightarrow> (Inl (Serialization e), j\<lparr> fj_fs := f \<rparr>)
           | Inr bs \<Rightarrow>
               (let c = (case map_of (fs_files f) (fj_path j) of None \<Rightarrow> [] | Some c \<Rightarrow> c);
                    frame = file_journal_frame bs
                in case fj_outcome j of
                     Some (n, e) \<Rightarrow> (Inl (Io e), j\<lparr> fj_fs := fs_set f (fj_path j) (c @ take n frame) \<rparr>)
                   | None \<Rightarrow> (Inr (), j\<lparr> fj_fs := fs_set f (fj_path j) (c @ frame) \<rparr>))))"

record 'j journal_ops =
  jo_append :: "'j \<Rightarrow> StoredEntry \<Rightarrow> unit result \<times> 'j"

definition file_journal :: "'k db_api \<Rightarrow> FileJournal journal_ops" where
  "file_journal D = \<lparr> jo_append = file_journal_append D \<rparr>"


section \<open>The health monitor\<close>

record HealthMonitor =
  hm_max_journal_bytes :: u64
  hm_p99_threshold :: nat
  hm_bytes_written :: u64
  hm_latencies :: "nat list"
  hm_window_size :: nat

definition HealthMonitor_new :: "u64 \<Rightarrow> nat \<Rightarrow> nat \<Rightarrow> HealthMonitor" where
  "HealthMonitor_new max_bytes threshold window =
     \<lparr> hm_max_journal_bytes = max_bytes, hm_p99_threshold = threshold, hm_bytes_written = 0,
       hm_latencies = [], hm_window_size = window \<rparr>"

definition default_limits :: HealthMonitor where
  "default_limits = HealthMonitor_new (400 * 1024 * 1024 * 1024) 50000000 1000"

definition from_journal_path :: "string \<Rightarrow> nat \<Rightarrow> HealthMonitor" where
  "from_journal_path journal_path threshold = HealthMonitor_new (400 * 1024 * 1024 * 1024) threshold 1000"

definition health_record :: "HealthMonitor \<Rightarrow> nat \<Rightarrow> u64 \<Rightarrow> HealthMonitor" where
  "health_record h elapsed n =
     (let lat = hm_latencies h;
          lat1 = (if hm_window_size h \<le> length lat then drop 1 lat else lat)
      in h\<lparr> hm_bytes_written := hm_bytes_written h + n, hm_latencies := lat1 @ [elapsed] \<rparr>)"

text \<open>
  The index is computed in floating point. Up to a window of a trillion the product rounds to
  within less than a hundredth of the exact value, and the truncated result is the quotient below.
\<close>

definition compute_p99 :: "nat list \<Rightarrow> nat" where
  "compute_p99 window = sort window ! min (length window * 99 div 100) (length window - 1)"

definition current_status :: "HealthMonitor \<Rightarrow> NodeStatus" where
  "current_status h =
     (if hm_max_journal_bytes h \<le> hm_bytes_written h then ReadOnly
      else if 10 \<le> length (hm_latencies h) \<and> hm_p99_threshold h < compute_p99 (hm_latencies h) then ReadOnly
      else ReadWrite)"

text \<open>
  One tick of \<^verbatim>\<open>HealthMonitor::run\<close>: the status that was published last, and the node description
  that is written when the status changed.
\<close>

definition health_tick :: "HealthMonitor \<Rightarrow> NodeInfo \<Rightarrow> u64 \<Rightarrow> NodeStatus \<Rightarrow> NodeStatus \<times> NodeInfo option" where
  "health_tick h info now last_status =
     (let status = current_status h
      in if status = last_status then (last_status, None)
         else (status, Some (info\<lparr> ni_status := status, ni_last_heartbeat_ms := now \<rparr>)))"


section \<open>The contract of the index\<close>

locale ledger_index_laws =
  fixes L :: "'i ledger_index" and entries :: "'i \<Rightarrow> u64 \<times> u64 \<Rightarrow> StoredEntry option"
  assumes insert_ok: "li_insert L i s = (Inr (), i') \<Longrightarrow> entries i' = (entries i)(entry_ids s \<mapsto> s)"
    and insert_err: "li_insert L i s = (Inl e, i') \<Longrightarrow> entries i' = entries i"
    and get_ok: "li_get L i lid eid = Inr r \<Longrightarrow> r = entries i (lid, eid)"
begin

text \<open>An entry that was inserted is found, until it is inserted again.\<close>

lemma get_after_insert:
  "li_insert L i s = (Inr (), i') \<Longrightarrow> li_get L i' lid eid = Inr r \<Longrightarrow>
   r = (if (lid, eid) = entry_ids s then Some s else entries i (lid, eid))"
  using insert_ok get_ok by fastforce

end

interpretation mem: ledger_index_laws memory_index "\<lambda>m. map_of m"
  by unfold_locales (auto simp: memory_index_def memory_insert_def memory_get_def update_conv')

locale fjall_index_laws = db_laws D kv for D :: "'k db_api" and kv +
  fixes idx :: FjallIndex

sublocale fjall_index_laws \<subseteq> fj: ledger_index_laws "fjall_index D idx"
  "\<lambda>ks. abs_map pair_key (bc_de_se D) (kv ks (ix_entries idx))"
proof
  fix ks s ks'
  assume "li_insert (fjall_index D idx) ks s = (Inr (), ks')"
  then obtain b where b: "bc_ser_se D s = Inr b"
    and i: "fj_insert D ks (ix_entries idx) (pair_key (entry_ids s)) b = (Inr (), ks')"
    by (auto simp: fjall_index_def fjall_insert_def entry_ids_def storage_err_Inr_iff Let_def split: sum.splits prod.splits)
  show "abs_map pair_key (bc_de_se D) (kv ks' (ix_entries idx))
      = (abs_map pair_key (bc_de_se D) (kv ks (ix_entries idx)))(entry_ids s \<mapsto> s)"
    using insert_abs(1)[where enc = pair_key and de = "bc_de_se D", OF i inj_pair_key law_se[OF b]] .
next
  fix ks s e ks'
  assume "li_insert (fjall_index D idx) ks s = (Inl e, ks')"
  then show "abs_map pair_key (bc_de_se D) (kv ks' (ix_entries idx)) = abs_map pair_key (bc_de_se D) (kv ks (ix_entries idx))"
    by (auto simp: fjall_index_def fjall_insert_def Let_def storage_err_def map_sum_def dest: law_insert_err
        split: sum.splits prod.splits)
next
  fix ks lid eid r
  assume "li_get (fjall_index D idx) ks lid eid = Inr r"
  then show "r = abs_map pair_key (bc_de_se D) (kv ks (ix_entries idx)) (lid, eid)"
    by (auto simp: fjall_index_def fjall_get_def abs_map_def dest!: law_get[symmetric] split: sum.splits option.splits)
qed


context fjall_index_laws
begin

lemma fjall_contract:
  "ledger_index_laws (fjall_index D idx) (\<lambda>ks. abs_map pair_key (bc_de_se D) (kv ks (ix_entries idx)))"
  by (rule fj.ledger_index_laws_axioms)

end

end
