(* ===== verification/JournalNode.thy ===== *)
theory JournalNode
  imports LsmcJournal Offloader NodeParts
begin

text \<open>
  The storage node's service, \<^verbatim>\<open>JournalService\<close> of \<^verbatim>\<open>storage/node.rs\<close>, over its two backends. The
  maps and sets that the handlers share are fields of the service; the key-value store, the file
  system, the block cache and the object store are inside the state of the LSM-C backend.
  \<open>add_entry\<close> is the sequence of its three phases, the checks before the write, the write, and the
  update of the shared maps, so that other handlers can be placed between them.
\<close>


section \<open>State\<close>

text \<open>The code of other crates and the two trait objects of the in-process backend.\<close>

record ('k, 'c, 's, 'j, 'i) node_api =
  na_db :: "'k db_api"
  na_crc :: "bytes \<Rightarrow> u32"
  na_mac :: "bytes \<Rightarrow> bytes \<Rightarrow> bytes"
  na_blocks :: "'c block_api"
  na_s3 :: "'s s3_api"
  na_journal :: "'j journal_ops"
  na_index :: "'i ledger_index"

record ('k, 'c, 's) lsmc_backend =
  nl_journal_cfg :: journal_config
  nl_journal :: "'k journal_state"
  nl_wal_index :: FjallIndex
  nl_entry_index :: FjallIndex
  nl_cache :: EntrySegmentCache
  nl_reader :: TieredReader
  nl_blocks :: 'c
  nl_s3 :: 's

datatype ('k, 'c, 's, 'j, 'i) Backend =
    InProcess 'j 'i
  | Lsmc "('k, 'c, 's) lsmc_backend"

record ('k, 'c, 's, 'j, 'i) JournalService =
  sv_node_id :: string
  sv_backend :: "('k, 'c, 's, 'j, 'i) Backend"
  sv_lac :: "u64 \<Rightarrow> u64 option"
  sv_hi_entry :: "u64 \<Rightarrow> u64 option"
  sv_fences :: "u64 set"
  sv_known_ledgers :: "u64 set"
  sv_notifiers :: "u64 set"
  sv_health :: "HealthMonitor option"

abbreviation nl_ks :: "('k, 'c, 's) lsmc_backend \<Rightarrow> 'k" where
  "nl_ks b \<equiv> js_ks (nl_journal b)"

definition nl_set_ks :: "'k \<Rightarrow> ('k, 'c, 's) lsmc_backend \<Rightarrow> ('k, 'c, 's) lsmc_backend" where
  "nl_set_ks ks b = b\<lparr> nl_journal := (nl_journal b)\<lparr> js_ks := ks \<rparr> \<rparr>"

text \<open>\<^verbatim>\<open>map.entry(k).and_modify(|x| *x = (*x).max(v)).or_insert(v)\<close>.\<close>

definition raise_to :: "u64 \<Rightarrow> u64 \<Rightarrow> (u64 \<Rightarrow> u64 option) \<Rightarrow> u64 \<Rightarrow> u64 option" where
  "raise_to k v m = m(k \<mapsto> (case m k of None \<Rightarrow> v | Some x \<Rightarrow> max x v))"

definition or_zero :: "u64 option \<Rightarrow> u64" where
  "or_zero x = (case x of None \<Rightarrow> 0 | Some v \<Rightarrow> v)"


section \<open>Construction\<close>

definition JournalService_new :: "string \<Rightarrow> 'j \<Rightarrow> 'i \<Rightarrow> ('k, 'c, 's, 'j, 'i) JournalService" where
  "JournalService_new node_id journal index =
     \<lparr> sv_node_id = node_id, sv_backend = InProcess journal index, sv_lac = Map.empty,
       sv_hi_entry = Map.empty, sv_fences = {}, sv_known_ledgers = {}, sv_notifiers = {},
       sv_health = None \<rparr>"

text \<open>Errors of the two scans are replaced by the empty default.\<close>

definition new_lsmc ::
  "('k, 'c, 's, 'j, 'i) node_api \<Rightarrow> string \<Rightarrow> ('k, 'c, 's) lsmc_backend \<Rightarrow> ('k, 'c, 's, 'j, 'i) JournalService" where
  "new_lsmc A node_id b =
     \<lparr> sv_node_id = node_id, sv_backend = Lsmc b, sv_lac = Map.empty, sv_hi_entry = Map.empty,
       sv_fences = (case load_fenced_ledgers (na_db A) (nl_entry_index b) (nl_ks b) of
                      Inl _ \<Rightarrow> {} | Inr ids \<Rightarrow> ids),
       sv_known_ledgers = (case list_known_ledger_ids (na_db A) (nl_entry_index b) (nl_ks b) of
                             Inl _ \<Rightarrow> {} | Inr ids \<Rightarrow> set ids),
       sv_notifiers = {}, sv_health = None \<rparr>"

definition with_health_monitor ::
  "HealthMonitor \<Rightarrow> ('k, 'c, 's, 'j, 'i) JournalService \<Rightarrow> ('k, 'c, 's, 'j, 'i) JournalService" where
  "with_health_monitor h sv = sv\<lparr> sv_health := Some h \<rparr>"


section \<open>Appending\<close>

text \<open>
  What the environment decides during one append: the clock, the time the append took, the other
  messages in the journal's channel, the number of the caller's reply slot, the disk's answers.
\<close>

record add_env =
  ae_now :: u64
  ae_elapsed :: nat
  ae_channel :: "JournalMsg list"
  ae_ack :: nat
  ae_disk :: journal_env

definition add_check :: "(bytes \<Rightarrow> u32) \<Rightarrow> Entry \<Rightarrow> ('k, 'c, 's, 'j, 'i) JournalService \<Rightarrow> unit result" where
  "add_check crc e sv =
     (if \<not> validate_digest crc e then Inl (Serialization ''entry checksum validation failed'')
      else if e_ledger_id e \<in> sv_fences sv then Inl (LedgerFenced (e_ledger_id e))
      else Inr ())"

text \<open>The first write of a ledger records it; a later one that carries a key checks the key.\<close>

definition register_ledger ::
  "'k db_api \<Rightarrow> FjallIndex \<Rightarrow> Entry \<Rightarrow> u64 set \<Rightarrow> 'k \<Rightarrow> unit result \<times> u64 set \<times> 'k" where
  "register_ledger D idx e known ks =
     (let lid = e_ledger_id e; mk = e_master_key e in
      if lid \<notin> known then
        (case ensure_ledger_known D idx ks lid mk of
           (Inl err, ks1) \<Rightarrow> (Inl err, known, ks1)
         | (Inr key_written, ks1) \<Rightarrow>
             (if key_written \<and> mk \<noteq> None then
                (case persist D ks1 of
                   (Inl err, ks2) \<Rightarrow> (Inl err, known, ks2)
                 | (Inr _, ks2) \<Rightarrow> (Inr (), insert lid known, ks2))
              else (Inr (), insert lid known, ks1)))
      else if mk \<noteq> None then
        (case ensure_ledger_known D idx ks lid mk of
           (Inl err, ks1) \<Rightarrow> (Inl err, known, ks1)
         | (Inr _, ks1) \<Rightarrow> (Inr (), known, ks1))
      else (Inr (), known, ks))"

definition check_hmac ::
  "'k db_api \<Rightarrow> (bytes \<Rightarrow> bytes \<Rightarrow> bytes) \<Rightarrow> FjallIndex \<Rightarrow> Entry \<Rightarrow> 'k \<Rightarrow> unit result" where
  "check_hmac D mac idx e ks =
     (if e_hmac e = None then Inr ()
      else
        case get_ledger_master_key D idx ks (e_ledger_id e) of
          Inl err \<Rightarrow> Inl err
        | Inr None \<Rightarrow> Inr ()
        | Inr (Some mk) \<Rightarrow>
            (if validate_hmac mac e mk then Inr ()
             else Inl (Serialization (''ledger '' @ show_u64 (e_ledger_id e) @ '' entry ''
                    @ show_u64 (e_entry_id e) @ '': HMAC verification failed''))))"

definition is_duplicate :: "'k db_api \<Rightarrow> ('k, 'c, 's) lsmc_backend \<Rightarrow> u64 \<Rightarrow> u64 \<Rightarrow> bool result" where
  "is_duplicate D b lid eid =
     (if cache_contains (nl_cache b) lid eid then Inr True
      else
        case get_location D (nl_entry_index b) (nl_ks b) lid eid of
          Inl err \<Rightarrow> Inl err
        | Inr (Some _) \<Rightarrow> Inr True
        | Inr None \<Rightarrow>
            (case get_location D (nl_wal_index b) (nl_ks b) lid eid of
               Inl err \<Rightarrow> Inl err
             | Inr loc \<Rightarrow> Inr (loc \<noteq> None)))"

text \<open>
  The writes answer \<open>Inr True\<close> when the entry was written and \<open>Inr False\<close> when it was there already.
\<close>

definition in_process_write ::
  "'j journal_ops \<Rightarrow> 'i ledger_index \<Rightarrow> u64 \<Rightarrow> Entry \<Rightarrow> 'j \<Rightarrow> 'i \<Rightarrow> bool result \<times> 'j \<times> 'i" where
  "in_process_write J L now e j i =
     (case li_get L i (e_ledger_id e) (e_entry_id e) of
        Inl err \<Rightarrow> (Inl err, j, i)
      | Inr (Some _) \<Rightarrow> (Inr False, j, i)
      | Inr None \<Rightarrow>
          (let stored = \<lparr> se_entry = e, se_appended_at_ms = now \<rparr> in
           case jo_append J j stored of
             (Inl err, j1) \<Rightarrow> (Inl err, j1, i)
           | (Inr _, j1) \<Rightarrow>
               (case li_insert L i stored of
                  (Inl err, i1) \<Rightarrow> (Inl err, j1, i1)
                | (Inr _, i1) \<Rightarrow> (Inr True, j1, i1))))"

text \<open>Serialise, append to the log, insert into the cache: the caller tracks the highest entry.\<close>

definition log_and_cache ::
  "'k db_api \<Rightarrow> (bytes \<Rightarrow> u32) \<Rightarrow> add_env \<Rightarrow> Entry \<Rightarrow> ('k, 'c, 's) lsmc_backend
   \<Rightarrow> bool result \<times> ('k, 'c, 's) lsmc_backend" where
  "log_and_cache D crc env e b =
     (let lid = e_ledger_id e; eid = e_entry_id e in
      case bc_ser_se D \<lparr> se_entry = e, se_appended_at_ms = ae_now env \<rparr> of
        Inl err \<Rightarrow> (Inl (Serialization err), b)
      | Inr payload \<Rightarrow>
          (case journal_append D crc (nl_journal_cfg b) (ae_disk env) (ae_channel env)
                  \<lparr> wr_ack = ae_ack env, wr_ledger_id = lid, wr_entry_id = eid, wr_payload = payload \<rparr>
                  (nl_journal b) of
             (Inl err, j) \<Rightarrow> (Inl err, b\<lparr> nl_journal := j \<rparr>)
           | (Inr _, j) \<Rightarrow>
               (Inr True, b\<lparr> nl_journal := j, nl_cache := cache_insert (nl_cache b) lid eid payload \<rparr>)))"

definition lsmc_write ::
  "('k, 'c, 's, 'j, 'i) node_api \<Rightarrow> add_env \<Rightarrow> Entry \<Rightarrow> ('k, 'c, 's) lsmc_backend
   \<Rightarrow> ('k, 'c, 's, 'j, 'i) JournalService \<Rightarrow> bool result \<times> ('k, 'c, 's, 'j, 'i) JournalService" where
  "lsmc_write A env e b sv =
     (let D = na_db A; lid = e_ledger_id e; eid = e_entry_id e in
      case register_ledger D (nl_entry_index b) e (sv_known_ledgers sv) (nl_ks b) of
        (r, known, ks1) \<Rightarrow>
          (let b1 = nl_set_ks ks1 b;
               sv1 = sv\<lparr> sv_backend := Lsmc b1, sv_known_ledgers := known \<rparr>
           in case r of
                Inl err \<Rightarrow> (Inl err, sv1)
              | Inr _ \<Rightarrow>
                  (case check_hmac D (na_mac A) (nl_entry_index b1) e (nl_ks b1) of
                     Inl err \<Rightarrow> (Inl err, sv1)
                   | Inr _ \<Rightarrow>
                       (case is_duplicate D b1 lid eid of
                          Inl err \<Rightarrow> (Inl err, sv1)
                        | Inr True \<Rightarrow> (Inr False, sv1)
                        | Inr False \<Rightarrow>
                            (case log_and_cache D (na_crc A) env e b1 of
                               (Inl err, b2) \<Rightarrow> (Inl err, sv1\<lparr> sv_backend := Lsmc b2 \<rparr>)
                             | (Inr _, b2) \<Rightarrow>
                                 (Inr True, sv1\<lparr> sv_backend := Lsmc b2,
                                                 sv_hi_entry := raise_to lid eid (sv_hi_entry sv) \<rparr>))))))"

definition add_write ::
  "('k, 'c, 's, 'j, 'i) node_api \<Rightarrow> add_env \<Rightarrow> Entry
   \<Rightarrow> ('k, 'c, 's, 'j, 'i) JournalService \<Rightarrow> bool result \<times> ('k, 'c, 's, 'j, 'i) JournalService" where
  "add_write A env e sv =
     (case sv_backend sv of
        InProcess j i \<Rightarrow>
          (case in_process_write (na_journal A) (na_index A) (ae_now env) e j i of
             (r, j1, i1) \<Rightarrow> (r, sv\<lparr> sv_backend := InProcess j1 i1 \<rparr>))
      | Lsmc b \<Rightarrow> lsmc_write A env e b sv)"

definition append_ack :: "Entry \<Rightarrow> ('k, 'c, 's, 'j, 'i) JournalService \<Rightarrow> AppendAck" where
  "append_ack e sv =
     \<lparr> ack_ledger_id = e_ledger_id e, ack_entry_id = e_entry_id e,
       ack_local_lac = or_zero (sv_lac sv (e_ledger_id e)), ack_node_id = sv_node_id sv \<rparr>"

text \<open>After the write: the health monitor, the last confirmed entry, the waiters.\<close>

definition add_finish :: "add_env \<Rightarrow> Entry \<Rightarrow> ('k, 'c, 's, 'j, 'i) JournalService \<Rightarrow> ('k, 'c, 's, 'j, 'i) JournalService" where
  "add_finish env e sv =
     sv\<lparr> sv_health := map_option (\<lambda>h. health_record h (ae_elapsed env) (of_nat (length (e_data e)))) (sv_health sv),
         sv_lac := raise_to (e_ledger_id e) (e_lac e) (sv_lac sv),
         sv_notifiers := insert (e_ledger_id e) (sv_notifiers sv) \<rparr>"

definition add_rest ::
  "('k, 'c, 's, 'j, 'i) node_api \<Rightarrow> add_env \<Rightarrow> Entry
   \<Rightarrow> ('k, 'c, 's, 'j, 'i) JournalService \<Rightarrow> AppendAck result \<times> ('k, 'c, 's, 'j, 'i) JournalService" where
  "add_rest A env e sv =
     (case add_write A env e sv of
        (Inl err, sv1) \<Rightarrow> (Inl err, sv1)
      | (Inr False, sv1) \<Rightarrow> (Inr (append_ack e sv1), sv1)
      | (Inr True, sv1) \<Rightarrow> (let sv2 = add_finish env e sv1 in (Inr (append_ack e sv2), sv2)))"

definition add_entry ::
  "('k, 'c, 's, 'j, 'i) node_api \<Rightarrow> add_env \<Rightarrow> Entry
   \<Rightarrow> ('k, 'c, 's, 'j, 'i) JournalService \<Rightarrow> AppendAck result \<times> ('k, 'c, 's, 'j, 'i) JournalService" where
  "add_entry A env e sv =
     (case add_check (na_crc A) e sv of
        Inl err \<Rightarrow> (Inl err, sv)
      | Inr _ \<Rightarrow> add_rest A env e sv)"


section \<open>Reading, fencing, confirmed entries\<close>

definition read_result :: "'k db_api \<Rightarrow> string \<Rightarrow> bytes \<Rightarrow> ReadResult result" where
  "read_result D node_id payload =
     (case bc_de_se D payload of
        Inl err \<Rightarrow> Inl (Serialization err)
      | Inr stored \<Rightarrow>
          Inr \<lparr> rr_entry = se_entry stored, rr_node_id = node_id, rr_appended_at_ms = se_appended_at_ms stored \<rparr>)"

definition node_read_entry ::
  "('k, 'c, 's, 'j, 'i) node_api \<Rightarrow> u64 \<Rightarrow> u64
   \<Rightarrow> ('k, 'c, 's, 'j, 'i) JournalService \<Rightarrow> ReadResult result \<times> ('k, 'c, 's, 'j, 'i) JournalService" where
  "node_read_entry A lid eid sv =
     (case sv_backend sv of
        InProcess j i \<Rightarrow>
          (case li_get (na_index A) i lid eid of
             Inl err \<Rightarrow> Inl err
           | Inr None \<Rightarrow> Inl (EntryNotFound lid eid)
           | Inr (Some stored) \<Rightarrow>
               Inr \<lparr> rr_entry = se_entry stored, rr_node_id = sv_node_id sv, rr_appended_at_ms = 0 \<rparr>, sv)
      | Lsmc b \<Rightarrow>
          (case cache_get (nl_cache b) lid eid of
             Some payload \<Rightarrow> (read_result (na_db A) (sv_node_id sv) payload, sv)
           | None \<Rightarrow>
               (case tiered_read_entry (na_db A) (na_blocks A) (na_s3 A) (na_crc A) (nl_reader b)
                       (js_fs (nl_journal b)) (nl_ks b) (nl_s3 b) lid eid (nl_blocks b) of
                  (r, bc) \<Rightarrow>
                    (case r of
                       Inl err \<Rightarrow> Inl err
                     | Inr payload \<Rightarrow> read_result (na_db A) (sv_node_id sv) payload,
                     sv\<lparr> sv_backend := Lsmc (b\<lparr> nl_blocks := bc \<rparr>) \<rparr>))))"

text \<open>The flag is written and persisted before it counts in memory.\<close>

definition persist_fence :: "'k db_api \<Rightarrow> FjallIndex \<Rightarrow> u64 \<Rightarrow> 'k \<Rightarrow> unit result \<times> 'k" where
  "persist_fence D idx lid ks =
     (case index_fence_ledger D idx ks lid of
        (Inl err, ks1) \<Rightarrow> (Inl err, ks1)
      | (Inr _, ks1) \<Rightarrow> persist D ks1)"

definition saturating_pred :: "u64 \<Rightarrow> u64" where
  "saturating_pred n = (if n = 0 then 0 else n - 1)"

definition highest_stored :: "'k db_api \<Rightarrow> ('k, 'c, 's) lsmc_backend \<Rightarrow> u64 \<Rightarrow> u64 result" where
  "highest_stored D b lid =
     (case get_next_entry_id D (nl_entry_index b) (nl_ks b) lid of
        Inl err \<Rightarrow> Inl err
      | Inr n \<Rightarrow>
          (case get_next_entry_id D (nl_wal_index b) (nl_ks b) lid of
             Inl err \<Rightarrow> Inl err
           | Inr m \<Rightarrow> Inr (max (saturating_pred n) (saturating_pred m))))"

definition fence_ledger ::
  "('k, 'c, 's, 'j, 'i) node_api \<Rightarrow> u64
   \<Rightarrow> ('k, 'c, 's, 'j, 'i) JournalService \<Rightarrow> u64 result \<times> ('k, 'c, 's, 'j, 'i) JournalService" where
  "fence_ledger A lid sv =
     (let mem_hi = or_zero (sv_hi_entry sv lid) in
      case sv_backend sv of
        InProcess j i \<Rightarrow> (Inr (max mem_hi 0), sv\<lparr> sv_fences := insert lid (sv_fences sv) \<rparr>)
      | Lsmc b \<Rightarrow>
          (case persist_fence (na_db A) (nl_entry_index b) lid (nl_ks b) of
             (Inl err, ks1) \<Rightarrow> (Inl err, sv\<lparr> sv_backend := Lsmc (nl_set_ks ks1 b) \<rparr>)
           | (Inr _, ks1) \<Rightarrow>
               (let b1 = nl_set_ks ks1 b in
                (map_sum id (max mem_hi) (highest_stored (na_db A) b1 lid),
                 sv\<lparr> sv_backend := Lsmc b1, sv_fences := insert lid (sv_fences sv) \<rparr>))))"

text \<open>
  \<open>later\<close> is the service at the time the wait ended, or nothing when the timeout came first.
\<close>

definition get_lac ::
  "u64 \<Rightarrow> nat option \<Rightarrow> ('k, 'c, 's, 'j, 'i) JournalService option \<Rightarrow> ('k, 'c, 's, 'j, 'i) JournalService \<Rightarrow> u64 result" where
  "get_lac lid wait_timeout later sv =
     (let current = or_zero (sv_lac sv lid) in
      if 0 < current \<or> wait_timeout = None then Inr current
      else if lid \<in> sv_notifiers sv then
        (case later of None \<Rightarrow> Inl LacTimeout | Some sv' \<Rightarrow> Inr (or_zero (sv_lac sv' lid)))
      else Inr current)"

text \<open>\<^verbatim>\<open>LsmcJournal::seal\<close> as its caller sees it.\<close>

fun seal_reply_for :: "nat \<Rightarrow> reply list \<Rightarrow> SegmentId result" where
  "seal_reply_for a [] = Inl (Storage ''lsmc-journal: seal ack dropped'')"
| "seal_reply_for a (r # rs) =
     (case r of
        SealReply b x \<Rightarrow> (if a = b then x else seal_reply_for a rs)
      | WriteReply _ _ \<Rightarrow> seal_reply_for a rs)"

definition journal_seal ::
  "'k db_api \<Rightarrow> (bytes \<Rightarrow> u32) \<Rightarrow> journal_config \<Rightarrow> journal_env \<Rightarrow> nat \<Rightarrow> 'k journal_state
   \<Rightarrow> SegmentId result \<times> 'k journal_state" where
  "journal_seal D crc cfg env a st =
     (case journal_step D crc cfg env (JSeal a) [] st of
        (replies, _, st') \<Rightarrow> (seal_reply_for a replies, st'))"

definition service_seal ::
  "('k, 'c, 's, 'j, 'i) node_api \<Rightarrow> journal_env \<Rightarrow> nat
   \<Rightarrow> ('k, 'c, 's, 'j, 'i) JournalService \<Rightarrow> SegmentId result \<times> ('k, 'c, 's, 'j, 'i) JournalService" where
  "service_seal A env a sv =
     (case sv_backend sv of
        Lsmc b \<Rightarrow>
          (case journal_seal (na_db A) (na_crc A) (nl_journal_cfg b) env a (nl_journal b) of
             (r, j) \<Rightarrow> (r, sv\<lparr> sv_backend := Lsmc (b\<lparr> nl_journal := j \<rparr>) \<rparr>))
      | InProcess _ _ \<Rightarrow> (Inl (Storage ''seal is only available on the LSM-C backend''), sv))"

definition entries_for_ledger ::
  "('k, 'c, 's, 'j, 'i) node_api \<Rightarrow> u64 \<Rightarrow> ('k, 'c, 's, 'j, 'i) JournalService \<Rightarrow> StoredEntry list result" where
  "entries_for_ledger A lid sv =
     (case sv_backend sv of
        InProcess j i \<Rightarrow> li_range (na_index A) i lid
      | Lsmc _ \<Rightarrow> Inl (Storage ''entries_for_ledger not supported on Lsmc backend; use TieredReader''))"


section \<open>What the operations keep\<close>

text \<open>The parts of a backend that never change, and the keys that it holds.\<close>

definition same_names :: "('k, 'c, 's) lsmc_backend \<Rightarrow> ('k, 'c, 's) lsmc_backend \<Rightarrow> bool" where
  "same_names b b' \<longleftrightarrow> nl_journal_cfg b' = nl_journal_cfg b \<and> nl_wal_index b' = nl_wal_index b
     \<and> nl_entry_index b' = nl_entry_index b"

definition node_partitions :: "('k, 'c, 's) lsmc_backend \<Rightarrow> bool" where
  "node_partitions b \<longleftrightarrow>
     distinct [jc_registry (nl_journal_cfg b), ix_locations (nl_entry_index b), ix_locations (nl_wal_index b),
               ix_ledgers (nl_entry_index b)]"

definition cached :: "('k, 'c, 's) lsmc_backend \<Rightarrow> u64 \<times> u64 \<Rightarrow> bool" where
  "cached b k \<longleftrightarrow> cache_contains (nl_cache b) (fst k) (snd k)"

lemma same_names_refl [simp]: "same_names b b"
  by (simp add: same_names_def)

lemma same_names_trans: "same_names b b1 \<Longrightarrow> same_names b1 b2 \<Longrightarrow> same_names b b2"
  by (simp add: same_names_def)

lemma same_names_partitions: "same_names b b' \<Longrightarrow> node_partitions b' = node_partitions b"
  by (simp add: same_names_def node_partitions_def)

lemma nl_set_ks_simps [simp]:
  "nl_ks (nl_set_ks ks b) = ks" "nl_journal_cfg (nl_set_ks ks b) = nl_journal_cfg b"
  "nl_wal_index (nl_set_ks ks b) = nl_wal_index b" "nl_entry_index (nl_set_ks ks b) = nl_entry_index b"
  "nl_cache (nl_set_ks ks b) = nl_cache b" "cached (nl_set_ks ks b) = cached b"
  "same_names b (nl_set_ks ks b)" "nl_reader (nl_set_ks ks b) = nl_reader b"
  "nl_blocks (nl_set_ks ks b) = nl_blocks b" "nl_s3 (nl_set_ks ks b) = nl_s3 b"
  by (simp_all add: nl_set_ks_def same_names_def cached_def fun_eq_iff)

lemma cached_cong: "nl_cache b' = nl_cache b \<Longrightarrow> cached b' = cached b"
  by (rule ext) (simp add: cached_def)

lemma cache_contains_insert:
  "cache_contains (cache_insert c l e p) l' e' \<longleftrightarrow> (l', e') = (l, e) \<or> cache_contains c l' e'"
  by (auto simp: cache_contains_def cache_insert_def update_conv')

lemma raise_to_ge: "\<exists>h. raise_to k v m k = Some h \<and> v \<le> h"
  by (auto simp: raise_to_def split: option.splits)

lemma raise_to_mono: "m k' = Some x \<Longrightarrow> \<exists>y. raise_to k v m k' = Some y \<and> x \<le> y"
  by (auto simp: raise_to_def split: option.splits)

lemma write_and_ack_ks: "write_and_ack wo so buf reqs st = (r, st') \<Longrightarrow> js_ks st' = js_ks st"
  by (auto simp: write_and_ack_def Let_def split: io_write.splits if_splits option.splits)

lemma add_finish_simps [simp]:
  "sv_backend (add_finish env e sv) = sv_backend sv" "sv_fences (add_finish env e sv) = sv_fences sv"
  "sv_hi_entry (add_finish env e sv) = sv_hi_entry sv" "sv_node_id (add_finish env e sv) = sv_node_id sv"
  "sv_known_ledgers (add_finish env e sv) = sv_known_ledgers sv"
  by (simp_all add: add_finish_def)

text \<open>From one keyspace to another: the ledger states stay readable and no fence is lost.\<close>

definition keeps_fences ::
  "'k db_api \<Rightarrow> ('k \<Rightarrow> string \<Rightarrow> bytes \<Rightarrow> bytes option) \<Rightarrow> FjallIndex \<Rightarrow> 'k \<Rightarrow> 'k \<Rightarrow> bool" where
  "keeps_fences D kv idx ks ks' \<longleftrightarrow>
     (state_wf D (kv ks (ix_ledgers idx)) \<longrightarrow> state_wf D (kv ks' (ix_ledgers idx)))
     \<and> (\<forall>l s. state_map D (kv ks (ix_ledgers idx)) l = Some s \<and> ls_is_fenced s \<longrightarrow>
          (\<exists>s'. state_map D (kv ks' (ix_ledgers idx)) l = Some s' \<and> ls_is_fenced s'))"

context db_laws
begin

lemma do_seal_kv:
  assumes "q \<noteq> jc_registry cfg" and "do_seal D cfg so st = (r, st')"
  shows "kv (js_ks st') q = kv (js_ks st) q"
proof -
  note up = upsert_frame[OF assms(1)]
  show ?thesis
    using assms(2) by (auto simp: do_seal_def Let_def register_active_def up split: option.splits sum.splits prod.splits)
qed

lemma journal_step_kv:
  assumes "q \<noteq> jc_registry cfg" and "journal_step D crc cfg env m channel st = (replies, rest, st')"
  shows "kv (js_ks st') q = kv (js_ks st) q"
proof (cases m)
  case (JSeal a)
  with assms(2) show ?thesis
    by (auto simp: journal_step_def after_seal_def dest!: do_seal_kv[OF assms(1)] split: prod.splits sum.splits)
next
  case (JWrite w)
  with assms(2) show ?thesis
    by (auto simp: journal_step_def after_seal_def dest!: do_seal_kv[OF assms(1)] write_and_ack_ks
        split: prod.splits sum.splits if_splits)
qed

lemma journal_append_kv:
  "q \<noteq> jc_registry cfg \<Longrightarrow> journal_append D crc cfg env channel w st = (r, st') \<Longrightarrow> kv (js_ks st') q = kv (js_ks st) q"
  by (auto simp: journal_append_def dest: journal_step_kv split: prod.splits)

lemma persist_kv: "persist D ks = (r, ks') \<Longrightarrow> kv ks' = kv ks"
  by (auto simp: persist_def dest: law_persist split: prod.splits)

lemma keeps_fences_eq: "kv ks' (ix_ledgers idx) = kv ks (ix_ledgers idx) \<Longrightarrow> keeps_fences D kv idx ks ks'"
  by (simp add: keeps_fences_def)

lemma keeps_fences_trans: "keeps_fences D kv idx ks ks1 \<Longrightarrow> keeps_fences D kv idx ks1 ks2 \<Longrightarrow> keeps_fences D kv idx ks ks2"
  unfolding keeps_fences_def by meson

lemma ensure_known_keeps:
  assumes "ensure_ledger_known D idx ks l mk = (r, ks')"
  shows "q \<noteq> ix_ledgers idx \<Longrightarrow> kv ks' q = kv ks q" and "keeps_fences D kv idx ks ks'"
proof -
  show "kv ks' q = kv ks q" if "q \<noteq> ix_ledgers idx"
    using assms that ensure_known_err[of idx ks l mk] ensure_known_ok(3)[of idx ks l mk] by (cases r) auto
  show "keeps_fences D kv idx ks ks'"
  proof (cases r)
    case (Inl e)
    with assms ensure_known_err show ?thesis by (auto intro: keeps_fences_eq)
  next
    case (Inr c)
    note ok = ensure_known_ok[OF assms[unfolded Inr]]
    show ?thesis unfolding keeps_fences_def ok(1) using ok(4) by auto
  qed
qed

text \<open>Registering a ledger touches the ledger states only, and keeps every fence.\<close>

lemma register_ledger_keeps:
  assumes "register_ledger D idx e known ks = (r, known', ks')"
  shows "q \<noteq> ix_ledgers idx \<Longrightarrow> kv ks' q = kv ks q" and "keeps_fences D kv idx ks ks'"
proof -
  obtain r1 ks1 where en: "ensure_ledger_known D idx ks (e_ledger_id e) (e_master_key e) = (r1, ks1)" by force
  obtain r2 ks2 where pe: "persist D ks1 = (r2, ks2)" by force
  have "ks' = ks \<or> ks' = ks1 \<or> ks' = ks2"
    using assms en pe
    by (cases "e_master_key e") (auto simp: register_ledger_def Let_def split: sum.splits if_splits)
  then have "kv ks' = kv ks \<or> kv ks' = kv ks1" using persist_kv[OF pe] by auto
  with ensure_known_keeps[OF en] show "q \<noteq> ix_ledgers idx \<Longrightarrow> kv ks' q = kv ks q" and "keeps_fences D kv idx ks ks'"
    by (auto simp: keeps_fences_def)
qed

end


text \<open>An index knows where the entry is, one of the two.\<close>

definition located ::
  "'k db_api \<Rightarrow> ('k \<Rightarrow> string \<Rightarrow> bytes \<Rightarrow> bytes option) \<Rightarrow> ('k, 'c, 's) lsmc_backend \<Rightarrow> u64 \<times> u64 \<Rightarrow> bool" where
  "located D kv b k \<longleftrightarrow>
     loc_map D (kv (nl_ks b) (ix_locations (nl_entry_index b))) k \<noteq> None
     \<or> loc_map D (kv (nl_ks b) (ix_locations (nl_wal_index b))) k \<noteq> None"

definition locs_wf :: "'k db_api \<Rightarrow> ('k \<Rightarrow> string \<Rightarrow> bytes \<Rightarrow> bytes option) \<Rightarrow> ('k, 'c, 's) lsmc_backend \<Rightarrow> bool" where
  "locs_wf D kv b \<longleftrightarrow>
     loc_wf D (kv (nl_ks b) (ix_locations (nl_entry_index b)))
     \<and> loc_wf D (kv (nl_ks b) (ix_locations (nl_wal_index b)))"

text \<open>What every operation of the service keeps of an LSM-C backend.\<close>

definition backend_kept ::
  "'k db_api \<Rightarrow> ('k \<Rightarrow> string \<Rightarrow> bytes \<Rightarrow> bytes option) \<Rightarrow> ('k, 'c, 's) lsmc_backend \<Rightarrow> ('k, 'c, 's) lsmc_backend \<Rightarrow> bool" where
  "backend_kept D kv b b' \<longleftrightarrow> same_names b b' \<and> keeps_fences D kv (nl_entry_index b) (nl_ks b) (nl_ks b')
     \<and> located D kv b' = located D kv b \<and> (locs_wf D kv b \<longrightarrow> locs_wf D kv b')"

lemma backend_kept_refl [simp]: "backend_kept D kv b b"
  by (simp add: backend_kept_def keeps_fences_def)

lemma log_and_cache_cases:
  assumes "log_and_cache D crc env e b = (r, b')"
  obtains (ser) err where "r = Inl err" "b' = b"
    | (log) err j w where "r = Inl err" "b' = b\<lparr> nl_journal := j \<rparr>"
        "journal_append D crc (nl_journal_cfg b) (ae_disk env) (ae_channel env) w (nl_journal b) = (Inl err, j)"
    | (ok) loc j payload where "r = Inr True"
        "bc_ser_se D \<lparr> se_entry = e, se_appended_at_ms = ae_now env \<rparr> = Inr payload"
        "journal_append D crc (nl_journal_cfg b) (ae_disk env) (ae_channel env)
           \<lparr> wr_ack = ae_ack env, wr_ledger_id = e_ledger_id e, wr_entry_id = e_entry_id e, wr_payload = payload \<rparr>
           (nl_journal b) = (Inr loc, j)"
        "b' = b\<lparr> nl_journal := j, nl_cache := cache_insert (nl_cache b) (e_ledger_id e) (e_entry_id e) payload \<rparr>"
  using assms by (auto simp: log_and_cache_def Let_def split: sum.splits prod.splits)

context db_laws
begin

lemma kept_by_frame:
  assumes "same_names b b'" and "keeps_fences D kv (nl_entry_index b) (nl_ks b) (nl_ks b')"
    and "kv (nl_ks b') (ix_locations (nl_entry_index b)) = kv (nl_ks b) (ix_locations (nl_entry_index b))"
    and "kv (nl_ks b') (ix_locations (nl_wal_index b)) = kv (nl_ks b) (ix_locations (nl_wal_index b))"
  shows "backend_kept D kv b b'"
proof -
  have "located D kv b' = located D kv b"
    by (rule ext) (use assms in \<open>simp add: located_def same_names_def\<close>)
  with assms show ?thesis by (simp add: backend_kept_def locs_wf_def same_names_def)
qed

lemma is_duplicate_ok:
  "is_duplicate D b l e = Inr d \<Longrightarrow> d \<longleftrightarrow> cached b (l, e) \<or> located D kv b (l, e)"
  by (auto simp: is_duplicate_def cached_def located_def dest!: get_location_ok split: if_splits sum.splits option.splits)

lemma log_and_cache_kept:
  assumes "log_and_cache D crc env e b = (r, b')" and p: "node_partitions b"
  shows "backend_kept D kv b b'"
proof -
  have "same_names b b' \<and> (\<forall>q. q \<noteq> jc_registry (nl_journal_cfg b) \<longrightarrow> kv (nl_ks b') q = kv (nl_ks b) q)"
    using assms(1)
  proof (cases rule: log_and_cache_cases)
    case ser
    then show ?thesis by simp
  next
    case (log err j w)
    then show ?thesis using journal_append_kv[OF _ log(3)] by (simp add: same_names_def)
  next
    case (ok loc j payload)
    then show ?thesis using journal_append_kv[OF _ ok(3)] by (simp add: same_names_def)
  qed
  with p show ?thesis by (intro kept_by_frame keeps_fences_eq) (auto simp: node_partitions_def)
qed

lemma backend_kept_trans:
  "backend_kept D kv b b1 \<Longrightarrow> backend_kept D kv b1 b2 \<Longrightarrow> backend_kept D kv b b2"
  unfolding backend_kept_def
  by (auto simp: same_names_def intro: keeps_fences_trans)

text \<open>
  The LSM-C write as a whole. A new entry enters the cache and raises the highest entry; a duplicate
  was cached or located before; an error adds nothing.
\<close>

lemma lsmc_write_effect:
  assumes A: "na_db A = D" and p: "node_partitions b" and w: "lsmc_write A env e b sv = (r, sv')"
  obtains b' where "sv_backend sv' = Lsmc b'" and "backend_kept D kv b b'"
    and "sv_fences sv' = sv_fences sv" and "sv_lac sv' = sv_lac sv" and "sv_node_id sv' = sv_node_id sv"
    and "r = Inr True \<longrightarrow> \<not> cached b (e_ledger_id e, e_entry_id e) \<and> \<not> located D kv b (e_ledger_id e, e_entry_id e)
        \<and> sv_hi_entry sv' = raise_to (e_ledger_id e) (e_entry_id e) (sv_hi_entry sv)
        \<and> (\<exists>payload. bc_ser_se D \<lparr> se_entry = e, se_appended_at_ms = ae_now env \<rparr> = Inr payload
             \<and> nl_cache b' = cache_insert (nl_cache b) (e_ledger_id e) (e_entry_id e) payload)"
    and "r \<noteq> Inr True \<longrightarrow> nl_cache b' = nl_cache b \<and> sv_hi_entry sv' = sv_hi_entry sv"
    and "r = Inr False \<longrightarrow> cached b (e_ledger_id e, e_entry_id e) \<or> located D kv b (e_ledger_id e, e_entry_id e)"
proof -
  obtain r1 known ks1 where rl: "register_ledger D (nl_entry_index b) e (sv_known_ledgers sv) (nl_ks b) = (r1, known, ks1)"
    by (metis prod_cases3)
  let ?b1 = "nl_set_ks ks1 b" and ?k = "(e_ledger_id e, e_entry_id e)"
  note rk = register_ledger_keeps[OF rl]
  have k1: "backend_kept D kv b ?b1"
    using rk p by (intro kept_by_frame) (auto simp: node_partitions_def)
  have p1: "node_partitions ?b1" using p by (simp add: same_names_partitions[OF nl_set_ks_simps(7)])
  note w' = w[unfolded lsmc_write_def A Let_def rl prod.case]
  consider (early) "r \<noteq> Inr True" "sv' = sv\<lparr> sv_backend := Lsmc ?b1, sv_known_ledgers := known \<rparr>"
      "r = Inr False \<longrightarrow> is_duplicate D ?b1 (e_ledger_id e) (e_entry_id e) = Inr True"
    | (late) r2 b2 where "is_duplicate D ?b1 (e_ledger_id e) (e_entry_id e) = Inr False"
      "log_and_cache D (na_crc A) env e ?b1 = (r2, b2)"
      "if isl r2 then isl r \<and> sv' = sv\<lparr> sv_backend := Lsmc b2, sv_known_ledgers := known \<rparr>
       else r = Inr True \<and> sv' = sv\<lparr> sv_backend := Lsmc b2, sv_known_ledgers := known,
          sv_hi_entry := raise_to (e_ledger_id e) (e_entry_id e) (sv_hi_entry sv) \<rparr>"
  proof (cases "\<not> isl r1 \<and> \<not> isl (check_hmac D (na_mac A) (nl_entry_index b) e ks1)
      \<and> is_duplicate D ?b1 (e_ledger_id e) (e_entry_id e) = Inr False")
    case True
    obtain r2 b2 where lc: "log_and_cache D (na_crc A) env e ?b1 = (r2, b2)" by force
    from True w' lc show thesis by (intro late) (auto simp: isl_def split: sum.splits)
  next
    case False
    then show thesis
    proof (intro early)
      show "r \<noteq> Inr True" "sv' = sv\<lparr> sv_backend := Lsmc ?b1, sv_known_ledgers := known \<rparr>"
        "r = Inr False \<longrightarrow> is_duplicate D ?b1 (e_ledger_id e) (e_entry_id e) = Inr True"
        using w' False by (auto simp: isl_def split: sum.splits bool.splits)
    qed
  qed
  then show thesis
  proof cases
    case early
    have "cached b ?k \<or> located D kv b ?k" if "r = Inr False"
      using early(3) that is_duplicate_ok[of ?b1] k1 by (auto simp: backend_kept_def)
    with early k1 show thesis by (intro that[of ?b1]) simp_all
  next
    case (late r2 b2)
    note k2 = backend_kept_trans[OF k1 log_and_cache_kept[OF late(2) p1]]
    have nc: "\<not> cached b ?k" "\<not> located D kv b ?k" using is_duplicate_ok[OF late(1)] k1 by (auto simp: backend_kept_def)
    show thesis using late(2)
    proof (cases rule: log_and_cache_cases)
      case (ok loc j payload)
      with late(3) nc k2 show thesis by (intro that[of b2]) auto
    qed (use late(3) k2 in \<open>(intro that[of b2]; auto)+\<close>)
  qed
qed

end


section \<open>Runs of the service\<close>

text \<open>
  What the flush loop, the journal thread, the offloader and the log collection may do to a backend
  between two requests: an entry that leaves the cache is located by then, no location is lost, and
  the ledger states are not theirs to change.
\<close>

definition background ::
  "'k db_api \<Rightarrow> ('k \<Rightarrow> string \<Rightarrow> bytes \<Rightarrow> bytes option) \<Rightarrow> ('k, 'c, 's) lsmc_backend \<Rightarrow> ('k, 'c, 's) lsmc_backend \<Rightarrow> bool" where
  "background D kv b b' \<longleftrightarrow> same_names b b'
     \<and> kv (nl_ks b') (ix_ledgers (nl_entry_index b)) = kv (nl_ks b) (ix_ledgers (nl_entry_index b))
     \<and> (\<forall>k. located D kv b k \<longrightarrow> located D kv b' k)
     \<and> (\<forall>k. located D kv b' k \<longrightarrow> located D kv b k \<or> cached b k)
     \<and> (\<forall>k. cached b' k \<longrightarrow> cached b k)
     \<and> (locs_wf D kv b \<longrightarrow> locs_wf D kv b')"

text \<open>
  Requests one after the other, with background work between them, and the entries that were
  acknowledged on the way. The entry id \<open>u64::MAX\<close>, whose successor is zero, is not used.
\<close>

inductive service_run ::
  "('k, 'c, 's, 'j, 'i) node_api \<Rightarrow> ('k \<Rightarrow> string \<Rightarrow> bytes \<Rightarrow> bytes option) \<Rightarrow> ('k, 'c, 's, 'j, 'i) JournalService
   \<Rightarrow> (u64 \<times> u64) set \<Rightarrow> ('k, 'c, 's, 'j, 'i) JournalService \<Rightarrow> bool"
  for A kv sv0 where
  sr_start: "service_run A kv sv0 {} sv0"
| sr_add: "service_run A kv sv0 acks sv \<Longrightarrow> add_entry A env e sv = (r, sv') \<Longrightarrow> e_entry_id e \<noteq> - 1 \<Longrightarrow>
    acks' = (if isl r then acks else insert (e_ledger_id e, e_entry_id e) acks) \<Longrightarrow> service_run A kv sv0 acks' sv'"
| sr_fence: "service_run A kv sv0 acks sv \<Longrightarrow> fence_ledger A l sv = (r, sv') \<Longrightarrow> service_run A kv sv0 acks sv'"
| sr_read: "service_run A kv sv0 acks sv \<Longrightarrow> node_read_entry A l i sv = (r, sv') \<Longrightarrow> service_run A kv sv0 acks sv'"
| sr_seal: "service_run A kv sv0 acks sv \<Longrightarrow> service_seal A env a sv = (r, sv') \<Longrightarrow> service_run A kv sv0 acks sv'"
| sr_background: "service_run A kv sv0 acks sv \<Longrightarrow> sv_backend sv = Lsmc b \<Longrightarrow> background (na_db A) kv b b' \<Longrightarrow>
    service_run A kv sv0 acks (sv\<lparr> sv_backend := Lsmc b' \<rparr>)"

text \<open>The highest entry in memory, or one of the indexes, accounts for the entry.\<close>

definition covered ::
  "'k db_api \<Rightarrow> ('k \<Rightarrow> string \<Rightarrow> bytes \<Rightarrow> bytes option) \<Rightarrow> (u64 \<Rightarrow> u64 option) \<Rightarrow> ('k, 'c, 's) lsmc_backend \<Rightarrow> u64 \<times> u64 \<Rightarrow> bool" where
  "covered D kv hi b k \<longleftrightarrow> (\<exists>h. hi (fst k) = Some h \<and> snd k \<le> h) \<or> located D kv b k"

definition fenced_on_disk ::
  "'k db_api \<Rightarrow> ('k \<Rightarrow> string \<Rightarrow> bytes \<Rightarrow> bytes option) \<Rightarrow> ('k, 'c, 's) lsmc_backend \<Rightarrow> u64 \<Rightarrow> bool" where
  "fenced_on_disk D kv b l \<longleftrightarrow>
     (\<exists>s. state_map D (kv (nl_ks b) (ix_ledgers (nl_entry_index b))) l = Some s \<and> ls_is_fenced s)"

definition service_inv ::
  "('k, 'c, 's, 'j, 'i) node_api \<Rightarrow> ('k \<Rightarrow> string \<Rightarrow> bytes \<Rightarrow> bytes option) \<Rightarrow> (u64 \<times> u64) set
   \<Rightarrow> ('k, 'c, 's, 'j, 'i) JournalService \<Rightarrow> bool" where
  "service_inv A kv acks sv \<longleftrightarrow>
     (\<exists>b. sv_backend sv = Lsmc b \<and> node_partitions b \<and> locs_wf (na_db A) kv b
        \<and> state_wf (na_db A) (kv (nl_ks b) (ix_ledgers (nl_entry_index b)))
        \<and> (\<forall>k. cached b k \<or> located (na_db A) kv b k \<longrightarrow> snd k \<noteq> - 1)
        \<and> (\<forall>k. cached b k \<or> k \<in> acks \<longrightarrow> covered (na_db A) kv (sv_hi_entry sv) b k))"

lemma kept_state_wf:
  "backend_kept D kv b b' \<Longrightarrow> state_wf D (kv (nl_ks b) (ix_ledgers (nl_entry_index b))) \<Longrightarrow>
   state_wf D (kv (nl_ks b') (ix_ledgers (nl_entry_index b')))"
  by (simp add: backend_kept_def keeps_fences_def same_names_def)

lemma kept_fenced: "backend_kept D kv b b' \<Longrightarrow> fenced_on_disk D kv b l \<Longrightarrow> fenced_on_disk D kv b' l"
  by (auto simp: backend_kept_def keeps_fences_def same_names_def fenced_on_disk_def)

lemma background_fenced: "background D kv b b' \<Longrightarrow> fenced_on_disk D kv b' l = fenced_on_disk D kv b l"
  by (simp add: background_def same_names_def fenced_on_disk_def)

text \<open>An operation that keeps the backend, the cache and the highest entries keeps the invariant.\<close>

lemma service_inv_kept:
  assumes "service_inv A kv acks sv" and "sv_backend sv = Lsmc b" and "sv_backend sv' = Lsmc b'"
    and "backend_kept (na_db A) kv b b'" and "cached b' = cached b" and "sv_hi_entry sv' = sv_hi_entry sv"
  shows "service_inv A kv acks sv'"
  using assms kept_state_wf[OF assms(4)] same_names_partitions[of b b']
  by (auto simp: service_inv_def backend_kept_def covered_def)

lemma service_inv_background:
  assumes "service_inv A kv acks sv" and "sv_backend sv = Lsmc b" and "background (na_db A) kv b b'"
  shows "service_inv A kv acks (sv\<lparr> sv_backend := Lsmc b' \<rparr>)"
proof -
  let ?D = "na_db A"
  from assms(3) have n: "same_names b b'" and l: "kv (nl_ks b') (ix_ledgers (nl_entry_index b')) = kv (nl_ks b) (ix_ledgers (nl_entry_index b))"
    and m: "\<And>k. located ?D kv b k \<Longrightarrow> located ?D kv b' k" "\<And>k. located ?D kv b' k \<Longrightarrow> located ?D kv b k \<or> cached b k"
      "\<And>k. cached b' k \<Longrightarrow> cached b k" "locs_wf ?D kv b \<Longrightarrow> locs_wf ?D kv b'"
    by (auto simp: background_def same_names_def)
  from assms(1,2) have i: "node_partitions b" "locs_wf ?D kv b" "state_wf ?D (kv (nl_ks b) (ix_ledgers (nl_entry_index b)))"
    "\<And>k. cached b k \<or> located ?D kv b k \<Longrightarrow> snd k \<noteq> - 1"
    "\<And>k. cached b k \<or> k \<in> acks \<Longrightarrow> covered ?D kv (sv_hi_entry sv) b k"
    by (auto simp: service_inv_def)
  have "covered ?D kv (sv_hi_entry sv) b' k" if "cached b' k \<or> k \<in> acks" for k
    using i(5)[of k] m(1)[of k] m(3)[of k] that unfolding covered_def by metis
  moreover have "snd k \<noteq> - 1" if "cached b' k \<or> located ?D kv b' k" for k
    using i(4)[of k] m(2)[of k] m(3)[of k] that by metis
  ultimately show ?thesis
    using i(1-3) m(4) l same_names_partitions[OF n]
    unfolding service_inv_def by (intro exI[of _ b'] conjI allI impI) (simp_all del: split_paired_All)
qed


context db_laws
begin

lemma persist_fence_ok:
  assumes "persist_fence D idx l ks = (r, ks')"
  shows "q \<noteq> ix_ledgers idx \<Longrightarrow> kv ks' q = kv ks q" and "keeps_fences D kv idx ks ks'"
    and "r = Inr u \<Longrightarrow> \<exists>s. state_map D (kv ks' (ix_ledgers idx)) l = Some s \<and> ls_is_fenced s"
proof -
  obtain r1 ks1 where f: "index_fence_ledger D idx ks l = (r1, ks1)" by force
  have k: "kv ks' = kv ks1" and r: "r = Inr u \<Longrightarrow> \<not> isl r1"
    using assms f by (auto simp: persist_fence_def dest: persist_kv split: sum.splits)
  show "kv ks' q = kv ks q" if "q \<noteq> ix_ledgers idx"
    using f k that index_fence_err[of idx ks l] index_fence_ok(2)[of idx ks l] by (cases r1) auto
  show "keeps_fences D kv idx ks ks'"
  proof (cases r1)
    case (Inl e)
    with f index_fence_err k show ?thesis by (auto intro: keeps_fences_eq)
  next
    case (Inr v)
    note ok = index_fence_ok[OF f[unfolded Inr]]
    show ?thesis unfolding keeps_fences_def k ok(1) using ok(3) by auto
  qed
  show "\<exists>s. state_map D (kv ks' (ix_ledgers idx)) l = Some s \<and> ls_is_fenced s" if "r = Inr u"
  proof (cases r1)
    case (Inr v)
    from index_fence_ok(1)[OF f[unfolded Inr]] show ?thesis unfolding k by simp
  qed (use r[OF that] in simp)
qed

lemma saturating_next:
  assumes "get_next_entry_id D idx ks l = Inr n" and "loc_wf D (kv ks (ix_locations idx))"
    and "loc_map D (kv ks (ix_locations idx)) (l, e) \<noteq> None"
    and "\<And>e. loc_map D (kv ks (ix_locations idx)) (l, e) \<noteq> None \<Longrightarrow> e \<noteq> - 1"
  shows "e \<le> saturating_pred n"
proof -
  from next_entry_id_ok[OF assms(1,2)] assms(3) obtain m where m: "loc_map D (kv ks (ix_locations idx)) (l, m) \<noteq> None"
    "e \<le> m" "n = m + 1" by (elim disjE conjE exE) auto
  from assms(4)[OF m(1)] have "n \<noteq> 0" using m(3) by (metis add.inverse_unique add.commute)
  with m show ?thesis by (simp add: saturating_pred_def)
qed

text \<open>
  Fencing on the LSM-C backend: the flag is on disk before the call returns, and the answer is at
  least every entry that is accounted for.
\<close>

lemma fence_effect:
  assumes A: "na_db A = D" and p: "node_partitions b" and sv: "sv_backend sv = Lsmc b"
    and f: "fence_ledger A l sv = (r, sv')"
  obtains b' where "sv_backend sv' = Lsmc b'" and "backend_kept D kv b b'" and "nl_cache b' = nl_cache b"
    and "sv_hi_entry sv' = sv_hi_entry sv" and "sv_lac sv' = sv_lac sv" and "sv_fences sv \<subseteq> sv_fences sv'"
    and "r = Inr n \<longrightarrow> l \<in> sv_fences sv' \<and> fenced_on_disk D kv b' l
        \<and> (locs_wf D kv b \<longrightarrow> (\<forall>k. located D kv b k \<longrightarrow> snd k \<noteq> - 1) \<longrightarrow>
             (\<forall>e. covered D kv (sv_hi_entry sv) b (l, e) \<longrightarrow> e \<le> n))"
proof -
  obtain r1 ks1 where pf: "persist_fence D (nl_entry_index b) l (nl_ks b) = (r1, ks1)" by force
  note pk = persist_fence_ok[OF pf]
  let ?b = "nl_set_ks ks1 b"
  have kept: "backend_kept D kv b ?b"
    using pk p by (intro kept_by_frame) (auto simp: node_partitions_def)
  show thesis
  proof (cases r1)
    case (Inl err)
    with f sv pf kept show thesis by (intro that[of ?b]) (auto simp: fence_ledger_def A Let_def)
  next
    case (Inr u)
    have sv': "sv' = sv\<lparr> sv_backend := Lsmc ?b, sv_fences := insert l (sv_fences sv) \<rparr>"
      and r: "r = map_sum id (max (or_zero (sv_hi_entry sv l))) (highest_stored D ?b l)"
      using f sv pf Inr by (auto simp: fence_ledger_def A Let_def)
    have hi: "e \<le> n" if n: "r = Inr n" and wf: "locs_wf D kv b" and ne: "\<forall>k. located D kv b k \<longrightarrow> snd k \<noteq> - 1"
      and c: "covered D kv (sv_hi_entry sv) b (l, e)" for e
    proof -
      from n r obtain m1 m2 where g: "get_next_entry_id D (nl_entry_index ?b) (nl_ks ?b) l = Inr m1"
        "get_next_entry_id D (nl_wal_index ?b) (nl_ks ?b) l = Inr m2"
        and nn: "n = max (or_zero (sv_hi_entry sv l)) (max (saturating_pred m1) (saturating_pred m2))"
        by (auto simp: highest_stored_def split: sum.splits)
      from kept wf have wf': "locs_wf D kv ?b" and loc: "located D kv ?b = located D kv b"
        by (auto simp: backend_kept_def)
      have ne': "e' \<noteq> - 1" if "located D kv ?b (l, e')" for e' using ne that loc by force
      from c consider (mem) h where "sv_hi_entry sv l = Some h" "e \<le> h" | (disk) "located D kv ?b (l, e)"
        by (auto simp: covered_def loc)
      then show ?thesis
      proof cases
        case mem
        then show ?thesis by (simp add: nn or_zero_def le_max_iff_disj)
      next
        case disk
        with saturating_next[OF g(1)] saturating_next[OF g(2)] wf' ne'
        have "e \<le> saturating_pred m1 \<or> e \<le> saturating_pred m2" unfolding locs_wf_def located_def by blast
        then show ?thesis by (auto simp: nn le_max_iff_disj)
      qed
    qed
    have "fenced_on_disk D kv ?b l" using pk(3)[OF Inr] by (simp add: fenced_on_disk_def)
    with kept hi sv' show thesis by (intro that[of ?b]) auto
  qed
qed

lemma read_effect:
  assumes "sv_backend sv = Lsmc b" and "node_read_entry A l i sv = (r, sv')"
  obtains b' where "sv_backend sv' = Lsmc b'" and "backend_kept D kv b b'" and "nl_cache b' = nl_cache b"
    and "sv_hi_entry sv' = sv_hi_entry sv" and "sv_lac sv' = sv_lac sv" and "sv_fences sv' = sv_fences sv"
proof -
  have "sv' = sv \<or> (\<exists>bc. sv' = sv\<lparr> sv_backend := Lsmc (b\<lparr> nl_blocks := bc \<rparr>) \<rparr>)"
    using assms by (auto simp: node_read_entry_def split: option.splits prod.splits)
  moreover have "backend_kept D kv b (b\<lparr> nl_blocks := bc \<rparr>)" for bc
    by (intro kept_by_frame) (auto simp: same_names_def keeps_fences_def)
  ultimately show thesis using assms(1) by (auto intro: that)
qed

lemma seal_effect:
  assumes A: "na_db A = D" and p: "node_partitions b" and "sv_backend sv = Lsmc b" and "service_seal A env a sv = (r, sv')"
  obtains b' where "sv_backend sv' = Lsmc b'" and "backend_kept D kv b b'" and "nl_cache b' = nl_cache b"
    and "sv_hi_entry sv' = sv_hi_entry sv" and "sv_lac sv' = sv_lac sv" and "sv_fences sv' = sv_fences sv"
proof -
  obtain rs rest j where st: "journal_step D (na_crc A) (nl_journal_cfg b) env (JSeal a) [] (nl_journal b) = (rs, rest, j)"
    by (metis prod_cases3)
  have sv': "sv' = sv\<lparr> sv_backend := Lsmc (b\<lparr> nl_journal := j \<rparr>) \<rparr>"
    using assms(3,4) st by (auto simp: service_seal_def journal_seal_def A)
  have "backend_kept D kv b (b\<lparr> nl_journal := j \<rparr>)"
    using journal_step_kv[OF _ st] p
    by (intro kept_by_frame keeps_fences_eq) (auto simp: same_names_def node_partitions_def)
  with sv' show thesis by (intro that[of "b\<lparr> nl_journal := j \<rparr>"]) auto
qed

end


text \<open>Every request keeps the invariant and adds what it acknowledged.\<close>

context db_laws
begin

lemma add_rest_inv:
  assumes A: "na_db A = D" and inv: "service_inv A kv acks sv" and w: "add_rest A env e sv = (r, sv')"
    and ne: "e_entry_id e \<noteq> - 1"
  shows "service_inv A kv (if isl r then acks else insert (e_ledger_id e, e_entry_id e) acks) sv'"
proof -
  let ?k = "(e_ledger_id e, e_entry_id e)"
  from inv obtain b where b: "sv_backend sv = Lsmc b" and p: "node_partitions b" by (auto simp: service_inv_def)
  obtain w1 sv1 where lw: "lsmc_write A env e b sv = (w1, sv1)" by force
  obtain b' where b': "sv_backend sv1 = Lsmc b'" and k: "backend_kept D kv b b'"
    and new: "w1 = Inr True \<longrightarrow> \<not> cached b ?k \<and> \<not> located D kv b ?k \<and> sv_hi_entry sv1 = raise_to (e_ledger_id e) (e_entry_id e) (sv_hi_entry sv)
        \<and> (\<exists>payload. bc_ser_se D \<lparr> se_entry = e, se_appended_at_ms = ae_now env \<rparr> = Inr payload
             \<and> nl_cache b' = cache_insert (nl_cache b) (e_ledger_id e) (e_entry_id e) payload)"
    and old: "w1 \<noteq> Inr True \<longrightarrow> nl_cache b' = nl_cache b \<and> sv_hi_entry sv1 = sv_hi_entry sv"
    and dup: "w1 = Inr False \<longrightarrow> cached b ?k \<or> located D kv b ?k"
    by (rule lsmc_write_effect[OF A p lw]) (rule that)
  have r: "isl r = isl w1" "sv' = (if w1 = Inr True then add_finish env e sv1 else sv1)"
    using w lw b by (auto simp: add_rest_def add_write_def Let_def split: sum.splits bool.splits)
  show ?thesis
  proof (cases "w1 = Inr True")
    case True
    with new have hi: "sv_hi_entry sv1 = raise_to (e_ledger_id e) (e_entry_id e) (sv_hi_entry sv)"
      and c: "\<And>k. cached b' k \<longleftrightarrow> k = ?k \<or> cached b k"
      by (auto simp: cached_def cache_contains_insert prod_eq_iff)
    have loc: "located D kv b' = located D kv b" using k by (simp add: backend_kept_def)
    have up: "covered D kv (sv_hi_entry sv1) b' k" if "covered D kv (sv_hi_entry sv) b k" for k
      using that raise_to_mono[of "sv_hi_entry sv" "fst k"] order.trans unfolding covered_def hi loc by meson
    have here: "covered D kv (sv_hi_entry sv1) b' ?k" using raise_to_ge by (simp add: covered_def hi)
    show ?thesis
      using inv b b' k up here ne kept_state_wf[OF k] same_names_partitions[of b b']
      by (auto simp: service_inv_def r True c loc A backend_kept_def simp del: split_paired_All)
  next
    case False
    with old have "cached b' = cached b" "sv_hi_entry sv1 = sv_hi_entry sv" by (simp_all add: cached_def fun_eq_iff)
    with service_inv_kept[OF inv b b'] k have i: "service_inv A kv acks sv'" by (simp add: r False A)
    have "covered D kv (sv_hi_entry sv) b ?k" if "\<not> isl r"
      using dup that False r(1) inv b by (cases w1) (auto simp: service_inv_def A covered_def)
    then show ?thesis using i b' k old False
      by (auto simp: service_inv_def A r covered_def backend_kept_def simp del: split_paired_All)
  qed
qed

lemma service_run_inv:
  assumes "service_run A kv sv0 acks sv" and A: "na_db A = D" and "service_inv A kv {} sv0"
  shows "service_inv A kv acks sv"
  using assms(1)
proof induction
  case sr_start
  then show ?case by (rule assms(3))
next
  case (sr_add acks sv env e r sv' acks')
  then show ?case using add_rest_inv[OF A sr_add.IH, of env e r sv']
    by (auto simp: add_entry_def split: sum.splits)
next
  case (sr_fence acks sv l r sv')
  then obtain b where b: "sv_backend sv = Lsmc b" "node_partitions b" by (auto simp: service_inv_def)
  obtain b' where x: "sv_backend sv' = Lsmc b'"
    "backend_kept D kv b b'" "nl_cache b' = nl_cache b" "sv_hi_entry sv' = sv_hi_entry sv"
    by (rule fence_effect[OF A b(2,1) sr_fence.hyps(2), where n = 0]) (rule that)
  from service_inv_kept[OF sr_fence.IH b(1) x(1) _ cached_cong[OF x(3)] x(4)] x(2) show ?case by (simp add: A)
next
  case (sr_read acks sv l i r sv')
  then obtain b where b: "sv_backend sv = Lsmc b" by (auto simp: service_inv_def)
  obtain b' where x: "sv_backend sv' = Lsmc b'"
    "backend_kept D kv b b'" "nl_cache b' = nl_cache b" "sv_hi_entry sv' = sv_hi_entry sv"
    by (rule read_effect[OF b sr_read.hyps(2)]) (rule that)
  from service_inv_kept[OF sr_read.IH b(1) x(1) _ cached_cong[OF x(3)] x(4)] x(2) show ?case by (simp add: A)
next
  case (sr_seal acks sv env a r sv')
  then obtain b where b: "sv_backend sv = Lsmc b" "node_partitions b" by (auto simp: service_inv_def)
  obtain b' where x: "sv_backend sv' = Lsmc b'"
    "backend_kept D kv b b'" "nl_cache b' = nl_cache b" "sv_hi_entry sv' = sv_hi_entry sv"
    by (rule seal_effect[OF A b(2,1) sr_seal.hyps(2)]) (rule that)
  from service_inv_kept[OF sr_seal.IH b(1) x(1) _ cached_cong[OF x(3)] x(4)] x(2) show ?case by (simp add: A)
next
  case (sr_background acks sv b b')
  then show ?case by (intro service_inv_background)
qed

end


section \<open>The flush loop is background work\<close>

definition either_loc ::
  "'k db_api \<Rightarrow> ('k \<Rightarrow> string \<Rightarrow> bytes \<Rightarrow> bytes option) \<Rightarrow> flush_config \<Rightarrow> 'k \<Rightarrow> u64 \<times> u64 \<Rightarrow> bool" where
  "either_loc D kv cfg ks k \<longleftrightarrow>
     loc_map D (kv ks (ix_locations (fc_entry_index cfg))) k \<noteq> None
     \<or> loc_map D (kv ks (ix_locations (fc_wal_index cfg))) k \<noteq> None"

definition both_wf :: "'k db_api \<Rightarrow> ('k \<Rightarrow> string \<Rightarrow> bytes \<Rightarrow> bytes option) \<Rightarrow> flush_config \<Rightarrow> 'k \<Rightarrow> bool" where
  "both_wf D kv cfg ks \<longleftrightarrow>
     loc_wf D (kv ks (ix_locations (fc_entry_index cfg))) \<and> loc_wf D (kv ks (ix_locations (fc_wal_index cfg)))"

context db_laws
begin

text \<open>Moving one entry from the log index to the entry index.\<close>

lemma move_location:
  assumes ne: "ix_locations (fc_entry_index cfg) \<noteq> ix_locations (fc_wal_index cfg)"
    and i: "insert_location D (fc_entry_index cfg) ks l e seg off len = (Inr u, ks1)"
  defines "ks2 \<equiv> snd (delete_location D (fc_wal_index cfg) ks1 l e)"
  shows "either_loc D kv cfg ks2 k \<longleftrightarrow> k = (l, e) \<or> either_loc D kv cfg ks k"
    and "both_wf D kv cfg ks \<Longrightarrow> both_wf D kv cfg ks2"
    and "q \<noteq> ix_locations (fc_entry_index cfg) \<Longrightarrow> q \<noteq> ix_locations (fc_wal_index cfg) \<Longrightarrow> kv ks2 q = kv ks q"
proof -
  let ?e = "ix_locations (fc_entry_index cfg)" and ?w = "ix_locations (fc_wal_index cfg)"
  note ins = insert_location_ok[OF i]
  obtain r where d: "delete_location D (fc_wal_index cfg) ks1 l e = (r, ks2)"
    unfolding ks2_def by (metis prod.collapse)
  have e2: "kv ks2 q = kv ks1 q" if "q \<noteq> ?w" for q
    unfolding ks2_def using delete_location_frame[OF that] .
  have w1: "kv ks1 ?w = kv ks ?w" using ins(2) ne by metis
  have w2: "(kv ks2 ?w = kv ks ?w \<or> loc_map D (kv ks2 ?w) = (loc_map D (kv ks ?w))((l, e) := None))
    \<and> (loc_wf D (kv ks ?w) \<longrightarrow> loc_wf D (kv ks2 ?w))"
  proof (cases r)
    case (Inl err)
    from delete_location_err[OF d[unfolded Inl]] w1 show ?thesis by simp
  next
    case (Inr v)
    from delete_location_ok(1,3)[OF d[unfolded Inr]] w1 show ?thesis by simp
  qed
  show "either_loc D kv cfg ks2 k \<longleftrightarrow> k = (l, e) \<or> either_loc D kv cfg ks k"
    using conjunct1[OF w2] by (auto simp: either_loc_def e2[OF ne] ins(1))
  show "both_wf D kv cfg ks \<Longrightarrow> both_wf D kv cfg ks2"
    using conjunct2[OF w2] ins(3) by (simp add: both_wf_def e2[OF ne])
  show "q \<noteq> ?e \<Longrightarrow> q \<noteq> ?w \<Longrightarrow> kv ks2 q = kv ks q" using e2 ins(2) by simp
qed

lemma index_batch_located:
  assumes ne: "ix_locations (fc_entry_index cfg) \<noteq> ix_locations (fc_wal_index cfg)"
    and "index_batch D cfg seg ks sizes zs = (r, ks')"
  shows "either_loc D kv cfg ks k \<Longrightarrow> either_loc D kv cfg ks' k"
    and "either_loc D kv cfg ks' k \<Longrightarrow> either_loc D kv cfg ks k \<or> k \<in> (\<lambda>((l, e, p), _). (l, e)) ` set zs"
    and "both_wf D kv cfg ks \<Longrightarrow> both_wf D kv cfg ks'"
    and "q \<noteq> ix_locations (fc_entry_index cfg) \<Longrightarrow> q \<noteq> ix_locations (fc_wal_index cfg) \<Longrightarrow> kv ks' q = kv ks q"
proof -
  have "(either_loc D kv cfg ks k \<longrightarrow> either_loc D kv cfg ks' k)
    \<and> (either_loc D kv cfg ks' k \<longrightarrow> either_loc D kv cfg ks k \<or> k \<in> (\<lambda>((l, e, p), _). (l, e)) ` set zs)
    \<and> (both_wf D kv cfg ks \<longrightarrow> both_wf D kv cfg ks')
    \<and> (q \<noteq> ix_locations (fc_entry_index cfg) \<longrightarrow> q \<noteq> ix_locations (fc_wal_index cfg) \<longrightarrow> kv ks' q = kv ks q)"
    using assms(2)
  proof (induction zs arbitrary: ks sizes)
    case (Cons z zs)
    obtain l e p off len where z: "z = ((l, e, p), (off, len))" by (metis prod.collapse)
    obtain r1 ks1 where i: "insert_location D (fc_entry_index cfg) ks l e seg off len = (r1, ks1)" by force
    show ?case
    proof (cases r1)
      case (Inl err)
      with Cons.prems i have "kv ks' = kv ks" using insert_location_err by (auto simp: z)
      then show ?thesis by (simp add: either_loc_def both_wf_def)
    next
      case (Inr u)
      note m = move_location[OF ne i[unfolded Inr]]
      from Cons.prems i Inr have "index_batch D cfg seg (snd (delete_location D (fc_wal_index cfg) ks1 l e))
          (add_size sizes l len) zs = (r, ks')" by (simp add: z)
      from Cons.IH[OF this] m show ?thesis by (auto simp: z)
    qed
  qed simp
  then show "either_loc D kv cfg ks k \<Longrightarrow> either_loc D kv cfg ks' k"
    and "either_loc D kv cfg ks' k \<Longrightarrow> either_loc D kv cfg ks k \<or> k \<in> (\<lambda>((l, e, p), _). (l, e)) ` set zs"
    and "both_wf D kv cfg ks \<Longrightarrow> both_wf D kv cfg ks'"
    and "q \<noteq> ix_locations (fc_entry_index cfg) \<Longrightarrow> q \<noteq> ix_locations (fc_wal_index cfg) \<Longrightarrow> kv ks' q = kv ks q"
    by blast+
qed

lemma flush_finish_kv:
  assumes "flush_finish D cfg st = (r, st')" and q: "q \<noteq> fc_entry_registry cfg"
  shows "kv (fl_ks st') q = kv (fl_ks st) q" and "fl_cache st' = fl_cache st \<or> fl_cache st' = evict_warm (fl_cache st)"
proof -
  have s: "kv ks' q = kv ks q" if "seal_active_segment D cfg ks i sealed = (x, ks', y)" for ks i sealed x ks' y
    using that cas_status_frame[OF q, of ks i Active Local]
    by (auto simp: seal_active_segment_def split: sum.splits prod.splits)
  have o: "kv ks' q = kv ks q" if "open_active_segment D cfg ks f i = (x, ks', y)" for ks f i x ks' y
    using that upsert_frame[OF q, of ks]
    by (auto simp: open_active_segment_def split: sum.splits prod.splits) (metis snd_conv)+
  have u: "kv ks' q = kv ks q" if "upsert D (fc_entry_registry cfg) ks m = (x, ks')" for ks m x ks'
    using that upsert_frame[OF q, of ks m] by simp
  show "kv (fl_ks st') q = kv (fl_ks st) q"
    using assms(1) by (auto simp: flush_finish_def Let_def dest!: s o u split: sum.splits prod.splits if_splits)
  show "fl_cache st' = fl_cache st \<or> fl_cache st' = evict_warm (fl_cache st)"
    using assms(1) by (auto simp: flush_finish_def Let_def split: sum.splits prod.splits if_splits)
qed

end


text \<open>The backend that a turn of the flush loop leaves behind.\<close>

definition after_flush :: "('k, 'c, 's) lsmc_backend \<Rightarrow> 'k flush_state \<Rightarrow> ('k, 'c, 's) lsmc_backend" where
  "after_flush b st =
     b\<lparr> nl_journal := (nl_journal b)\<lparr> js_ks := fl_ks st, js_fs := fl_fs st \<rparr>, nl_cache := fl_cache st \<rparr>"

text \<open>The flush loop works on the parts of this backend, with its registry in a partition of its own.\<close>

definition flushes :: "flush_config \<Rightarrow> 'k flush_state \<Rightarrow> ('k, 'c, 's) lsmc_backend \<Rightarrow> bool" where
  "flushes cfg st b \<longleftrightarrow> fl_ks st = nl_ks b \<and> fl_cache st = nl_cache b
     \<and> fc_entry_index cfg = nl_entry_index b \<and> fc_wal_index cfg = nl_wal_index b
     \<and> fc_entry_registry cfg \<notin> {ix_locations (nl_entry_index b), ix_locations (nl_wal_index b), ix_ledgers (nl_entry_index b)}"

lemma evict_warm_contains: "cache_contains (evict_warm c) l e \<Longrightarrow> cache_contains c l e"
  by (simp add: evict_warm_def cache_contains_def)

context db_laws
begin

lemma flush_background:
  assumes p: "node_partitions b" and fb: "flushes cfg st b" and wf: "cache_wf (nl_cache b)" and ord: "is_drain_order ord"
    and it: "flush_iteration D crc ord cfg wo so [] st = (r, st')"
  shows "background D kv b (after_flush b st')"
proof -
  obtain entries cache1 where dr: "drain_hot_to_warm ord (fl_cache st) = (entries, cache1)" by force
  obtain r1 w f1 where wb: "write_batch crc (fl_writer st) (fl_fs st) entries wo = (r1, w, f1)" by (metis prod_cases3)
  have ne: "ix_locations (fc_entry_index cfg) \<noteq> ix_locations (fc_wal_index cfg)"
    using p fb by (auto simp: node_partitions_def flushes_def)
  have c1: "cache_contains cache1 l e = cache_contains (nl_cache b) l e" for l e
    using drain_get[OF wf ord] dr fb by (simp add: cache_contains_get flushes_def)
  have ent: "cached b k" if "k \<in> (\<lambda>((l, e, p), _). (l, e)) ` set (zip entries offs)" for k offs
    using that drain_entries(1)[OF wf ord] dr fb
    by (auto simp: cached_def cache_contains_def flushes_def dest!: set_zip_leftD)
  have goal: "background D kv b (after_flush b st')"
    if same: "\<And>k. either_loc D kv cfg (fl_ks st) k \<Longrightarrow> either_loc D kv cfg (fl_ks st') k"
      "\<And>k. either_loc D kv cfg (fl_ks st') k \<Longrightarrow> either_loc D kv cfg (fl_ks st) k \<or> cached b k"
      "both_wf D kv cfg (fl_ks st) \<Longrightarrow> both_wf D kv cfg (fl_ks st')"
      "kv (fl_ks st') (ix_ledgers (nl_entry_index b)) = kv (fl_ks st) (ix_ledgers (nl_entry_index b))"
      and cc: "\<And>l e. cache_contains (fl_cache st') l e \<Longrightarrow> cache_contains (nl_cache b) l e"
    using fb that unfolding background_def flushes_def
    by (auto simp: after_flush_def same_names_def located_def either_loc_def locs_wf_def both_wf_def cached_def
        simp del: split_paired_All)
  have lq: "ix_ledgers (nl_entry_index b) \<noteq> ix_locations (fc_entry_index cfg)"
    "ix_ledgers (nl_entry_index b) \<noteq> ix_locations (fc_wal_index cfg)"
    using p fb by (auto simp: node_partitions_def flushes_def)
  have il: "either_loc D kv cfg (fl_ks st) k \<Longrightarrow> either_loc D kv cfg ks1 k"
    "either_loc D kv cfg ks1 k \<Longrightarrow> either_loc D kv cfg (fl_ks st) k \<or> cached b k"
    "both_wf D kv cfg (fl_ks st) \<Longrightarrow> both_wf D kv cfg ks1"
    "kv ks1 (ix_ledgers (nl_entry_index b)) = kv (fl_ks st) (ix_ledgers (nl_entry_index b))"
    if "index_batch D cfg (ew_id w) (fl_ks st) (fl_ledger_sizes st) (zip entries offs) = (x, ks1)" for x ks1 offs k
    using index_batch_located(1-3)[OF ne that] index_batch_located(4)[OF ne that lq] ent by blast+
  show ?thesis using it dr wb
  proof (cases rule: flush_iteration_cases)
    case (index offs ks1 err)
    show ?thesis
      by (rule goal) (simp_all add: index(3) insert_all_def c1 il[OF index(4)])
  next
    case (finish offs ks1 sizes)
    let ?mid = "st\<lparr> fl_cache := insert_all cache1 [], fl_writer := w, fl_fs := f1, fl_ks := ks1, fl_ledger_sizes := sizes \<rparr>"
    have ff: "flush_finish D cfg ?mid = (r, st')" using finish(4) by simp
    have kk: "kv (fl_ks st') q = kv ks1 q" if "q \<noteq> fc_entry_registry cfg" for q
      using flush_finish_kv(1)[OF ff that] by simp
    have q: "ix_locations (fc_entry_index cfg) \<noteq> fc_entry_registry cfg" "ix_locations (fc_wal_index cfg) \<noteq> fc_entry_registry cfg"
      "ix_ledgers (nl_entry_index b) \<noteq> fc_entry_registry cfg" using fb by (auto simp: flushes_def)
    have e: "either_loc D kv cfg (fl_ks st') = either_loc D kv cfg ks1" "both_wf D kv cfg (fl_ks st') = both_wf D kv cfg ks1"
      by (simp_all add: either_loc_def both_wf_def kk[OF q(1)] kk[OF q(2)] fun_eq_iff)
    show ?thesis
    proof (rule goal)
      fix l e assume "cache_contains (fl_cache st') l e"
      then show "cache_contains (nl_cache b) l e"
        using flush_finish_kv(2)[OF ff q(1)] evict_warm_contains[of cache1 l e] c1[of l e]
        by (auto simp: insert_all_def)
    qed (simp_all add: e kk[OF q(3)] il[OF finish(3)])
  qed (rule goal; use c1 in \<open>simp add: insert_all_def\<close>)+
qed

end


context db_laws
begin

text \<open>A stored key is never replaced.\<close>

lemma register_keeps_key:
  assumes "register_ledger D idx e known ks = (r, known', ks')"
    and "state_map D (kv ks (ix_ledgers idx)) l = Some s" and "ls_master_key s = Some mk"
  shows "\<exists>s'. state_map D (kv ks' (ix_ledgers idx)) l = Some s' \<and> ls_master_key s' = Some mk"
proof -
  obtain r1 ks1 where en: "ensure_ledger_known D idx ks (e_ledger_id e) (e_master_key e) = (r1, ks1)" by force
  obtain r2 ks2 where pe: "persist D ks1 = (r2, ks2)" by force
  have "ks' = ks \<or> ks' = ks1 \<or> ks' = ks2"
    using assms(1) en pe
    by (cases "e_master_key e") (auto simp: register_ledger_def Let_def split: sum.splits if_splits)
  then have k: "kv ks' = kv ks \<or> kv ks' = kv ks1" using persist_kv[OF pe] by auto
  show ?thesis
  proof (cases r1)
    case (Inl err)
    with ensure_known_err en k assms(2,3) show ?thesis by auto
  next
    case (Inr c)
    from ensure_known_ok(1)[OF en[unfolded Inr]] assms(2,3) k show ?thesis by auto
  qed
qed

end

end
