(* ===== verification/NodeSpec.thy ===== *)
theory NodeSpec
  imports ReaderSpec StorageSpec JournalNode
begin

text \<open>
  The properties of a storage node's service: fencing, appending, authentication, the two indexes
  and the health monitor. Examples run on the reference store of \<^verbatim>\<open>RefStore.thy\<close>.
\<close>

interpretation rfi: fjall_index_laws ref_db ref_kv idx for idx
  by unfold_locales


section \<open>Lemmas\<close>

lemma fenced_rejects:
  assumes "e_ledger_id e \<in> sv_fences sv"
  shows "add_entry A env e sv =
    (Inl (if validate_digest (na_crc A) e then LedgerFenced (e_ledger_id e)
          else Serialization ''entry checksum validation failed''), sv)"
  using assms by (simp add: add_entry_def add_check_def)

text \<open>A fence in memory and on disk.\<close>

definition fence_inv ::
  "('k, 'c, 's, 'j, 'i) node_api \<Rightarrow> ('k \<Rightarrow> string \<Rightarrow> bytes \<Rightarrow> bytes option) \<Rightarrow> u64
   \<Rightarrow> ('k, 'c, 's, 'j, 'i) JournalService \<Rightarrow> bool" where
  "fence_inv A kv l sv \<longleftrightarrow> l \<in> sv_fences sv \<and>
     (\<exists>b. sv_backend sv = Lsmc b \<and> node_partitions b \<and> fenced_on_disk (na_db A) kv b l
        \<and> state_wf (na_db A) (kv (nl_ks b) (ix_ledgers (nl_entry_index b))))"

lemma fence_inv_kept:
  assumes "fence_inv A kv l sv" and "sv_backend sv = Lsmc b" and "sv_backend sv' = Lsmc b'"
    and "backend_kept (na_db A) kv b b'" and "sv_fences sv \<subseteq> sv_fences sv'"
  shows "fence_inv A kv l sv'"
proof -
  from assms(4) have "same_names b b'" by (simp add: backend_kept_def)
  with assms kept_fenced[OF assms(4), of l] kept_state_wf[OF assms(4)] show ?thesis
    by (auto simp: fence_inv_def same_names_partitions)
qed

context db_laws
begin

lemma add_rest_kept:
  assumes A: "na_db A = D" and p: "node_partitions b" and b: "sv_backend sv = Lsmc b" and w: "add_rest A env e sv = (r, sv')"
  obtains b' where "sv_backend sv' = Lsmc b'" and "backend_kept D kv b b'" and "sv_fences sv' = sv_fences sv"
proof -
  obtain w1 sv1 where lw: "lsmc_write A env e b sv = (w1, sv1)" by force
  obtain b' where x: "sv_backend sv1 = Lsmc b'" "backend_kept D kv b b'" "sv_fences sv1 = sv_fences sv"
    by (rule lsmc_write_effect[OF A p lw]) (rule that)
  have "sv' = (if w1 = Inr True then add_finish env e sv1 else sv1)"
    using w lw b by (auto simp: add_rest_def add_write_def Let_def split: sum.splits bool.splits)
  with x have "sv_backend sv' = Lsmc b'" "sv_fences sv' = sv_fences sv" by simp_all
  with x(2) show thesis by (intro that)
qed

lemma service_run_fence:
  assumes "service_run A kv sv0 acks sv" and A: "na_db A = D" and "fence_inv A kv l sv0"
  shows "fence_inv A kv l sv"
  using assms(1)
proof induction
  case sr_start
  then show ?case by (rule assms(3))
next
  case (sr_add acks sv env e r sv' acks')
  then obtain b where b: "sv_backend sv = Lsmc b" "node_partitions b" by (auto simp: fence_inv_def)
  show ?case
  proof (cases "add_check (na_crc A) e sv")
    case (Inl err)
    with sr_add show ?thesis by (simp add: add_entry_def)
  next
    case (Inr u)
    with sr_add.hyps(2) have w: "add_rest A env e sv = (r, sv')" by (simp add: add_entry_def)
    obtain b' where x: "sv_backend sv' = Lsmc b'" "backend_kept D kv b b'" "sv_fences sv' = sv_fences sv"
      by (rule add_rest_kept[OF A b(2,1) w]) (rule that)
    from fence_inv_kept[OF sr_add.IH b(1) x(1)] x(2,3) show ?thesis by (simp add: A)
  qed
next
  case (sr_fence acks sv m r sv')
  then obtain b where b: "sv_backend sv = Lsmc b" "node_partitions b" by (auto simp: fence_inv_def)
  obtain b' where x: "sv_backend sv' = Lsmc b'" "backend_kept D kv b b'" "sv_fences sv \<subseteq> sv_fences sv'"
    by (rule fence_effect[OF A b(2,1) sr_fence.hyps(2), where n = 0]) (rule that)
  from fence_inv_kept[OF sr_fence.IH b(1) x(1) _ x(3)] x(2) show ?case by (simp add: A)
next
  case (sr_read acks sv m i r sv')
  then obtain b where b: "sv_backend sv = Lsmc b" by (auto simp: fence_inv_def)
  obtain b' where x: "sv_backend sv' = Lsmc b'" "backend_kept D kv b b'" "sv_fences sv' = sv_fences sv"
    by (rule read_effect[OF b sr_read.hyps(2)]) (rule that)
  from fence_inv_kept[OF sr_read.IH b(1) x(1)] x(2,3) show ?case by (simp add: A)
next
  case (sr_seal acks sv env a r sv')
  then obtain b where b: "sv_backend sv = Lsmc b" "node_partitions b" by (auto simp: fence_inv_def)
  obtain b' where x: "sv_backend sv' = Lsmc b'" "backend_kept D kv b b'" "sv_fences sv' = sv_fences sv"
    by (rule seal_effect[OF A b(2,1) sr_seal.hyps(2)]) (rule that)
  from fence_inv_kept[OF sr_seal.IH b(1) x(1)] x(2,3) show ?case by (simp add: A)
next
  case (sr_background acks sv b b')
  have n: "same_names b b'" and k: "kv (nl_ks b') (ix_ledgers (nl_entry_index b')) = kv (nl_ks b) (ix_ledgers (nl_entry_index b))"
    using sr_background.hyps(3) by (simp_all add: background_def same_names_def)
  from sr_background.IH sr_background.hyps(2) background_fenced[OF sr_background.hyps(3), of l] k same_names_partitions[OF n]
  show ?case by (simp add: fence_inv_def)
qed

end


section \<open>A node on the reference store\<close>

definition demo_api :: "(ref_ks, ref_blocks, ref_s3, FileJournal, MemoryLedgerIndex) node_api" where
  "demo_api =
     \<lparr> na_db = ref_db, na_crc = (\<lambda>_. 0), na_mac = (\<lambda>key msg. take 1 key), na_blocks = ref_block, na_s3 = ref_s3,
       na_journal = file_journal ref_db, na_index = memory_index \<rparr>"

definition demo_backend :: "(ref_ks, ref_blocks, ref_s3) lsmc_backend" where
  "demo_backend =
     \<lparr> nl_journal_cfg = demo_jcfg, nl_journal = demo_journal, nl_wal_index = demo_wal_index,
       nl_entry_index = demo_entry_index, nl_cache = cache_new 100, nl_reader = demo_tr,
       nl_blocks = BlockCache_new ref_block 65536, nl_s3 = demo_s3 \<rparr>"

definition demo_service :: "(ref_ks, ref_blocks, ref_s3, FileJournal, MemoryLedgerIndex) JournalService" where
  "demo_service = new_lsmc demo_api ''n1'' demo_backend"

definition demo_entry :: "u64 \<Rightarrow> Entry" where
  "demo_entry i = Entry_new (\<lambda>_. 0) 3 i 0 [9]"

lemma demo_entry_wf [simp]: "entry_wf (demo_entry i)"
  by (simp add: demo_entry_def)

definition demo_add_env :: add_env where
  "demo_add_env =
     \<lparr> ae_now = 5, ae_elapsed = 1, ae_channel = [], ae_ack = 0,
       ae_disk = \<lparr> je_write = WOk 4096, je_sync_data = None, je_sync_all = None \<rparr> \<rparr>"

lemmas demo_node_defs = demo_api_def demo_backend_def demo_service_def new_lsmc_def demo_journal_def
  demo_entry_index_def demo_wal_index_def demo_jcfg_def

lemma demo_backend_simps [simp]:
  "sv_backend demo_service = Lsmc demo_backend" "na_db demo_api = ref_db" "na_crc demo_api = (\<lambda>_. 0)"
  "sv_fences demo_service = {}" "sv_hi_entry demo_service = Map.empty" "sv_known_ledgers demo_service = {}"
  "nl_ks demo_backend = []" "sv_node_id demo_service = ''n1''" "sv_lac demo_service = Map.empty"
  by (simp_all add: demo_node_defs load_fenced_ledgers_def list_known_ledger_ids_def ref_simps)

lemma demo_located: "located ref_db ref_kv demo_backend k \<longleftrightarrow> False"
  by (cases k) (simp add: located_def loc_map_def abs_map_def ref_simps)

lemma demo_cached: "cached demo_backend k \<longleftrightarrow> False"
  by (simp add: cached_def demo_backend_def cache_new_def cache_contains_def)

lemma demo_partitions: "node_partitions demo_backend"
  by (simp add: node_partitions_def demo_node_defs)

lemma demo_service_inv: "service_inv demo_api ref_kv {} demo_service"
  by (simp add: service_inv_def demo_partitions demo_cached demo_located locs_wf_def ref_simps
      loc_wf_def state_wf_def)

lemma append_succeeds:
  assumes "je_write env = WOk n" and "align_up (24 + length (wr_payload w)) \<le> n" and "je_sync_data env = None"
  shows "\<exists>loc. fst (journal_append D crc cfg env [] w st) = Inr loc"
  using assms
  by (simp add: journal_append_def journal_step_def push_def AlignedBuffer_new_def write_and_ack_def Let_def length_padded)

lemma demo_append:
  assumes "length (wr_payload w) \<le> 4000" and "js_file_offset st = 0"
  obtains loc j where "journal_append D crc demo_jcfg (ae_disk demo_add_env) [] w st = (Inr loc, j)" and "js_ks j = js_ks st"
proof -
  have "(24 + length (wr_payload w) + 4095) div 4096 = 1"
    using assms(1) by (intro div_nat_eqI) simp_all
  then have "align_up (24 + length (wr_payload w)) = 4096"
    using assms(1) by (simp add: align_up_eq)
  with assms(2) show thesis
    by (intro that[of "(js_seg_id st, 0, of_nat (24 + length (wr_payload w)))"
          "snd (journal_append D crc demo_jcfg (ae_disk demo_add_env) [] w st)"])
      (simp_all add: journal_append_def journal_step_def push_def AlignedBuffer_new_def write_and_ack_def Let_def
        length_padded demo_add_env_def demo_jcfg_def)
qed

definition demo_ks :: ref_ks where
  "demo_ks = ref_insert [] ''entry.ledgers'' (ledger_key 3) (write_ls \<lparr> ls_is_fenced = False, ls_master_key = None \<rparr>)"

lemma demo_register: "register_ledger ref_db demo_entry_index (demo_entry i) {} [] = (Inr (), {3}, demo_ks)"
  by (simp add: register_ledger_def demo_entry_def ensure_ledger_known_def get_ledger_state_def put_ledger_state_def
      demo_ks_def demo_entry_index_def ref_simps)

text \<open>An append of a short entry to a node like the example, once its checks are known to pass.\<close>

definition demo_like :: "(ref_ks, ref_blocks, ref_s3) lsmc_backend \<Rightarrow> bool" where
  "demo_like b \<longleftrightarrow> nl_journal_cfg b = demo_jcfg \<and> nl_entry_index b = demo_entry_index \<and> nl_wal_index b = demo_wal_index
     \<and> nl_cache b = cache_new 100 \<and> js_file_offset (nl_journal b) = 0"

lemma demo_like_set [simp]: "demo_like (nl_set_ks ks b) = demo_like b"
  by (simp add: demo_like_def nl_set_ks_def)

lemma demo_like_backend [simp]: "demo_like demo_backend"
  by (simp add: demo_like_def demo_backend_def demo_journal_def)

lemma demo_add_rest:
  assumes e: "e_ledger_id e = 3" "length (e_data e) \<le> 10" "e_master_key e = None"
      "\<forall>h. e_hmac e = Some h \<longrightarrow> length h \<le> 40"
    and sv: "sv_backend sv = Lsmc b0" and like: "demo_like b0"
    and reg: "register_ledger ref_db demo_entry_index e (sv_known_ledgers sv) (nl_ks b0) = (Inr (), known, ks1)"
    and mac: "check_hmac ref_db (na_mac demo_api) demo_entry_index e ks1 = Inr ()"
    and free: "ref_kv ks1 ''entry.locations'' = Map.empty" "ref_kv ks1 ''wal.locations'' = Map.empty"
  obtains sv' b where "add_rest demo_api demo_add_env e sv = (Inr (append_ack e sv'), sv')"
    and "sv_backend sv' = Lsmc b" and "nl_ks b = ks1" and "nl_entry_index b = demo_entry_index"
    and "nl_wal_index b = demo_wal_index" and "sv_hi_entry sv' = raise_to 3 (e_entry_id e) (sv_hi_entry sv)"
    and "sv_fences sv' = sv_fences sv" and "sv_known_ledgers sv' = known" and "cache_contains (nl_cache b) 3 (e_entry_id e)"
    and "\<exists>p. nl_cache b = cache_insert (cache_new 100) 3 (e_entry_id e) p \<and> length p \<le> 4000"
proof -
  let ?b = "nl_set_ks ks1 b0" and ?i = "e_entry_id e"
  let ?p = "write_se \<lparr> se_entry = e, se_appended_at_ms = 5 \<rparr>"
  let ?w = "\<lparr> wr_ack = 0, wr_ledger_id = 3, wr_entry_id = ?i, wr_payload = ?p \<rparr>"
  have len: "length ?p \<le> 4000"
    using e(2-4) by (auto simp: write_se_def write_list_def write_option_def Let_def length_concat comp_def
        sum_list_triv split: option.splits)
  have ser: "bc_ser_se ref_db \<lparr> se_entry = e, se_appended_at_ms = 5 \<rparr> = Inr ?p"
    using e(2-4) by (cases "e_hmac e") (auto simp: ref_simps)
  have cfg: "nl_journal_cfg b0 = demo_jcfg" "nl_entry_index b0 = demo_entry_index" "nl_wal_index b0 = demo_wal_index"
    "nl_cache b0 = cache_new 100" "js_file_offset (nl_journal b0) = 0" using like by (simp_all add: demo_like_def)
  have dup: "is_duplicate ref_db ?b 3 ?i = Inr False"
    using free by (simp add: is_duplicate_def cfg nl_set_ks_def cache_new_def cache_contains_def get_location_def ref_simps
        demo_entry_index_def demo_wal_index_def)
  have off: "js_file_offset (nl_journal ?b) = 0" by (simp add: nl_set_ks_def cfg)
  obtain loc j where j: "journal_append ref_db (\<lambda>_. 0) demo_jcfg (ae_disk demo_add_env) [] ?w (nl_journal ?b) = (Inr loc, j)"
    "js_ks j = nl_ks ?b"
    by (rule demo_append[of ?w "nl_journal ?b" ref_db "\<lambda>_. 0"]) (use len off in auto)
  have env: "ae_channel demo_add_env = []" "ae_ack demo_add_env = 0" "ae_now demo_add_env = 5"
    by (simp_all add: demo_add_env_def)
  let ?b2 = "?b\<lparr> nl_journal := j, nl_cache := cache_insert (nl_cache ?b) 3 ?i ?p \<rparr>"
  have lc: "log_and_cache ref_db (\<lambda>_. 0) demo_add_env e ?b = (Inr True, ?b2)"
    using j(1) by (simp add: log_and_cache_def e(1) env ser cfg Let_def)
  let ?sv = "sv\<lparr> sv_backend := Lsmc ?b2, sv_known_ledgers := known, sv_hi_entry := raise_to 3 ?i (sv_hi_entry sv) \<rparr>"
  have "lsmc_write demo_api demo_add_env e b0 sv = (Inr True, ?sv)"
    using reg mac lc dup by (simp add: lsmc_write_def cfg e(1) Let_def)
  then have "add_rest demo_api demo_add_env e sv = (Inr (append_ack e (add_finish demo_add_env e ?sv)), add_finish demo_add_env e ?sv)"
    by (simp add: sv add_rest_def add_write_def Let_def)
  then show thesis
    by (rule that[where b = ?b2]) (use j(2) len in \<open>auto simp: cfg nl_set_ks_def cache_contains_insert add_finish_def\<close>)
qed

lemma demo_ks_same [simp]: "nl_set_ks [] demo_backend = demo_backend"
  by (simp add: nl_set_ks_def demo_backend_def demo_journal_def)

lemma demo_entry_simps [simp]:
  "e_ledger_id (demo_entry i) = 3" "e_entry_id (demo_entry i) = i" "e_hmac (demo_entry i) = None"
  "e_master_key (demo_entry i) = None" "e_data (demo_entry i) = [9]" "validate_digest (\<lambda>_. 0) (demo_entry i)"
  by (simp_all add: demo_entry_def)

lemma demo_add:
  obtains ack sv b where "add_entry demo_api demo_add_env (demo_entry i) demo_service = (Inr ack, sv)"
    and "sv_backend sv = Lsmc b" and "nl_ks b = demo_ks" and "nl_entry_index b = demo_entry_index"
    and "nl_wal_index b = demo_wal_index" and "sv_hi_entry sv 3 = Some i"
    and "sv_fences sv = {}" and "sv_known_ledgers sv = {3}" and "cache_contains (nl_cache b) 3 i"
proof -
  have "add_entry demo_api demo_add_env (demo_entry i) demo_service = add_rest demo_api demo_add_env (demo_entry i) demo_service"
    by (simp add: add_entry_def add_check_def)
  moreover obtain sv' b where "add_rest demo_api demo_add_env (demo_entry i) demo_service = (Inr (append_ack (demo_entry i) sv'), sv')"
    "sv_backend sv' = Lsmc b" "nl_ks b = demo_ks" "nl_entry_index b = demo_entry_index" "nl_wal_index b = demo_wal_index"
    "sv_hi_entry sv' 3 = Some i" "sv_fences sv' = {}" "sv_known_ledgers sv' = {3}" "cache_contains (nl_cache b) 3 i"
    by (rule demo_add_rest[of "demo_entry i" demo_service demo_backend "{3}" demo_ks])
      (use demo_register that in \<open>simp_all add: check_hmac_def demo_ks_def raise_to_def ref_simps\<close>)
  ultimately show thesis using that by simp
qed

lemma demo_fence:
  assumes "sv_backend sv = Lsmc b" and "nl_entry_index b = demo_entry_index" and "nl_wal_index b = demo_wal_index"
    and "nl_ks b = [] \<or> nl_ks b = demo_ks"
  obtains sv' where "fence_ledger demo_api 3 sv = (Inr (or_zero (sv_hi_entry sv 3)), sv')"
proof -
  have m: "ref_range (ref_insert ks ''entry.ledgers'' k v) p lo hi = []"
    if "ks = [] \<or> ks = demo_ks" "p \<noteq> ''entry.ledgers''" for ks k v p lo hi
  proof -
    have "ref_items (ref_insert ks ''entry.ledgers'' k v) p = []"
      using that by (auto simp: demo_ks_def ref_simps)
    then show ?thesis by (simp add: ref_range_def)
  qed
  obtain v where pf: "persist_fence ref_db demo_entry_index 3 (nl_ks b)
      = (Inr (), ref_insert (nl_ks b) ''entry.ledgers'' (ledger_key 3) v)"
    using assms(4)
    by (auto simp: persist_fence_def index_fence_ledger_def get_ledger_state_def put_ledger_state_def persist_def
        demo_entry_index_def demo_ks_def LedgerState_default_def ref_simps)
  have "fst (fence_ledger demo_api 3 sv) = Inr (or_zero (sv_hi_entry sv 3))"
    using assms pf m[OF assms(4)]
    by (simp add: fence_ledger_def Let_def highest_stored_def get_next_entry_id_def saturating_pred_def ref_simps
        demo_entry_index_def demo_wal_index_def)
  then show thesis by (metis prod.collapse that)
qed


section \<open>Fencing\<close>

text \<open>
  C8. The answer to a fence covers everything acknowledged. In any run of requests and background
  work, the entry id that \<^verbatim>\<open>fence_ledger\<close> returns on the LSM-C backend is at least the id of every
  entry of the ledger that this service acknowledged, new or duplicate.
\<close>

theorem fence_covers_acked:
  assumes "db_laws (na_db A) kv" and "service_inv A kv {} sv0" and "service_run A kv sv0 acks sv"
    and "fence_ledger A l sv = (Inr n, sv')" and "(l, e) \<in> acks"
  shows "e \<le> n"
proof -
  from db_laws.service_run_inv[OF assms(1,3) refl assms(2)] have i: "service_inv A kv acks sv" .
  then obtain b where b: "sv_backend sv = Lsmc b" "node_partitions b" by (auto simp: service_inv_def)
  obtain b' where "sv_backend sv' = Lsmc b'" and x: "Inr n = (Inr n :: u64 result) \<longrightarrow> l \<in> sv_fences sv' \<and> fenced_on_disk (na_db A) kv b' l
        \<and> (locs_wf (na_db A) kv b \<longrightarrow> (\<forall>k. located (na_db A) kv b k \<longrightarrow> snd k \<noteq> - 1) \<longrightarrow>
             (\<forall>e. covered (na_db A) kv (sv_hi_entry sv) b (l, e) \<longrightarrow> e \<le> n))"
    by (rule db_laws.fence_effect[OF assms(1) refl b(2,1) assms(4), where n = n]) (rule that)
  with i b(1) assms(5) show ?thesis by (auto simp: service_inv_def)
qed

theorem fence_covers_acked_witness:
  "\<exists>n sv'. fence_ledger demo_api 3 (snd (add_entry demo_api demo_add_env (demo_entry 7) demo_service)) = (Inr n, sv') \<and> 7 \<le> n"
proof -
  obtain ack sv b where a: "add_entry demo_api demo_add_env (demo_entry 7) demo_service = (Inr ack, sv)"
    and b: "sv_backend sv = Lsmc b" "nl_ks b = demo_ks" "nl_entry_index b = demo_entry_index" "nl_wal_index b = demo_wal_index"
    by (rule demo_add[of 7]) (rule that)
  obtain sv' where f: "fence_ledger demo_api 3 sv = (Inr (or_zero (sv_hi_entry sv 3)), sv')"
    by (rule demo_fence[OF b(1,3,4)]) (use b(2) that in auto)
  have "service_run demo_api ref_kv demo_service {(3, 7)} sv"
    by (rule sr_add[OF sr_start a]) (simp_all add: demo_entry_def)
  from fence_covers_acked[OF _ demo_service_inv this f, of 7] show ?thesis
    using a f ref.db_laws_axioms by auto
qed

text \<open>
  C7. A fence is final. Once \<^verbatim>\<open>fence_ledger\<close> has returned an entry id, every later append to the
  ledger is rejected and changes nothing, whatever requests and background work come in between;
  and so does a service that is started afterwards on the same ledger states, if the scan at its
  start succeeds.
\<close>

theorem fence_is_final:
  assumes "db_laws (na_db A) kv" and "service_inv A kv {} sv0" and "fence_ledger A l sv0 = (Inr n, sv1)"
    and "service_run A kv sv1 acks sv" and "e_ledger_id e = l" and "validate_digest (na_crc A) e"
  shows "add_entry A env e sv = (Inl (LedgerFenced l), sv)
    \<and> (\<forall>b b' S. sv_backend sv = Lsmc b \<and> same_names b b'
         \<and> kv (nl_ks b') (ix_ledgers (nl_entry_index b)) = kv (nl_ks b) (ix_ledgers (nl_entry_index b))
         \<and> load_fenced_ledgers (na_db A) (nl_entry_index b') (nl_ks b') = Inr S \<longrightarrow>
       fst (add_entry A env e (new_lsmc A node_id b')) = Inl (LedgerFenced l))"
proof -
  from assms(2) obtain b where b: "sv_backend sv0 = Lsmc b" "node_partitions b"
    "state_wf (na_db A) (kv (nl_ks b) (ix_ledgers (nl_entry_index b)))" by (auto simp: service_inv_def)
  obtain b' where x: "sv_backend sv1 = Lsmc b'" "backend_kept (na_db A) kv b b'"
    "Inr n = (Inr n :: u64 result) \<longrightarrow> l \<in> sv_fences sv1 \<and> fenced_on_disk (na_db A) kv b' l
        \<and> (locs_wf (na_db A) kv b \<longrightarrow> (\<forall>k. located (na_db A) kv b k \<longrightarrow> snd k \<noteq> - 1) \<longrightarrow>
             (\<forall>e. covered (na_db A) kv (sv_hi_entry sv0) b (l, e) \<longrightarrow> e \<le> n))"
    by (rule db_laws.fence_effect[OF assms(1) refl b(2,1) assms(3), where n = n]) (rule that)
  have "same_names b b'" using x(2) by (simp add: backend_kept_def)
  with x b kept_state_wf[OF x(2)] have "fence_inv A kv l sv1"
    by (simp add: fence_inv_def same_names_partitions)
  from db_laws.service_run_fence[OF assms(1,4) refl this] have f: "fence_inv A kv l sv" .
  have now: "add_entry A env e sv = (Inl (LedgerFenced l), sv)"
    using f fenced_rejects[of e sv A env] assms(5,6) by (simp add: fence_inv_def)
  have "fst (add_entry A env e (new_lsmc A node_id c')) = Inl (LedgerFenced l)"
    if c: "sv_backend sv = Lsmc c" "same_names c c'"
      "kv (nl_ks c') (ix_ledgers (nl_entry_index c)) = kv (nl_ks c) (ix_ledgers (nl_entry_index c))"
      "load_fenced_ledgers (na_db A) (nl_entry_index c') (nl_ks c') = Inr S" for c c' S
  proof -
    have n: "nl_entry_index c' = nl_entry_index c" using c(2) by (simp add: same_names_def)
    from f c(1,3) n have "state_wf (na_db A) (kv (nl_ks c') (ix_ledgers (nl_entry_index c')))"
      "fenced_on_disk (na_db A) kv c' l" by (simp_all add: fence_inv_def fenced_on_disk_def)
    with db_laws.load_fenced_ok[OF assms(1) c(4)] have "l \<in> S" by (auto simp: fenced_on_disk_def)
    with c(4) have "e_ledger_id e \<in> sv_fences (new_lsmc A node_id c')" by (simp add: new_lsmc_def assms(5))
    from fenced_rejects[OF this, of A env] show ?thesis using assms(5,6) by simp
  qed
  with now show ?thesis by blast
qed

theorem fence_is_final_witness:
  "\<exists>n sv1. fence_ledger demo_api 3 demo_service = (Inr n, sv1)
     \<and> add_entry demo_api demo_add_env (demo_entry 7) sv1 = (Inl (LedgerFenced 3), sv1)"
proof -
  obtain sv1 where f: "fence_ledger demo_api 3 demo_service = (Inr (or_zero (sv_hi_entry demo_service 3)), sv1)"
    by (rule demo_fence[of demo_service demo_backend]) (use that in \<open>auto simp: demo_backend_def demo_journal_def\<close>)
  have e: "e_ledger_id (demo_entry 7) = 3" "validate_digest (na_crc demo_api) (demo_entry 7)"
    by (simp_all add: demo_entry_def)
  from fence_is_final[OF _ demo_service_inv f sr_start e] f ref.db_laws_axioms show ?thesis by auto
qed





section \<open>Appending and reading\<close>

text \<open>
  C9. Read your write. After an acknowledged append to the LSM-C backend of an entry that no index
  locates, a read returns the entry with the time of the append; or, if an entry with the same ids
  was in the cache before, it returns that first entry, whatever the data of the new one.
\<close>

theorem acked_add_readable:
  assumes "db_laws (na_db A) kv" and "sv_backend sv = Lsmc b" and "node_partitions b"
    and "\<not> located (na_db A) kv b (e_ledger_id e, e_entry_id e)" and "add_entry A env e sv = (Inr ack, sv')"
  shows "fst (node_read_entry A (e_ledger_id e) (e_entry_id e) sv') =
    (case cache_get (nl_cache b) (e_ledger_id e) (e_entry_id e) of
       Some p \<Rightarrow> read_result (na_db A) (sv_node_id sv) p
     | None \<Rightarrow> Inr \<lparr> rr_entry = e, rr_node_id = sv_node_id sv, rr_appended_at_ms = ae_now env \<rparr>)"
proof -
  let ?l = "e_ledger_id e" and ?i = "e_entry_id e"
  obtain w1 sv1 where lw: "lsmc_write A env e b sv = (w1, sv1)" by force
  have r: "w1 = Inr True \<or> w1 = Inr False" "sv' = (if w1 = Inr True then add_finish env e sv1 else sv1)"
    using assms(2,5) lw
    by (auto simp: add_entry_def add_rest_def add_write_def Let_def split: sum.splits bool.splits)
  obtain b' where x: "sv_backend sv1 = Lsmc b'" "sv_node_id sv1 = sv_node_id sv"
    "w1 = Inr True \<longrightarrow> \<not> cached b (?l, ?i) \<and> \<not> located (na_db A) kv b (?l, ?i)
        \<and> sv_hi_entry sv1 = raise_to ?l ?i (sv_hi_entry sv)
        \<and> (\<exists>payload. bc_ser_se (na_db A) \<lparr> se_entry = e, se_appended_at_ms = ae_now env \<rparr> = Inr payload
             \<and> nl_cache b' = cache_insert (nl_cache b) ?l ?i payload)"
    "w1 \<noteq> Inr True \<longrightarrow> nl_cache b' = nl_cache b \<and> sv_hi_entry sv1 = sv_hi_entry sv"
    "w1 = Inr False \<longrightarrow> cached b (?l, ?i) \<or> located (na_db A) kv b (?l, ?i)"
    by (rule db_laws.lsmc_write_effect[OF assms(1) refl assms(3) lw]) (rule that)
  show ?thesis
  proof (cases "w1 = Inr True")
    case True
    with x(3) obtain p where p: "bc_ser_se (na_db A) \<lparr> se_entry = e, se_appended_at_ms = ae_now env \<rparr> = Inr p"
      "nl_cache b' = cache_insert (nl_cache b) ?l ?i p" and nc: "\<not> cached b (?l, ?i)" by blast
    have n: "cache_get (nl_cache b) ?l ?i = None" using nc by (simp add: cached_def cache_contains_get)
    have "cache_get (nl_cache b') ?l ?i = Some p"
      using nc by (auto simp: p(2) cached_def cache_contains_def cache_insert_def cache_get_def update_conv')
    moreover have "bc_de_se (na_db A) p = Inr \<lparr> se_entry = e, se_appended_at_ms = ae_now env \<rparr>"
      using db_laws.law_se[OF assms(1) p(1)] .
    ultimately show ?thesis using x(1,2) n by (simp add: node_read_entry_def read_result_def r(2) True)
  next
    case False
    with r(1) x(4,5) assms(4) have "nl_cache b' = nl_cache b" "cache_get (nl_cache b) ?l ?i \<noteq> None"
      by (auto simp: cached_def cache_contains_get)
    with x(1,2) False show ?thesis by (auto simp: node_read_entry_def r(2))
  qed
qed

theorem acked_add_readable_witness:
  "fst (node_read_entry demo_api 3 7 (snd (add_entry demo_api demo_add_env (demo_entry 7) demo_service)))
     = Inr \<lparr> rr_entry = demo_entry 7, rr_node_id = ''n1'', rr_appended_at_ms = 5 \<rparr>"
proof -
  obtain ack sv where a: "add_entry demo_api demo_add_env (demo_entry 7) demo_service = (Inr ack, sv)"
    by (rule demo_add[of 7]) (rule that)
  have e: "e_ledger_id (demo_entry 7) = 3" "e_entry_id (demo_entry 7) = 7" by (simp_all add: demo_entry_def)
  have "cache_get (nl_cache demo_backend) 3 7 = None" by (simp add: demo_backend_def cache_new_def cache_get_def)
  with acked_add_readable[OF _ _ demo_partitions _ a, of ref_kv] a ref.db_laws_axioms show ?thesis
    by (simp add: e demo_located demo_add_env_def)
qed

text \<open>
  C26. Authentication. If the ledger has a master key and the entry carries a tag, an append to the
  LSM-C backend is acknowledged only if the tag is the code of the entry under that key.
\<close>

theorem hmac_enforced:
  assumes "db_laws (na_db A) kv" and "sv_backend sv = Lsmc b"
    and "state_map (na_db A) (kv (nl_ks b) (ix_ledgers (nl_entry_index b))) (e_ledger_id e) = Some s"
    and "ls_master_key s = Some mk" and "e_hmac e \<noteq> None" and "add_entry A env e sv = (Inr ack, sv')"
  shows "validate_hmac (na_mac A) e mk"
proof -
  obtain r known ks1 where rl: "register_ledger (na_db A) (nl_entry_index b) e (sv_known_ledgers sv) (nl_ks b) = (r, known, ks1)"
    by (metis prod_cases3)
  from db_laws.register_keeps_key[OF assms(1) rl assms(3,4)] obtain s'
    where s': "state_map (na_db A) (kv ks1 (ix_ledgers (nl_entry_index b))) (e_ledger_id e) = Some s'" "ls_master_key s' = Some mk"
    by blast
  have "check_hmac (na_db A) (na_mac A) (nl_entry_index b) e ks1 = Inr ()"
    using assms(2,6)
    by (auto simp: add_entry_def add_rest_def add_write_def lsmc_write_def rl Let_def split: sum.splits)
  then obtain st where "get_ledger_state (na_db A) (nl_entry_index b) ks1 (e_ledger_id e) = Inr st"
    "\<And>x. st = Some x \<Longrightarrow> ls_master_key x = Some mk \<Longrightarrow> validate_hmac (na_mac A) e mk"
    using assms(5) by (auto simp: check_hmac_def get_ledger_master_key_def split: sum.splits option.splits if_splits)
  with db_laws.get_ledger_state_ok[OF assms(1)] s' show ?thesis by metis
qed

definition demo_key_ks :: ref_ks where
  "demo_key_ks = ref_insert [] ''entry.ledgers'' (ledger_key 3) (write_ls \<lparr> ls_is_fenced = False, ls_master_key = Some [1] \<rparr>)"

theorem hmac_enforced_witness:
  "\<not> isl (fst (add_entry demo_api demo_add_env (with_hmac (na_mac demo_api) (demo_entry 7) [1])
      (demo_service\<lparr> sv_backend := Lsmc (nl_set_ks demo_key_ks demo_backend) \<rparr>)))
   \<and> validate_hmac (na_mac demo_api) (with_hmac (na_mac demo_api) (demo_entry 7) [1]) [1]"
proof -
  let ?e = "with_hmac (na_mac demo_api) (demo_entry 7) [1]"
  let ?sv = "demo_service\<lparr> sv_backend := Lsmc (nl_set_ks demo_key_ks demo_backend) \<rparr>"
  have e: "e_ledger_id ?e = 3" "e_data ?e = [9]" "e_master_key ?e = None" "e_hmac ?e = Some [1]"
    by (simp_all add: with_hmac_def compute_hmac_def demo_api_def)
  have st: "get_ledger_state ref_db demo_entry_index demo_key_ks 3 = Inr (Some \<lparr> ls_is_fenced = False, ls_master_key = Some [1] \<rparr>)"
    by (simp add: get_ledger_state_def demo_key_ks_def demo_entry_index_def ref_simps)
  have reg: "register_ledger ref_db demo_entry_index ?e {} demo_key_ks = (Inr (), {3}, demo_key_ks)"
    by (simp add: register_ledger_def ensure_ledger_known_def e st)
  have mac: "check_hmac ref_db (na_mac demo_api) demo_entry_index ?e demo_key_ks = Inr ()"
    by (simp add: check_hmac_def get_ledger_master_key_def e st with_hmac_valid)
  have d: "validate_digest (\<lambda>_. 0) ?e" by (simp add: with_hmac_digest)
  obtain sv' where "add_rest demo_api demo_add_env ?e ?sv = (Inr (append_ack ?e sv'), sv')"
    by (rule demo_add_rest[of ?e ?sv "nl_set_ks demo_key_ks demo_backend" "{3}" demo_key_ks])
      (use reg mac e that in \<open>simp_all add: demo_key_ks_def ref_simps\<close>)
  then have a: "add_entry demo_api demo_add_env ?e ?sv = (Inr (append_ack ?e sv'), sv')"
    by (simp add: add_entry_def add_check_def d)
  have "state_map ref_db (ref_kv demo_key_ks (ix_ledgers demo_entry_index)) 3 = Some \<lparr> ls_is_fenced = False, ls_master_key = Some [1] \<rparr>"
    using ref.get_ledger_state_ok[OF st] by simp
  then show ?thesis
    using hmac_enforced[OF _ _ _ _ _ a, where kv = ref_kv and b = "nl_set_ks demo_key_ks demo_backend"
        and s = "\<lparr> ls_is_fenced = False, ls_master_key = Some [1] \<rparr>" and mk = "[1]"] ref.db_laws_axioms e a
    by (simp add: demo_backend_def)
qed


section \<open>The two indexes\<close>

text \<open>Inserting a list of entries, as long as no insertion fails.\<close>

fun insert_entries :: "'i ledger_index \<Rightarrow> 'i \<Rightarrow> StoredEntry list \<Rightarrow> 'i result" where
  "insert_entries L i [] = Inr i"
| "insert_entries L i (s # ss) =
     (case li_insert L i s of (Inl e, _) \<Rightarrow> Inl e | (Inr _, i') \<Rightarrow> insert_entries L i' ss)"

context ledger_index_laws
begin

lemma insert_entries_contents:
  "insert_entries L i ss = Inr i' \<Longrightarrow> entries i' = fold (\<lambda>s m. m(entry_ids s \<mapsto> s)) ss (entries i)"
  by (induction ss arbitrary: i) (auto dest!: insert_ok split: prod.splits sum.splits)

end

text \<open>
  C27. The Fjall index refines the in-memory index: from contents that agree, the same insertions
  lead to contents that answer every successful lookup alike.
\<close>

theorem fjall_index_refines_memory:
  assumes "db_laws D kv" and "insert_entries (fjall_index D idx) ks ss = Inr ks'"
    and "insert_entries memory_index m ss = Inr m'"
    and "abs_map pair_key (bc_de_se D) (kv ks (ix_entries idx)) = map_of m"
    and "fjall_get D idx ks' lid eid = Inr r"
  shows "memory_get m' lid eid = Inr r"
proof -
  have laws: "ledger_index_laws (fjall_index D idx) (\<lambda>ks. abs_map pair_key (bc_de_se D) (kv ks (ix_entries idx)))"
    using fjall_index_laws.fjall_contract[of D kv idx] assms(1) by (simp add: fjall_index_laws_def)
  have "r = abs_map pair_key (bc_de_se D) (kv ks' (ix_entries idx)) (lid, eid)"
    using ledger_index_laws.get_ok[OF laws, of ks' lid eid r] assms(5) by (simp add: fjall_index_def)
  also have "\<dots> = map_of m' (lid, eid)"
    using ledger_index_laws.insert_entries_contents[OF laws assms(2)] mem.insert_entries_contents[OF assms(3)] assms(4)
    by simp
  finally show ?thesis by (simp add: memory_get_def)
qed

definition demo_stored :: StoredEntry where
  "demo_stored = \<lparr> se_entry = demo_entry 7, se_appended_at_ms = 5 \<rparr>"

theorem fjall_index_refines_memory_witness:
  "memory_get [((3, 7), demo_stored)] 3 7 = Inr (Some demo_stored)"
proof -
  let ?ks = "ref_insert [] ''entry.entries'' (encode_key 3 7) (write_se demo_stored)"
  have f: "insert_entries (fjall_index ref_db demo_entry_index) [] [demo_stored] = Inr ?ks"
    by (simp add: fjall_index_def fjall_insert_def demo_stored_def demo_entry_index_def ref_simps)
  have m: "insert_entries memory_index [] [demo_stored] = Inr [((3, 7), demo_stored)]"
    by (simp add: memory_index_def memory_insert_def entry_ids_def demo_stored_def)
  have g: "fjall_get ref_db demo_entry_index ?ks 3 7 = Inr (Some demo_stored)"
    by (simp add: fjall_get_def demo_entry_index_def demo_stored_def ref_simps)
  show ?thesis
    by (rule fjall_index_refines_memory[OF ref.db_laws_axioms f m _ g]) (simp add: abs_map_def ref_simps fun_eq_iff)
qed


section \<open>The health monitor\<close>

text \<open>
  The latency window holds the most recent appends: after any sequence of them, the monitor's
  window is the last \<^verbatim>\<open>window_size\<close> durations in order, and the byte counter is their sum modulo
  \<open>2 ^ 64\<close>.
\<close>

theorem health_window_recent:
  assumes "0 < window"
  shows "hm_latencies (fold (\<lambda>(t, n) h. health_record h t n) xs (HealthMonitor_new limit threshold window))
      = drop (length xs - window) (map fst xs)
    \<and> hm_bytes_written (fold (\<lambda>(t, n) h. health_record h t n) xs (HealthMonitor_new limit threshold window))
      = sum_list (map snd xs)"
proof -
  let ?f = "\<lambda>xs. fold (\<lambda>(t, n) h. health_record h t n) xs (HealthMonitor_new limit threshold window)"
  have "hm_latencies (?f xs) = drop (length xs - window) (map fst xs)
    \<and> hm_bytes_written (?f xs) = sum_list (map snd xs) \<and> hm_window_size (?f xs) = window"
  proof (induction xs rule: rev_induct)
    case (snoc x xs)
    obtain t n where x: "x = (t, n)" by force
    have "length (drop (length xs - window) (map fst xs)) = min (length xs) window" by simp
    with snoc assms show ?case
      by (auto simp: x health_record_def Let_def Suc_diff_le min_def split: if_splits)
  qed (simp add: HealthMonitor_new_def)
  then show ?thesis by blast
qed

theorem health_window_recent_witness:
  "hm_latencies (fold (\<lambda>(t, n) h. health_record h t n) [(5, 1), (6, 2), (7, 3)] (HealthMonitor_new 100 50 2)) = [6, 7]"
  using health_window_recent[of 2 "[(5, 1), (6, 2), (7, 3)]" 100 50] by simp

end
