(* ===== verification/MetadataStore.thy ===== *)
theory MetadataStore
  imports Protocol "HOL-Library.AList"
begin

text \<open>
  The metadata plane of \<^verbatim>\<open>folio-core/src/metadata.rs\<close>: the trait \<^verbatim>\<open>MetadataStore\<close> as a record of
  operations, its in-memory implementation, and its implementation on etcd. The etcd client and
  \<^verbatim>\<open>serde_json\<close> are parameters. Each etcd operation that reads and then writes takes what other
  clients do in between as an argument, a function on the state of the cluster.
\<close>


section \<open>The trait\<close>

record 'm metadata_store =
  md_create_ledger :: "u64 \<Rightarrow> LedgerOptions \<Rightarrow> string list \<Rightarrow> 'm \<Rightarrow> LedgerMetadata result \<times> 'm"
  md_get_ledger :: "u64 \<Rightarrow> 'm \<Rightarrow> LedgerMetadata result"
  md_put_ledger :: "u64 \<Rightarrow> LedgerMetadata \<Rightarrow> 'm \<Rightarrow> LedgerMetadata result \<times> 'm"
  md_transition_state :: "u64 \<Rightarrow> u64 \<Rightarrow> LedgerState \<Rightarrow> LedgerState \<Rightarrow> 'm \<Rightarrow> LedgerMetadata result \<times> 'm"
  md_list_ledgers :: "'m \<Rightarrow> LedgerMetadata list result"
  md_delete_ledger :: "u64 \<Rightarrow> 'm \<Rightarrow> unit result \<times> 'm"
  md_register_node :: "NodeInfo \<Rightarrow> 'm \<Rightarrow> unit result \<times> 'm"
  md_list_nodes :: "'m \<Rightarrow> NodeInfo list result"

text \<open>
  The metadata of a new ledger. \<^verbatim>\<open>options.write_quorum as u8\<close> keeps the low eight bits of the quorum.
\<close>

definition new_ledger :: "u64 \<Rightarrow> u64 \<Rightarrow> LedgerOptions \<Rightarrow> string list \<Rightarrow> LedgerMetadata" where
  "new_ledger now lid options ensemble =
     \<lparr> lm_id = lid, lm_state = Open,
       lm_fragments = [\<lparr> fr_first_entry_id = 0, fr_ensemble = ensemble,
          fr_write_quorum = of_nat (lo_write_quorum options), fr_ack_quorum = of_nat (lo_ack_quorum options) \<rparr>],
       lm_last_entry_id = None, lm_last_add_confirmed = 0, lm_created_at_ms = now, lm_updated_at_ms = now,
       lm_version = 1 \<rparr>"

definition touch :: "u64 \<Rightarrow> LedgerMetadata \<Rightarrow> LedgerMetadata" where
  "touch now m = m\<lparr> lm_updated_at_ms := now, lm_version := lm_version m + 1 \<rparr>"


section \<open>In memory\<close>

record InMemoryState =
  im_next_id :: u64
  im_ledgers :: "(u64 \<times> LedgerMetadata) list"
  im_nodes :: "(string \<times> NodeInfo) list"

definition InMemoryMetadataStore_new :: InMemoryState where
  "InMemoryMetadataStore_new = \<lparr> im_next_id = 0, im_ledgers = [], im_nodes = [] \<rparr>"

definition mem_next_ledger_id :: "InMemoryState \<Rightarrow> u64 result \<times> InMemoryState" where
  "mem_next_ledger_id s = (Inr (im_next_id s + 1), s\<lparr> im_next_id := im_next_id s + 1 \<rparr>)"

definition mem_create_ledger ::
  "u64 \<Rightarrow> LedgerOptions \<Rightarrow> string list \<Rightarrow> InMemoryState \<Rightarrow> LedgerMetadata result \<times> InMemoryState" where
  "mem_create_ledger now options ensemble s =
     (case validate_options options of
        Inl e \<Rightarrow> (Inl e, s)
      | Inr _ \<Rightarrow>
          (case mem_next_ledger_id s of
             (Inl e, s1) \<Rightarrow> (Inl e, s1)
           | (Inr lid, s1) \<Rightarrow>
               (let m = new_ledger now lid options ensemble
                in (Inr m, s1\<lparr> im_ledgers := AList.update lid m (im_ledgers s1) \<rparr>))))"

definition mem_get_ledger :: "u64 \<Rightarrow> InMemoryState \<Rightarrow> LedgerMetadata result" where
  "mem_get_ledger lid s =
     (case map_of (im_ledgers s) lid of None \<Rightarrow> Inl (LedgerNotFound lid) | Some m \<Rightarrow> Inr m)"

definition mem_put_ledger :: "u64 \<Rightarrow> LedgerMetadata \<Rightarrow> InMemoryState \<Rightarrow> LedgerMetadata result \<times> InMemoryState" where
  "mem_put_ledger now m s =
     (case map_of (im_ledgers s) (lm_id m) of
        None \<Rightarrow> (Inl (LedgerNotFound (lm_id m)), s)
      | Some current \<Rightarrow>
          (if lm_version current \<noteq> lm_version m then (Inl CasConflict, s)
           else
             (let updated = touch now m
              in (Inr updated, s\<lparr> im_ledgers := AList.update (lm_id m) updated (im_ledgers s) \<rparr>))))"

definition mem_transition_state ::
  "u64 \<Rightarrow> u64 \<Rightarrow> LedgerState \<Rightarrow> LedgerState \<Rightarrow> InMemoryState \<Rightarrow> LedgerMetadata result \<times> InMemoryState" where
  "mem_transition_state now lid expected nxt s =
     (case map_of (im_ledgers s) lid of
        None \<Rightarrow> (Inl (LedgerNotFound lid), s)
      | Some ledger \<Rightarrow>
          (if lm_state ledger \<noteq> expected then (Inl (StateConflict expected (lm_state ledger)), s)
           else
             (let updated = touch now (ledger\<lparr> lm_state := nxt \<rparr>)
              in (Inr updated, s\<lparr> im_ledgers := AList.update lid updated (im_ledgers s) \<rparr>))))"

text \<open>The values of the tree map, in the order of the keys.\<close>

definition mem_list_ledgers :: "InMemoryState \<Rightarrow> LedgerMetadata list result" where
  "mem_list_ledgers s = Inr (map snd (sort_key fst (im_ledgers s)))"

definition mem_delete_ledger :: "u64 \<Rightarrow> InMemoryState \<Rightarrow> unit result \<times> InMemoryState" where
  "mem_delete_ledger lid s = (Inr (), s\<lparr> im_ledgers := AList.delete lid (im_ledgers s) \<rparr>)"

definition mem_register_node :: "NodeInfo \<Rightarrow> InMemoryState \<Rightarrow> unit result \<times> InMemoryState" where
  "mem_register_node node s = (Inr (), s\<lparr> im_nodes := AList.update (ni_node_id node) node (im_nodes s) \<rparr>)"

definition str_key :: "string \<Rightarrow> nat list" where
  "str_key s = map of_char s"

definition mem_list_nodes :: "InMemoryState \<Rightarrow> NodeInfo list result" where
  "mem_list_nodes s = Inr (map snd (sort_key (\<lambda>x. str_key (fst x)) (im_nodes s)))"

definition mem_store :: "InMemoryState metadata_store" where
  "mem_store =
     \<lparr> md_create_ledger = mem_create_ledger, md_get_ledger = mem_get_ledger, md_put_ledger = mem_put_ledger,
       md_transition_state = mem_transition_state, md_list_ledgers = mem_list_ledgers,
       md_delete_ledger = mem_delete_ledger, md_register_node = mem_register_node, md_list_nodes = mem_list_nodes \<rparr>"


section \<open>On etcd\<close>

datatype etcd_compare =
    ModRevision nat
  | NotCreated
  | ValueIs bytes

text \<open>
  \<open>NotCreated\<close> is the comparison of the creation revision with zero. A read returns the value with its modification revision. A transaction compares one key and, when
  the comparison holds, puts one key; it answers whether it did.
\<close>

record 'e etcd_api =
  et_get :: "'e \<Rightarrow> string \<Rightarrow> string + (bytes \<times> nat) option"
  et_txn :: "'e \<Rightarrow> string \<Rightarrow> etcd_compare \<Rightarrow> bytes \<Rightarrow> (string + bool) \<times> 'e"
  et_put :: "'e \<Rightarrow> string \<Rightarrow> bytes \<Rightarrow> (string + unit) \<times> 'e"
  et_delete :: "'e \<Rightarrow> string \<Rightarrow> (string + unit) \<times> 'e"
  et_get_prefix :: "'e \<Rightarrow> string \<Rightarrow> string + bytes list"
  js_ser_lm :: "LedgerMetadata \<Rightarrow> string + bytes"
  js_de_lm :: "bytes \<Rightarrow> string + LedgerMetadata"
  js_ser_ni :: "NodeInfo \<Rightarrow> string + bytes"
  js_de_ni :: "bytes \<Rightarrow> string + NodeInfo"

definition LEDGER_PREFIX :: string where "LEDGER_PREFIX = ''/folio/ledgers/''"
definition NODE_PREFIX :: string where "NODE_PREFIX = ''/folio/nodes/''"
definition ID_GEN_KEY :: string where "ID_GEN_KEY = ''/folio/id-gen''"
definition ID_GEN_CAS_RETRIES :: nat where "ID_GEN_CAS_RETRIES = 32"

definition etcd_ledger_key :: "u64 \<Rightarrow> string" where
  "etcd_ledger_key lid = LEDGER_PREFIX @ show_u64 lid"

definition etcd_node_key :: "string \<Rightarrow> string" where
  "etcd_node_key nid = NODE_PREFIX @ nid"

definition metadata_err :: "string + 'a \<Rightarrow> 'a result" where
  "metadata_err r = map_sum Metadata id r"

definition json_err :: "string + 'a \<Rightarrow> 'a result" where
  "json_err r = map_sum Serialization id r"

text \<open>Text as bytes, and the message of a failed \<^verbatim>\<open>parse::<u64>()\<close>.\<close>

definition text_bytes :: "string \<Rightarrow> bytes" where
  "text_bytes s = map (\<lambda>c. of_nat (of_char c)) s"

definition bytes_text :: "bytes \<Rightarrow> string" where
  "bytes_text b = map (\<lambda>x. char_of (unat x)) b"

definition parse_u64_message :: "string \<Rightarrow> string" where
  "parse_u64_message s =
     (if s = [] then ''cannot parse integer from empty string''
      else if (\<forall>c \<in> set (if hd s = CHR ''+'' then tl s else s). c \<in> set ''0123456789'') \<and> s \<noteq> ''+''
        then ''number too large to fit in target type''
      else ''invalid digit found in string'')"

text \<open>
  One attempt at drawing an id: the read, then whatever other clients do (\<open>env\<close>), then the
  conditional write. \<open>Inr None\<close> is a lost race.
\<close>

definition id_attempt :: "'e etcd_api \<Rightarrow> ('e \<Rightarrow> 'e) \<Rightarrow> 'e \<Rightarrow> u64 option result \<times> 'e" where
  "id_attempt E env s =
     (case et_get E s ID_GEN_KEY of
        Inl e \<Rightarrow> (Inl (Metadata e), s)
      | Inr kv \<Rightarrow>
          (case (case kv of
                   Some (v, r) \<Rightarrow>
                     (case u64_from_str (bytes_text v) of
                        None \<Rightarrow> Inl (Metadata (parse_u64_message (bytes_text v)))
                      | Some current \<Rightarrow> Inr (current + 1, ModRevision r))
                 | None \<Rightarrow> Inr (1, NotCreated)) of
             Inl e \<Rightarrow> (Inl e, s)
           | Inr (nxt, compare) \<Rightarrow>
               (case et_txn E (env s) ID_GEN_KEY compare (text_bytes (show_u64 nxt)) of
                  (Inl e, s1) \<Rightarrow> (Inl (Metadata e), s1)
                | (Inr ok, s1) \<Rightarrow> (Inr (if ok then Some nxt else None), s1))))"

fun id_attempts :: "'e etcd_api \<Rightarrow> (nat \<Rightarrow> 'e \<Rightarrow> 'e) \<Rightarrow> nat \<Rightarrow> 'e \<Rightarrow> u64 result \<times> 'e" where
  "id_attempts E env 0 s = (Inl CasConflict, s)"
| "id_attempts E env (Suc n) s =
     (case id_attempt E (env n) s of
        (Inl e, s1) \<Rightarrow> (Inl e, s1)
      | (Inr (Some nxt), s1) \<Rightarrow> (Inr nxt, s1)
      | (Inr None, s1) \<Rightarrow> id_attempts E env n s1)"

definition etcd_next_ledger_id :: "'e etcd_api \<Rightarrow> (nat \<Rightarrow> 'e \<Rightarrow> 'e) \<Rightarrow> 'e \<Rightarrow> u64 result \<times> 'e" where
  "etcd_next_ledger_id E env s = id_attempts E env ID_GEN_CAS_RETRIES s"

definition etcd_create_ledger ::
  "'e etcd_api \<Rightarrow> (nat \<Rightarrow> 'e \<Rightarrow> 'e) \<Rightarrow> u64 \<Rightarrow> LedgerOptions \<Rightarrow> string list \<Rightarrow> 'e \<Rightarrow> LedgerMetadata result \<times> 'e" where
  "etcd_create_ledger E env now options ensemble s =
     (case validate_options options of
        Inl e \<Rightarrow> (Inl e, s)
      | Inr _ \<Rightarrow>
          (case etcd_next_ledger_id E env s of
             (Inl e, s1) \<Rightarrow> (Inl e, s1)
           | (Inr lid, s1) \<Rightarrow>
               (let m = new_ledger now lid options ensemble in
                case json_err (js_ser_lm E m) of
                  Inl e \<Rightarrow> (Inl e, s1)
                | Inr b \<Rightarrow>
                    (case et_txn E s1 (etcd_ledger_key lid) (NotCreated) b of
                       (Inl e, s2) \<Rightarrow> (Inl (Metadata e), s2)
                     | (Inr ok, s2) \<Rightarrow> (if ok then Inr m else Inl CasConflict, s2)))))"

definition etcd_get_ledger :: "'e etcd_api \<Rightarrow> u64 \<Rightarrow> 'e \<Rightarrow> LedgerMetadata result" where
  "etcd_get_ledger E lid s =
     (case et_get E s (etcd_ledger_key lid) of
        Inl e \<Rightarrow> Inl (Metadata e)
      | Inr None \<Rightarrow> Inl (LedgerNotFound lid)
      | Inr (Some (v, _)) \<Rightarrow> json_err (js_de_lm E v))"

text \<open>The conditional replacement that \<^verbatim>\<open>put_ledger\<close> and \<^verbatim>\<open>transition_state\<close> end with.\<close>

definition replace_ledger ::
  "'e etcd_api \<Rightarrow> LedgerMetadata \<Rightarrow> LedgerMetadata \<Rightarrow> u64 \<Rightarrow> 'e \<Rightarrow> LedgerMetadata result \<times> 'e" where
  "replace_ledger E current updated lid s =
     (case (json_err (js_ser_lm E current), json_err (js_ser_lm E updated)) of
        (Inl e, _) \<Rightarrow> (Inl e, s)
      | (Inr _, Inl e) \<Rightarrow> (Inl e, s)
      | (Inr old, Inr new) \<Rightarrow>
          (case et_txn E s (etcd_ledger_key lid) (ValueIs old) new of
             (Inl e, s1) \<Rightarrow> (Inl (Metadata e), s1)
           | (Inr ok, s1) \<Rightarrow> (if ok then Inr updated else Inl CasConflict, s1)))"

definition etcd_put_ledger ::
  "'e etcd_api \<Rightarrow> ('e \<Rightarrow> 'e) \<Rightarrow> u64 \<Rightarrow> LedgerMetadata \<Rightarrow> 'e \<Rightarrow> LedgerMetadata result \<times> 'e" where
  "etcd_put_ledger E env now m s =
     (case etcd_get_ledger E (lm_id m) s of
        Inl e \<Rightarrow> (Inl e, s)
      | Inr current \<Rightarrow>
          (if lm_version current \<noteq> lm_version m then (Inl CasConflict, s)
           else replace_ledger E current (touch now m) (lm_id m) (env s)))"

definition etcd_transition_state ::
  "'e etcd_api \<Rightarrow> ('e \<Rightarrow> 'e) \<Rightarrow> u64 \<Rightarrow> u64 \<Rightarrow> LedgerState \<Rightarrow> LedgerState \<Rightarrow> 'e \<Rightarrow> LedgerMetadata result \<times> 'e" where
  "etcd_transition_state E env now lid expected nxt s =
     (case etcd_get_ledger E lid s of
        Inl e \<Rightarrow> (Inl e, s)
      | Inr current \<Rightarrow>
          (if lm_state current \<noteq> expected then (Inl (StateConflict expected (lm_state current)), s)
           else
             replace_ledger E current (touch now (current\<lparr> lm_state := nxt \<rparr>)) lid (env s)))"

fun decode_all :: "(bytes \<Rightarrow> string + 'a) \<Rightarrow> bytes list \<Rightarrow> 'a list result" where
  "decode_all de [] = Inr []"
| "decode_all de (b # bs) =
     (case json_err (de b) of
        Inl e \<Rightarrow> Inl e
      | Inr x \<Rightarrow> (case decode_all de bs of Inl e \<Rightarrow> Inl e | Inr xs \<Rightarrow> Inr (x # xs)))"

definition etcd_list_ledgers :: "'e etcd_api \<Rightarrow> 'e \<Rightarrow> LedgerMetadata list result" where
  "etcd_list_ledgers E s =
     (case et_get_prefix E s LEDGER_PREFIX of Inl e \<Rightarrow> Inl (Metadata e) | Inr bs \<Rightarrow> decode_all (js_de_lm E) bs)"

definition etcd_delete_ledger :: "'e etcd_api \<Rightarrow> u64 \<Rightarrow> 'e \<Rightarrow> unit result \<times> 'e" where
  "etcd_delete_ledger E lid s =
     (case et_delete E s (etcd_ledger_key lid) of (r, s1) \<Rightarrow> (metadata_err r, s1))"

definition etcd_register_node :: "'e etcd_api \<Rightarrow> NodeInfo \<Rightarrow> 'e \<Rightarrow> unit result \<times> 'e" where
  "etcd_register_node E node s =
     (case json_err (js_ser_ni E node) of
        Inl e \<Rightarrow> (Inl e, s)
      | Inr b \<Rightarrow> (case et_put E s (etcd_node_key (ni_node_id node)) b of (r, s1) \<Rightarrow> (metadata_err r, s1)))"

definition etcd_list_nodes :: "'e etcd_api \<Rightarrow> 'e \<Rightarrow> NodeInfo list result" where
  "etcd_list_nodes E s =
     (case et_get_prefix E s NODE_PREFIX of Inl e \<Rightarrow> Inl (Metadata e) | Inr bs \<Rightarrow> decode_all (js_de_ni E) bs)"

text \<open>The store as a client without competitors sees it.\<close>

definition etcd_store :: "'e etcd_api \<Rightarrow> 'e metadata_store" where
  "etcd_store E =
     \<lparr> md_create_ledger = etcd_create_ledger E (\<lambda>_. id), md_get_ledger = etcd_get_ledger E,
       md_put_ledger = etcd_put_ledger E id, md_transition_state = etcd_transition_state E id,
       md_list_ledgers = etcd_list_ledgers E, md_delete_ledger = etcd_delete_ledger E,
       md_register_node = etcd_register_node E, md_list_nodes = etcd_list_nodes E \<rparr>"


section \<open>The contract of the trait\<close>

locale metadata_laws =
  fixes M :: "'m metadata_store" and ledgers :: "'m \<Rightarrow> u64 \<Rightarrow> LedgerMetadata option"
  assumes get_ok: "md_get_ledger M lid s = Inr m \<Longrightarrow> ledgers s lid = Some m"
    and put_ok: "md_put_ledger M now m s = (Inr m', s') \<Longrightarrow> m' = touch now m
      \<and> (\<exists>cur. ledgers s (lm_id m) = Some cur \<and> lm_version cur = lm_version m)
      \<and> ledgers s' = (ledgers s)(lm_id m \<mapsto> m')"
    and transition_ok: "md_transition_state M now lid a b s = (Inr m', s') \<Longrightarrow>
      \<exists>cur. ledgers s lid = Some cur \<and> lm_state cur = a \<and> m' = touch now (cur\<lparr> lm_state := b \<rparr>)
        \<and> ledgers s' = (ledgers s)(lid \<mapsto> m')"
    and create_ok: "md_create_ledger M now opts ens s = (Inr m, s') \<Longrightarrow>
      validate_options opts = Inr () \<and> m = new_ledger now (lm_id m) opts ens \<and> ledgers s' = (ledgers s)(lm_id m \<mapsto> m)"
begin

text \<open>A put with a version that is not the stored one fails.\<close>

lemma stale_put_fails:
  assumes "ledgers s (lm_id m) = Some cur" and "lm_version cur \<noteq> lm_version m"
  shows "isl (fst (md_put_ledger M now m s))"
proof (cases "md_put_ledger M now m s")
  case (Pair r s')
  with assms put_ok show ?thesis by (cases r) fastforce+
qed

text \<open>Of two puts with the same base version at most one succeeds.\<close>

lemma second_put_fails:
  assumes "md_put_ledger M now m s = (Inr m1, s1)" and "lm_id m2 = lm_id m" and "lm_version m2 = lm_version m"
  shows "isl (fst (md_put_ledger M now' m2 s1))"
  using put_ok[OF assms(1)] assms(2,3) by (intro stale_put_fails) (auto simp: touch_def)

end

interpretation mem_md: metadata_laws mem_store "\<lambda>s. map_of (im_ledgers s)"
  by unfold_locales
    (auto simp: mem_store_def mem_get_ledger_def mem_put_ledger_def mem_transition_state_def mem_create_ledger_def
      mem_next_ledger_id_def new_ledger_def Let_def update_conv' touch_def split: option.splits if_splits sum.splits)


section \<open>The contract of etcd\<close>

fun compare_holds :: "etcd_compare \<Rightarrow> (bytes \<times> nat) option \<Rightarrow> bool" where
  "compare_holds (ModRevision r) x \<longleftrightarrow> (case x of None \<Rightarrow> False | Some (_, r') \<Rightarrow> r' = r)"
| "compare_holds NotCreated x \<longleftrightarrow> x = None"
| "compare_holds (ValueIs b) x \<longleftrightarrow> (case x of None \<Rightarrow> False | Some (b', _) \<Rightarrow> b' = b)"

text \<open>
  A transaction is atomic: it reports success when the comparison held and the write took effect.
  A transaction that reports an error may have taken effect.
\<close>

locale etcd_laws =
  fixes E :: "'e etcd_api" and contents :: "'e \<Rightarrow> string \<Rightarrow> (bytes \<times> nat) option"
  assumes law_et_get: "et_get E s k = Inr v \<Longrightarrow> v = contents s k"
    and law_txn_true: "et_txn E s k c b = (Inr True, s') \<Longrightarrow>
      compare_holds c (contents s k) \<and> (\<exists>r. contents s' = (contents s)(k \<mapsto> (b, r)))"
    and law_txn_false: "et_txn E s k c b = (Inr False, s') \<Longrightarrow> contents s' = contents s"
    and law_txn_err: "et_txn E s k c b = (Inl e, s') \<Longrightarrow>
      contents s' = contents s \<or> compare_holds c (contents s k) \<and> (\<exists>r. contents s' = (contents s)(k \<mapsto> (b, r)))"
    and law_lm: "js_ser_lm E m = Inr b \<Longrightarrow> js_de_lm E b = Inr m"

definition stored_ledger ::
  "'e etcd_api \<Rightarrow> ('e \<Rightarrow> string \<Rightarrow> (bytes \<times> nat) option) \<Rightarrow> 'e \<Rightarrow> u64 \<Rightarrow> LedgerMetadata option" where
  "stored_ledger E contents s lid =
     (case contents s (etcd_ledger_key lid) of
        None \<Rightarrow> None
      | Some (b, _) \<Rightarrow> (case js_de_lm E b of Inl _ \<Rightarrow> None | Inr m \<Rightarrow> Some m))"

text \<open>The value of the id counter; a missing key counts as zero.\<close>

definition id_counter :: "('e \<Rightarrow> string \<Rightarrow> (bytes \<times> nat) option) \<Rightarrow> 'e \<Rightarrow> u64 option" where
  "id_counter contents s =
     (case contents s ID_GEN_KEY of None \<Rightarrow> Some 0 | Some (v, _) \<Rightarrow> u64_from_str (bytes_text v))"

lemma show_u64_inject [simp]: "show_u64 a = show_u64 b \<longleftrightarrow> a = b"
  by (metis option.inject u64_from_str_show)

lemma etcd_ledger_key_inject [simp]: "etcd_ledger_key a = etcd_ledger_key b \<longleftrightarrow> a = b"
  by (simp add: etcd_ledger_key_def)

lemma id_key_not_ledger [simp]: "etcd_ledger_key a \<noteq> ID_GEN_KEY" "ID_GEN_KEY \<noteq> etcd_ledger_key a"
  by (simp_all add: etcd_ledger_key_def LEDGER_PREFIX_def ID_GEN_KEY_def)

lemma bytes_text_text_bytes [simp]: "bytes_text (text_bytes s) = s"
  by (induction s) (simp_all add: bytes_text_def text_bytes_def unat_of_nat)

lemma json_err_Inr [simp]: "json_err r = Inr x \<longleftrightarrow> r = Inr x"
  by (cases r) (simp_all add: json_err_def)


context etcd_laws
begin

abbreviation sl :: "'e \<Rightarrow> u64 \<Rightarrow> LedgerMetadata option" where
  "sl \<equiv> stored_ledger E contents"

lemma etcd_get_ok: "etcd_get_ledger E lid s = Inr m \<Longrightarrow> sl s lid = Some m"
  by (auto simp: etcd_get_ledger_def stored_ledger_def dest!: law_et_get[symmetric] split: sum.splits option.splits)

lemma stored_after_put:
  "contents s' = (contents s)(etcd_ledger_key lid \<mapsto> (b, r)) \<Longrightarrow> js_ser_lm E m = Inr b \<Longrightarrow> sl s' = (sl s)(lid \<mapsto> m)"
  by (auto simp: stored_ledger_def fun_eq_iff law_lm)

lemma stored_after_id:
  "contents s' = (contents s)(ID_GEN_KEY \<mapsto> x) \<Longrightarrow> sl s' = sl s"
  by (simp add: stored_ledger_def fun_eq_iff)

text \<open>A replacement that succeeds found the expected metadata in place.\<close>

lemma replace_ok:
  assumes "replace_ledger E current updated lid s = (Inr m', s')"
  shows "m' = updated \<and> sl s lid = Some current \<and> sl s' = (sl s)(lid \<mapsto> updated)"
proof -
  from assms obtain old new where ser: "js_ser_lm E current = Inr old" "js_ser_lm E updated = Inr new"
    and t: "et_txn E s (etcd_ledger_key lid) (ValueIs old) new = (Inr True, s')" and m: "m' = updated"
    by (auto simp: replace_ledger_def split: sum.splits prod.splits if_splits)
  from law_txn_true[OF t] obtain r where c: "compare_holds (ValueIs old) (contents s (etcd_ledger_key lid))"
    "contents s' = (contents s)(etcd_ledger_key lid \<mapsto> (new, r))" by blast
  from c(1) have "sl s lid = Some current"
    by (auto simp: stored_ledger_def law_lm[OF ser(1)] split: option.splits)
  with m stored_after_put[OF c(2) ser(2)] show ?thesis by simp
qed

lemma id_txn_stored:
  assumes "et_txn E s ID_GEN_KEY c b = (x, s')"
  shows "sl s' = sl s"
proof -
  have "contents s' = contents s \<or> (\<exists>y. contents s' = (contents s)(ID_GEN_KEY \<mapsto> y))"
  proof (cases x)
    case (Inl e)
    with law_txn_err[OF assms[unfolded Inl]] show ?thesis by blast
  next
    case (Inr ok)
    show ?thesis
    proof (cases ok)
      case True
      with law_txn_true[of s ID_GEN_KEY c b s'] assms Inr show ?thesis by auto
    next
      case False
      with law_txn_false[of s ID_GEN_KEY c b s'] assms Inr show ?thesis by auto
    qed
  qed
  then show ?thesis
  proof
    assume "contents s' = contents s"
    then show ?thesis by (simp add: stored_ledger_def fun_eq_iff)
  qed (auto dest: stored_after_id)
qed

lemma id_attempt_stored:
  assumes "id_attempt E env s = (r, s')" and "sl (env s) = sl s"
  shows "sl s' = sl s"
proof -
  have "s' = s \<or> (\<exists>c b x. et_txn E (env s) ID_GEN_KEY c b = (x, s'))"
    using assms(1) by (auto simp: id_attempt_def split: sum.splits option.splits prod.splits)
  with id_txn_stored assms(2) show ?thesis by metis
qed

lemma id_attempts_stored:
  assumes "\<And>n s. sl (env n s) = sl s"
  shows "id_attempts E env n s = (r, s') \<Longrightarrow> sl s' = sl s"
proof (induction n arbitrary: s)
  case (Suc n)
  obtain x s1 where a: "id_attempt E (env n) s = (x, s1)" by force
  with id_attempt_stored[OF a assms] Suc show ?case by (auto split: sum.splits option.splits)
qed simp

lemma id_attempt_successor:
  assumes a: "id_attempt E env s = (Inr (Some n), s')"
    and env: "\<And>v v' r. contents s ID_GEN_KEY = Some (v, r) \<Longrightarrow> contents (env s) ID_GEN_KEY = Some (v', r) \<Longrightarrow> v' = v"
  shows "id_counter contents (env s) = Some (n - 1) \<and> id_counter contents s' = Some n"
proof -
  from a obtain kv c where g: "et_get E s ID_GEN_KEY = Inr kv"
    and kv: "kv = None \<and> n = 1 \<and> c = NotCreated
      \<or> (\<exists>v r. kv = Some (v, r) \<and> u64_from_str (bytes_text v) = Some (n - 1) \<and> c = ModRevision r)"
    and t: "et_txn E (env s) ID_GEN_KEY c (text_bytes (show_u64 n)) = (Inr True, s')"
    by (auto simp: id_attempt_def split: sum.splits option.splits prod.splits if_splits)
  note tt = law_txn_true[OF t]
  have "id_counter contents (env s) = Some (n - 1)"
    using kv
  proof (elim disjE exE conjE)
    fix v r assume k: "kv = Some (v, r)" "u64_from_str (bytes_text v) = Some (n - 1)" "c = ModRevision r"
    with tt obtain v' where v': "contents (env s) ID_GEN_KEY = Some (v', r)" by (auto split: option.splits)
    from env[OF _ v'] law_et_get[OF g] k(1) have "v' = v" by simp
    with v' k(2) show ?thesis by (simp add: id_counter_def)
  qed (use tt in \<open>auto simp: id_counter_def\<close>)
  with tt show ?thesis by (auto simp: id_counter_def)
qed

end

locale etcd_md = etcd_laws E contents for E :: "'e etcd_api" and contents

sublocale etcd_md \<subseteq> em: metadata_laws "etcd_store E" "stored_ledger E contents"
proof
  fix lid s m
  assume "md_get_ledger (etcd_store E) lid s = Inr m"
  then show "stored_ledger E contents s lid = Some m" by (simp add: etcd_store_def etcd_get_ok)
next
  fix now m s m' s'
  assume "md_put_ledger (etcd_store E) now m s = (Inr m', s')"
  then obtain cur where g: "etcd_get_ledger E (lm_id m) s = Inr cur" and v: "lm_version cur = lm_version m"
    and r: "replace_ledger E cur (touch now m) (lm_id m) s = (Inr m', s')"
    by (auto simp: etcd_store_def etcd_put_ledger_def split: sum.splits if_splits)
  from replace_ok[OF r] v show "m' = touch now m
      \<and> (\<exists>cur. stored_ledger E contents s (lm_id m) = Some cur \<and> lm_version cur = lm_version m)
      \<and> stored_ledger E contents s' = (stored_ledger E contents s)(lm_id m \<mapsto> m')" by simp
next
  fix now lid a b s m' s'
  assume "md_transition_state (etcd_store E) now lid a b s = (Inr m', s')"
  then obtain cur where "lm_state cur = a"
    and r: "replace_ledger E cur (touch now (cur\<lparr> lm_state := b \<rparr>)) lid s = (Inr m', s')"
    by (auto simp: etcd_store_def etcd_transition_state_def split: sum.splits if_splits)
  with replace_ok[OF r] show "\<exists>cur. stored_ledger E contents s lid = Some cur \<and> lm_state cur = a
      \<and> m' = touch now (cur\<lparr> lm_state := b \<rparr>) \<and> stored_ledger E contents s' = (stored_ledger E contents s)(lid \<mapsto> m')" by simp
next
  fix now opts ens s m s'
  assume c: "md_create_ledger (etcd_store E) now opts ens s = (Inr m, s')"
  then obtain lid s1 b where v: "validate_options opts = Inr ()"
    and i: "id_attempts E (\<lambda>_. id) ID_GEN_CAS_RETRIES s = (Inr lid, s1)"
    and m: "m = new_ledger now lid opts ens" and b: "js_ser_lm E m = Inr b"
    and t: "et_txn E s1 (etcd_ledger_key lid) NotCreated b = (Inr True, s')"
    by (auto simp: etcd_store_def etcd_create_ledger_def etcd_next_ledger_id_def Let_def
        split: sum.splits prod.splits if_splits)
  from law_txn_true[OF t] stored_after_put[OF _ b] have "stored_ledger E contents s' = (stored_ledger E contents s1)(lid \<mapsto> m)"
    by blast
  with v m id_attempts_stored[OF _ i] show "validate_options opts = Inr () \<and> m = new_ledger now (lm_id m) opts ens
      \<and> stored_ledger E contents s' = (stored_ledger E contents s)(lm_id m \<mapsto> m)"
    by (simp add: new_ledger_def)
qed

text \<open>The contract as a fact about any etcd that keeps its laws.\<close>

context etcd_md
begin

lemma store_contract: "metadata_laws (etcd_store E) (stored_ledger E contents)"
  by unfold_locales

end

end
