(* ===== verification/MetadataSpec.thy ===== *)
theory MetadataSpec
  imports RefStore MetadataStore
begin

text \<open>
  A reference etcd, which keeps every key in memory and counts revisions, and the properties of the
  metadata stores. The metadata is serialised with the readers and writers of \<^verbatim>\<open>RefStore.thy\<close>.
\<close>


section \<open>A reference etcd\<close>

definition write_fr :: "Fragment \<Rightarrow> bytes" where
  "write_fr f = u64_to_be_bytes (fr_first_entry_id f) @ write_list (write_list write_char) (fr_ensemble f)
     @ [fr_write_quorum f] @ [fr_ack_quorum f]"

definition fr_reader :: "Fragment reader" where
  "fr_reader bs =
     Option.bind (u64_reader bs) (\<lambda>(a, r1). Option.bind (list_reader (list_reader char_reader) r1) (\<lambda>(en, r2).
     Option.bind (byte_reader r2) (\<lambda>(w, r3). Option.bind (byte_reader r3) (\<lambda>(q, r4).
       Some (\<lparr> fr_first_entry_id = a, fr_ensemble = en, fr_write_quorum = w, fr_ack_quorum = q \<rparr>, r4)))))"

definition write_state :: "LedgerState \<Rightarrow> bytes" where
  "write_state st = [case st of Open \<Rightarrow> 0 | InRecovery \<Rightarrow> 1 | Closed \<Rightarrow> 2 | Deleted \<Rightarrow> 3]"

definition write_lm :: "LedgerMetadata \<Rightarrow> bytes" where
  "write_lm m =
     u64_to_be_bytes (lm_id m) @ write_state (lm_state m) @ write_list write_fr (lm_fragments m)
     @ write_option u64_to_be_bytes (lm_last_entry_id m) @ u64_to_be_bytes (lm_last_add_confirmed m)
     @ u64_to_be_bytes (lm_created_at_ms m) @ u64_to_be_bytes (lm_updated_at_ms m) @ u64_to_be_bytes (lm_version m)"

definition lm_reader :: "LedgerMetadata reader" where
  "lm_reader bs =
     Option.bind (u64_reader bs) (\<lambda>(i, r1). Option.bind (byte_reader r1) (\<lambda>(st, r2).
     Option.bind (list_reader fr_reader r2) (\<lambda>(fs, r3). Option.bind (option_reader u64_reader r3) (\<lambda>(le, r4).
     Option.bind (u64_reader r4) (\<lambda>(lac, r5). Option.bind (u64_reader r5) (\<lambda>(c, r6).
     Option.bind (u64_reader r6) (\<lambda>(u, r7). Option.bind (u64_reader r7) (\<lambda>(v, r8).
       Some (\<lparr> lm_id = i,
               lm_state = (if st = 0 then Open else if st = 1 then InRecovery else if st = 2 then Closed else Deleted),
               lm_fragments = fs, lm_last_entry_id = le, lm_last_add_confirmed = lac, lm_created_at_ms = c,
               lm_updated_at_ms = u, lm_version = v \<rparr>, r8)))))))))"

lemma seq_reader_write_in:
  "\<forall>x \<in> set xs. \<forall>rest. r (w x @ rest) = Some (x, rest) \<Longrightarrow>
   seq_reader r (length xs) (concat (map w xs) @ rest) = Some (xs, rest)"
  by (induction xs) simp_all

lemma list_reader_write_in:
  assumes "\<forall>x \<in> set xs. \<forall>rest. r (w x @ rest) = Some (x, rest)" and "length xs < 256"
  shows "list_reader r (write_list w xs @ rest) = Some (xs, rest)"
  using assms(2) seq_reader_write_in[OF assms(1)] by (simp add: list_reader_def write_list_def unat_of_nat)

definition small_lm :: "LedgerMetadata \<Rightarrow> bool" where
  "small_lm m \<longleftrightarrow> length (lm_fragments m) < 256
     \<and> (\<forall>f \<in> set (lm_fragments m). length (fr_ensemble f) < 256 \<and> (\<forall>n \<in> set (fr_ensemble f). length n < 256))"

lemma fr_reader_write:
  assumes "length (fr_ensemble f) < 256" and "\<forall>n \<in> set (fr_ensemble f). length n < 256"
  shows "fr_reader (write_fr f @ rest) = Some (f, rest)"
proof -
  have "list_reader (list_reader char_reader) (write_list (write_list write_char) (fr_ensemble f) @ rest)
      = Some (fr_ensemble f, rest)" for rest
    using assms list_reader_write[where r = char_reader and w = write_char] by (intro list_reader_write_in) auto
  then show ?thesis by (simp add: fr_reader_def write_fr_def)
qed

lemma lm_reader_write:
  assumes "small_lm m"
  shows "lm_reader (write_lm m @ rest) = Some (m, rest)"
proof -
  have "list_reader fr_reader (write_list write_fr (lm_fragments m) @ rest) = Some (lm_fragments m, rest)" for rest
    using assms by (intro list_reader_write_in) (auto simp: small_lm_def fr_reader_write)
  moreover have "option_reader u64_reader (write_option u64_to_be_bytes x @ rest) = Some (x, rest)" for x rest
    by (rule option_reader_write) simp
  ultimately show ?thesis
    by (cases "lm_state m") (simp_all add: lm_reader_def write_lm_def write_state_def)
qed

definition write_ni :: "NodeInfo \<Rightarrow> bytes" where
  "write_ni n =
     write_list write_char (ni_node_id n) @ write_list write_char (ni_address n)
     @ [case ni_status n of ReadWrite \<Rightarrow> 0 | ReadOnly \<Rightarrow> 1 | Recovering \<Rightarrow> 2 | Unavailable \<Rightarrow> 3]
     @ u64_to_be_bytes (ni_last_heartbeat_ms n)"

definition ni_reader :: "NodeInfo reader" where
  "ni_reader bs =
     Option.bind (list_reader char_reader bs) (\<lambda>(i, r1). Option.bind (list_reader char_reader r1) (\<lambda>(a, r2).
     Option.bind (byte_reader r2) (\<lambda>(st, r3). Option.bind (u64_reader r3) (\<lambda>(h, r4).
       Some (\<lparr> ni_node_id = i, ni_address = a,
               ni_status = (if st = 0 then ReadWrite else if st = 1 then ReadOnly else if st = 2 then Recovering
                            else Unavailable),
               ni_last_heartbeat_ms = h \<rparr>, r4)))))"

lemma ni_reader_write:
  assumes "length (ni_node_id n) < 256" and "length (ni_address n) < 256"
  shows "ni_reader (write_ni n @ rest) = Some (n, rest)"
proof -
  have "list_reader char_reader (write_list write_char x @ rest) = Some (x, rest)" if "length x < 256" for x rest
    using that by (intro list_reader_write) simp_all
  with assms show ?thesis by (cases "ni_status n") (simp_all add: ni_reader_def write_ni_def)
qed

record ref_etcd_state =
  re_kv :: "(string \<times> bytes \<times> nat) list"
  re_revision :: nat

definition ref_etcd_put :: "ref_etcd_state \<Rightarrow> string \<Rightarrow> bytes \<Rightarrow> ref_etcd_state" where
  "ref_etcd_put s k b =
     s\<lparr> re_kv := AList.update k (b, re_revision s + 1) (re_kv s), re_revision := re_revision s + 1 \<rparr>"

definition ref_etcd :: "ref_etcd_state etcd_api" where
  "ref_etcd =
     \<lparr> et_get = (\<lambda>s k. Inr (map_of (re_kv s) k)),
       et_txn = (\<lambda>s k c b. if compare_holds c (map_of (re_kv s) k) then (Inr True, ref_etcd_put s k b) else (Inr False, s)),
       et_put = (\<lambda>s k b. (Inr (), ref_etcd_put s k b)),
       et_delete = (\<lambda>s k. (Inr (), s\<lparr> re_kv := AList.delete k (re_kv s), re_revision := re_revision s + 1 \<rparr>)),
       et_get_prefix = (\<lambda>s p. Inr (map (\<lambda>(k, b, r). b) (filter (\<lambda>(k, b, r). take (length p) k = p) (re_kv s)))),
       js_ser_lm = guarded write_lm (whole lm_reader), js_de_lm = whole lm_reader,
       js_ser_ni = guarded write_ni (whole ni_reader), js_de_ni = whole ni_reader \<rparr>"

interpretation re: etcd_laws ref_etcd "\<lambda>s. map_of (re_kv s)"
  by unfold_locales
    (auto simp: ref_etcd_def ref_etcd_put_def update_conv' dest: guarded_round_trip split: if_splits)

interpretation rem: etcd_md ref_etcd "\<lambda>s. map_of (re_kv s)"
  by unfold_locales

lemma ref_etcd_lm [simp]:
  "small_lm m \<Longrightarrow> js_ser_lm ref_etcd m = Inr (write_lm m)" "small_lm m \<Longrightarrow> js_de_lm ref_etcd (write_lm m) = Inr m"
  using whole_write[of lm_reader write_lm m] by (simp_all add: ref_etcd_def lm_reader_write)

lemma ref_etcd_ni [simp]:
  "length (ni_node_id n) < 256 \<Longrightarrow> length (ni_address n) < 256 \<Longrightarrow> js_de_ni ref_etcd (write_ni n) = Inr n"
  using whole_write[of ni_reader write_ni n] by (simp add: ref_etcd_def ni_reader_write)

lemma ref_etcd_ops [simp]:
  "et_get ref_etcd s k = Inr (map_of (re_kv s) k)"
  "et_txn ref_etcd s k c b = (if compare_holds c (map_of (re_kv s) k) then (Inr True, ref_etcd_put s k b) else (Inr False, s))"
  "map_of (re_kv (ref_etcd_put s k b)) = (map_of (re_kv s))(k \<mapsto> (b, re_revision s + 1))"
  by (simp_all add: ref_etcd_def ref_etcd_put_def update_conv')


section \<open>Compare and swap\<close>

text \<open>
  C13. No lost update on etcd. If \<^verbatim>\<open>put_ledger\<close> succeeds then, whatever other clients wrote between its
  read and its transaction, the metadata that the transaction replaced carried the version the
  caller started from, and what is stored now is the caller's metadata with the next version.
\<close>

theorem etcd_put_no_lost_update:
  assumes "etcd_laws E contents" and "etcd_put_ledger E env now m s = (Inr m', s')"
  shows "m' = touch now m \<and> lm_version m' = lm_version m + 1
    \<and> (\<exists>cur. stored_ledger E contents (env s) (lm_id m) = Some cur \<and> lm_version cur = lm_version m)
    \<and> stored_ledger E contents s' = (stored_ledger E contents (env s))(lm_id m \<mapsto> m')"
proof -
  from assms(2) obtain cur where "lm_version cur = lm_version m"
    and r: "replace_ledger E cur (touch now m) (lm_id m) (env s) = (Inr m', s')"
    by (auto simp: etcd_put_ledger_def split: sum.splits if_splits)
  with etcd_laws.replace_ok[OF assms(1) r] show ?thesis by (simp add: touch_def)
qed

definition demo_options :: LedgerOptions where
  "demo_options = \<lparr> lo_ensemble_size = 3, lo_write_quorum = 3, lo_ack_quorum = 2 \<rparr>"

definition demo_ledger :: LedgerMetadata where
  "demo_ledger = new_ledger 0 1 demo_options [''n1'', ''n2'', ''n3'']"

definition demo_etcd :: ref_etcd_state where
  "demo_etcd = ref_etcd_put \<lparr> re_kv = [], re_revision = 0 \<rparr> (etcd_ledger_key 1) (write_lm demo_ledger)"

lemma demo_ledger_small [simp]: "small_lm demo_ledger" "small_lm (touch now demo_ledger)" "lm_id demo_ledger = 1"
  by (simp_all add: demo_ledger_def new_ledger_def small_lm_def touch_def)

theorem etcd_put_no_lost_update_witness:
  "stored_ledger ref_etcd (\<lambda>s. map_of (re_kv s)) (snd (etcd_put_ledger ref_etcd id 9 demo_ledger demo_etcd)) 1
     = Some (touch 9 demo_ledger)"
proof -
  have "fst (etcd_put_ledger ref_etcd id 9 demo_ledger demo_etcd) = Inr (touch 9 demo_ledger)"
    by (simp add: etcd_put_ledger_def etcd_get_ledger_def demo_etcd_def replace_ledger_def json_err_def)
  then have p: "etcd_put_ledger ref_etcd id 9 demo_ledger demo_etcd
      = (Inr (touch 9 demo_ledger), snd (etcd_put_ledger ref_etcd id 9 demo_ledger demo_etcd))" by (metis prod.collapse)
  from etcd_put_no_lost_update[OF re.etcd_laws_axioms p] show ?thesis by simp
qed


section \<open>Ledger ids\<close>

text \<open>
  C14. Every id is drawn once. When an attempt of \<^verbatim>\<open>next_ledger_id\<close> succeeds with \<open>n\<close>, its transaction took
  the counter from the predecessor of \<open>n\<close> to \<open>n\<close> in one step, whatever other clients did since the
  read, provided a revision of the counter names one value.
\<close>

theorem etcd_id_is_successor:
  assumes "etcd_laws E contents" and "id_attempt E env s = (Inr (Some n), s')"
    and "\<And>v v' r. contents s ID_GEN_KEY = Some (v, r) \<Longrightarrow> contents (env s) ID_GEN_KEY = Some (v', r) \<Longrightarrow> v' = v"
  shows "id_counter contents (env s) = Some (n - 1) \<and> id_counter contents s' = Some n"
  by (rule etcd_laws.id_attempt_successor[OF assms])

theorem etcd_id_is_successor_witness:
  "id_counter (\<lambda>s. map_of (re_kv s)) (snd (id_attempt ref_etcd id demo_etcd)) = Some 1"
proof -
  have k: "map_of (re_kv demo_etcd) ID_GEN_KEY = None" by (simp add: demo_etcd_def)
  then have "fst (id_attempt ref_etcd id demo_etcd) = Inr (Some 1)" by (simp add: id_attempt_def)
  then have a: "id_attempt ref_etcd id demo_etcd = (Inr (Some 1), snd (id_attempt ref_etcd id demo_etcd))"
    by (metis prod.collapse)
  from etcd_id_is_successor[OF re.etcd_laws_axioms a] k show ?thesis by simp
qed

end
