(* ===== verification/NodeDisk.thy ===== *)
theory NodeDisk
  imports JournalNode
begin

text \<open>
  What a storage node holds, in memory and on disk. An entry is stored when the cache has it or when
  the entry index points to its record in a registered segment file. The theory states when the disk
  side is in order (\<open>disk_wf\<close>), and shows that requests do not touch it and that a read below the cache
  then returns the stored payload. What the flush loop does to it is the subject of \<open>NodeFlush\<close>.
  Segments that were moved to the object store are not covered.
\<close>


section \<open>What is stored\<close>

definition entry_loc ::
  "'k db_api \<Rightarrow> ('k \<Rightarrow> string \<Rightarrow> bytes \<Rightarrow> bytes option) \<Rightarrow> ('k, 'c, 's) lsmc_backend \<Rightarrow> u64 \<times> u64 \<Rightarrow> IndexValue option" where
  "entry_loc D kv b = loc_map D (kv (nl_ks b) (ix_locations (nl_entry_index b)))"

definition wal_loc ::
  "'k db_api \<Rightarrow> ('k \<Rightarrow> string \<Rightarrow> bytes \<Rightarrow> bytes option) \<Rightarrow> ('k, 'c, 's) lsmc_backend \<Rightarrow> u64 \<times> u64 \<Rightarrow> IndexValue option" where
  "wal_loc D kv b = loc_map D (kv (nl_ks b) (ix_locations (nl_wal_index b)))"

definition segments ::
  "'k db_api \<Rightarrow> ('k \<Rightarrow> string \<Rightarrow> bytes \<Rightarrow> bytes option) \<Rightarrow> ('k, 'c, 's) lsmc_backend \<Rightarrow> SegmentId \<Rightarrow> SegmentMeta option" where
  "segments D kv b = seg_map D (kv (nl_ks b) (tr_entry_registry (nl_reader b)))"

abbreviation nl_file :: "('k, 'c, 's) lsmc_backend \<Rightarrow> string \<Rightarrow> bytes option" where
  "nl_file b \<equiv> map_of (fs_files (js_fs (nl_journal b)))"

definition segment_content ::
  "'k db_api \<Rightarrow> ('k \<Rightarrow> string \<Rightarrow> bytes \<Rightarrow> bytes option) \<Rightarrow> ('k, 'c, 's) lsmc_backend \<Rightarrow> SegmentId \<Rightarrow> bytes option" where
  "segment_content D kv b seg =
     Option.bind (segments D kv b seg) (\<lambda>meta. Option.bind (sm_local_path meta) (nl_file b))"

text \<open>The segments whose blocks the reader may keep in its block cache.\<close>

definition sealed_content ::
  "'k db_api \<Rightarrow> ('k \<Rightarrow> string \<Rightarrow> bytes \<Rightarrow> bytes option) \<Rightarrow> ('k, 'c, 's) lsmc_backend \<Rightarrow> SegmentId \<Rightarrow> bytes option" where
  "sealed_content D kv b seg =
     (case segments D kv b seg of
        None \<Rightarrow> None
      | Some meta \<Rightarrow> if sm_status meta = Active then None else segment_content D kv b seg)"

definition disk_payload ::
  "'k db_api \<Rightarrow> ('k \<Rightarrow> string \<Rightarrow> bytes \<Rightarrow> bytes option) \<Rightarrow> (bytes \<Rightarrow> u32) \<Rightarrow> ('k, 'c, 's) lsmc_backend \<Rightarrow> u64 \<times> u64 \<Rightarrow> bytes option" where
  "disk_payload D kv crc b k =
     Option.bind (entry_loc D kv b k) (\<lambda>iv. Option.bind (segment_content D kv b (iv_segment_id iv)) (\<lambda>c.
       case decode_record crc c (unat (iv_offset iv)) of Inl _ \<Rightarrow> None | Inr (_, _, p, _) \<Rightarrow> Some p))"

definition stored_payload ::
  "'k db_api \<Rightarrow> ('k \<Rightarrow> string \<Rightarrow> bytes \<Rightarrow> bytes option) \<Rightarrow> (bytes \<Rightarrow> u32) \<Rightarrow> ('k, 'c, 's) lsmc_backend \<Rightarrow> u64 \<times> u64 \<Rightarrow> bytes option" where
  "stored_payload D kv crc b k =
     (case cache_get (nl_cache b) (fst k) (snd k) of Some p \<Rightarrow> Some p | None \<Rightarrow> disk_payload D kv crc b k)"


section \<open>The disk in order\<close>

text \<open>A payload is the serialised entry of its key.\<close>

definition payload_of :: "'k db_api \<Rightarrow> u64 \<times> u64 \<Rightarrow> bytes \<Rightarrow> bool" where
  "payload_of D k p \<longleftrightarrow> (\<exists>se. bc_de_se D p = Inr se \<and> (e_ledger_id (se_entry se), e_entry_id (se_entry se)) = k \<and> entry_wf (se_entry se))"

text \<open>The files of the write-ahead log.\<close>

definition log_path :: "journal_config \<Rightarrow> string \<Rightarrow> bool" where
  "log_path cfg q \<longleftrightarrow> q = active_seg_path (jc_dir cfg) \<or> (\<exists>i. q = sealed_seg_path (jc_dir cfg) i)"

text \<open>The record of an indexed entry is intact, in a registered local file, within two blocks.\<close>

definition indexed_ok ::
  "'k db_api \<Rightarrow> ('k \<Rightarrow> string \<Rightarrow> bytes \<Rightarrow> bytes option) \<Rightarrow> (bytes \<Rightarrow> u32) \<Rightarrow> ('k, 'c, 's) lsmc_backend \<Rightarrow> u64 \<times> u64 \<Rightarrow> IndexValue \<Rightarrow> bytes \<Rightarrow> bool" where
  "indexed_ok D kv crc b k iv p \<longleftrightarrow>
     (\<exists>c. segment_content D kv b (iv_segment_id iv) = Some c \<and> length c < 2 ^ 63
        \<and> rec_at crc c (unat (iv_offset iv)) (fst k) (snd k) p \<and> unat (iv_length iv) = 24 + length p \<and> two_blocks iv)"

definition segments_ok :: "'k db_api \<Rightarrow> ('k \<Rightarrow> string \<Rightarrow> bytes \<Rightarrow> bytes option) \<Rightarrow> ('k, 'c, 's) lsmc_backend \<Rightarrow> bool" where
  "segments_ok D kv b \<longleftrightarrow>
     (\<forall>seg meta. segments D kv b seg = Some meta \<longrightarrow> sm_status meta \<in> {Active, Local, Offloading}
        \<and> (\<exists>path. sm_local_path meta = Some path \<and> \<not> log_path (nl_journal_cfg b) path
             \<and> fs_read_err (js_fs (nl_journal b)) path = None))"

definition disk_wf ::
  "'k db_api \<Rightarrow> ('k \<Rightarrow> string \<Rightarrow> bytes \<Rightarrow> bytes option) \<Rightarrow> (bytes \<Rightarrow> u32) \<Rightarrow> 'c block_api \<Rightarrow> ('k, 'c, 's) lsmc_backend \<Rightarrow> bool" where
  "disk_wf D kv crc B b \<longleftrightarrow>
     tr_entry_index (nl_reader b) = nl_entry_index b \<and> tr_wal_index (nl_reader b) = nl_wal_index b
     \<and> tr_entry_registry (nl_reader b) \<notin> {jc_registry (nl_journal_cfg b), ix_ledgers (nl_entry_index b)}
     \<and> log_path (nl_journal_cfg b) (js_path (nl_journal b)) \<and> segments_ok D kv b
     \<and> (\<forall>k iv. entry_loc D kv b k = Some iv \<longrightarrow> (\<exists>p. indexed_ok D kv crc b k iv p \<and> payload_of D k p))
     \<and> (\<forall>k. wal_loc D kv b k \<noteq> None \<longrightarrow> cached b k \<or> entry_loc D kv b k \<noteq> None)
     \<and> (\<forall>k. located D kv b k \<longrightarrow> snd k \<noteq> - 1)
     \<and> (\<forall>content. sealed_content D kv b \<subseteq>\<^sub>m content \<longrightarrow> blocks_ok B content (nl_blocks b))"

lemma located_iff: "located D kv b k \<longleftrightarrow> entry_loc D kv b k \<noteq> None \<or> wal_loc D kv b k \<noteq> None"
  by (simp add: located_def entry_loc_def wal_loc_def)

lemma indexed_payload:
  assumes "entry_loc D kv b k = Some iv" and "indexed_ok D kv crc b k iv p"
  shows "disk_payload D kv crc b k = Some p"
proof -
  from assms(2) obtain c where c: "segment_content D kv b (iv_segment_id iv) = Some c" "length c < 2 ^ 63"
    "rec_at crc c (unat (iv_offset iv)) (fst k) (snd k) p" "unat (iv_length iv) = 24 + length p"
    by (auto simp: indexed_ok_def)
  from c(4) have "length p < 2 ^ 32" using unat_u32_less[of "iv_length iv"] by simp
  from rec_at_decode[OF c(3) this] c(2) have "decode_record crc c (unat (iv_offset iv)) = Inr (fst k, snd k, p, 24 + length p)"
    by simp
  with c(1) assms(1) show ?thesis by (simp add: disk_payload_def)
qed

lemma disk_payload_iff:
  assumes "disk_wf D kv crc B b"
  shows "disk_payload D kv crc b k = None \<longleftrightarrow> entry_loc D kv b k = None"
proof (cases "entry_loc D kv b k")
  case None
  then show ?thesis by (simp add: disk_payload_def)
next
  case (Some iv)
  with assms obtain p where "indexed_ok D kv crc b k iv p" unfolding disk_wf_def by blast
  from indexed_payload[OF Some this] Some show ?thesis by simp
qed

text \<open>Every stored payload is the entry of its key, when the cached ones are.\<close>

lemma disk_payload_of: "disk_wf D kv crc B b \<Longrightarrow> disk_payload D kv crc b k = Some p \<Longrightarrow> payload_of D k p"
proof -
  assume wf: "disk_wf D kv crc B b" and p: "disk_payload D kv crc b k = Some p"
  then obtain iv where iv: "entry_loc D kv b k = Some iv" by (auto simp: disk_payload_def split: Option.bind_splits)
  with wf obtain q where q: "indexed_ok D kv crc b k iv q" "payload_of D k q" unfolding disk_wf_def by blast
  from indexed_payload[OF iv q(1)] p q(2) show ?thesis by simp
qed

lemma stored_payload_None:
  assumes "disk_wf D kv crc B b"
  shows "stored_payload D kv crc b k = None \<longleftrightarrow> \<not> cached b k \<and> \<not> located D kv b k"
proof -
  have "entry_loc D kv b k \<noteq> None \<longleftrightarrow> located D kv b k" if "\<not> cached b k"
    using assms that unfolding disk_wf_def located_iff by blast
  then show ?thesis
    using disk_payload_iff[OF assms, of k] by (auto simp: stored_payload_def cached_def cache_contains_get split: option.splits)
qed


section \<open>Requests leave the disk alone\<close>

definition disk_same ::
  "'k db_api \<Rightarrow> ('k \<Rightarrow> string \<Rightarrow> bytes \<Rightarrow> bytes option) \<Rightarrow> ('k, 'c, 's) lsmc_backend \<Rightarrow> ('k, 'c, 's) lsmc_backend \<Rightarrow> bool" where
  "disk_same D kv b b' \<longleftrightarrow> same_names b b' \<and> nl_reader b' = nl_reader b \<and> nl_blocks b' = nl_blocks b
     \<and> (\<forall>q \<in> {ix_locations (nl_entry_index b), ix_locations (nl_wal_index b), tr_entry_registry (nl_reader b)}.
          kv (nl_ks b') q = kv (nl_ks b) q)
     \<and> (\<forall>q. \<not> log_path (nl_journal_cfg b) q \<longrightarrow> nl_file b' q = nl_file b q)
     \<and> fs_read_err (js_fs (nl_journal b')) = fs_read_err (js_fs (nl_journal b))
     \<and> fs_write_err (js_fs (nl_journal b')) = fs_write_err (js_fs (nl_journal b))
     \<and> log_path (nl_journal_cfg b) (js_path (nl_journal b'))"

lemma disk_same_trans: "disk_same D kv b b1 \<Longrightarrow> disk_same D kv b1 b2 \<Longrightarrow> disk_same D kv b b2"
  by (auto simp: disk_same_def same_names_def)

text \<open>The journal writes, renames and opens files of the log only.\<close>

lemma fs_write_at_frame:
  "map_of (fs_files (fs_write_at f p n x)) q = (if q = p then map_of (fs_files (fs_write_at f p n x)) p else map_of (fs_files f) q)"
  "fs_read_err (fs_write_at f p n x) = fs_read_err f" "fs_write_err (fs_write_at f p n x) = fs_write_err f"
  by (auto simp: fs_write_at_def split: option.splits)

lemma fs_rename_frame:
  "fs_rename f p q = (r, f') \<Longrightarrow> x \<noteq> p \<Longrightarrow> x \<noteq> q \<Longrightarrow> map_of (fs_files f') x = map_of (fs_files f) x"
  "fs_rename f p q = (r, f') \<Longrightarrow> fs_read_err f' = fs_read_err f \<and> fs_write_err f' = fs_write_err f"
  by (auto simp: fs_rename_def delete_conv' split: option.splits)

lemma fs_open_create_frame:
  "fs_open_create f p t = (r, f') \<Longrightarrow> x \<noteq> p \<Longrightarrow> map_of (fs_files f') x = map_of (fs_files f) x"
  "fs_open_create f p t = (r, f') \<Longrightarrow> fs_read_err f' = fs_read_err f \<and> fs_write_err f' = fs_write_err f"
  by (auto simp: fs_open_create_def split: option.splits if_splits)

definition log_frame :: "journal_config \<Rightarrow> 'k journal_state \<Rightarrow> 'k journal_state \<Rightarrow> bool" where
  "log_frame cfg st st' \<longleftrightarrow>
     (\<forall>q. \<not> log_path cfg q \<longrightarrow> map_of (fs_files (js_fs st')) q = map_of (fs_files (js_fs st)) q)
     \<and> fs_read_err (js_fs st') = fs_read_err (js_fs st) \<and> fs_write_err (js_fs st') = fs_write_err (js_fs st)
     \<and> (log_path cfg (js_path st) \<longrightarrow> log_path cfg (js_path st'))"

lemma log_frame_trans: "log_frame cfg st st1 \<Longrightarrow> log_frame cfg st1 st2 \<Longrightarrow> log_frame cfg st st2"
  by (simp add: log_frame_def)

lemma log_path_simps [simp]: "log_path cfg (active_seg_path (jc_dir cfg))" "log_path cfg (sealed_seg_path (jc_dir cfg) i)"
  by (auto simp: log_path_def)

lemma not_log_path: "\<not> log_path cfg q \<Longrightarrow> q \<noteq> active_seg_path (jc_dir cfg) \<and> q \<noteq> sealed_seg_path (jc_dir cfg) i"
  by auto

lemma do_seal_frame:
  assumes "do_seal D cfg so st = (r, st')"
  shows "log_frame cfg st st'"
proof -
  obtain r1 f1 where rn: "fs_rename (js_fs st) (active_seg_path (jc_dir cfg)) (sealed_seg_path (jc_dir cfg) (js_seg_id st)) = (r1, f1)"
    by force
  obtain r2 f2 where op: "fs_open_create f1 (active_seg_path (jc_dir cfg)) False = (r2, f2)" by force
  have 1: "map_of (fs_files f1) q = map_of (fs_files (js_fs st)) q" and 2: "map_of (fs_files f2) q = map_of (fs_files f1) q"
    if "\<not> log_path cfg q" for q
    using fs_rename_frame(1)[OF rn] fs_open_create_frame(1)[OF op] not_log_path[OF that] by auto
  have "js_fs st' = js_fs st \<or> js_fs st' = f1 \<or> js_fs st' = f2"
    using assms rn op by (auto simp: do_seal_def Let_def open_odirect_def split: option.splits sum.splits)
  moreover have "js_path st' \<in> {js_path st, active_seg_path (jc_dir cfg), sealed_seg_path (jc_dir cfg) (js_seg_id st)}"
    using assms rn op by (auto simp: do_seal_def Let_def open_odirect_def split: option.splits sum.splits if_splits)
  ultimately show ?thesis
    using 1 2 fs_rename_frame(2)[OF rn] fs_open_create_frame(2)[OF op] by (auto simp: log_frame_def)
qed

lemma write_and_ack_log:
  assumes "write_and_ack wo so buf reqs st = (r, st')" and "log_path cfg (js_path st)"
  shows "log_frame cfg st st'"
proof -
  define f' where "f' = fs_write_at (js_fs st) (js_path st) (unat (js_file_offset st)) (take (io_written wo) (make_aligned (padded_aligned buf)))"
  have "js_fs st' = f' \<and> js_path st' = js_path st"
    using assms(1) by (auto simp: write_and_ack_def Let_def f'_def split: io_write.splits if_splits option.splits)
  moreover have "map_of (fs_files f') q = map_of (fs_files (js_fs st)) q" if "\<not> log_path cfg q" for q
    using that assms(2) unfolding f'_def by (subst fs_write_at_frame) auto
  ultimately show ?thesis by (simp add: log_frame_def f'_def fs_write_at_frame(2,3))
qed

lemma journal_append_frame:
  assumes a: "journal_append D crc cfg env channel w st = (r, st')" and p: "log_path cfg (js_path st)"
  shows "log_frame cfg st st'"
proof -
  obtain buf reqs seals rest where d: "drain_channel crc (fst (push crc AlignedBuffer_new (wr_ledger_id w) (wr_entry_id w) (wr_payload w))) channel
      = (buf, reqs, seals, rest)" by (metis prod_cases4)
  obtain replies st1 where wa: "write_and_ack (je_write env) (je_sync_data env) buf
      ((w, snd (push crc AlignedBuffer_new (wr_ledger_id w) (wr_entry_id w) (wr_payload w))) # reqs) st = (replies, st1)" by force
  obtain r2 st2 where se: "do_seal D cfg (je_sync_all env) st1 = (r2, st2)" by force
  have "st' = st1 \<or> st' = st2 \<or> (\<exists>i. st' = after_seal i st2)"
    using a d wa se by (auto simp: journal_append_def journal_step_def split: prod.splits sum.splits if_splits)
  moreover have "log_frame cfg st st1" using write_and_ack_log[OF wa p] .
  moreover have "log_frame cfg st1 st2" using do_seal_frame[OF se] .
  ultimately show ?thesis by (auto simp: log_frame_def after_seal_def)
qed


context db_laws
begin

lemma log_and_cache_disk:
  assumes lc: "log_and_cache D crc env e b = (r, b')" and p: "node_partitions b"
    and reg: "tr_entry_registry (nl_reader b) \<noteq> jc_registry (nl_journal_cfg b)" and lp: "log_path (nl_journal_cfg b) (js_path (nl_journal b))"
  shows "disk_same D kv b b'"
proof -
  have goal: "disk_same D kv b b'" if ja: "journal_append D crc (nl_journal_cfg b) (ae_disk env) (ae_channel env) w (nl_journal b) = (x, j)"
    and b': "nl_journal b' = j" "same_names b b'" "nl_reader b' = nl_reader b" "nl_blocks b' = nl_blocks b" for w x j
    using journal_append_frame[OF ja lp] journal_append_kv[OF _ ja] that(2-) p reg lp
    by (auto simp: disk_same_def log_frame_def node_partitions_def)
  show ?thesis using lc
  proof (cases rule: log_and_cache_cases)
    case ser
    then show ?thesis using lp by (simp add: disk_same_def)
  next
    case (log err j w)
    then show ?thesis by (intro goal[OF log(3)]) (simp_all add: same_names_def)
  next
    case (ok loc j payload)
    then show ?thesis by (intro goal[OF ok(3)]) (simp_all add: same_names_def)
  qed
qed

lemma set_ks_disk:
  assumes "\<And>q. q \<noteq> ix_ledgers (nl_entry_index b) \<Longrightarrow> kv ks1 q = kv (nl_ks b) q" and "node_partitions b"
    and "tr_entry_registry (nl_reader b) \<noteq> ix_ledgers (nl_entry_index b)" and "log_path (nl_journal_cfg b) (js_path (nl_journal b))"
  shows "disk_same D kv b (nl_set_ks ks1 b)"
  using assms by (auto simp: disk_same_def node_partitions_def nl_set_ks_def same_names_def)

lemma lsmc_write_disk:
  assumes A: "na_db A = D" and w: "lsmc_write A env e b sv = (r, sv')" and b': "sv_backend sv' = Lsmc b'"
    and p: "node_partitions b" and d: "disk_wf D kv crc B b"
  shows "disk_same D kv b b'"
proof -
  obtain r1 known ks1 where rl: "register_ledger D (nl_entry_index b) e (sv_known_ledgers sv) (nl_ks b) = (r1, known, ks1)"
    by (metis prod_cases3)
  let ?b1 = "nl_set_ks ks1 b"
  obtain r2 b2 where lc: "log_and_cache D (na_crc A) env e ?b1 = (r2, b2)" by force
  have 1: "disk_same D kv b ?b1" using register_ledger_keeps(1)[OF rl] p d by (intro set_ks_disk) (auto simp: disk_wf_def)
  have "disk_same D kv ?b1 b2"
    using d p same_names_partitions[of b ?b1] 1
    by (intro log_and_cache_disk[OF lc]) (auto simp: disk_wf_def disk_same_def)
  with 1 have 2: "disk_same D kv b b2" by (rule disk_same_trans)
  have "b' = ?b1 \<or> b' = b2"
    using w rl lc b' by (auto simp: lsmc_write_def A Let_def split: sum.splits bool.splits)
  with 1 2 show ?thesis by blast
qed

lemma fence_disk:
  assumes A: "na_db A = D" and f: "fence_ledger A l sv = (r, sv')" and b: "sv_backend sv = Lsmc b" and b': "sv_backend sv' = Lsmc b'"
    and p: "node_partitions b" and d: "disk_wf D kv crc B b"
  shows "disk_same D kv b b'"
proof -
  obtain r1 ks1 where pf: "persist_fence D (nl_entry_index b) l (nl_ks b) = (r1, ks1)" by force
  have "b' = nl_set_ks ks1 b" using f b b' pf by (auto simp: fence_ledger_def A Let_def split: sum.splits)
  moreover have "disk_same D kv b (nl_set_ks ks1 b)"
    using persist_fence_ok(1)[OF pf] p d by (intro set_ks_disk) (auto simp: disk_wf_def)
  ultimately show ?thesis by simp
qed

end


lemma disk_same_maps:
  assumes "disk_same D kv b b'"
  shows "entry_loc D kv b' = entry_loc D kv b" "wal_loc D kv b' = wal_loc D kv b" "segments D kv b' = segments D kv b"
    "located D kv b' = located D kv b"
  using assms by (auto simp: disk_same_def entry_loc_def wal_loc_def segments_def same_names_def located_def)

lemma disk_same_content:
  assumes s: "disk_same D kv b b'" and ok: "segments_ok D kv b"
  shows "segment_content D kv b' = segment_content D kv b" "sealed_content D kv b' = sealed_content D kv b"
proof -
  show c: "segment_content D kv b' = segment_content D kv b"
  proof
    fix seg
    show "segment_content D kv b' seg = segment_content D kv b seg"
    proof (cases "segments D kv b seg")
      case (Some meta)
      with ok obtain path where "sm_local_path meta = Some path" "\<not> log_path (nl_journal_cfg b) path"
        unfolding segments_ok_def by blast
      with s Some disk_same_maps(3)[OF s] show ?thesis by (simp add: segment_content_def disk_same_def)
    qed (simp add: segment_content_def disk_same_maps(3)[OF s])
  qed
  show "sealed_content D kv b' = sealed_content D kv b"
    by (rule ext) (unfold sealed_content_def c disk_same_maps(3)[OF s], rule refl)
qed

lemma disk_same_wf:
  assumes s: "disk_same D kv b b'" and wf: "disk_wf D kv crc B b" and c: "\<And>k. cached b k \<Longrightarrow> cached b' k"
  shows "disk_wf D kv crc B b'" "disk_payload D kv crc b' = disk_payload D kv crc b"
proof -
  have ok: "segments_ok D kv b" using wf by (simp add: disk_wf_def)
  note m = disk_same_maps[OF s] disk_same_content[OF s ok]
  show "disk_payload D kv crc b' = disk_payload D kv crc b" by (rule ext) (simp add: disk_payload_def m)
  have "segments_ok D kv b'" using ok s by (auto simp: segments_ok_def m disk_same_def same_names_def)
  moreover have "\<forall>k. wal_loc D kv b k \<noteq> None \<longrightarrow> cached b' k \<or> entry_loc D kv b k \<noteq> None"
    using wf c unfolding disk_wf_def by blast
  ultimately show "disk_wf D kv crc B b'"
    using wf s unfolding disk_wf_def m indexed_ok_def disk_same_def same_names_def by simp
qed


section \<open>Reading below the cache\<close>

text \<open>A key-value store whose look-ups do not fail.\<close>

definition reads_answer :: "'k db_api \<Rightarrow> bool" where
  "reads_answer D \<longleftrightarrow> (\<forall>ks p k. \<not> isl (fj_get D ks p k))"

lemma disk_wf_blocks:
  assumes "disk_wf D kv crc B b" and "\<And>content. sealed_content D kv b \<subseteq>\<^sub>m content \<Longrightarrow> blocks_ok B content bc"
  shows "disk_wf D kv crc B (b\<lparr> nl_blocks := bc \<rparr>)" "disk_payload D kv crc (b\<lparr> nl_blocks := bc \<rparr>) = disk_payload D kv crc b"
proof -
  have m: "entry_loc D kv (b\<lparr> nl_blocks := bc \<rparr>) = entry_loc D kv b" "wal_loc D kv (b\<lparr> nl_blocks := bc \<rparr>) = wal_loc D kv b"
    "segments D kv (b\<lparr> nl_blocks := bc \<rparr>) = segments D kv b" "cached (b\<lparr> nl_blocks := bc \<rparr>) = cached b"
    "located D kv (b\<lparr> nl_blocks := bc \<rparr>) = located D kv b"
    by (auto simp: entry_loc_def wal_loc_def segments_def cached_def located_def)
  have c: "segment_content D kv (b\<lparr> nl_blocks := bc \<rparr>) = segment_content D kv b"
    by (rule ext) (simp add: segment_content_def m)
  have s: "sealed_content D kv (b\<lparr> nl_blocks := bc \<rparr>) = sealed_content D kv b"
    by (rule ext) (unfold sealed_content_def c m, rule refl)
  show "disk_payload D kv crc (b\<lparr> nl_blocks := bc \<rparr>) = disk_payload D kv crc b" by (rule ext) (simp add: disk_payload_def m c)
  show "disk_wf D kv crc B (b\<lparr> nl_blocks := bc \<rparr>)"
    using assms unfolding disk_wf_def segments_ok_def indexed_ok_def m c s by simp
qed

context db_laws
begin

lemma get_answers: "reads_answer D \<Longrightarrow> fj_get D ks p k = Inr (kv ks p k)"
  by (cases "fj_get D ks p k") (auto simp: reads_answer_def isl_def dest!: law_get)

lemma get_location_answers:
  "reads_answer D \<Longrightarrow> loc_map D (kv ks (ix_locations idx)) (l, e) = Some iv \<Longrightarrow> get_location D idx ks l e = Inr (Some iv)"
  by (auto simp: get_location_def get_answers loc_map_def abs_map_def split: sum.splits option.splits)

lemma registry_get_answers:
  "reads_answer D \<Longrightarrow> seg_map D (kv ks p) i = Some m \<Longrightarrow> registry_get D p ks i = Inr (Some m)"
  by (auto simp: registry_get_def get_answers seg_map_def abs_map_def split: sum.splits option.splits)

text \<open>A local segment of an indexed entry: the blocks that are read are those of the file.\<close>

lemma read_indexed:
  assumes B: "block_laws B" and wf: "disk_wf D kv crc B b" and iv: "entry_loc D kv b (l, i) = Some iv"
    and rd: "read_from_entry_segment D B S crc (nl_reader b) (js_fs (nl_journal b)) (nl_ks b) s iv (nl_blocks b) = (r, bc)"
  shows "disk_wf D kv crc B (b\<lparr> nl_blocks := bc \<rparr>)" "\<And>p. r = Inr p \<Longrightarrow> disk_payload D kv crc b (l, i) = Some p"
    "reads_answer D \<Longrightarrow> \<not> isl r"
proof -
  let ?f = "js_fs (nl_journal b)" and ?seg = "iv_segment_id iv"
  from wf iv obtain p where ok: "indexed_ok D kv crc b (l, i) iv p" unfolding disk_wf_def by blast
  then obtain c where c: "segment_content D kv b ?seg = Some c" "length c < 2 ^ 63"
    "rec_at crc c (unat (iv_offset iv)) l i p" "unat (iv_length iv) = 24 + length p" "two_blocks iv"
    by (auto simp: indexed_ok_def)
  from c(1) obtain meta where m: "segments D kv b ?seg = Some meta" by (auto simp: segment_content_def split: Option.bind_splits)
  with wf obtain path where st: "sm_status meta \<in> {Active, Local, Offloading}" and path: "sm_local_path meta = Some path"
    and er: "fs_read_err ?f path = None" unfolding disk_wf_def segments_ok_def by blast
  have f: "map_of (fs_files ?f) path = Some c" using c(1) m path by (simp add: segment_content_def)
  have blk: "\<exists>bc'. read_entry_local B crc ?f path (sm_status meta \<noteq> Active) iv (nl_blocks b) = (Inr p, bc') \<and> blocks_ok B content bc'"
    if "sealed_content D kv b \<subseteq>\<^sub>m content" for content
  proof (rule block_laws.read_entry_local_ok[OF B f er _ _ c(3,4,2,5)])
    show "blocks_ok B content (nl_blocks b)" using wf that unfolding disk_wf_def by blast
    show "content ?seg = Some c" if "sm_status meta \<noteq> Active"
    proof -
      have "sealed_content D kv b ?seg = Some c" using that m c(1) by (simp add: sealed_content_def)
      with \<open>sealed_content D kv b \<subseteq>\<^sub>m content\<close> show ?thesis unfolding map_le_def by force
    qed
  qed
  obtain bc' where rl: "read_entry_local B crc ?f path (sm_status meta \<noteq> Active) iv (nl_blocks b) = (Inr p, bc')"
    using blk[OF map_le_refl] by blast
  with blk have bok: "blocks_ok B content bc'" if "sealed_content D kv b \<subseteq>\<^sub>m content" for content using that by fastforce
  obtain x where rg: "registry_get D (tr_entry_registry (nl_reader b)) (nl_ks b) ?seg = x" by simp
  consider (err) e where "x = Inl e" | (ok) "x = Inr (Some meta)"
    using registry_get_ok[of _ _ ?seg] rg m by (cases x) (auto simp: segments_def)
  then have res: "(\<exists>e. r = Inl e \<and> bc = nl_blocks b \<and> isl x) \<or> r = Inr p \<and> bc = bc'"
  proof cases
    case err
    with rd rg show ?thesis by (auto simp: read_from_entry_segment_def)
  next
    case ok
    with rd rg rl st path show ?thesis by (auto simp: read_from_entry_segment_def)
  qed
  from res show "disk_wf D kv crc B (b\<lparr> nl_blocks := bc \<rparr>)"
    using wf bok by (intro disk_wf_blocks) (auto simp: disk_wf_def)
  from res indexed_payload[OF iv ok] show "\<And>p. r = Inr p \<Longrightarrow> disk_payload D kv crc b (l, i) = Some p" by auto
  have "x = Inr (Some meta)" if "reads_answer D" using registry_get_answers[OF that] m rg by (simp add: segments_def)
  with res show "reads_answer D \<Longrightarrow> \<not> isl r" by auto
qed

lemma read_below_cache:
  assumes B: "block_laws B" and wf: "disk_wf D kv crc B b" and nc: "\<not> cached b (l, i)"
    and rd: "tiered_read_entry D B S crc (nl_reader b) (js_fs (nl_journal b)) (nl_ks b) s l i (nl_blocks b) = (r, bc)"
  shows "disk_wf D kv crc B (b\<lparr> nl_blocks := bc \<rparr>)" "\<And>p. r = Inr p \<Longrightarrow> disk_payload D kv crc b (l, i) = Some p"
    "reads_answer D \<Longrightarrow> disk_payload D kv crc b (l, i) \<noteq> None \<Longrightarrow> \<not> isl r"
proof -
  from wf have ix: "tr_entry_index (nl_reader b) = nl_entry_index b" "tr_wal_index (nl_reader b) = nl_wal_index b"
    and wl: "wal_loc D kv b (l, i) \<noteq> None \<Longrightarrow> entry_loc D kv b (l, i) \<noteq> None"
    using nc unfolding disk_wf_def by blast+
  obtain x where g: "get_location D (nl_entry_index b) (nl_ks b) l i = x" by simp
  have w: "isl y \<or> y = Inr None" if "get_location D (nl_wal_index b) (nl_ks b) l i = y" "entry_loc D kv b (l, i) = None" for y
    using that(1) wl that(2) get_location_ok[of "nl_wal_index b" "nl_ks b" l i] by (cases y) (force simp: wal_loc_def)+
  consider (miss) e where "r = Inl e" "bc = nl_blocks b" "isl x \<or> entry_loc D kv b (l, i) = None"
    | (hit) iv where "entry_loc D kv b (l, i) = Some iv"
        "read_from_entry_segment D B S crc (nl_reader b) (js_fs (nl_journal b)) (nl_ks b) s iv (nl_blocks b) = (r, bc)"
  proof (cases x)
    case (Inl e)
    with rd g show thesis by (intro miss) (auto simp: tiered_read_entry_def ix)
  next
    case (Inr y)
    then have y: "y = entry_loc D kv b (l, i)" using get_location_ok g by (simp add: entry_loc_def)
    show thesis
    proof (cases y)
      case None
      then obtain z where z: "r = Inl z" "bc = nl_blocks b"
        using rd g Inr w[OF refl] y by (auto simp: tiered_read_entry_def ix split: sum.splits)
      show thesis by (rule miss[OF z]) (use None y in simp)
    next
      case (Some iv)
      show thesis by (rule hit[of iv]) (use Some rd g Inr y[symmetric] in \<open>simp_all add: tiered_read_entry_def ix\<close>)
    qed
  qed
  note cases = this
  show "disk_wf D kv crc B (b\<lparr> nl_blocks := bc \<rparr>)" using cases
  proof cases
    case miss
    with wf show ?thesis by (intro disk_wf_blocks) (auto simp: disk_wf_def)
  next
    case (hit iv)
    show ?thesis by (rule read_indexed(1)[OF B wf hit])
  qed
  show "disk_payload D kv crc b (l, i) = Some p" if "r = Inr p" for p using cases
  proof cases
    case (hit iv)
    show ?thesis by (rule read_indexed(2)[OF B wf hit that])
  qed (use that in auto)
  show "\<not> isl r" if ra: "reads_answer D" and ne: "disk_payload D kv crc b (l, i) \<noteq> None"
  proof -
    obtain iv where iv: "entry_loc D kv b (l, i) = Some iv"
      using ne disk_payload_iff[OF wf, of "(l, i)"] by auto
    then have "\<not> isl x" using get_location_answers[OF ra] g by (auto simp: entry_loc_def)
    from cases show ?thesis
    proof cases
      case (hit iv)
      show ?thesis by (rule read_indexed(3)[OF B wf hit ra])
    qed (use iv \<open>\<not> isl x\<close> in auto)
  qed
qed

end

end
