(* ===== verification/Ledger.thy ===== *)
theory Ledger
  imports MetadataStore
begin

text \<open>
  The client side: node resolution (\<^verbatim>\<open>folio-core/src/resolver.rs\<close>), the confirmation tracker, ensemble
  changes, hedged reads, the ledger handle and the client (\<^verbatim>\<open>folio-ledger/src\<close>). The trait
  \<^verbatim>\<open>StorageNodeClient\<close> is a record of operations on the state of one node; a resolver is an
  association list from node ids to nodes. Requests that are sent together are modelled one after
  the other in the order of the ensemble; each touches its own node only. The fourth operation of
  the trait, \<^verbatim>\<open>get_lac\<close>, has no caller on this side.
\<close>


section \<open>Nodes and their resolver\<close>

record 'n node_client =
  nc_add :: "Entry \<Rightarrow> 'n \<Rightarrow> AppendAck result \<times> 'n"
  nc_fence :: "u64 \<Rightarrow> 'n \<Rightarrow> u64 result \<times> 'n"
  nc_read :: "u64 \<Rightarrow> u64 \<Rightarrow> 'n \<Rightarrow> ReadResult result \<times> 'n"

type_synonym 'n resolver = "(string \<times> 'n) list"

definition resolve :: "'n resolver \<Rightarrow> string \<Rightarrow> 'n result" where
  "resolve R nid = (case map_of R nid of None \<Rightarrow> Inl (Metadata (''unknown node: '' @ nid)) | Some n \<Rightarrow> Inr n)"

text \<open>Resolving a node and calling one of its operations.\<close>

definition on_node :: "('n \<Rightarrow> 'a result \<times> 'n) \<Rightarrow> string \<Rightarrow> 'n resolver \<Rightarrow> 'a result \<times> 'n resolver" where
  "on_node f nid R =
     (case resolve R nid of
        Inl e \<Rightarrow> (Inl e, R)
      | Inr n \<Rightarrow> (case f n of (r, n') \<Rightarrow> (r, AList.update nid n' R)))"


section \<open>The confirmation tracker\<close>

definition lac_advance :: "u64 \<Rightarrow> AppendAck list \<Rightarrow> u64 \<Rightarrow> u64" where
  "lac_advance lac acks entry_id =
     max (max lac (fold max (map ack_local_lac acks) 0)) entry_id"


section \<open>Changing the ensemble\<close>

text \<open>
  The ledger is returned as the caller finds it: the new fragment is pushed before the metadata is
  put, and stays when the put fails.
\<close>

definition spare_nodes :: "string list \<Rightarrow> string list \<Rightarrow> NodeInfo list \<Rightarrow> string list" where
  "spare_nodes members failed nodes =
     map ni_node_id (take (card (set failed))
       (filter (\<lambda>n. ni_status n = ReadWrite \<and> ni_node_id n \<notin> set members) nodes))"

definition change_fragment ::
  "'m metadata_store \<Rightarrow> u64 \<Rightarrow> string list \<Rightarrow> u64 \<Rightarrow> LedgerMetadata \<Rightarrow> 'm \<Rightarrow> unit result \<times> LedgerMetadata \<times> 'm" where
  "change_fragment M now failed next_entry_id ledger s =
     (if lm_fragments ledger = [] then (Inl (InvalidFragment (lm_id ledger)), ledger, s)
      else
        let current = last (lm_fragments ledger);
            kept = filter (\<lambda>n. n \<notin> set failed) (fr_ensemble current);
            push = (\<lambda>ens. ledger\<lparr> lm_fragments := lm_fragments ledger @
                     [\<lparr> fr_first_entry_id = next_entry_id, fr_ensemble = ens,
                        fr_write_quorum = fr_write_quorum current, fr_ack_quorum = fr_ack_quorum current \<rparr>] \<rparr>);
            put = (\<lambda>l. case md_put_ledger M now l s of
                         (Inl e, s1) \<Rightarrow> (Inl e, l, s1)
                       | (Inr l', s1) \<Rightarrow> (Inr (), l', s1))
        in if failed = [] then put (push kept)
           else
             (case md_list_nodes M s of
                Inl e \<Rightarrow> (Inl e, ledger, s)
              | Inr nodes \<Rightarrow>
                  (let spares = spare_nodes (fr_ensemble current) failed nodes in
                   if length kept + length spares < unat (fr_write_quorum current)
                   then (Inl (QuorumNotMet (unat (fr_write_quorum current)) (length kept + length spares)), ledger, s)
                   else put (push (kept @ spares)))))"


section \<open>Hedged reads\<close>

text \<open>
  The reads in the order in which they complete: the first success wins, and when there is none the
  last error is the answer. With a zero delay the reads run one after the other, in the order of the
  ensemble.
\<close>

fun first_success :: "'n node_client \<Rightarrow> u64 \<Rightarrow> u64 \<Rightarrow> ReadResult result \<Rightarrow> string list \<Rightarrow> 'n resolver
   \<Rightarrow> ReadResult result \<times> 'n resolver" where
  "first_success N lid eid sofar [] R = (sofar, R)"
| "first_success N lid eid sofar (nid # nids) R =
     (case on_node (nc_read N lid eid) nid R of
        (Inr rr, R1) \<Rightarrow> (Inr rr, R1)
      | (Inl e, R1) \<Rightarrow> first_success N lid eid (Inl e) nids R1)"

definition speculative_read ::
  "'n node_client \<Rightarrow> (string list \<Rightarrow> string list) \<Rightarrow> string list \<Rightarrow> u64 \<Rightarrow> u64 \<Rightarrow> nat \<Rightarrow> 'n resolver
   \<Rightarrow> ReadResult result \<times> 'n resolver" where
  "speculative_read N completion clients lid eid hedge_delay R =
     (case clients of
        [] \<Rightarrow> (Inl (EntryNotFound lid eid), R)
      | [single] \<Rightarrow> on_node (nc_read N lid eid) single R
      | _ \<Rightarrow> first_success N lid eid (Inl (EntryNotFound lid eid))
               (if hedge_delay = 0 then clients else completion clients) R)"


section \<open>The ledger handle\<close>

record LedgerHandle =
  lh_metadata :: LedgerMetadata
  lh_next_entry_id :: u64
  lh_lac :: u64
  lh_hedge_delay :: nat

definition LedgerHandle_new :: "LedgerMetadata \<Rightarrow> nat \<Rightarrow> LedgerHandle" where
  "LedgerHandle_new m hedge_delay =
     \<lparr> lh_metadata = m,
       lh_next_entry_id = (case lm_last_entry_id m of None \<Rightarrow> 0 | Some v \<Rightarrow> v + 1),
       lh_lac = lm_last_add_confirmed m, lh_hedge_delay = hedge_delay \<rparr>"

fun send_adds :: "'n node_client \<Rightarrow> Entry \<Rightarrow> string list \<Rightarrow> 'n resolver
   \<Rightarrow> (string \<times> AppendAck result) list \<times> 'n resolver" where
  "send_adds N e [] R = ([], R)"
| "send_adds N e (nid # nids) R =
     (case on_node (nc_add N e) nid R of
        (r, R1) \<Rightarrow> (case send_adds N e nids R1 of (outs, R2) \<Rightarrow> ((nid, r) # outs, R2)))"

text \<open>The acknowledgements, the failed nodes, and whether a node reported the fence.\<close>

fun collect_outcomes :: "(string \<times> AppendAck result) list \<Rightarrow> AppendAck list \<times> string list \<times> bool" where
  "collect_outcomes [] = ([], [], False)"
| "collect_outcomes ((nid, r) # outs) =
     (case r of
        Inl (LedgerFenced _) \<Rightarrow> ([], [], True)
      | Inr ack \<Rightarrow> (case collect_outcomes outs of (acks, failed, fenced) \<Rightarrow> (ack # acks, failed, fenced))
      | Inl _ \<Rightarrow> (case collect_outcomes outs of (acks, failed, fenced) \<Rightarrow> (acks, nid # failed, fenced)))"

definition confirm :: "LedgerHandle \<Rightarrow> AppendAck list \<Rightarrow> u64 \<Rightarrow> LedgerHandle" where
  "confirm h acks eid =
     (let lac = lac_advance (lh_lac h) acks eid in
      h\<lparr> lh_lac := lac, lh_next_entry_id := lh_next_entry_id h + 1,
         lh_metadata := (lh_metadata h)\<lparr> lm_last_add_confirmed := lac, lm_last_entry_id := Some eid \<rparr> \<rparr>)"

text \<open>One round of the loop; \<open>None\<close> is \<^verbatim>\<open>continue\<close>.\<close>

definition append_attempt ::
  "'m metadata_store \<Rightarrow> 'n node_client \<Rightarrow> (bytes \<Rightarrow> u32) \<Rightarrow> u64 \<Rightarrow> nat \<Rightarrow> bytes \<Rightarrow> LedgerHandle \<Rightarrow> 'm \<Rightarrow> 'n resolver
   \<Rightarrow> u64 result option \<times> LedgerHandle \<times> 'm \<times> 'n resolver" where
  "append_attempt M N crc now attempt dat h s R =
     (let md = lh_metadata h in
      if lm_fragments md = [] then (Some (Inl (InvalidFragment (lm_id md))), h, s, R)
      else
        let fragment = last (lm_fragments md);
            entry = Entry_new crc (lm_id md) (lh_next_entry_id h) (lh_lac h) dat;
            node_ids = take (unat (fr_write_quorum fragment)) (fr_ensemble fragment)
        in case send_adds N entry node_ids R of
             (outs, R1) \<Rightarrow>
               (case collect_outcomes outs of
                  (acks, failed, fenced) \<Rightarrow>
                    (if fenced then (Some (Inl (LedgerFenced (lm_id md))), h, s, R1)
                     else if unat (fr_ack_quorum fragment) \<le> length acks then
                       (let h1 = confirm h acks (e_entry_id entry) in
                        if failed = [] then (Some (Inr (e_entry_id entry)), h1, s, R1)
                        else
                          (case change_fragment M now failed (lh_next_entry_id h1) (lh_metadata h1) s of
                             (_, md', s1) \<Rightarrow> (Some (Inr (e_entry_id entry)), h1\<lparr> lh_metadata := md' \<rparr>, s1, R1)))
                     else
                       (let err = Some (Inl (QuorumNotMet (unat (fr_ack_quorum fragment)) (length acks))) in
                        if failed \<noteq> [] \<and> attempt = 0 then
                          (case change_fragment M now failed (lh_next_entry_id h) md s of
                             (Inr _, md', s1) \<Rightarrow> (None, h\<lparr> lh_metadata := md' \<rparr>, s1, R1)
                           | (Inl _, md', s1) \<Rightarrow> (err, h\<lparr> lh_metadata := md' \<rparr>, s1, R1))
                        else (err, h, s, R1)))))"

definition do_append ::
  "'m metadata_store \<Rightarrow> 'n node_client \<Rightarrow> (bytes \<Rightarrow> u32) \<Rightarrow> u64 \<Rightarrow> bytes \<Rightarrow> LedgerHandle \<Rightarrow> 'm \<Rightarrow> 'n resolver
   \<Rightarrow> u64 result \<times> LedgerHandle \<times> 'm \<times> 'n resolver" where
  "do_append M N crc now dat h s R =
     (if lm_state (lh_metadata h) \<noteq> Open then (Inl (StateConflict Open (lm_state (lh_metadata h))), h, s, R)
      else
        case append_attempt M N crc now 0 dat h s R of
          (Some r, h1, s1, R1) \<Rightarrow> (r, h1, s1, R1)
        | (None, h1, s1, R1) \<Rightarrow>
            (case append_attempt M N crc now 1 dat h1 s1 R1 of
               (Some r, h2, s2, R2) \<Rightarrow> (r, h2, s2, R2)
             | (None, h2, s2, R2) \<Rightarrow> (Inl (QuorumNotMet 0 0), h2, s2, R2)))"

text \<open>The last fragment, in list order, that starts at or before the entry.\<close>

definition fragment_of :: "u64 \<Rightarrow> LedgerMetadata \<Rightarrow> Fragment option" where
  "fragment_of eid md = find (\<lambda>f. fr_first_entry_id f \<le> eid) (rev (lm_fragments md))"

definition handle_read ::
  "'n node_client \<Rightarrow> (string list \<Rightarrow> string list) \<Rightarrow> LedgerHandle \<Rightarrow> u64 \<Rightarrow> 'n resolver \<Rightarrow> bytes result \<times> 'n resolver" where
  "handle_read N completion h eid R =
     (let md = lh_metadata h in
      case lm_last_entry_id md of
        None \<Rightarrow> (Inl (EntryNotFound (lm_id md) eid), R)
      | Some last_entry_id \<Rightarrow>
          (if last_entry_id < eid \<or> lh_lac h < eid then (Inl (EntryNotFound (lm_id md) eid), R)
           else
             case fragment_of eid md of
               None \<Rightarrow> (Inl (InvalidFragment (lm_id md)), R)
             | Some fragment \<Rightarrow>
                 (case speculative_read N completion (filter (\<lambda>nid. \<not> isl (resolve R nid)) (fr_ensemble fragment))
                         (lm_id md) eid (lh_hedge_delay h) R of
                    (Inl e, R1) \<Rightarrow> (Inl e, R1)
                  | (Inr rr, R1) \<Rightarrow> (Inr (e_data (rr_entry rr)), R1))))"


section \<open>The client\<close>

text \<open>
  The cache of closed ledgers is an association list: an entry may have been evicted, which the
  client cannot tell from one that was never inserted.
\<close>

record FolioClient =
  fc_hedge_delay :: nat
  fc_ledger_cache :: "(u64 \<times> LedgerMetadata) list"

definition client_create_ledger ::
  "'m metadata_store \<Rightarrow> u64 \<Rightarrow> LedgerOptions \<Rightarrow> string list \<Rightarrow> FolioClient \<Rightarrow> 'm \<Rightarrow> LedgerHandle result \<times> 'm" where
  "client_create_ledger M now options ensemble c s =
     (case md_create_ledger M now options ensemble s of
        (Inl e, s1) \<Rightarrow> (Inl e, s1)
      | (Inr m, s1) \<Rightarrow> (Inr (LedgerHandle_new m (fc_hedge_delay c)), s1))"

definition open_ledger ::
  "'m metadata_store \<Rightarrow> u64 \<Rightarrow> FolioClient \<Rightarrow> 'm \<Rightarrow> LedgerHandle result \<times> FolioClient" where
  "open_ledger M lid c s =
     (case map_of (fc_ledger_cache c) lid of
        Some m \<Rightarrow> (Inr (LedgerHandle_new m (fc_hedge_delay c)), c)
      | None \<Rightarrow>
          (case md_get_ledger M lid s of
             Inl e \<Rightarrow> (Inl e, c)
           | Inr m \<Rightarrow>
               (Inr (LedgerHandle_new m (fc_hedge_delay c)),
                if lm_state m \<noteq> Open then c\<lparr> fc_ledger_cache := AList.update lid m (fc_ledger_cache c) \<rparr> else c)))"

definition seal_ledger ::
  "'m metadata_store \<Rightarrow> u64 \<Rightarrow> u64 \<Rightarrow> u64 \<Rightarrow> FolioClient \<Rightarrow> 'm \<Rightarrow> unit result \<times> FolioClient \<times> 'm" where
  "seal_ledger M now lid final_lac c s =
     (let c1 = c\<lparr> fc_ledger_cache := AList.delete lid (fc_ledger_cache c) \<rparr> in
      case md_get_ledger M lid s of
        Inl e \<Rightarrow> (Inl e, c1, s)
      | Inr m \<Rightarrow>
          (if lm_state m = Closed then (Inr (), c1, s)
           else
             (case md_put_ledger M now
                     (m\<lparr> lm_state := Closed, lm_last_add_confirmed := final_lac, lm_last_entry_id := Some final_lac \<rparr>) s of
                (Inl e, s1) \<Rightarrow> (Inl e, c1, s1)
              | (Inr _, s1) \<Rightarrow> (Inr (), c1, s1))))"

definition client_delete_ledger ::
  "'m metadata_store \<Rightarrow> u64 \<Rightarrow> u64 \<Rightarrow> FolioClient \<Rightarrow> 'm \<Rightarrow> unit result \<times> FolioClient \<times> 'm" where
  "client_delete_ledger M now lid c s =
     (let c1 = c\<lparr> fc_ledger_cache := AList.delete lid (fc_ledger_cache c) \<rparr> in
      case md_get_ledger M lid s of
        Inl e \<Rightarrow> (Inl e, c1, s)
      | Inr m \<Rightarrow>
          (case md_put_ledger M now (m\<lparr> lm_state := Deleted \<rparr>) s of
             (Inl e, s1) \<Rightarrow> (Inl e, c1, s1)
           | (Inr _, s1) \<Rightarrow> (case md_delete_ledger M lid s1 of (r, s2) \<Rightarrow> (r, c1, s2))))"


section \<open>The contract of a node\<close>

text \<open>
  A node keeps the first entry that it accepts under an id; an add that reports an error may have
  been accepted. It answers a fence with a bound on what it stores, reads only what it stores, and
  calls an id invalid only if it stores one under it. \<open>good\<close> is the node's own
  invariant.
\<close>

definition ids_of :: "Entry \<Rightarrow> u64 \<times> u64" where
  "ids_of e = (e_ledger_id e, e_entry_id e)"

locale replica_laws =
  fixes N :: "'n node_client" and stored :: "'n \<Rightarrow> u64 \<times> u64 \<Rightarrow> Entry option"
    and fenced :: "'n \<Rightarrow> u64 set" and good :: "'n \<Rightarrow> bool"
  assumes add_ok: "good n \<Longrightarrow> entry_wf e \<Longrightarrow> nc_add N e n = (Inr ack, n') \<Longrightarrow> good n' \<and> e_ledger_id e \<notin> fenced n
      \<and> fenced n' = fenced n
      \<and> stored n' = (if stored n (ids_of e) = None then (stored n)(ids_of e \<mapsto> e) else stored n)"
    and add_err: "good n \<Longrightarrow> entry_wf e \<Longrightarrow> nc_add N e n = (Inl x, n') \<Longrightarrow> good n' \<and> fenced n' = fenced n
      \<and> (stored n' = stored n \<or> stored n (ids_of e) = None \<and> stored n' = (stored n)(ids_of e \<mapsto> e))"
    and fence_ok: "good n \<Longrightarrow> nc_fence N l n = (Inr h, n') \<Longrightarrow> good n' \<and> l \<in> fenced n' \<and> fenced n \<subseteq> fenced n'
      \<and> stored n' = stored n \<and> (\<forall>i. stored n (l, i) \<noteq> None \<longrightarrow> i \<le> h)"
    and fence_err: "good n \<Longrightarrow> nc_fence N l n = (Inl x, n') \<Longrightarrow> good n' \<and> fenced n \<subseteq> fenced n' \<and> stored n' = stored n"
    and read_ok: "good n \<Longrightarrow> nc_read N l i n = (r, n') \<Longrightarrow> good n' \<and> fenced n' = fenced n \<and> stored n' = stored n
      \<and> (\<forall>rr. r = Inr rr \<longrightarrow> stored n (l, i) = Some (rr_entry rr))"
    and stored_ids: "good n \<Longrightarrow> stored n k = Some e \<Longrightarrow> ids_of e = k \<and> entry_wf e"
    and add_invalid: "good n \<Longrightarrow> entry_wf e \<Longrightarrow> nc_add N e n = (Inl (InvalidEntryId a b), n') \<Longrightarrow> stored n (ids_of e) \<noteq> None"

text \<open>A node that can be reached reports a fence as such; one whose disk answers also reads what it stores.\<close>

locale fencing_laws = replica_laws N stored fenced good
  for N :: "'n node_client" and stored and fenced and good +
  fixes crc :: "bytes \<Rightarrow> u32"
  assumes add_fenced: "good n \<Longrightarrow> entry_wf e \<Longrightarrow> e_ledger_id e \<in> fenced n \<Longrightarrow> validate_digest crc e \<Longrightarrow>
      fst (nc_add N e n) = Inl (LedgerFenced (e_ledger_id e))"

locale node_laws = fencing_laws N stored fenced good crc
  for N :: "'n node_client" and stored and fenced and good and crc +
  assumes read_live: "good n \<Longrightarrow> stored n (l, i) \<noteq> None \<Longrightarrow> \<not> isl (fst (nc_read N l i n))"

text \<open>The nodes of a resolver: all good, what one of them holds, which of them are fenced.\<close>

definition all_good :: "('n \<Rightarrow> bool) \<Rightarrow> 'n resolver \<Rightarrow> bool" where
  "all_good good R \<longleftrightarrow> (\<forall>nid n. map_of R nid = Some n \<longrightarrow> good n)"

definition held :: "('n \<Rightarrow> u64 \<times> u64 \<Rightarrow> Entry option) \<Rightarrow> 'n resolver \<Rightarrow> string \<Rightarrow> u64 \<times> u64 \<Rightarrow> Entry option" where
  "held stored R nid k = (case map_of R nid of None \<Rightarrow> None | Some n \<Rightarrow> stored n k)"

definition fenced_at :: "('n \<Rightarrow> u64 set) \<Rightarrow> 'n resolver \<Rightarrow> string \<Rightarrow> u64 set" where
  "fenced_at fenced R nid = (case map_of R nid of None \<Rightarrow> {} | Some n \<Rightarrow> fenced n)"

lemma on_node_cases:
  assumes "on_node f nid R = (r, R')"
  obtains (unknown) "map_of R nid = None" "R' = R" "r = Inl (Metadata (''unknown node: '' @ nid))"
    | (known) n n' where "map_of R nid = Some n" "f n = (r, n')" "map_of R' = (map_of R)(nid \<mapsto> n')"
  using assms by (auto simp: on_node_def resolve_def update_conv' split: option.splits prod.splits)

lemma resolve_ok_iff: "\<not> isl (resolve R nid) \<longleftrightarrow> map_of R nid \<noteq> None"
  by (simp add: resolve_def split: option.splits)

lemma collect_outcomes_spec:
  assumes "collect_outcomes outs = (acks, failed, False)"
  shows "length acks = length (filter (\<lambda>x. \<not> isl (snd x)) outs)"
    and "failed = map fst (filter (\<lambda>x. isl (snd x)) outs)"
proof -
  have "length acks = length (filter (\<lambda>x. \<not> isl (snd x)) outs) \<and> failed = map fst (filter (\<lambda>x. isl (snd x)) outs)"
    using assms
  proof (induction outs arbitrary: acks failed)
    case (Cons x outs)
    obtain nid r where x: "x = (nid, r)" by force
    obtain a f b where c: "collect_outcomes outs = (a, f, b)" by (metis prod_cases3)
    show ?case
    proof (cases r)
      case (Inl e)
      with Cons.prems c have "b = False" "acks = a" "failed = nid # f"
        by (cases e; simp add: x)+
      with Cons.IH c Inl show ?thesis by (simp add: x)
    next
      case (Inr ack)
      with Cons.prems c Cons.IH show ?thesis by (auto simp: x)
    qed
  qed simp
  then show "length acks = length (filter (\<lambda>x. \<not> isl (snd x)) outs)"
    and "failed = map fst (filter (\<lambda>x. isl (snd x)) outs)" by blast+
qed

lemma collect_outcomes_fenced:
  "(nid, Inl (LedgerFenced l)) \<in> set outs \<Longrightarrow> snd (snd (collect_outcomes outs))"
proof (induction outs)
  case (Cons x outs)
  obtain m r where x: "x = (m, r)" by force
  obtain a f b where c: "collect_outcomes outs = (a, f, b)" by (metis prod_cases3)
  show ?case
  proof (cases r)
    case (Inl e)
    with Cons c show ?thesis by (cases e) (auto simp: x)
  next
    case (Inr ack)
    with Cons c show ?thesis by (auto simp: x)
  qed
qed simp

context replica_laws
begin

text \<open>What one round of requests does to the nodes.\<close>

lemma send_adds_spec:
  assumes "send_adds N e nids R = (outs, R')" and "all_good good R" and "\<forall>nid. held stored R nid (ids_of e) \<in> {None, Some e}"
    and wf: "entry_wf e"
  shows "all_good good R' \<and> map fst outs = nids \<and> (\<forall>nid. held stored R' nid (ids_of e) \<in> {None, Some e})
    \<and> (\<forall>nid k x. held stored R nid k = Some x \<longrightarrow> held stored R' nid k = Some x)
    \<and> (\<forall>nid. map_of R' nid = None \<longleftrightarrow> map_of R nid = None)
    \<and> (\<forall>nid r. (nid, r) \<in> set outs \<and> \<not> isl r \<longrightarrow> held stored R' nid (ids_of e) = Some e)"
  using assms(1-3)
proof (induction nids arbitrary: R outs)
  case (Cons nid nids)
  obtain r R1 where o: "on_node (nc_add N e) nid R = (r, R1)" by force
  obtain outs' where s: "send_adds N e nids R1 = (outs', R')" and outs: "outs = (nid, r) # outs'"
    using Cons.prems(1) o by (auto split: prod.splits)
  have step: "all_good good R1 \<and> (\<forall>m. held stored R1 m (ids_of e) \<in> {None, Some e})
    \<and> (\<forall>m k x. held stored R m k = Some x \<longrightarrow> held stored R1 m k = Some x)
    \<and> (\<forall>m. map_of R1 m = None \<longleftrightarrow> map_of R m = None)
    \<and> (\<not> isl r \<longrightarrow> held stored R1 nid (ids_of e) = Some e)"
    using o
  proof (cases rule: on_node_cases)
    case unknown
    with Cons.prems show ?thesis by simp
  next
    case (known n n')
    then have g: "good n" using Cons.prems(2) by (simp add: all_good_def)
    have hn: "stored n (ids_of e) \<in> {None, Some e}" using spec[OF Cons.prems(3), of nid] known(1) by (simp add: held_def)
    have new: "good n' \<and> (\<forall>k x. stored n k = Some x \<longrightarrow> stored n' k = Some x) \<and> stored n' (ids_of e) \<in> {None, Some e}
      \<and> (\<not> isl r \<longrightarrow> stored n' (ids_of e) = Some e)"
    proof (cases r)
      case (Inl x)
      with add_err[OF g wf known(2)[unfolded Inl]] hn show ?thesis by auto
    next
      case (Inr ack)
      with add_ok[OF g wf known(2)[unfolded Inr]] hn show ?thesis by auto
    qed
    then show ?thesis using Cons.prems(2,3) known(1,3) by (auto simp: all_good_def held_def)
  qed
  from Cons.IH[OF s] step have ih: "all_good good R' \<and> map fst outs' = nids
    \<and> (\<forall>nid. held stored R' nid (ids_of e) \<in> {None, Some e})
    \<and> (\<forall>nid k x. held stored R1 nid k = Some x \<longrightarrow> held stored R' nid k = Some x)
    \<and> (\<forall>nid. map_of R' nid = None \<longleftrightarrow> map_of R1 nid = None)
    \<and> (\<forall>nid r. (nid, r) \<in> set outs' \<and> \<not> isl r \<longrightarrow> held stored R' nid (ids_of e) = Some e)" by blast
  with step show ?case unfolding outs by (auto simp del: split_paired_All)
qed simp

end

context fencing_laws
begin

lemma send_adds_fenced:
  assumes "send_adds N e nids R = (outs, R')" and "all_good good R" and "nid \<in> set nids"
    and "\<forall>n \<in> set nids. map_of R n \<noteq> None \<and> e_ledger_id e \<in> fenced_at fenced R n" and "validate_digest crc e"
    and "entry_wf e"
  shows "snd (snd (collect_outcomes outs))"
proof -
  obtain m ms where nids: "nids = m # ms" using assms(3) by (cases nids) auto
  with assms(4) obtain n where n: "map_of R m = Some n" "e_ledger_id e \<in> fenced n" by (auto simp: fenced_at_def)
  then have "fst (on_node (nc_add N e) m R) = Inl (LedgerFenced (e_ledger_id e))"
    using add_fenced[of n e] assms(2,5,6) by (auto simp: on_node_def resolve_def all_good_def split: prod.splits)
  then have "(m, Inl (LedgerFenced (e_ledger_id e))) \<in> set outs"
    using assms(1) by (auto simp: nids split: prod.splits)
  then show ?thesis by (rule collect_outcomes_fenced)
qed

end


section \<open>The client over both contracts\<close>

lemma lac_advance_ge: "eid \<le> lac_advance lac acks eid" "lac \<le> lac_advance lac acks eid"
  by (simp_all add: lac_advance_def le_max_iff_disj)

locale client_laws = metadata_laws M ledgers + replica_laws N stored fenced good
  for M :: "'m metadata_store" and ledgers and N :: "'n node_client" and stored and fenced and good
begin

lemma change_fragment_spec:
  assumes "change_fragment M now failed nxt l s = (r, l', s')"
  shows "lm_id l' = lm_id l \<and> lm_last_entry_id l' = lm_last_entry_id l \<and> lm_state l' = lm_state l
    \<and> (lm_fragments l' = lm_fragments l \<and> isl r \<or>
       (\<exists>g. fr_first_entry_id g = nxt \<and> lm_fragments l' = lm_fragments l @ [g]))"
proof (cases "lm_fragments l = []")
  case True
  with assms show ?thesis by (auto simp: change_fragment_def)
next
  case False
  let ?cur = "last (lm_fragments l)"
  let ?push = "\<lambda>ens. l\<lparr> lm_fragments := lm_fragments l @
      [\<lparr> fr_first_entry_id = nxt, fr_ensemble = ens, fr_write_quorum = fr_write_quorum ?cur,
         fr_ack_quorum = fr_ack_quorum ?cur \<rparr>] \<rparr>"
  have "l' = l \<and> isl r \<or> (\<exists>ens. l' = ?push ens) \<or> (\<exists>ens s1. md_put_ledger M now (?push ens) s = (Inr l', s1))"
    using assms False by (auto simp: change_fragment_def Let_def split: sum.splits prod.splits if_splits)
  then show ?thesis
  proof (elim disjE exE conjE)
    fix ens s1 assume "md_put_ledger M now (?push ens) s = (Inr l', s1)"
    from put_ok[OF this] have "l' = touch now (?push ens)" by blast
    then show ?thesis by (auto simp: touch_def)
  qed auto
qed

text \<open>A round that returns an id, and a round that asks for another.\<close>

lemma append_attempt_ok:
  assumes a: "append_attempt M N crc now att dat h s R = (Some (Inr eid), h', s', R')" and g: "all_good good R"
    and e: "e = Entry_new crc (lm_id (lh_metadata h)) (lh_next_entry_id h) (lh_lac h) dat"
    and fresh: "\<forall>nid. held stored R nid (ids_of e) \<in> {None, Some e}"
  defines "f \<equiv> last (lm_fragments (lh_metadata h))"
  shows "eid = lh_next_entry_id h \<and> all_good good R' \<and> lm_fragments (lh_metadata h) \<noteq> []
    \<and> unat (fr_ack_quorum f) \<le>
        length (filter (\<lambda>nid. held stored R' nid (ids_of e) = Some e) (take (unat (fr_write_quorum f)) (fr_ensemble f)))
    \<and> (lm_fragments (lh_metadata h') = lm_fragments (lh_metadata h) \<or>
       (\<exists>g. fr_first_entry_id g = eid + 1 \<and> lm_fragments (lh_metadata h') = lm_fragments (lh_metadata h) @ [g]))
    \<and> lm_id (lh_metadata h') = lm_id (lh_metadata h) \<and> lm_last_entry_id (lh_metadata h') = Some eid \<and> eid \<le> lh_lac h'"
proof -
  let ?md = "lh_metadata h" and ?nids = "take (unat (fr_write_quorum f)) (fr_ensemble f)"
  have ne: "lm_fragments ?md \<noteq> []" using a by (auto simp: append_attempt_def Let_def)
  have wf: "entry_wf e" by (simp add: e)
  obtain outs R1 where s1: "send_adds N e ?nids R = (outs, R1)" by force
  obtain acks failed fnc where c: "collect_outcomes outs = (acks, failed, fnc)" by (metis prod_cases3)
  note a' = a[unfolded append_attempt_def Let_def if_not_P[OF ne] e[symmetric] f_def[symmetric] s1 prod.case c]
  have nf: "\<not> fnc" and q: "unat (fr_ack_quorum f) \<le> length acks" and R': "R' = R1" and eid: "eid = e_entry_id e"
    using a' by (auto split: if_splits prod.splits sum.splits)
  have h': "h' = confirm h acks eid \<or> (\<exists>r md' s1. change_fragment M now failed (lh_next_entry_id (confirm h acks eid))
      (lh_metadata (confirm h acks eid)) s = (r, md', s1) \<and> h' = (confirm h acks eid)\<lparr> lh_metadata := md' \<rparr>)"
    using a' nf q eid by (auto split: if_splits prod.splits)
  have eid': "eid = lh_next_entry_id h" using eid e by simp
  note sp = send_adds_spec[OF s1 g fresh wf]
  from sp have acked: "\<And>nid r. (nid, r) \<in> set outs \<Longrightarrow> \<not> isl r \<Longrightarrow> held stored R1 nid (ids_of e) = Some e" by blast
  have "length acks = length (filter (\<lambda>x. \<not> isl (snd x)) outs)" using collect_outcomes_spec(1) c nf by simp
  also have "\<dots> \<le> length (filter (\<lambda>x. held stored R1 (fst x) (ids_of e) = Some e) outs)"
  proof -
    have "filter (\<lambda>x. \<not> isl (snd x)) outs = filter (\<lambda>x. \<not> isl (snd x)) (filter (\<lambda>x. held stored R1 (fst x) (ids_of e) = Some e) outs)"
      unfolding filter_filter using acked by (intro filter_cong refl) (metis prod.collapse)
    then show ?thesis by (metis length_filter_le)
  qed
  also have "\<dots> = length (filter (\<lambda>nid. held stored R1 nid (ids_of e) = Some e) (map fst outs))"
    by (simp add: filter_map comp_def)
  finally have count: "length acks \<le> length (filter (\<lambda>nid. held stored R1 nid (ids_of e) = Some e) ?nids)"
    using sp by simp
  have meta: "(lm_fragments (lh_metadata h') = lm_fragments ?md \<or>
       (\<exists>g. fr_first_entry_id g = eid + 1 \<and> lm_fragments (lh_metadata h') = lm_fragments ?md @ [g]))
    \<and> lm_id (lh_metadata h') = lm_id ?md \<and> lm_last_entry_id (lh_metadata h') = Some eid \<and> eid \<le> lh_lac h'"
    using h'
  proof (elim disjE exE conjE)
    fix r md' s1 assume "change_fragment M now failed (lh_next_entry_id (confirm h acks eid))
        (lh_metadata (confirm h acks eid)) s = (r, md', s1)" and "h' = (confirm h acks eid)\<lparr> lh_metadata := md' \<rparr>"
    with change_fragment_spec[of now failed "lh_next_entry_id (confirm h acks eid)" "lh_metadata (confirm h acks eid)" s r md' s1]
    show ?thesis by (auto simp: confirm_def Let_def eid' lac_advance_ge)
  qed (simp add: confirm_def Let_def lac_advance_ge)
  show ?thesis using eid' sp ne q count meta R' by auto
qed

lemma append_attempt_retry:
  assumes a: "append_attempt M N crc now att dat h s R = (None, h', s', R')" and g: "all_good good R"
    and e: "e = Entry_new crc (lm_id (lh_metadata h)) (lh_next_entry_id h) (lh_lac h) dat"
    and fresh: "\<forall>nid. held stored R nid (ids_of e) \<in> {None, Some e}"
  shows "all_good good R' \<and> (\<forall>nid. held stored R' nid (ids_of e) \<in> {None, Some e})
    \<and> lh_next_entry_id h' = lh_next_entry_id h \<and> lh_lac h' = lh_lac h \<and> lm_id (lh_metadata h') = lm_id (lh_metadata h)
    \<and> (\<exists>g. fr_first_entry_id g = lh_next_entry_id h \<and> lm_fragments (lh_metadata h') = lm_fragments (lh_metadata h) @ [g])"
proof -
  let ?md = "lh_metadata h" and ?f = "last (lm_fragments (lh_metadata h))"
  have ne: "lm_fragments ?md \<noteq> []" using a by (auto simp: append_attempt_def Let_def)
  have wf: "entry_wf e" by (simp add: e)
  obtain outs R1 where s1: "send_adds N e (take (unat (fr_write_quorum ?f)) (fr_ensemble ?f)) R = (outs, R1)" by force
  obtain acks failed fnc where c: "collect_outcomes outs = (acks, failed, fnc)" by (metis prod_cases3)
  note a' = a[unfolded append_attempt_def Let_def if_not_P[OF ne] e[symmetric] s1 prod.case c]
  obtain md' where cf: "change_fragment M now failed (lh_next_entry_id h) ?md s = (Inr (), md', s')"
    and h': "h' = h\<lparr> lh_metadata := md' \<rparr>" and R': "R' = R1"
    using a' by (auto split: if_splits prod.splits sum.splits)
  from send_adds_spec[OF s1 g fresh wf] change_fragment_spec[OF cf] show ?thesis by (auto simp: h' R')
qed

end


context client_laws
begin

text \<open>The entry of an append that returned, held by a quorum of the fragment that reads will use.\<close>

lemma append_attempt_held:
  assumes a: "append_attempt M N crc now att dat h s R = (Some (Inr eid), h', s', R')" and g: "all_good good R"
    and e: "e = Entry_new crc (lm_id (lh_metadata h)) (lh_next_entry_id h) (lh_lac h) dat"
    and fresh: "\<forall>nid. held stored R nid (ids_of e) \<in> {None, Some e}"
  shows "\<forall>nid. held stored R' nid (ids_of e) \<in> {None, Some e}"
proof -
  let ?md = "lh_metadata h" and ?f = "last (lm_fragments (lh_metadata h))"
  have ne: "lm_fragments ?md \<noteq> []" using a by (auto simp: append_attempt_def Let_def)
  have wf: "entry_wf e" by (simp add: e)
  obtain outs R1 where s1: "send_adds N e (take (unat (fr_write_quorum ?f)) (fr_ensemble ?f)) R = (outs, R1)" by force
  note a' = a[unfolded append_attempt_def Let_def if_not_P[OF ne] e[symmetric] s1 prod.case]
  have "R' = R1" using a' by (auto split: if_splits prod.splits sum.splits)
  with send_adds_spec[OF s1 g fresh wf] show ?thesis by simp
qed

lemma do_append_ok:
  assumes a: "do_append M N crc now dat h s R = (Inr eid, h', s', R')" and g: "all_good good R"
    and e: "e = Entry_new crc (lm_id (lh_metadata h)) (lh_next_entry_id h) (lh_lac h) dat"
    and fresh: "\<forall>nid. held stored R nid (ids_of e) = None"
    and first: "fr_first_entry_id (last (lm_fragments (lh_metadata h))) \<le> lh_next_entry_id h"
    and room: "lh_next_entry_id h \<noteq> - 1"
  obtains f where "eid = lh_next_entry_id h" and "all_good good R'" and "fragment_of eid (lh_metadata h') = Some f"
    and "unat (fr_ack_quorum f) \<le>
        length (filter (\<lambda>nid. held stored R' nid (ids_of e) = Some e) (take (unat (fr_write_quorum f)) (fr_ensemble f)))"
    and "lm_id (lh_metadata h') = lm_id (lh_metadata h)" and "lm_last_entry_id (lh_metadata h') = Some eid"
    and "eid \<le> lh_lac h'" and "\<forall>nid. held stored R' nid (ids_of e) \<in> {None, Some e}"
proof -
  have open': "lm_state (lh_metadata h) = Open" using a by (auto simp: do_append_def split: if_splits)
  have fr: "\<forall>nid. held stored R nid (ids_of e) \<in> {None, Some e}" using fresh by simp
  have above: "\<not> lh_next_entry_id h + 1 \<le> lh_next_entry_id h"
    using u64_less_plus1[OF room] by simp
  have fo: "fragment_of (lh_next_entry_id h) md = Some (last fs)"
    if "fs \<noteq> []" "fr_first_entry_id (last fs) \<le> lh_next_entry_id h"
      "lm_fragments md = fs \<or> (\<exists>g. fr_first_entry_id g = lh_next_entry_id h + 1 \<and> lm_fragments md = fs @ [g])" for fs md
  proof -
    have "find (\<lambda>f. fr_first_entry_id f \<le> lh_next_entry_id h) (rev fs) = Some (last fs)"
      using that(1,2) by (cases fs rule: rev_cases) auto
    with that above show ?thesis by (auto simp: fragment_of_def)
  qed
  obtain o1 h1 s1 R1 where a1: "append_attempt M N crc now 0 dat h s R = (o1, h1, s1, R1)" by (metis prod_cases4)
  show thesis
  proof (cases o1)
    case (Some r)
    with a a1 open' have "append_attempt M N crc now 0 dat h s R = (Some (Inr eid), h', s', R')" by (simp add: do_append_def)
    from append_attempt_ok[OF this g e fr] append_attempt_held[OF this g e fr]
    show thesis by (intro that[of "last (lm_fragments (lh_metadata h))"] fo) (auto intro: fo first)
  next
    case None
    obtain o2 h2 s2 R2 where a2: "append_attempt M N crc now 1 dat h1 s1 R1 = (o2, h2, s2, R2)" by (metis prod_cases4)
    from append_attempt_retry[OF a1[unfolded None] g e fr] obtain gg where r: "all_good good R1"
      "\<forall>nid. held stored R1 nid (ids_of e) \<in> {None, Some e}" "lh_next_entry_id h1 = lh_next_entry_id h" "lh_lac h1 = lh_lac h"
      "lm_id (lh_metadata h1) = lm_id (lh_metadata h)" "fr_first_entry_id gg = lh_next_entry_id h"
      "lm_fragments (lh_metadata h1) = lm_fragments (lh_metadata h) @ [gg]" by blast
    have e1: "e = Entry_new crc (lm_id (lh_metadata h1)) (lh_next_entry_id h1) (lh_lac h1) dat" using e r by simp
    have "append_attempt M N crc now 1 dat h1 s1 R1 = (Some (Inr eid), h', s', R')"
      using a a1 a2 None open' by (cases o2) (auto simp: do_append_def)
    from append_attempt_ok[OF this r(1) e1 r(2)] append_attempt_held[OF this r(1) e1 r(2)] r
    show thesis by (intro that[of gg]) (auto intro!: fo[of "lm_fragments (lh_metadata h) @ [gg]", simplified])
  qed
qed

end

context replica_laws
begin

text \<open>Reading an entry that one of the asked nodes holds and none contradicts.\<close>

lemma on_node_read:
  assumes "on_node (nc_read N l i) nid R = (r, R')" and "all_good good R"
  shows "all_good good R' \<and> held stored R' = held stored R \<and> fenced_at fenced R' = fenced_at fenced R
    \<and> (\<forall>rr. r = Inr rr \<longrightarrow> held stored R nid (l, i) = Some (rr_entry rr))"
  using assms(1)
proof (cases rule: on_node_cases)
  case unknown
  with assms(2) show ?thesis by (simp add: held_def)
next
  case (known n n')
  then have "good n" using assms(2) by (simp add: all_good_def)
  from read_ok[OF this known(2)] known(1,3) assms(2) show ?thesis
    by (auto simp: all_good_def held_def fenced_at_def fun_eq_iff)
qed

lemma held_known: "held stored R nid k = Some e \<Longrightarrow> map_of R nid \<noteq> None"
  by (auto simp: held_def split: option.splits)

end

context node_laws
begin

lemma on_node_live:
  assumes "on_node (nc_read N l i) nid R = (r, R')" and "all_good good R"
  shows "held stored R nid (l, i) \<noteq> None \<longrightarrow> \<not> isl r"
  using assms(1)
proof (cases rule: on_node_cases)
  case (known n n')
  with read_live[of n l i] assms(2) show ?thesis by (auto simp: all_good_def held_def)
qed (simp add: held_def)

lemma first_success_ok:
  assumes "all_good good R" and "\<forall>nid. held stored R nid (l, i) \<in> {None, Some e}" and "\<exists>nid \<in> set nids. held stored R nid (l, i) = Some e"
  shows "\<exists>rr R'. first_success N l i sofar nids R = (Inr rr, R') \<and> rr_entry rr = e"
  using assms
proof (induction nids arbitrary: R sofar)
  case (Cons nid nids)
  obtain r R1 where o: "on_node (nc_read N l i) nid R = (r, R1)" by force
  note on = on_node_read[OF o Cons.prems(1)] on_node_live[OF o Cons.prems(1)]
  show ?case
  proof (cases r)
    case (Inl x)
    with on Cons.prems(3) have "\<exists>nid \<in> set nids. held stored R1 nid (l, i) = Some e" by auto
    with Cons.IH[of R1 "Inl x"] on Cons.prems(2) o Inl show ?thesis by auto
  next
    case (Inr rr)
    with on have "held stored R nid (l, i) = Some (rr_entry rr)" by blast
    with spec[OF Cons.prems(2), of nid] o Inr show ?thesis by auto
  qed
qed simp

lemma speculative_read_ok:
  assumes "all_good good R" and "\<forall>nid. held stored R nid (l, i) \<in> {None, Some e}" and "\<exists>nid \<in> set nids. held stored R nid (l, i) = Some e"
    and "\<forall>xs. set (completion xs) = set xs"
  shows "\<exists>rr R'. speculative_read N completion nids l i d R = (Inr rr, R') \<and> rr_entry rr = e"
proof -
  consider "nids = []" | n where "nids = [n]" | n m ms where "nids = n # m # ms" by (metis neq_Nil_conv)
  then show ?thesis
  proof cases
    case (2 n)
    obtain r R' where o: "on_node (nc_read N l i) n R = (r, R')" by force
    from on_node_read[OF o assms(1)] on_node_live[OF o assms(1)] assms(3) 2 have "\<not> isl r" "\<forall>rr. r = Inr rr \<longrightarrow> rr_entry rr = e" by auto
    with o 2 show ?thesis by (cases r) (auto simp: speculative_read_def)
  next
    case (3 n m ms)
    have "\<exists>nid \<in> set (if d = 0 then nids else completion nids). held stored R nid (l, i) = Some e"
      using assms(3,4) by simp
    from first_success_ok[OF assms(1,2) this, of "Inl (EntryNotFound l i)"] 3 show ?thesis
      by (auto simp: speculative_read_def)
  qed (use assms(3) in simp)
qed

end


section \<open>Appending and reading back\<close>

lemma fragment_of_in: "fragment_of i md = Some f \<Longrightarrow> f \<in> set (lm_fragments md)"
  by (auto simp: fragment_of_def find_Some_iff) (metis length_rev nth_mem set_rev)

locale cluster_laws = client_laws M ledgers N stored fenced good + node_laws N stored fenced good crc
  for M :: "'m metadata_store" and ledgers and N :: "'n node_client" and stored and fenced and good and crc
begin

lemma do_append_readable:
  assumes a: "do_append M N crc now dat h s R = (Inr eid, h', s', R')" and g: "all_good good R"
    and e: "e = Entry_new crc (lm_id (lh_metadata h)) (lh_next_entry_id h) (lh_lac h) dat"
    and fresh: "\<forall>nid. held stored R nid (ids_of e) = None"
    and first: "fr_first_entry_id (last (lm_fragments (lh_metadata h))) \<le> lh_next_entry_id h"
    and room: "lh_next_entry_id h \<noteq> - 1"
    and pos: "\<forall>f \<in> set (lm_fragments (lh_metadata h')). 0 < unat (fr_ack_quorum f)"
    and c: "\<forall>xs. set (completion xs) = set xs"
  shows "fst (handle_read N completion h' eid R') = Inr dat"
proof -
  obtain f where f: "eid = lh_next_entry_id h" "all_good good R'" "fragment_of eid (lh_metadata h') = Some f"
    and q: "unat (fr_ack_quorum f) \<le>
        length (filter (\<lambda>nid. held stored R' nid (ids_of e) = Some e) (take (unat (fr_write_quorum f)) (fr_ensemble f)))"
    and m: "lm_id (lh_metadata h') = lm_id (lh_metadata h)" "lm_last_entry_id (lh_metadata h') = Some eid" "eid \<le> lh_lac h'"
    and one: "\<forall>nid. held stored R' nid (ids_of e) \<in> {None, Some e}"
    by (rule do_append_ok[OF a g e fresh first room]) (rule that)
  have "f \<in> set (lm_fragments (lh_metadata h'))" using f(3) by (rule fragment_of_in)
  with pos q have "filter (\<lambda>nid. held stored R' nid (ids_of e) = Some e) (take (unat (fr_write_quorum f)) (fr_ensemble f)) \<noteq> []"
    by force
  then obtain nid where n: "nid \<in> set (fr_ensemble f)" "held stored R' nid (ids_of e) = Some e"
    by (auto simp: filter_empty_conv dest: in_set_takeD)
  have k: "ids_of e = (lm_id (lh_metadata h'), eid)" by (simp add: e ids_of_def Entry_new_def f(1) m(1))
  have "\<exists>n \<in> set (filter (\<lambda>nid. \<not> isl (resolve R' nid)) (fr_ensemble f)). held stored R' n (lm_id (lh_metadata h'), eid) = Some e"
    using n held_known[OF n(2)] by (auto simp: resolve_ok_iff k intro!: bexI[of _ nid])
  from speculative_read_ok[OF f(2) one[unfolded k] this c, of "lh_hedge_delay h'"]
  show ?thesis using f(3) m by (auto simp: handle_read_def Let_def e Entry_new_def)
qed

end

text \<open>The answers of nodes that are asked once each do not depend on the order.\<close>

lemma on_node_other: "nid \<noteq> m \<Longrightarrow> fst (on_node f nid (snd (on_node g m R))) = fst (on_node f nid R)"
  by (auto simp: on_node_def resolve_def update_conv' split: option.splits prod.splits)

lemma send_adds_answers:
  "distinct nids \<Longrightarrow> fst (send_adds N e nids R) = map (\<lambda>nid. (nid, fst (on_node (nc_add N e) nid R))) nids"
proof (induction nids arbitrary: R)
  case (Cons nid nids)
  obtain r R1 where o: "on_node (nc_add N e) nid R = (r, R1)" by force
  have "fst (on_node (nc_add N e) m R1) = fst (on_node (nc_add N e) m R)" if "m \<in> set nids" for m
    using on_node_other[of m nid "nc_add N e" "nc_add N e" R] that Cons.prems o by auto
  then have "map (\<lambda>m. (m, fst (on_node (nc_add N e) m R1))) nids = map (\<lambda>m. (m, fst (on_node (nc_add N e) m R))) nids"
    by simp
  with Cons.IH[of R1] Cons.prems o show ?case by (auto split: prod.splits)
qed simp

lemma collect_outcomes_unfenced:
  "\<forall>nid l. (nid, Inl (LedgerFenced l)) \<notin> set outs \<Longrightarrow> \<not> snd (snd (collect_outcomes outs))"
proof (induction outs)
  case (Cons x outs)
  obtain nid r where x: "x = (nid, r)" by force
  from Cons have ih: "\<not> snd (snd (collect_outcomes outs))" by simp
  show ?case
  proof (cases r)
    case (Inl err)
    with Cons.prems ih show ?thesis by (cases err) (auto simp: x split: prod.splits)
  qed (use ih in \<open>auto simp: x split: prod.splits\<close>)
qed simp

lemma do_append_available:
  assumes o: "lm_state (lh_metadata h) = Open" and ne: "lm_fragments (lh_metadata h) \<noteq> []"
    and e: "e = Entry_new crc (lm_id (lh_metadata h)) (lh_next_entry_id h) (lh_lac h) dat"
    and f: "f = last (lm_fragments (lh_metadata h))" and nids: "nids = take (unat (fr_write_quorum f)) (fr_ensemble f)"
    and d: "distinct nids" and q: "unat (fr_ack_quorum f) \<le> length (filter (\<lambda>nid. \<not> isl (fst (on_node (nc_add N e) nid R))) nids)"
    and nf: "\<forall>nid \<in> set nids. \<forall>l. fst (on_node (nc_add N e) nid R) \<noteq> Inl (LedgerFenced l)"
  shows "fst (do_append M N crc now dat h s R) = Inr (lh_next_entry_id h)"
proof -
  obtain outs R1 where so: "send_adds N e nids R = (outs, R1)" by force
  with send_adds_answers[OF d, of N e R] have outs: "outs = map (\<lambda>nid. (nid, fst (on_node (nc_add N e) nid R))) nids" by simp
  obtain acks failed fnc where c: "collect_outcomes outs = (acks, failed, fnc)" by (metis prod_cases3)
  have "\<forall>nid l. (nid, Inl (LedgerFenced l)) \<notin> set outs" using nf by (auto simp: outs dest: sym)
  from collect_outcomes_unfenced[OF this] c have "\<not> fnc" by simp
  with c have c': "collect_outcomes outs = (acks, failed, False)" by simp
  have "unat (fr_ack_quorum f) \<le> length acks"
    using collect_outcomes_spec(1)[OF c'] q by (simp add: outs filter_map o_def)
  moreover have "e_entry_id e = lh_next_entry_id h" by (simp add: e Entry_new_def)
  ultimately show ?thesis
    using o ne by (auto simp: do_append_def append_attempt_def Let_def f[symmetric] nids[symmetric] e[symmetric] so c' split: prod.splits)
qed

end
