(* ===== verification/LedgerRecovery.thy ===== *)
theory LedgerRecovery
  imports Ledger RustText
begin

text \<open>
  Recovery of ledgers after the loss of a node, \<^verbatim>\<open>folio-node/src/recovery\<close>: fencing and sealing,
  re-replication, the worker that drains the task channel, the auditor that fills it, the watcher
  that recovers without a channel, and the scrubber. The readings of the clock are arguments,
  numbered by \<open>clock\<close> where a handler takes several; the sending half of the channel is a function, with no answer when the channel is
  closed.
\<close>


section \<open>Fencing and sealing\<close>

definition initiate_recovery ::
  "'m metadata_store \<Rightarrow> u64 \<Rightarrow> u64 \<Rightarrow> 'm \<Rightarrow> LedgerMetadata result \<times> 'm" where
  "initiate_recovery M now lid s = md_transition_state M now lid Open InRecovery s"

fun fence_all :: "'n node_client \<Rightarrow> u64 \<Rightarrow> string list \<Rightarrow> 'n resolver \<Rightarrow> u64 list result \<times> 'n resolver" where
  "fence_all N lid [] R = (Inr [], R)"
| "fence_all N lid (nid # nids) R =
     (case on_node (nc_fence N lid) nid R of
        (Inl e, R1) \<Rightarrow> (Inl e, R1)
      | (Inr h, R1) \<Rightarrow>
          (case fence_all N lid nids R1 of
             (Inl e, R2) \<Rightarrow> (Inl e, R2)
           | (Inr hs, R2) \<Rightarrow> (Inr (h # hs), R2)))"

definition sealed_with :: "u64 list \<Rightarrow> LedgerMetadata \<Rightarrow> LedgerMetadata" where
  "sealed_with lacs m =
     (let lac = (if lacs = [] then 0 else Max (set lacs)) in
      m\<lparr> lm_state := Closed, lm_last_add_confirmed := lac, lm_last_entry_id := u64_checked_sub lac 1 \<rparr>)"

definition fence_and_seal ::
  "'m metadata_store \<Rightarrow> 'n node_client \<Rightarrow> u64 \<Rightarrow> u64 \<Rightarrow> u64 \<Rightarrow> 'm \<Rightarrow> 'n resolver
   \<Rightarrow> LedgerMetadata result \<times> 'm \<times> 'n resolver" where
  "fence_and_seal M N now now' lid s R =
     (case md_transition_state M now lid Open InRecovery s of
        (t, s1) \<Rightarrow>
          (case (case t of Inr m \<Rightarrow> Inr m | Inl _ \<Rightarrow> md_get_ledger M lid s1) of
             Inl e \<Rightarrow> (Inl e, s1, R)
           | Inr m \<Rightarrow>
               (if lm_fragments m = [] then (Inl (InvalidFragment lid), s1, R)
                else
                  (case fence_all N lid (fr_ensemble (last (lm_fragments m))) R of
                     (Inl e, R1) \<Rightarrow> (Inl e, s1, R1)
                   | (Inr lacs, R1) \<Rightarrow>
                       (case md_put_ledger M now' (sealed_with lacs m) s1 of (r, s2) \<Rightarrow> (r, s2, R1))))))"


section \<open>Re-replication\<close>

text \<open>The half-open range \<^verbatim>\<open>a..b\<close>.\<close>

definition u64_range :: "u64 \<Rightarrow> u64 \<Rightarrow> u64 list" where
  "u64_range a b = map of_nat [unat a..<unat b]"

fun copy_entries :: "'n node_client \<Rightarrow> string \<Rightarrow> string \<Rightarrow> u64 \<Rightarrow> u64 list \<Rightarrow> 'n resolver \<Rightarrow> unit result \<times> 'n resolver" where
  "copy_entries N source target lid [] R = (Inr (), R)"
| "copy_entries N source target lid (i # is) R =
     (case on_node (nc_read N lid i) source R of
        (Inl e, R1) \<Rightarrow> (Inl e, R1)
      | (Inr rr, R1) \<Rightarrow>
          (case on_node (nc_add N (rr_entry rr)) target R1 of
             (Inr _, R2) \<Rightarrow> copy_entries N source target lid is R2
           | (Inl (InvalidEntryId _ _), R2) \<Rightarrow> copy_entries N source target lid is R2
           | (Inl e, R2) \<Rightarrow> (Inl e, R2)))"

fun swap_member :: "u64 \<Rightarrow> string \<Rightarrow> string \<Rightarrow> Fragment list \<Rightarrow> Fragment list" where
  "swap_member first failed target [] = []"
| "swap_member first failed target (f # fs) =
     (if fr_first_entry_id f = first
      then f\<lparr> fr_ensemble := filter (\<lambda>n. n \<noteq> failed) (fr_ensemble f) @ [target] \<rparr> # fs
      else f # swap_member first failed target fs)"

text \<open>A node outside the ensemble, as the auditor and the manager look for it.\<close>

definition pick_target :: "string \<Rightarrow> string list \<Rightarrow> NodeInfo list \<Rightarrow> NodeInfo option" where
  "pick_target failed ensemble nodes = find (\<lambda>n. ni_node_id n \<noteq> failed \<and> ni_node_id n \<notin> set ensemble) nodes"

definition range_end :: "LedgerMetadata \<Rightarrow> Fragment \<Rightarrow> u64" where
  "range_end m f =
     (case find (\<lambda>g. fr_first_entry_id f < fr_first_entry_id g) (lm_fragments m) of
        Some g \<Rightarrow> fr_first_entry_id g
      | None \<Rightarrow> lm_last_add_confirmed m)"

definition restore_replication ::
  "'m metadata_store \<Rightarrow> 'n node_client \<Rightarrow> u64 \<Rightarrow> LedgerMetadata \<Rightarrow> string \<Rightarrow> u64 \<Rightarrow> 'm \<Rightarrow> 'n resolver
   \<Rightarrow> unit result \<times> 'm \<times> 'n resolver" where
  "restore_replication M N now m failed from_entry_id s R =
     (case fragment_of from_entry_id m of
        None \<Rightarrow> (Inl (InvalidFragment (lm_id m)), s, R)
      | Some f \<Rightarrow>
          (case find (\<lambda>n. n \<noteq> failed) (fr_ensemble f) of
             None \<Rightarrow> (Inl (Metadata ''no surviving source node found''), s, R)
           | Some source \<Rightarrow>
               (case md_list_nodes M s of
                  Inl e \<Rightarrow> (Inl e, s, R)
                | Inr nodes \<Rightarrow>
                    (case pick_target failed (fr_ensemble f) nodes of
                       None \<Rightarrow> (Inl (Metadata ''no healthy target node available''), s, R)
                     | Some node \<Rightarrow>
                         (case (resolve R source, resolve R (ni_node_id node)) of
                            (Inl e, _) \<Rightarrow> (Inl e, s, R)
                          | (Inr _, Inl e) \<Rightarrow> (Inl e, s, R)
                          | (Inr _, Inr _) \<Rightarrow>
                              (case copy_entries N source (ni_node_id node) (lm_id m)
                                      (u64_range from_entry_id (range_end m f)) R of
                                 (Inl e, R1) \<Rightarrow> (Inl e, s, R1)
                               | (Inr _, R1) \<Rightarrow>
                                   (case md_put_ledger M now
                                           (m\<lparr> lm_fragments := swap_member (fr_first_entry_id f) failed (ni_node_id node)
                                                                (lm_fragments m) \<rparr>) s of
                                      (r, s1) \<Rightarrow> (map_sum id (\<lambda>_. ()) r, s1, R1))))))))"


section \<open>The worker\<close>

definition worker_process ::
  "'m metadata_store \<Rightarrow> 'n node_client \<Rightarrow> (nat \<Rightarrow> u64) \<Rightarrow> ReReplicationTask \<Rightarrow> 'm \<Rightarrow> 'n resolver \<Rightarrow> unit result \<times> 'm \<times> 'n resolver" where
  "worker_process M N clock task s R =
     (case md_get_ledger M (rt_ledger_id task) s of
        Inl e \<Rightarrow> (Inl e, s, R)
      | Inr m \<Rightarrow>
          (if lm_state m = Open then
             (case fence_and_seal M N (clock 0) (clock 1) (rt_ledger_id task) s R of
                (Inl e, s1, R1) \<Rightarrow> (Inl e, s1, R1)
              | (Inr m', s1, R1) \<Rightarrow> restore_replication M N (clock 2) m' (rt_failed_node_id task) (rt_from_entry_id task) s1 R1)
           else restore_replication M N (clock 2) m (rt_failed_node_id task) (rt_from_entry_id task) s R))"

text \<open>The tasks until the channel closes; the number of failed ones is the metric.\<close>

fun worker_run ::
  "'m metadata_store \<Rightarrow> 'n node_client \<Rightarrow> (nat \<Rightarrow> nat \<Rightarrow> u64) \<Rightarrow> ReReplicationTask list \<Rightarrow> 'm \<Rightarrow> 'n resolver \<Rightarrow> nat \<times> 'm \<times> 'n resolver" where
  "worker_run M N clock [] s R = (0, s, R)"
| "worker_run M N clock (task # tasks) s R =
     (case worker_process M N (clock (length tasks)) task s R of
        (r, s1, R1) \<Rightarrow>
          (case worker_run M N clock tasks s1 R1 of
             (failures, s2, R2) \<Rightarrow> ((if isl r then Suc failures else failures), s2, R2)))"


section \<open>The auditor\<close>

definition task_for :: "u64 \<Rightarrow> string \<Rightarrow> NodeInfo list \<Rightarrow> LedgerMetadata \<Rightarrow> Fragment \<Rightarrow> ReReplicationTask option" where
  "task_for now failed nodes m f =
     (if failed \<notin> set (fr_ensemble f) then None
      else map_option (\<lambda>target. \<lparr> rt_ledger_id = lm_id m, rt_failed_node_id = failed,
             rt_target_node_id = ni_node_id target, rt_from_entry_id = fr_first_entry_id f, rt_created_at_ms = now \<rparr>)
             (pick_target failed (fr_ensemble f) nodes))"

fun enqueue_fragments ::
  "('q \<Rightarrow> ReReplicationTask \<Rightarrow> 'q option) \<Rightarrow> (nat \<Rightarrow> u64) \<Rightarrow> string \<Rightarrow> NodeInfo list \<Rightarrow> (LedgerMetadata \<times> Fragment) list
   \<Rightarrow> nat \<Rightarrow> 'q \<Rightarrow> nat result \<times> 'q" where
  "enqueue_fragments send clock failed nodes [] queued q = (Inr queued, q)"
| "enqueue_fragments send clock failed nodes ((m, f) # mfs) queued q =
     (case task_for (clock queued) failed nodes m f of
        None \<Rightarrow> enqueue_fragments send clock failed nodes mfs queued q
      | Some task \<Rightarrow>
          (case send q task of
             None \<Rightarrow> (Inl (Storage ''auditor: task channel closed''), q)
           | Some q1 \<Rightarrow> enqueue_fragments send clock failed nodes mfs (Suc queued) q1))"

definition fragments_of :: "LedgerMetadata list \<Rightarrow> (LedgerMetadata \<times> Fragment) list" where
  "fragments_of ms = concat (map (\<lambda>m. map (Pair m) (lm_fragments m)) ms)"

definition enqueue_for_node ::
  "'m metadata_store \<Rightarrow> ('q \<Rightarrow> ReReplicationTask \<Rightarrow> 'q option) \<Rightarrow> (nat \<Rightarrow> u64) \<Rightarrow> string \<Rightarrow> 'm \<Rightarrow> 'q \<Rightarrow> nat result \<times> 'q" where
  "enqueue_for_node M send clock failed s q =
     (case md_list_ledgers M s of
        Inl e \<Rightarrow> (Inl e, q)
      | Inr ms \<Rightarrow>
          (case md_list_nodes M s of
             Inl e \<Rightarrow> (Inl e, q)
           | Inr nodes \<Rightarrow> enqueue_fragments send clock failed nodes (fragments_of ms) 0 q))"

datatype watch_event =
    NodePut
  | NodeDelete "string option"

text \<open>
  Each event comes with the metadata as it is when the event is handled. The key of a
  deletion is its text, empty when the bytes are no text. A deleted key outside the prefix names the
  node itself; an event without a key is skipped, an error of the enqueueing is logged.
\<close>

fun watch_node_events ::
  "'m metadata_store \<Rightarrow> ('q \<Rightarrow> ReReplicationTask \<Rightarrow> 'q option) \<Rightarrow> (nat \<Rightarrow> nat \<Rightarrow> u64) \<Rightarrow> (watch_event \<times> 'm) list \<Rightarrow> 'q \<Rightarrow> 'q" where
  "watch_node_events M send clock [] q = q"
| "watch_node_events M send clock ((NodeDelete (Some key), s) # evs) q =
     (let failed = (case strip_prefix NODE_PREFIX key of Some nid \<Rightarrow> nid | None \<Rightarrow> key)
      in watch_node_events M send clock evs (snd (enqueue_for_node M send (clock (length evs)) failed s q)))"
| "watch_node_events M send clock (_ # evs) q = watch_node_events M send clock evs q"


section \<open>The watcher\<close>

definition is_node_in_ensemble :: "LedgerMetadata \<Rightarrow> string \<Rightarrow> bool" where
  "is_node_in_ensemble m nid \<longleftrightarrow> (\<exists>f \<in> set (lm_fragments m). nid \<in> set (fr_ensemble f))"

fun restore_fragments ::
  "'m metadata_store \<Rightarrow> 'n node_client \<Rightarrow> (nat \<Rightarrow> u64) \<Rightarrow> string \<Rightarrow> (LedgerMetadata \<times> Fragment) list \<Rightarrow> 'm \<Rightarrow> 'n resolver
   \<Rightarrow> unit result \<times> 'm \<times> 'n resolver" where
  "restore_fragments M N clock failed [] s R = (Inr (), s, R)"
| "restore_fragments M N clock failed ((m, f) # mfs) s R =
     (if failed \<in> set (fr_ensemble f) then
        (case restore_replication M N (clock (length mfs)) m failed (fr_first_entry_id f) s R of
           (Inl e, s1, R1) \<Rightarrow> (Inl e, s1, R1)
         | (Inr _, s1, R1) \<Rightarrow> restore_fragments M N clock failed mfs s1 R1)
      else restore_fragments M N clock failed mfs s R)"

definition handle_node_failure ::
  "'m metadata_store \<Rightarrow> 'n node_client \<Rightarrow> (nat \<Rightarrow> u64) \<Rightarrow> string \<Rightarrow> 'm \<Rightarrow> 'n resolver
   \<Rightarrow> LedgerMetadata list result \<times> 'm \<times> 'n resolver" where
  "handle_node_failure M N clock failed s R =
     (case md_list_ledgers M s of
        Inl e \<Rightarrow> (Inl e, s, R)
      | Inr ms \<Rightarrow>
          (let affected = filter (\<lambda>m. is_node_in_ensemble m failed) ms in
           case restore_fragments M N clock failed (fragments_of affected) s R of
             (Inl e, s1, R1) \<Rightarrow> (Inl e, s1, R1)
           | (Inr _, s1, R1) \<Rightarrow> (Inr affected, s1, R1)))"


section \<open>The scrubber\<close>

fun replica_digests :: "'n node_client \<Rightarrow> u64 \<Rightarrow> u64 \<Rightarrow> string list \<Rightarrow> 'n resolver \<Rightarrow> (string \<times> u32) list \<times> 'n resolver" where
  "replica_digests N lid eid [] R = ([], R)"
| "replica_digests N lid eid (nid # nids) R =
     (case on_node (nc_read N lid eid) nid R of
        (r, R1) \<Rightarrow>
          (case replica_digests N lid eid nids R1 of
             (ds, R2) \<Rightarrow> ((case r of Inl _ \<Rightarrow> ds | Inr rr \<Rightarrow> (nid, e_digest (rr_entry rr)) # ds), R2)))"

definition mismatches :: "(string \<times> u32) list \<Rightarrow> (string \<times> u32) list" where
  "mismatches ds = (case ds of [] \<Rightarrow> [] | (_, expected) # rest \<Rightarrow> filter (\<lambda>d. snd d \<noteq> expected) rest)"

fun scrub_entries :: "'n node_client \<Rightarrow> u64 \<Rightarrow> string list \<Rightarrow> u64 list \<Rightarrow> 'n resolver \<Rightarrow> nat \<times> 'n resolver" where
  "scrub_entries N lid ensemble [] R = (0, R)"
| "scrub_entries N lid ensemble (i # is) R =
     (case replica_digests N lid i ensemble R of
        (ds, R1) \<Rightarrow>
          (case scrub_entries N lid ensemble is R1 of
             (errors, R2) \<Rightarrow> ((if length ds < 2 then 0 else length (mismatches ds)) + errors, R2)))"

fun scrub_ledgers :: "'n node_client \<Rightarrow> LedgerMetadata list \<Rightarrow> 'n resolver \<Rightarrow> nat \<times> 'n resolver" where
  "scrub_ledgers N [] R = (0, R)"
| "scrub_ledgers N (m # ms) R =
     (case (if lm_state m = Deleted then (0, R)
            else
              case lm_last_entry_id m of
                None \<Rightarrow> (0, R)
              | Some last_entry \<Rightarrow>
                  (if lm_fragments m = [] then (0, R)
                   else scrub_entries N (lm_id m) (fr_ensemble (last (lm_fragments m)))
                          (map of_nat [0..<Suc (unat last_entry)]) R)) of
        (errors, R1) \<Rightarrow> (case scrub_ledgers N ms R1 of (errors', R2) \<Rightarrow> (errors + errors', R2)))"

text \<open>The number of mismatches that the pass counts.\<close>

definition scrub_pass :: "'m metadata_store \<Rightarrow> 'n node_client \<Rightarrow> 'm \<Rightarrow> 'n resolver \<Rightarrow> nat result \<times> 'n resolver" where
  "scrub_pass M N s R =
     (case md_list_ledgers M s of
        Inl e \<Rightarrow> (Inl e, R)
      | Inr ms \<Rightarrow> (case scrub_ledgers N ms R of (errors, R1) \<Rightarrow> (Inr errors, R1)))"


section \<open>What fencing an ensemble establishes\<close>

context replica_laws
begin

lemma on_node_fence:
  assumes "on_node (nc_fence N l) nid R = (r, R')" and "all_good good R"
  shows "all_good good R' \<and> held stored R' = held stored R \<and> (\<forall>m. fenced_at fenced R m \<subseteq> fenced_at fenced R' m)
    \<and> (\<forall>h. r = Inr h \<longrightarrow> map_of R nid \<noteq> None \<and> l \<in> fenced_at fenced R' nid
         \<and> (\<forall>i. held stored R nid (l, i) \<noteq> None \<longrightarrow> i \<le> h))
    \<and> (\<forall>m. map_of R' m = None \<longleftrightarrow> map_of R m = None)"
  using assms(1)
proof (cases rule: on_node_cases)
  case unknown
  with assms(2) show ?thesis by simp
next
  case (known n n')
  then have g: "good n" using assms(2) by (simp add: all_good_def)
  have "good n' \<and> stored n' = stored n \<and> fenced n \<subseteq> fenced n'
    \<and> (\<forall>h. r = Inr h \<longrightarrow> l \<in> fenced n' \<and> (\<forall>i. stored n (l, i) \<noteq> None \<longrightarrow> i \<le> h))"
  proof (cases r)
    case (Inl x)
    with fence_err[OF g known(2)[unfolded Inl]] show ?thesis by simp
  next
    case (Inr h)
    with fence_ok[OF g known(2)[unfolded Inr]] show ?thesis by auto
  qed
  with known(1,3) assms(2) show ?thesis
    by (auto simp: all_good_def held_def fenced_at_def fun_eq_iff split: option.splits)
qed

lemma fence_all_ok:
  assumes "fence_all N l nids R = (Inr hs, R')" and "all_good good R"
  shows "all_good good R' \<and> held stored R' = held stored R \<and> length hs = length nids
    \<and> (\<forall>m. fenced_at fenced R m \<subseteq> fenced_at fenced R' m)
    \<and> (\<forall>nid \<in> set nids. map_of R nid \<noteq> None \<and> l \<in> fenced_at fenced R' nid
         \<and> (\<forall>i. held stored R nid (l, i) \<noteq> None \<longrightarrow> (\<exists>h \<in> set hs. i \<le> h)))
    \<and> (\<forall>m. map_of R' m = None \<longleftrightarrow> map_of R m = None)"
  using assms
proof (induction nids arbitrary: R hs)
  case (Cons nid nids)
  obtain h R1 where o: "on_node (nc_fence N l) nid R = (Inr h, R1)"
    using Cons.prems(1) by (auto split: prod.splits sum.splits)
  obtain hs' where hs: "hs = h # hs'" and f: "fence_all N l nids R1 = (Inr hs', R')"
    using Cons.prems(1) o by (auto split: prod.splits sum.splits)
  note one = on_node_fence[OF o Cons.prems(2)]
  from one have "all_good good R1" by blast
  note rest = Cons.IH[OF f this]
  from one rest have "l \<in> fenced_at fenced R' nid" by blast
  with one rest show ?case unfolding hs by auto
qed simp

end


text \<open>A ledger that was sealed by recovery: what it says, and what its nodes are left with.\<close>

context client_laws
begin

lemma fence_and_seal_ok:
  assumes "fence_and_seal M N now now' lid s R = (Inr m, s', R')" and "all_good good R"
  shows "lm_state m = Closed \<and> lm_last_entry_id m = u64_checked_sub (lm_last_add_confirmed m) 1
    \<and> ledgers s' (lm_id m) = Some m \<and> all_good good R' \<and> held stored R' = held stored R
    \<and> (\<forall>nid \<in> set (fr_ensemble (last (lm_fragments m))). map_of R' nid \<noteq> None \<and> lid \<in> fenced_at fenced R' nid
         \<and> (\<forall>i. held stored R nid (lid, i) \<noteq> None \<longrightarrow> i \<le> lm_last_add_confirmed m))"
proof -
  obtain t s1 where t: "md_transition_state M now lid Open InRecovery s = (t, s1)" by force
  obtain m0 where m0: "(case t of Inr m \<Rightarrow> Inr m | Inl _ \<Rightarrow> md_get_ledger M lid s1) = Inr m0" and ne: "lm_fragments m0 \<noteq> []"
    using assms(1) t by (auto simp: fence_and_seal_def split: sum.splits if_splits)
  let ?ens = "fr_ensemble (last (lm_fragments m0))"
  obtain lacs where f: "fence_all N lid ?ens R = (Inr lacs, R')"
    and p: "md_put_ledger M now' (sealed_with lacs m0) s1 = (Inr m, s')"
    using assms(1) by (simp add: fence_and_seal_def t m0 ne split: prod.splits sum.splits)
  from put_ok[OF p] have m: "m = touch now' (sealed_with lacs m0)"
    and l: "ledgers s' = (ledgers s1)(lm_id (sealed_with lacs m0) \<mapsto> m)" by blast+
  have frs: "lm_fragments m = lm_fragments m0" by (simp add: m touch_def sealed_with_def Let_def)
  have top: "h \<le> lm_last_add_confirmed m" if "h \<in> set lacs" for h
    using that by (auto simp: m touch_def sealed_with_def Let_def)
  have i: "lm_id m = lm_id (sealed_with lacs m0)" by (simp add: m touch_def)
  note fa = fence_all_ok[OF f assms(2)]
  have low: "\<forall>i. held stored R nid (lid, i) \<noteq> None \<longrightarrow> i \<le> lm_last_add_confirmed m" if "nid \<in> set ?ens" for nid
    using fa that top order.trans by meson
  show ?thesis using fa low l by (auto simp: frs i) (auto simp: m touch_def sealed_with_def Let_def)
qed

end

text \<open>The client over nodes that report their fences.\<close>

locale sealing_laws = client_laws M ledgers N stored fenced good + fencing_laws N stored fenced good crc
  for M :: "'m metadata_store" and ledgers and N :: "'n node_client" and stored and fenced and good and crc
begin

text \<open>A handle that still believes the ledger open cannot append once the ensemble is fenced.\<close>

lemma do_append_fenced:
  assumes "all_good good R" and o: "lm_state (lh_metadata h) = Open" and ne: "lm_fragments (lh_metadata h) \<noteq> []"
    and f: "f = last (lm_fragments (lh_metadata h))" and q: "0 < unat (fr_write_quorum f)" "fr_ensemble f \<noteq> []"
    and fen: "\<forall>nid \<in> set (fr_ensemble f). map_of R nid \<noteq> None \<and> lm_id (lh_metadata h) \<in> fenced_at fenced R nid"
  shows "fst (do_append M N crc now dat h s R) = Inl (LedgerFenced (lm_id (lh_metadata h)))"
proof -
  let ?e = "Entry_new crc (lm_id (lh_metadata h)) (lh_next_entry_id h) (lh_lac h) dat"
  let ?nids = "take (unat (fr_write_quorum f)) (fr_ensemble f)"
  obtain outs R1 where s: "send_adds N ?e ?nids R = (outs, R1)" by force
  obtain nid where "nid \<in> set ?nids" using q by (cases "fr_ensemble f"; cases "unat (fr_write_quorum f)") auto
  moreover have "\<forall>n \<in> set ?nids. map_of R n \<noteq> None \<and> e_ledger_id ?e \<in> fenced_at fenced R n"
    using fen by (auto simp: Entry_new_def dest: in_set_takeD)
  moreover have "validate_digest crc ?e" by (simp add: Entry_new_def validate_digest_def)
  ultimately have "snd (snd (collect_outcomes outs))" using send_adds_fenced[OF s assms(1)] Entry_new_wf by blast
  then show ?thesis
    using o ne by (auto simp: do_append_def append_attempt_def Let_def f[symmetric] s split: prod.splits)
qed

end


section \<open>What re-replication copies\<close>

lemma unat_in_u64_range: "i \<in> set (u64_range a b) \<longleftrightarrow> a \<le> i \<and> i < b"
proof
  assume "i \<in> set (u64_range a b)"
  then obtain n where n: "i = of_nat n" "unat a \<le> n" "n < unat b" by (auto simp: u64_range_def)
  moreover from n(3) have "n < 2 ^ LENGTH(64)" using unsigned_less[of b] by (auto intro: less_trans)
  then have "unat (of_nat n :: u64) = n" by (simp add: unat_of_nat)
  ultimately show "a \<le> i \<and> i < b" by (simp add: word_le_nat_alt word_less_nat_alt)
next
  assume "a \<le> i \<and> i < b"
  then have "unat i \<in> set [unat a..<unat b]" by (simp add: word_le_nat_alt word_less_nat_alt)
  then show "i \<in> set (u64_range a b)" by (auto simp: u64_range_def image_iff intro!: bexI[of _ "unat i"])
qed

context replica_laws
begin

text \<open>An add changes one node and keeps what that node stores.\<close>

lemma on_node_add:
  assumes "on_node (nc_add N e) nid R = (r, R')" and "all_good good R" and wf: "entry_wf e"
  shows "all_good good R' \<and> (\<forall>m. m \<noteq> nid \<longrightarrow> held stored R' m = held stored R m)
    \<and> fenced_at fenced R' = fenced_at fenced R
    \<and> (\<forall>k. k \<noteq> ids_of e \<longrightarrow> held stored R' nid k = held stored R nid k)
    \<and> (\<forall>x. held stored R nid (ids_of e) = Some x \<longrightarrow> held stored R' nid (ids_of e) = Some x)
    \<and> (\<not> isl r \<and> held stored R nid (ids_of e) = None \<longrightarrow> held stored R' nid (ids_of e) = Some e)
    \<and> (\<forall>a b. r = Inl (InvalidEntryId a b) \<longrightarrow> held stored R nid (ids_of e) \<noteq> None)"
  using assms(1)
proof (cases rule: on_node_cases)
  case unknown
  with assms(2) show ?thesis by simp
next
  case (known n n')
  then have g: "good n" using assms(2) by (simp add: all_good_def)
  have "good n' \<and> fenced n' = fenced n \<and> (\<forall>k. k \<noteq> ids_of e \<longrightarrow> stored n' k = stored n k)
    \<and> (\<forall>x. stored n (ids_of e) = Some x \<longrightarrow> stored n' (ids_of e) = Some x)
    \<and> (\<not> isl r \<and> stored n (ids_of e) = None \<longrightarrow> stored n' (ids_of e) = Some e)
    \<and> (\<forall>a b. r = Inl (InvalidEntryId a b) \<longrightarrow> stored n (ids_of e) \<noteq> None)"
  proof (cases r)
    case (Inl x)
    with add_err[OF g wf known(2)[unfolded Inl]] add_invalid[OF g wf] known(2) show ?thesis by auto
  next
    case (Inr ack)
    with add_ok[OF g wf known(2)[unfolded Inr]] show ?thesis by auto
  qed
  with known(1,3) assms(2) show ?thesis
    by (auto simp: all_good_def held_def fenced_at_def fun_eq_iff)
qed

text \<open>One round of the copy loop after a successful read.\<close>

lemma copy_entries_step:
  assumes "on_node (nc_read N l i) source R = (Inr rr, R1)" and "on_node (nc_add N (rr_entry rr)) target R1 = (r2, R2)"
  obtains (stop) x where "r2 = Inl x" "copy_entries N source target l (i # js) R = (Inl x, R2)"
    | (go) "copy_entries N source target l (i # js) R = copy_entries N source target l js R2"
      "\<not> isl r2 \<or> (\<exists>a b. r2 = Inl (InvalidEntryId a b))"
proof (cases r2)
  case (Inl x)
  then show thesis using assms stop[of x] go by (cases x) simp_all
next
  case (Inr ack)
  then show thesis using assms go by simp
qed

lemma held_ids: "all_good good R \<Longrightarrow> held stored R nid k = Some e \<Longrightarrow> ids_of e = k \<and> entry_wf e"
  using stored_ids[where k = k and e = e] by (cases "map_of R nid") (auto simp: held_def all_good_def)

lemma copy_entries_ok:
  assumes "copy_entries N source target l is R = (r, R')" and "all_good good R" and "source \<noteq> target"
  shows "all_good good R' \<and> (\<forall>m. m \<noteq> target \<longrightarrow> held stored R' m = held stored R m)
    \<and> fenced_at fenced R' = fenced_at fenced R
    \<and> (\<forall>k. k \<notin> Pair l ` set is \<longrightarrow> held stored R' target k = held stored R target k)
    \<and> (\<forall>k x. held stored R target k = Some x \<longrightarrow> held stored R' target k = Some x)
    \<and> (r = Inr () \<longrightarrow> (\<forall>i \<in> set is. \<exists>e. held stored R source (l, i) = Some e
         \<and> (held stored R target (l, i) = None \<longrightarrow> held stored R' target (l, i) = Some e)))"
  using assms(1,2)
proof (induction "is" arbitrary: R)
  case (Cons i "is")
  obtain r1 R1 where o: "on_node (nc_read N l i) source R = (r1, R1)" by force
  note rd = on_node_read[OF o Cons.prems(2)]
  show ?case
  proof (cases r1)
    case (Inl x)
    with Cons.prems o rd show ?thesis by auto
  next
    case (Inr rr)
    obtain r2 R2 where a: "on_node (nc_add N (rr_entry rr)) target R1 = (r2, R2)" by force
    from rd have g1: "all_good good R1" and h1: "held stored R1 = held stored R"
      and src: "held stored R source (l, i) = Some (rr_entry rr)" using Inr by blast+
    from held_ids[OF Cons.prems(2) src] have ids: "ids_of (rr_entry rr) = (l, i)" and wf: "entry_wf (rr_entry rr)" by blast+
    note ad = on_node_add[OF a g1 wf, unfolded ids h1]
    from ad have g2: "all_good good R2" by blast
    have keep: "held stored R2 target k = Some x" if "held stored R target k = Some x" for k x
      using ad that by (cases "k = (l, i)") metis+
    from o[unfolded Inr] a show ?thesis
    proof (cases rule: copy_entries_step[where l = l and js = "is" and i = i])
      case (stop x)
      then have "r = Inl x" "R' = R2" using Cons.prems(1) by auto
      with ad rd keep show ?thesis by auto
    next
      case go
      with Cons.prems(1) have "copy_entries N source target l is R2 = (r, R')" by simp
      note ih = Cons.IH[OF this g2]
      have new: "held stored R2 target (l, i) = (if held stored R target (l, i) = None then Some (rr_entry rr)
          else held stored R target (l, i))"
        using ad go(2) by auto
      have s2: "held stored R2 source = held stored R source" using ad assms(3) by blast
      show ?thesis
      proof (intro conjI)
        show "r = Inr () \<longrightarrow> (\<forall>j \<in> set (i # is). \<exists>e. held stored R source (l, j) = Some e
          \<and> (held stored R target (l, j) = None \<longrightarrow> held stored R' target (l, j) = Some e))"
        proof (intro impI ballI)
          fix j assume r: "r = Inr ()" and j: "j \<in> set (i # is)"
          show "\<exists>e. held stored R source (l, j) = Some e
            \<and> (held stored R target (l, j) = None \<longrightarrow> held stored R' target (l, j) = Some e)"
          proof (cases "j = i")
            case True
            with ih new src show ?thesis by auto
          next
            case False
            then have "held stored R2 target (l, j) = held stored R target (l, j)" using ad by blast
            moreover have "j \<in> set is" using j False by simp
            ultimately show ?thesis using ih r s2 by metis
          qed
        qed
      qed (use ih ad rd keep in auto)
    qed
  qed
qed simp

end


lemma pick_target_SomeD:
  "pick_target failed ens nodes = Some n \<Longrightarrow> n \<in> set nodes \<and> ni_node_id n \<noteq> failed \<and> ni_node_id n \<notin> set ens"
  by (auto simp: pick_target_def find_Some_iff)

lemma pick_target_NoneD:
  "pick_target failed ens nodes = None \<Longrightarrow> n \<in> set nodes \<Longrightarrow> ni_node_id n = failed \<or> ni_node_id n \<in> set ens"
  by (auto simp: pick_target_def find_None_iff)

lemma find_not_failed: "find (\<lambda>n. n \<noteq> failed) ens = Some source \<Longrightarrow> source \<in> set ens \<and> source \<noteq> failed"
  by (auto simp: find_Some_iff)

lemma restore_replication_cases:
  assumes "restore_replication M N now m failed i s R = (Inr u, s', R')"
  obtains f source nodes node m' where "fragment_of i m = Some f" and "find (\<lambda>n. n \<noteq> failed) (fr_ensemble f) = Some source"
    and "md_list_nodes M s = Inr nodes" and "pick_target failed (fr_ensemble f) nodes = Some node"
    and "copy_entries N source (ni_node_id node) (lm_id m) (u64_range i (range_end m f)) R = (Inr (), R')"
    and "md_put_ledger M now (m\<lparr> lm_fragments := swap_member (fr_first_entry_id f) failed (ni_node_id node) (lm_fragments m) \<rparr>) s
      = (Inr m', s')"
  using assms
  by (auto simp: restore_replication_def map_sum_def split: option.splits sum.splits prod.splits)

text \<open>Exactly one fragment changes: the first one that starts where the repaired one starts.\<close>

lemma swap_member_split:
  assumes "f \<in> set fs"
  obtains pre g post where "fs = pre @ g # post" and "fr_first_entry_id g = fr_first_entry_id f"
    and "\<forall>h\<in>set pre. fr_first_entry_id h \<noteq> fr_first_entry_id f"
    and "swap_member (fr_first_entry_id f) failed target fs
      = pre @ g\<lparr> fr_ensemble := filter (\<lambda>n. n \<noteq> failed) (fr_ensemble g) @ [target] \<rparr> # post"
proof -
  have swap: "swap_member first failed target (pre @ g # post)
      = pre @ g\<lparr> fr_ensemble := filter (\<lambda>n. n \<noteq> failed) (fr_ensemble g) @ [target] \<rparr> # post"
    if "\<forall>h\<in>set pre. fr_first_entry_id h \<noteq> first" and "fr_first_entry_id g = first" for first pre g post
    using that by (induction pre) auto
  from assms have "\<exists>x\<in>set fs. fr_first_entry_id x = fr_first_entry_id f" by blast
  from split_list_first_prop[OF this] obtain pre g post
    where "fs = pre @ g # post" "fr_first_entry_id g = fr_first_entry_id f" "\<forall>h\<in>set pre. fr_first_entry_id h \<noteq> fr_first_entry_id f"
    by blast
  with swap that show thesis by blast
qed

context client_laws
begin

text \<open>
  A repair that succeeded: the target holds the whole half-open range of the fragment, the metadata
  names the target in place of the failed node, and nothing was fenced.
\<close>

lemma restore_replication_ok:
  assumes "restore_replication M N now m failed i s R = (Inr u, s', R')" and "all_good good R"
  obtains f source target where "fragment_of i m = Some f" and "source \<in> set (fr_ensemble f)" and "source \<noteq> failed"
    and "target \<notin> set (fr_ensemble f)" and "target \<noteq> failed"
    and "\<forall>j. i \<le> j \<and> j < range_end m f \<longrightarrow> (\<exists>e. held stored R source (lm_id m, j) = Some e
      \<and> (held stored R target (lm_id m, j) = None \<longrightarrow> held stored R' target (lm_id m, j) = Some e))"
    and "\<forall>k. k \<notin> Pair (lm_id m) ` {i..<range_end m f} \<longrightarrow> held stored R' target k = held stored R target k"
    and "ledgers s' (lm_id m) = Some (touch now (m\<lparr> lm_fragments :=
      swap_member (fr_first_entry_id f) failed target (lm_fragments m) \<rparr>))"
    and "all_good good R'" and "fenced_at fenced R' = fenced_at fenced R"
    and "\<forall>n. n \<noteq> target \<longrightarrow> held stored R' n = held stored R n"
  using assms(1)
proof (cases rule: restore_replication_cases)
  case (1 f source nodes node m')
  from find_not_failed[OF 1(2)] pick_target_SomeD[OF 1(4)] have ne: "source \<noteq> ni_node_id node" by auto
  have rng: "set (u64_range i (range_end m f)) = {i..<range_end m f}" by (auto simp: unat_in_u64_range)
  note cp = copy_entries_ok[OF 1(5) assms(2) ne, unfolded rng]
  from put_ok[OF 1(6)] have "ledgers s' (lm_id m) = Some (touch now (m\<lparr> lm_fragments :=
      swap_member (fr_first_entry_id f) failed (ni_node_id node) (lm_fragments m) \<rparr>))" by simp
  with cp find_not_failed[OF 1(2)] pick_target_SomeD[OF 1(4)] 1(1) show thesis
    by (intro that[of f source "ni_node_id node"]) auto
qed

end

context metadata_laws
begin

text \<open>A second repair from the same metadata loses the race against the first.\<close>

lemma restore_stale_fails:
  assumes "ledgers s (lm_id m) = Some cur" and "lm_version cur \<noteq> lm_version m"
  shows "isl (fst (restore_replication M N now m failed i s R))"
proof -
  obtain r s' R' where r: "restore_replication M N now m failed i s R = (r, s', R')" by (metis prod_cases3)
  show ?thesis
  proof (cases r)
    case (Inr u)
    from r[unfolded Inr] show ?thesis
    proof (cases rule: restore_replication_cases)
      case (1 f source nodes node m')
      from put_ok[OF 1(6)] assms show ?thesis by auto
    qed
  qed (simp add: r)
qed

lemma restore_bumps_version:
  assumes "restore_replication M N now m failed i s R = (Inr u, s', R')"
  shows "(\<exists>cur. ledgers s' (lm_id m) = Some cur \<and> lm_version cur \<noteq> lm_version m)
    \<and> (\<forall>l. l \<noteq> lm_id m \<longrightarrow> ledgers s' l = ledgers s l)"
  using assms
proof (cases rule: restore_replication_cases)
  case (1 f source nodes node m')
  from put_ok[OF 1(6)] show ?thesis by (auto simp: touch_def)
qed

lemma restore_fragments_stale:
  assumes "ledgers s (lm_id m) = Some cur" and "lm_version cur \<noteq> lm_version m"
    and "\<exists>f \<in> set fs. failed \<in> set (fr_ensemble f)"
  shows "isl (fst (restore_fragments M N clock failed (map (Pair m) fs @ rest) s R))"
  using assms(3)
proof (induction fs)
  case (Cons f fs)
  show ?case
  proof (cases "failed \<in> set (fr_ensemble f)")
    case True
    with restore_stale_fails[OF assms(1,2), of N "clock (length (map (Pair m) fs @ rest))" failed "fr_first_entry_id f" R]
    show ?thesis by (auto simp: isl_def split: prod.splits sum.splits)
  qed (use Cons in auto)
qed simp

lemma restore_fragments_conflict:
  assumes "2 \<le> length (filter (\<lambda>f. failed \<in> set (fr_ensemble f)) fs)"
  shows "isl (fst (restore_fragments M N clock failed (map (Pair m) fs @ rest) s R))"
  using assms
proof (induction fs)
  case (Cons f fs)
  show ?case
  proof (cases "failed \<in> set (fr_ensemble f)")
    case True
    let ?mfs = "map (Pair m) fs @ rest"
    obtain r s' R' where r: "restore_replication M N (clock (length ?mfs)) m failed (fr_first_entry_id f) s R = (r, s', R')"
      by (metis prod_cases3)
    show ?thesis
    proof (cases r)
      case (Inl e)
      with True r show ?thesis by simp
    next
      case (Inr u)
      from restore_bumps_version[OF r[unfolded Inr]] obtain cur
        where cur: "ledgers s' (lm_id m) = Some cur" "lm_version cur \<noteq> lm_version m" by blast
      have "\<exists>g \<in> set fs. failed \<in> set (fr_ensemble g)"
        using Cons.prems True by (auto simp: Suc_le_eq length_greater_0_conv filter_empty_conv simp del: length_greater_0_conv)
      from restore_fragments_stale[OF cur this] True r Inr show ?thesis by simp
    qed
  qed (use Cons in auto)
qed simp

end


lemma restore_fragments_append:
  assumes "\<And>s R. isl (fst (restore_fragments M N clock failed ys s R))"
  shows "isl (fst (restore_fragments M N clock failed (xs @ ys) s R))"
proof (induction xs arbitrary: s R)
  case (Cons x xs)
  obtain m f where x: "x = (m, f)" by force
  show ?case using Cons by (auto simp: x split: prod.splits sum.splits)
qed (simp add: assms)

lemma fragments_of_simps [simp]:
  "fragments_of [] = []" "fragments_of (m # ms) = map (Pair m) (lm_fragments m) @ fragments_of ms"
  "fragments_of (ms @ ms') = fragments_of ms @ fragments_of ms'"
  by (simp_all add: fragments_of_def)

context metadata_laws
begin

lemma handle_node_failure_conflict:
  assumes "md_list_ledgers M s = Inr ms" and "m \<in> set ms"
    and "2 \<le> length (filter (\<lambda>f. failed \<in> set (fr_ensemble f)) (lm_fragments m))"
  shows "isl (fst (handle_node_failure M N clock failed s R))"
proof -
  from assms(3) have "filter (\<lambda>f. failed \<in> set (fr_ensemble f)) (lm_fragments m) \<noteq> []" by force
  then have "m \<in> set (filter (\<lambda>m. is_node_in_ensemble m failed) ms)"
    using assms(2) by (auto simp: is_node_in_ensemble_def filter_empty_conv)
  then obtain xs ys where "filter (\<lambda>m. is_node_in_ensemble m failed) ms = xs @ m # ys" by (meson split_list)
  moreover have "isl (fst (restore_fragments M N clock failed (fragments_of (xs @ m # ys)) s R))"
    using restore_fragments_conflict[OF assms(3), of N clock m "fragments_of ys"] by (simp add: restore_fragments_append)
  ultimately show ?thesis using assms(1)
    by (auto simp: handle_node_failure_def Let_def isl_def split: prod.splits sum.splits)
qed

end


section \<open>What the scrubber counts and what the auditor asks for\<close>

text \<open>
  The replicas of an entry that differ from the first one, stated over what the nodes store; for a
  ledger, over the entries up to the last one.
\<close>

definition disagreeing :: "(string \<Rightarrow> u64 \<times> u64 \<Rightarrow> Entry option) \<Rightarrow> string list \<Rightarrow> u64 \<Rightarrow> u64 \<Rightarrow> nat" where
  "disagreeing H ens l i =
     (case List.map_filter (\<lambda>nid. map_option e_digest (H nid (l, i))) ens of
        [] \<Rightarrow> 0
      | d # ds \<Rightarrow> length (filter (\<lambda>d'. d' \<noteq> d) ds))"

definition ledger_disagreements :: "(string \<Rightarrow> u64 \<times> u64 \<Rightarrow> Entry option) \<Rightarrow> LedgerMetadata \<Rightarrow> nat" where
  "ledger_disagreements H m =
     (if lm_state m = Deleted \<or> lm_fragments m = [] then 0
      else
        case lm_last_entry_id m of
          None \<Rightarrow> 0
        | Some n \<Rightarrow> (\<Sum>i \<leftarrow> [0..<Suc (unat n)]. disagreeing H (fr_ensemble (last (lm_fragments m))) (lm_id m) (of_nat i)))"

context node_laws
begin

lemma replica_digests_ok:
  assumes "replica_digests N l i nids R = (ds, R')" and "all_good good R"
  shows "all_good good R' \<and> held stored R' = held stored R
    \<and> map snd ds = List.map_filter (\<lambda>nid. map_option e_digest (held stored R nid (l, i))) nids"
  using assms
proof (induction nids arbitrary: R ds)
  case (Cons nid nids)
  obtain r R1 where o: "on_node (nc_read N l i) nid R = (r, R1)" by force
  obtain ds1 where ds1: "replica_digests N l i nids R1 = (ds1, R')" using Cons.prems(1) o by (auto split: prod.splits)
  note rd = on_node_read[OF o Cons.prems(2)]
  with Cons.IH[OF ds1] have ih: "all_good good R' \<and> held stored R' = held stored R
    \<and> map snd ds1 = List.map_filter (\<lambda>nid. map_option e_digest (held stored R nid (l, i))) nids" by simp
  have ds: "ds = (case r of Inl _ \<Rightarrow> ds1 | Inr rr \<Rightarrow> (nid, e_digest (rr_entry rr)) # ds1)"
    using Cons.prems(1) o ds1 by auto
  show ?case
  proof (cases r)
    case (Inl x)
    with on_node_live[OF o Cons.prems(2)] have "held stored R nid (l, i) = None" by auto
    with ih ds Inl show ?thesis by (simp add: List.map_filter_simps)
  next
    case (Inr rr)
    with rd ih ds show ?thesis by (simp add: List.map_filter_simps)
  qed
qed (simp add: List.map_filter_simps)

lemma mismatches_count:
  "map snd ds = xs \<Longrightarrow> (if length ds < 2 then 0 else length (mismatches ds))
    = (case xs of [] \<Rightarrow> 0 | d # ds' \<Rightarrow> length (filter (\<lambda>d'. d' \<noteq> d) ds'))"
  by (cases ds; cases "tl ds") (auto simp: mismatches_def filter_map o_def split: prod.splits)

lemma scrub_entries_ok:
  "scrub_entries N l ens is R = (n, R') \<Longrightarrow> all_good good R \<Longrightarrow>
   all_good good R' \<and> held stored R' = held stored R \<and> n = (\<Sum>i \<leftarrow> is. disagreeing (held stored R) ens l i)"
proof (induction "is" arbitrary: R n)
  case (Cons i "is")
  obtain ds R1 where ds: "replica_digests N l i ens R = (ds, R1)" by force
  obtain n1 where n1: "scrub_entries N l ens is R1 = (n1, R')" using Cons.prems(1) ds by (auto split: prod.splits)
  note rp = replica_digests_ok[OF ds Cons.prems(2)]
  have "n = disagreeing (held stored R) ens l i + n1"
    using Cons.prems(1) ds n1 mismatches_count[OF conjunct2[OF conjunct2[OF rp]]] by (simp add: disagreeing_def)
  with Cons.IH[OF n1] rp show ?case by simp
qed simp

lemma scrub_ledgers_ok:
  "scrub_ledgers N ms R = (n, R') \<Longrightarrow> all_good good R \<Longrightarrow>
   all_good good R' \<and> held stored R' = held stored R \<and> n = (\<Sum>m \<leftarrow> ms. ledger_disagreements (held stored R) m)"
proof (induction ms arbitrary: R n)
  case (Cons m ms)
  let ?one = "if lm_state m = Deleted then (0, R) else case lm_last_entry_id m of None \<Rightarrow> (0, R)
    | Some last_entry \<Rightarrow> if lm_fragments m = [] then (0, R)
        else scrub_entries N (lm_id m) (fr_ensemble (last (lm_fragments m))) (map of_nat [0..<Suc (unat last_entry)]) R"
  obtain n1 R1 where one: "?one = (n1, R1)" by force
  obtain n2 where n2: "scrub_ledgers N ms R1 = (n2, R')" and n: "n = n1 + n2"
    using Cons.prems(1) by (auto simp: one split: prod.splits)
  have "all_good good R1 \<and> held stored R1 = held stored R \<and> n1 = ledger_disagreements (held stored R) m"
    using one Cons.prems(2) scrub_entries_ok[where R = R]
    by (auto simp: ledger_disagreements_def o_def split: if_splits option.splits dest!: scrub_entries_ok)
  with Cons.IH[OF n2] n show ?case by simp
qed simp

end

text \<open>The tasks of the fragments that have a target, on a channel that is never closed.\<close>

lemma enqueue_fragments_open:
  assumes "enqueue_fragments (\<lambda>q t. Some (q @ [t])) clock failed nodes mfs n q = (r, q')"
  shows "\<exists>ts. q' = q @ ts \<and> r = Inr (n + length ts)
    \<and> map (\<lambda>t. t\<lparr> rt_created_at_ms := 0 \<rparr>) ts = List.map_filter (\<lambda>(m, f). task_for 0 failed nodes m f) mfs"
  using assms
proof (induction mfs arbitrary: n q)
  case (Cons mf mfs)
  obtain m f where mf: "mf = (m, f)" by force
  have zero: "task_for 0 failed nodes m f = map_option (\<lambda>t. t\<lparr> rt_created_at_ms := 0 \<rparr>) (task_for (clock n) failed nodes m f)"
    by (auto simp: task_for_def option.map_comp o_def)
  show ?case
  proof (cases "task_for (clock n) failed nodes m f")
    case None
    with Cons zero mf show ?thesis by (simp add: List.map_filter_simps)
  next
    case (Some t)
    with Cons.prems mf Cons.IH[of "Suc n" "q @ [t]"] obtain ts where ts: "q' = q @ t # ts" "r = Inr (n + length (t # ts))"
      "map (\<lambda>t. t\<lparr> rt_created_at_ms := 0 \<rparr>) ts = List.map_filter (\<lambda>(m, f). task_for 0 failed nodes m f) mfs" by auto
    with zero Some mf show ?thesis by (intro exI[of _ "t # ts"]) (simp add: List.map_filter_simps)
  qed
qed (simp add: List.map_filter_simps)



section \<open>What an append keeps\<close>

context replica_laws
begin

text \<open>Nodes keep what they store through any round, also when the round fails.\<close>

lemma send_adds_keeps:
  assumes "send_adds N e nids R = (outs, R')" and "all_good good R" and "entry_wf e"
  shows "all_good good R' \<and> (\<forall>nid k x. held stored R nid k = Some x \<longrightarrow> held stored R' nid k = Some x)"
  using assms(1,2)
proof (induction nids arbitrary: R outs)
  case (Cons nid nids)
  obtain r R1 where o: "on_node (nc_add N e) nid R = (r, R1)" by force
  obtain outs' where s: "send_adds N e nids R1 = (outs', R')" using Cons.prems(1) o by (auto split: prod.splits)
  note a = on_node_add[OF o Cons.prems(2) assms(3)]
  have "held stored R1 m k = Some x" if "held stored R m k = Some x" for m k x
    using a that by (cases "m = nid"; cases "k = ids_of e") metis+
  with Cons.IH[OF s] a show ?case by blast
qed simp

end

context client_laws
begin

lemma append_attempt_keeps:
  assumes "append_attempt M N crc now att dat h s R = (r, h', s', R')" and "all_good good R"
  shows "all_good good R' \<and> (\<forall>nid k x. held stored R nid k = Some x \<longrightarrow> held stored R' nid k = Some x)
    \<and> lm_id (lh_metadata h') = lm_id (lh_metadata h)
    \<and> lh_next_entry_id h' = (case r of Some (Inr _) \<Rightarrow> lh_next_entry_id h + 1 | _ \<Rightarrow> lh_next_entry_id h)
    \<and> (\<forall>eid. r = Some (Inr eid) \<longrightarrow> eid = lh_next_entry_id h)"
proof (cases "lm_fragments (lh_metadata h) = []")
  case True
  with assms show ?thesis by (auto simp: append_attempt_def Let_def)
next
  case False
  let ?f = "last (lm_fragments (lh_metadata h))"
  let ?e = "Entry_new crc (lm_id (lh_metadata h)) (lh_next_entry_id h) (lh_lac h) dat"
  obtain outs R1 where s1: "send_adds N ?e (take (unat (fr_write_quorum ?f)) (fr_ensemble ?f)) R = (outs, R1)" by force
  obtain acks failed fnc where c: "collect_outcomes outs = (acks, failed, fnc)" by (metis prod_cases3)
  note a = assms(1)[unfolded append_attempt_def Let_def if_not_P[OF False] s1 prod.case c]
  have "R' = R1" using a by (auto split: if_splits prod.splits sum.splits)
  moreover have "lm_id (lh_metadata h') = lm_id (lh_metadata h)
    \<and> lh_next_entry_id h' = (case r of Some (Inr _) \<Rightarrow> lh_next_entry_id h + 1 | _ \<Rightarrow> lh_next_entry_id h)
    \<and> (\<forall>eid. r = Some (Inr eid) \<longrightarrow> eid = lh_next_entry_id h)"
    using a by (auto simp: confirm_def Let_def Entry_new_def split: if_splits prod.splits sum.splits dest!: change_fragment_spec)
  ultimately show ?thesis using send_adds_keeps[OF s1 assms(2) Entry_new_wf] by simp
qed

text \<open>An append that fails does not use up its id, and what its nodes took stays.\<close>

lemma do_append_keeps:
  assumes "do_append M N crc now dat h s R = (r, h', s', R')" and "all_good good R"
  shows "all_good good R' \<and> (\<forall>nid k x. held stored R nid k = Some x \<longrightarrow> held stored R' nid k = Some x)
    \<and> lm_id (lh_metadata h') = lm_id (lh_metadata h)
    \<and> lh_next_entry_id h' = (case r of Inr _ \<Rightarrow> lh_next_entry_id h + 1 | Inl _ \<Rightarrow> lh_next_entry_id h)
    \<and> (\<forall>eid. r = Inr eid \<longrightarrow> eid = lh_next_entry_id h)"
proof (cases "lm_state (lh_metadata h) = Open")
  case True
  obtain o1 h1 s1 R1 where a1: "append_attempt M N crc now 0 dat h s R = (o1, h1, s1, R1)" by (metis prod_cases4)
  note k1 = append_attempt_keeps[OF a1 assms(2)]
  show ?thesis
  proof (cases o1)
    case None
    obtain o2 h2 s2 R2 where a2: "append_attempt M N crc now 1 dat h1 s1 R1 = (o2, h2, s2, R2)" by (metis prod_cases4)
    from k1 have "all_good good R1" by blast
    note k2 = append_attempt_keeps[OF a2 this]
    from k1 k2 None assms(1) True a1 a2 show ?thesis by (auto simp: do_append_def split: option.splits sum.splits)
  next
    case (Some x)
    with assms(1) True a1 k1 show ?thesis by (auto simp: do_append_def)
  qed
qed (use assms in \<open>auto simp: do_append_def\<close>)

end

end
