(* ===== verification/JournalClient.thy ===== *)
theory JournalClient
  imports NodeDisk LedgerRecovery
begin

text \<open>
  The storage node as the client and the recovery code see it: \<^verbatim>\<open>impl StorageNodeClient for
  JournalService\<close> of \<^verbatim>\<open>storage/node.rs\<close>, and the proof that a node on the LSM-C backend keeps the
  contract of \<open>Ledger\<close>. What the environment decides during an append may depend on the entry and on
  the node. The contract covers entries in the cache and entries that the flush loop moved to local
  segments; \<open>NodeFlush\<close> adds that the flush loop keeps it.
\<close>

definition journal_client ::
  "('k, 'c, 's, 'j, 'i) node_api \<Rightarrow> (Entry \<Rightarrow> ('k, 'c, 's, 'j, 'i) JournalService \<Rightarrow> add_env)
   \<Rightarrow> ('k, 'c, 's, 'j, 'i) JournalService node_client" where
  "journal_client A env =
     \<lparr> nc_add = (\<lambda>e sv. add_entry A (env e sv) e sv), nc_fence = fence_ledger A, nc_read = node_read_entry A \<rparr>"

definition stored_entry ::
  "('k, 'c, 's, 'j, 'i) node_api \<Rightarrow> ('k \<Rightarrow> string \<Rightarrow> bytes \<Rightarrow> bytes option) \<Rightarrow> ('k, 'c, 's, 'j, 'i) JournalService
   \<Rightarrow> u64 \<times> u64 \<Rightarrow> Entry option" where
  "stored_entry A kv sv k =
     (case sv_backend sv of
        InProcess _ _ \<Rightarrow> None
      | Lsmc b \<Rightarrow> Option.bind (stored_payload (na_db A) kv (na_crc A) b k)
          (\<lambda>p. case bc_de_se (na_db A) p of Inl _ \<Rightarrow> None | Inr se \<Rightarrow> Some (se_entry se)))"

definition cache_decodes :: "'k db_api \<Rightarrow> EntrySegmentCache \<Rightarrow> bool" where
  "cache_decodes D c \<longleftrightarrow> (\<forall>l i p. cache_get c l i = Some p \<longrightarrow> payload_of D (l, i) p)"

definition serving ::
  "('k, 'c, 's, 'j, 'i) node_api \<Rightarrow> ('k \<Rightarrow> string \<Rightarrow> bytes \<Rightarrow> bytes option) \<Rightarrow> ('k, 'c, 's, 'j, 'i) JournalService \<Rightarrow> bool" where
  "serving A kv sv \<longleftrightarrow>
     (\<exists>b. sv_backend sv = Lsmc b \<and> node_partitions b \<and> locs_wf (na_db A) kv b
        \<and> disk_wf (na_db A) kv (na_crc A) (na_blocks A) b \<and> cache_decodes (na_db A) (nl_cache b)
        \<and> (\<forall>k. cached b k \<longrightarrow> covered (na_db A) kv (sv_hi_entry sv) b k))"

text \<open>A restarted service serves if every entry that was replayed into the cache is located.\<close>

lemma new_lsmc_serving:
  assumes "node_partitions b" and "locs_wf (na_db A) kv b" and "disk_wf (na_db A) kv (na_crc A) (na_blocks A) b"
    and "cache_decodes (na_db A) (nl_cache b)" and "\<And>k. cached b k \<Longrightarrow> located (na_db A) kv b k"
  shows "serving A kv (new_lsmc A node_id b)"
  using assms by (simp add: serving_def new_lsmc_def covered_def)


section \<open>The store of a node\<close>

lemma cache_get_new:
  "\<not> cache_contains c l i \<Longrightarrow> cache_get (cache_insert c l i p) l' i' = (if (l', i') = (l, i) then Some p else cache_get c l' i')"
  by (simp add: cache_get_insert cache_contains_def)

lemma cache_decodes_insert:
  "cache_decodes D c \<Longrightarrow> \<not> cache_contains c l i \<Longrightarrow> payload_of D (l, i) p \<Longrightarrow> cache_decodes D (cache_insert c l i p)"
  unfolding cache_decodes_def by (simp add: cache_get_new)

lemma stored_payload_of:
  assumes "disk_wf D kv crc B b" and "cache_decodes D (nl_cache b)" and "stored_payload D kv crc b k = Some p"
  shows "payload_of D k p"
  using assms disk_payload_of[OF assms(1)]
  by (cases k) (auto simp: stored_payload_def cache_decodes_def split: option.splits)

lemma stored_entry_payload:
  assumes "serving A kv sv" and "sv_backend sv = Lsmc b" and "stored_payload (na_db A) kv (na_crc A) b k = Some p"
  shows "\<exists>se. bc_de_se (na_db A) p = Inr se \<and> stored_entry A kv sv k = Some (se_entry se) \<and> ids_of (se_entry se) = k \<and> entry_wf (se_entry se)"
proof -
  from assms(1,2) have "disk_wf (na_db A) kv (na_crc A) (na_blocks A) b" "cache_decodes (na_db A) (nl_cache b)" by (auto simp: serving_def)
  from stored_payload_of[OF this assms(3)] obtain se where "bc_de_se (na_db A) p = Inr se" "ids_of (se_entry se) = k" "entry_wf (se_entry se)"
    by (auto simp: payload_of_def ids_of_def)
  with assms(2,3) show ?thesis by (simp add: stored_entry_def)
qed

lemma stored_entry_None_iff:
  assumes "serving A kv sv" and "sv_backend sv = Lsmc b"
  shows "stored_entry A kv sv k = None \<longleftrightarrow> \<not> cached b k \<and> \<not> located (na_db A) kv b k"
proof -
  have "disk_wf (na_db A) kv (na_crc A) (na_blocks A) b" using assms by (auto simp: serving_def)
  from stored_payload_None[OF this] have "stored_payload (na_db A) kv (na_crc A) b k = None \<longleftrightarrow> \<not> cached b k \<and> \<not> located (na_db A) kv b k" .
  moreover have "stored_entry A kv sv k = None \<longleftrightarrow> stored_payload (na_db A) kv (na_crc A) b k = None"
  proof (cases "stored_payload (na_db A) kv (na_crc A) b k")
    case (Some p)
    from stored_entry_payload[OF assms Some] Some show ?thesis by auto
  qed (use assms(2) in \<open>simp add: stored_entry_def\<close>)
  ultimately show ?thesis by simp
qed

lemma stored_entry_ids: "serving A kv sv \<Longrightarrow> stored_entry A kv sv k = Some e \<Longrightarrow> ids_of e = k \<and> entry_wf e"
proof -
  assume s: "serving A kv sv" and e: "stored_entry A kv sv k = Some e"
  then obtain b where b: "sv_backend sv = Lsmc b" by (auto simp: serving_def)
  from e b obtain p where "stored_payload (na_db A) kv (na_crc A) b k = Some p"
    by (auto simp: stored_entry_def split: Option.bind_splits)
  from stored_entry_payload[OF s b this] e show ?thesis by auto
qed


section \<open>The errors of an append\<close>

text \<open>Every error of the write path is an I/O or a codec error; none calls an id invalid.\<close>

definition io_error :: "FolioError \<Rightarrow> bool" where
  "io_error e \<longleftrightarrow> (\<exists>s. e = Storage s \<or> e = Serialization s)"

named_theorems io_errors

lemma io_error_simps [simp]: "io_error (Storage s)" "io_error (Serialization s)" "\<not> io_error (InvalidEntryId a b)"
  by (simp_all add: io_error_def)

lemma storage_err_io [simp]: "storage_err r = Inl x \<Longrightarrow> io_error x"
  by (auto simp: storage_err_def map_sum_def split: sum.splits)

lemma get_location_io [io_errors]: "get_location D idx ks l i = Inl x \<Longrightarrow> io_error x"
  by (auto simp: get_location_def split: sum.splits option.splits)

lemma get_ledger_state_io [io_errors]: "get_ledger_state D idx ks l = Inl x \<Longrightarrow> io_error x"
  by (auto simp: get_ledger_state_def split: sum.splits option.splits)

lemma put_ledger_state_io [io_errors]: "put_ledger_state D idx ks l st = (Inl x, ks') \<Longrightarrow> io_error x"
  by (auto simp: put_ledger_state_def split: sum.splits prod.splits)

lemma persist_io [io_errors]: "persist D ks = (Inl x, ks') \<Longrightarrow> io_error x"
  by (auto simp: persist_def split: prod.splits)

lemma ensure_ledger_known_io [io_errors]: "ensure_ledger_known D idx ks l mk = (Inl x, ks') \<Longrightarrow> io_error x"
  by (auto simp: ensure_ledger_known_def key_mismatch_error_def dest: io_errors
      split: sum.splits option.splits prod.splits if_splits)

lemma register_ledger_io [io_errors]: "register_ledger D idx e known ks = (Inl x, y) \<Longrightarrow> io_error x"
  by (auto simp: register_ledger_def Let_def dest: io_errors split: sum.splits prod.splits if_splits)

lemma check_hmac_io [io_errors]: "check_hmac D mac idx e ks = Inl x \<Longrightarrow> io_error x"
  by (auto simp: check_hmac_def get_ledger_master_key_def dest: io_errors split: sum.splits option.splits if_splits)

lemma is_duplicate_io [io_errors]: "is_duplicate D b l i = Inl x \<Longrightarrow> io_error x"
  by (auto simp: is_duplicate_def dest: io_errors split: sum.splits option.splits if_splits)


definition io_replies :: "reply list \<Rightarrow> bool" where
  "io_replies rs \<longleftrightarrow> (\<forall>a x. WriteReply a (Inl x) \<in> set rs \<longrightarrow> io_error x)"

lemma reply_for_io: "io_replies rs \<Longrightarrow> reply_for a rs = Inl x \<Longrightarrow> io_error x"
  by (induction rs) (auto simp: io_replies_def split: reply.splits if_splits)

lemma drain_channel_io: "drain_channel crc buf ms = (buf', reqs, replies, rest) \<Longrightarrow> io_replies replies"
  by (induction ms arbitrary: buf buf' reqs replies rest)
    (auto simp: io_replies_def split: if_splits JournalMsg.splits prod.splits)

lemma write_and_ack_io: "write_and_ack wo so buf reqs st = (replies, st') \<Longrightarrow> io_replies replies"
  by (auto simp: write_and_ack_def Let_def fail_all_def io_replies_def split: io_write.splits if_splits option.splits)

lemma journal_append_io [io_errors]:
  assumes "journal_append D crc cfg env channel w st = (Inl x, st')"
  shows "io_error x"
proof -
  obtain rs rest st1 where s: "journal_step D crc cfg env (JWrite w) channel st = (rs, rest, st1)" by (metis prod_cases3)
  then have "io_replies rs"
    using drain_channel_io write_and_ack_io
    by (fastforce simp: journal_step_def io_replies_def split: prod.splits)
  then show ?thesis using assms s reply_for_io by (auto simp: journal_append_def)
qed

lemma log_and_cache_io [io_errors]: "log_and_cache D crc env e b = (Inl x, b') \<Longrightarrow> io_error x"
  by (auto simp: log_and_cache_def Let_def dest: io_errors split: sum.splits prod.splits)

lemma lsmc_write_io [io_errors]: "lsmc_write A env e b sv = (Inl x, sv') \<Longrightarrow> io_error x"
  by (auto simp: lsmc_write_def Let_def dest: io_errors split: sum.splits prod.splits bool.splits)


section \<open>A node keeps the contract\<close>

context db_laws
begin

lemma serving_kept:
  assumes A: "na_db A = D" and u: "serving A kv sv" and b: "sv_backend sv = Lsmc b" and b': "sv_backend sv' = Lsmc b'"
    and k: "backend_kept D kv b b'" and d: "disk_same D kv b b'" and c: "nl_cache b' = nl_cache b"
    and h: "sv_hi_entry sv' = sv_hi_entry sv"
  shows "serving A kv sv'" and "stored_entry A kv sv' = stored_entry A kv sv"
proof -
  have wf: "disk_wf D kv (na_crc A) (na_blocks A) b" using u b A by (auto simp: serving_def)
  have cc: "cached b' = cached b" by (rule cached_cong[OF c])
  note w = disk_same_wf[OF d wf]
  show "serving A kv sv'"
    using u b b' k w(1) same_names_partitions[of b b'] cc by (auto simp: serving_def A backend_kept_def covered_def c h)
  show "stored_entry A kv sv' = stored_entry A kv sv"
    using w(2) cc by (intro ext) (simp add: stored_entry_def b b' stored_payload_def A c split: option.splits)
qed

text \<open>An entry that is written becomes the entry stored under its ids.\<close>

lemma insert_serving:
  assumes A: "na_db A = D" and u: "serving A kv sv" and b: "sv_backend sv = Lsmc b" and b': "sv_backend sv' = Lsmc b'"
    and k: "backend_kept D kv b b'" and d: "disk_same D kv b b'" and nc: "\<not> cached b (ids_of e)"
    and c: "nl_cache b' = cache_insert (nl_cache b) (e_ledger_id e) (e_entry_id e) p"
    and hi: "sv_hi_entry sv' = raise_to (e_ledger_id e) (e_entry_id e) (sv_hi_entry sv)"
    and p: "bc_de_se D p = Inr \<lparr> se_entry = e, se_appended_at_ms = t \<rparr>" and ew: "entry_wf e"
  shows "serving A kv sv'" and "stored_entry A kv sv' = (stored_entry A kv sv)(ids_of e \<mapsto> e)"
proof -
  have nc': "\<not> cache_contains (nl_cache b) (e_ledger_id e) (e_entry_id e)" using nc by (simp add: cached_def ids_of_def)
  have wf: "disk_wf D kv (na_crc A) (na_blocks A) b" using u b A by (auto simp: serving_def)
  have cc: "cached b' q \<longleftrightarrow> q = ids_of e \<or> cached b q" for q
    by (auto simp: cached_def c cache_contains_insert ids_of_def prod_eq_iff)
  note w = disk_same_wf[OF d wf]
  show "stored_entry A kv sv' = (stored_entry A kv sv)(ids_of e \<mapsto> e)"
    using w(2) cc
    by (intro ext) (auto simp: stored_entry_def b b' stored_payload_def A c cache_get_new[OF nc'] p ids_of_def split: option.splits)
  have "payload_of D (e_ledger_id e, e_entry_id e) p" using p ew by (simp add: payload_of_def)
  then have "cache_decodes D (nl_cache b')"
    unfolding c using u b A by (intro cache_decodes_insert[OF _ nc']) (auto simp: serving_def)
  moreover have "covered D kv (sv_hi_entry sv') b' q" if q: "cached b' q" for q
  proof (cases "q = ids_of e")
    case True
    then show ?thesis using raise_to_ge[of "e_ledger_id e" "e_entry_id e"] by (simp add: covered_def hi ids_of_def)
  next
    case False
    with q cc u b have "covered D kv (sv_hi_entry sv) b q" by (auto simp: serving_def A simp del: split_paired_All)
    moreover have "located D kv b' = located D kv b" by (rule disk_same_maps(4)[OF d])
    moreover have "\<exists>h. sv_hi_entry sv' (fst q) = Some h \<and> snd q \<le> h" if "sv_hi_entry sv (fst q) = Some h" "snd q \<le> h" for h
      unfolding hi using raise_to_mono[of "sv_hi_entry sv" "fst q"] that order.trans by meson
    ultimately show ?thesis unfolding covered_def by auto
  qed
  ultimately show "serving A kv sv'"
    using u b b' k w(1) cc same_names_partitions[of b b'] by (auto simp: serving_def A backend_kept_def)
qed

lemma add_rest_serving:
  assumes A: "na_db A = D" and u: "serving A kv sv" and w: "add_rest A env e sv = (r, sv')" and ew: "entry_wf e"
  shows "serving A kv sv' \<and> sv_fences sv' = sv_fences sv
    \<and> stored_entry A kv sv' = (if isl r \<or> stored_entry A kv sv (ids_of e) \<noteq> None then stored_entry A kv sv
        else (stored_entry A kv sv)(ids_of e \<mapsto> e))"
proof -
  from u obtain b where b: "sv_backend sv = Lsmc b" and p: "node_partitions b" and wf: "disk_wf D kv (na_crc A) (na_blocks A) b"
    by (auto simp: serving_def A)
  obtain w1 sv1 where lw: "lsmc_write A env e b sv = (w1, sv1)" by force
  obtain b' where b': "sv_backend sv1 = Lsmc b'" and k: "backend_kept D kv b b'" and f: "sv_fences sv1 = sv_fences sv"
    and new: "w1 = Inr True \<longrightarrow> \<not> cached b (e_ledger_id e, e_entry_id e) \<and> \<not> located D kv b (e_ledger_id e, e_entry_id e)
        \<and> sv_hi_entry sv1 = raise_to (e_ledger_id e) (e_entry_id e) (sv_hi_entry sv)
        \<and> (\<exists>payload. bc_ser_se D \<lparr> se_entry = e, se_appended_at_ms = ae_now env \<rparr> = Inr payload
             \<and> nl_cache b' = cache_insert (nl_cache b) (e_ledger_id e) (e_entry_id e) payload)"
    and old: "w1 \<noteq> Inr True \<longrightarrow> nl_cache b' = nl_cache b \<and> sv_hi_entry sv1 = sv_hi_entry sv"
    and dup: "w1 = Inr False \<longrightarrow> cached b (e_ledger_id e, e_entry_id e) \<or> located D kv b (e_ledger_id e, e_entry_id e)"
    by (rule lsmc_write_effect[OF A p lw]) (rule that)
  note d = lsmc_write_disk[OF A lw b' p wf]
  note iff = stored_entry_None_iff[OF u b, of "ids_of e", unfolded A]
  have r: "isl r = isl w1" "sv' = (if w1 = Inr True then add_finish env e sv1 else sv1)"
    using w lw b by (auto simp: add_rest_def add_write_def Let_def split: sum.splits bool.splits)
  show ?thesis
  proof (cases "w1 = Inr True")
    case True
    with new obtain payload where nc: "\<not> cached b (ids_of e)" "\<not> located D kv b (ids_of e)"
      and hi: "sv_hi_entry sv1 = raise_to (e_ledger_id e) (e_entry_id e) (sv_hi_entry sv)"
      and ser: "bc_ser_se D \<lparr> se_entry = e, se_appended_at_ms = ae_now env \<rparr> = Inr payload"
      and c: "nl_cache b' = cache_insert (nl_cache b) (e_ledger_id e) (e_entry_id e) payload" by (auto simp: ids_of_def)
    have s: "sv_backend sv' = Lsmc b'" "sv_hi_entry sv' = raise_to (e_ledger_id e) (e_entry_id e) (sv_hi_entry sv)" "sv_fences sv' = sv_fences sv"
      using b' hi f by (simp_all add: r True add_finish_def)
    from insert_serving[OF A u b s(1) k d nc(1) c s(2) law_se[OF ser] ew] iff nc s(3) r(1) True show ?thesis by auto
  next
    case False
    then have s: "sv' = sv1" using r by simp
    from False old have o: "nl_cache b' = nl_cache b" "sv_hi_entry sv1 = sv_hi_entry sv" by auto
    have "stored_entry A kv sv (ids_of e) \<noteq> None" if "\<not> isl r" using dup iff that False r(1) by (cases w1) (auto simp: ids_of_def)
    with serving_kept[OF A u b b' k d o] f show ?thesis by (auto simp: s)
  qed
qed

end


locale journal_node = db_laws D kv for D :: "'k db_api" and kv +
  fixes A :: "('k, 'c, 's, 'j, 'i) node_api" and env :: "Entry \<Rightarrow> ('k, 'c, 's, 'j, 'i) JournalService \<Rightarrow> add_env"
  assumes api: "na_db A = D" and blocks: "block_laws (na_blocks A)"
begin

lemma client_add:
  assumes u: "serving A kv sv" and ew: "entry_wf e" and a: "nc_add (journal_client A env) e sv = (r, sv')"
  shows "serving A kv sv' \<and> sv_fences sv' = sv_fences sv
    \<and> stored_entry A kv sv' = (if isl r \<or> stored_entry A kv sv (ids_of e) \<noteq> None then stored_entry A kv sv
        else (stored_entry A kv sv)(ids_of e \<mapsto> e))
    \<and> (\<not> isl r \<longrightarrow> e_ledger_id e \<notin> sv_fences sv)"
proof (cases "add_check (na_crc A) e sv")
  case (Inl x)
  with u a show ?thesis by (auto simp: journal_client_def add_entry_def)
next
  case (Inr v)
  with a have "add_rest A (env e sv) e sv = (r, sv')" by (simp add: journal_client_def add_entry_def)
  from add_rest_serving[OF api u this ew] Inr show ?thesis by (auto simp: add_check_def split: if_splits)
qed

lemma client_add_valid:
  assumes u: "serving A kv sv" and a: "nc_add (journal_client A env) e sv = (Inl x, sv')"
  shows "x \<noteq> InvalidEntryId i j"
proof (cases "add_check (na_crc A) e sv")
  case (Inl y)
  with a show ?thesis by (auto simp: journal_client_def add_entry_def add_check_def split: if_splits)
next
  case (Inr v)
  from u obtain b where "sv_backend sv = Lsmc b" by (auto simp: serving_def)
  with a Inr obtain sv1 where "lsmc_write A (env e sv) e b sv = (Inl x, sv1)"
    by (auto simp: journal_client_def add_entry_def add_rest_def add_write_def Let_def split: prod.splits sum.splits bool.splits)
  then have "io_error x" by (rule io_errors)
  then show ?thesis by auto
qed

lemma client_fence:
  assumes u: "serving A kv sv" and f: "nc_fence (journal_client A env) l sv = (r, sv')"
  shows "serving A kv sv' \<and> stored_entry A kv sv' = stored_entry A kv sv \<and> sv_fences sv \<subseteq> sv_fences sv'
    \<and> (\<forall>h. r = Inr h \<longrightarrow> l \<in> sv_fences sv' \<and> (\<forall>i. stored_entry A kv sv (l, i) \<noteq> None \<longrightarrow> i \<le> h))"
proof -
  from u obtain b where b: "sv_backend sv = Lsmc b" and p: "node_partitions b" and wf: "disk_wf D kv (na_crc A) (na_blocks A) b"
    and lw: "locs_wf D kv b"
    and hi: "\<And>k. cached b k \<Longrightarrow> covered D kv (sv_hi_entry sv) b k" by (auto simp: serving_def api)
  have f': "fence_ledger A l sv = (r, sv')" using f by (simp add: journal_client_def)
  obtain b' where b': "sv_backend sv' = Lsmc b'" and k: "backend_kept D kv b b'" and c: "nl_cache b' = nl_cache b"
    and h: "sv_hi_entry sv' = sv_hi_entry sv" and fe: "sv_fences sv \<subseteq> sv_fences sv'"
    and ok: "r = Inr (projr r) \<longrightarrow> l \<in> sv_fences sv' \<and> fenced_on_disk D kv b' l
        \<and> (locs_wf D kv b \<longrightarrow> (\<forall>k. located D kv b k \<longrightarrow> snd k \<noteq> - 1) \<longrightarrow>
             (\<forall>e. covered D kv (sv_hi_entry sv) b (l, e) \<longrightarrow> e \<le> projr r))"
    by (rule fence_effect[OF api p b f']) (rule that)
  have ne: "\<forall>k. located D kv b k \<longrightarrow> snd k \<noteq> - 1" using wf unfolding disk_wf_def by blast
  have "i \<le> n" if "r = Inr n" "stored_entry A kv sv (l, i) \<noteq> None" for n i
  proof -
    have "cached b (l, i) \<or> located D kv b (l, i)" using that(2) stored_entry_None_iff[OF u b, of "(l, i)"] api by simp
    with hi[of "(l, i)"] have "covered D kv (sv_hi_entry sv) b (l, i)" by (auto simp: covered_def)
    with ok that(1) lw ne show ?thesis by auto
  qed
  with serving_kept[OF api u b b' k fence_disk[OF api f' b b' p wf] c h] ok fe show ?thesis by auto
qed

lemma client_read:
  assumes u: "serving A kv sv" and rd: "nc_read (journal_client A env) l i sv = (r, sv')"
  shows "serving A kv sv' \<and> stored_entry A kv sv' = stored_entry A kv sv \<and> sv_fences sv' = sv_fences sv
    \<and> (\<forall>rr. r = Inr rr \<longrightarrow> stored_entry A kv sv (l, i) = Some (rr_entry rr))
    \<and> (reads_answer D \<longrightarrow> stored_entry A kv sv (l, i) \<noteq> None \<longrightarrow> \<not> isl r)"
proof -
  from u obtain b where b: "sv_backend sv = Lsmc b" and wf: "disk_wf D kv (na_crc A) (na_blocks A) b" by (auto simp: serving_def api)
  have r': "node_read_entry A l i sv = (r, sv')" using rd by (simp add: journal_client_def)
  show ?thesis
  proof (cases "cache_get (nl_cache b) l i")
    case (Some p)
    then have "stored_payload D kv (na_crc A) b (l, i) = Some p" by (simp add: stored_payload_def)
    from stored_entry_payload[OF u b] this obtain se where "bc_de_se D p = Inr se" "stored_entry A kv sv (l, i) = Some (se_entry se)"
      using api by blast
    with r' b Some u show ?thesis by (auto simp: node_read_entry_def read_result_def api)
  next
    case None
    obtain x bc where t: "tiered_read_entry D (na_blocks A) (na_s3 A) (na_crc A) (nl_reader b) (js_fs (nl_journal b)) (nl_ks b)
        (nl_s3 b) l i (nl_blocks b) = (x, bc)" by force
    have nc: "\<not> cached b (l, i)" using None by (simp add: cached_def cache_contains_get)
    note rb = read_below_cache[OF blocks wf nc t]
    have sp: "stored_payload D kv (na_crc A) b (l, i) = disk_payload D kv (na_crc A) b (l, i)" by (simp add: stored_payload_def None)
    have sv': "sv' = sv\<lparr> sv_backend := Lsmc (b\<lparr> nl_blocks := bc \<rparr>) \<rparr>"
      and r: "r = (case x of Inl err \<Rightarrow> Inl err | Inr payload \<Rightarrow> read_result D (sv_node_id sv) payload)"
      using r' None t by (auto simp: node_read_entry_def b api split: sum.splits)
    have m: "cached (b\<lparr> nl_blocks := bc \<rparr>) = cached b" "stored_payload D kv (na_crc A) (b\<lparr> nl_blocks := bc \<rparr>) = stored_payload D kv (na_crc A) b"
      by (auto simp: cached_def stored_payload_def disk_payload_def entry_loc_def segment_content_def segments_def fun_eq_iff
          split: option.splits)
    have "serving A kv sv'"
      using u b rb(1) m(1) by (auto simp: sv' serving_def api node_partitions_def locs_wf_def covered_def located_def)
    moreover have "stored_entry A kv sv' = stored_entry A kv sv" by (rule ext) (simp add: stored_entry_def sv' b api m(2))
    moreover have "\<not> isl r \<and> stored_entry A kv sv (l, i) = Some (rr_entry (projr r))" if "x = Inr p" for p
      using stored_entry_payload[OF u b, of "(l, i)" p] rb(2)[OF that] sp that by (auto simp: api r read_result_def)
    moreover have "\<not> isl x" if "reads_answer D" "stored_entry A kv sv (l, i) \<noteq> None"
      using rb(3)[OF that(1)] that(2) sp by (auto simp: stored_entry_def b api split: Option.bind_splits)
    ultimately show ?thesis using r by (cases x) (force simp: sv')+
  qed
qed

end

sublocale journal_node \<subseteq> jn: fencing_laws "journal_client A env" "stored_entry A kv" sv_fences "serving A kv" "na_crc A"
proof
  fix n e x n' assume u: "serving A kv n" and w: "entry_wf e" and a: "nc_add (journal_client A env) e n = (Inl x, n')"
  from client_add[OF u w a] show "serving A kv n' \<and> sv_fences n' = sv_fences n \<and> (stored_entry A kv n' = stored_entry A kv n \<or>
    stored_entry A kv n (ids_of e) = None \<and> stored_entry A kv n' = (stored_entry A kv n)(ids_of e \<mapsto> e))" by simp
next
  fix n e ack n' assume u: "serving A kv n" and w: "entry_wf e" and a: "nc_add (journal_client A env) e n = (Inr ack, n')"
  from client_add[OF u w a] show "serving A kv n' \<and> e_ledger_id e \<notin> sv_fences n \<and> sv_fences n' = sv_fences n
    \<and> stored_entry A kv n' = (if stored_entry A kv n (ids_of e) = None then (stored_entry A kv n)(ids_of e \<mapsto> e) else stored_entry A kv n)"
    by simp
next
  fix n :: "('k, 'c, 's, 'j, 'i) JournalService" and e assume "e_ledger_id e \<in> sv_fences n" and "validate_digest (na_crc A) e"
  then show "fst (nc_add (journal_client A env) e n) = Inl (LedgerFenced (e_ledger_id e))"
    by (simp add: journal_client_def add_entry_def add_check_def)
next
  fix n l h n' assume u: "serving A kv n" and f: "nc_fence (journal_client A env) l n = (Inr h, n')"
  from client_fence[OF u f] show "serving A kv n' \<and> l \<in> sv_fences n' \<and> sv_fences n \<subseteq> sv_fences n'
    \<and> stored_entry A kv n' = stored_entry A kv n \<and> (\<forall>i. stored_entry A kv n (l, i) \<noteq> None \<longrightarrow> i \<le> h)" by simp
next
  fix n l x n' assume u: "serving A kv n" and f: "nc_fence (journal_client A env) l n = (Inl x, n')"
  from client_fence[OF u f] show "serving A kv n' \<and> sv_fences n \<subseteq> sv_fences n' \<and> stored_entry A kv n' = stored_entry A kv n" by simp
next
  fix n l i r n' assume u: "serving A kv n" and f: "nc_read (journal_client A env) l i n = (r, n')"
  from client_read[OF u f] show "serving A kv n' \<and> sv_fences n' = sv_fences n \<and> stored_entry A kv n' = stored_entry A kv n
    \<and> (\<forall>rr. r = Inr rr \<longrightarrow> stored_entry A kv n (l, i) = Some (rr_entry rr))" by simp
next
  fix n k e assume "serving A kv n" and "stored_entry A kv n k = Some e"
  then show "ids_of e = k \<and> entry_wf e" by (rule stored_entry_ids)
next
  fix n e a b n' assume "serving A kv n" and "nc_add (journal_client A env) e n = (Inl (InvalidEntryId a b), n')"
  from client_add_valid[OF this] show "stored_entry A kv n (ids_of e) \<noteq> None" by blast
qed

text \<open>With a key-value store that answers, what is stored can be read.\<close>

locale answering_node = journal_node D kv A env
  for D :: "'k db_api" and kv and A :: "('k, 'c, 's, 'j, 'i) node_api" and env +
  assumes answers: "reads_answer D"

sublocale answering_node \<subseteq> an: node_laws "journal_client A env" "stored_entry A kv" sv_fences "serving A kv" "na_crc A"
proof
  fix n :: "('k, 'c, 's, 'j, 'i) JournalService" and l i assume u: "serving A kv n" and s: "stored_entry A kv n (l, i) \<noteq> None"
  obtain r n' where f: "nc_read (journal_client A env) l i n = (r, n')" by force
  from client_read[OF u f] s f answers show "\<not> isl (fst (nc_read (journal_client A env) l i n))" by simp
qed

context journal_node
begin

lemma fencing_contract: "fencing_laws (journal_client A env) (stored_entry A kv) sv_fences (serving A kv) (na_crc A)"
  by unfold_locales

end

context answering_node
begin

lemma node_contract: "node_laws (journal_client A env) (stored_entry A kv) sv_fences (serving A kv) (na_crc A)"
  by unfold_locales

end


text \<open>
  The third-party parts of a node, as the deployed composition assumes them: the key-value store and
  the block cache keep their laws; in the second form look-ups of the store do not fail either.
\<close>

definition storage_laws :: "('k, 'c, 's, 'j, 'i) node_api \<Rightarrow> ('k \<Rightarrow> string \<Rightarrow> bytes \<Rightarrow> bytes option) \<Rightarrow> bool" where
  "storage_laws A kv \<longleftrightarrow> db_laws (na_db A) kv \<and> block_laws (na_blocks A)"

definition answering_storage :: "('k, 'c, 's, 'j, 'i) node_api \<Rightarrow> ('k \<Rightarrow> string \<Rightarrow> bytes \<Rightarrow> bytes option) \<Rightarrow> bool" where
  "answering_storage A kv \<longleftrightarrow> storage_laws A kv \<and> reads_answer (na_db A)"

lemma storage_node: "storage_laws A kv \<Longrightarrow> journal_node (na_db A) kv A"
  by (simp add: storage_laws_def journal_node_def journal_node_axioms_def)

lemma answering_storage_node: "answering_storage A kv \<Longrightarrow> answering_node (na_db A) kv A"
  by (simp add: answering_storage_def storage_node answering_node_def answering_node_axioms_def)

end
