(* ===== verification/LedgerSpec.thy ===== *)
theory LedgerSpec
  imports NodeSpec MetadataSpec JournalClient
begin

text \<open>
  The properties of the client and of recovery, for the composition that a cluster runs: the client
  code over the etcd metadata store and over storage nodes on the LSM-C backend. The etcd client, the
  key-value store and the block cache are parameters with their laws.
\<close>


section \<open>The composition\<close>

locale deployment = journal_node D kv A env + etcd_md E contents
  for D :: "'k db_api" and kv and A :: "('k, 'c, 's, 'j, 'i) node_api" and env and E :: "'e etcd_api" and contents

sublocale deployment \<subseteq> dep: sealing_laws "etcd_store E" "stored_ledger E contents" "journal_client A env"
  "stored_entry A kv" sv_fences "serving A kv" "na_crc A"
  by unfold_locales

locale answering_deployment = answering_node D kv A env + deployment D kv A env E contents
  for D :: "'k db_api" and kv and A :: "('k, 'c, 's, 'j, 'i) node_api" and env and E :: "'e etcd_api" and contents

sublocale answering_deployment \<subseteq> adep: cluster_laws "etcd_store E" "stored_ledger E contents" "journal_client A env"
  "stored_entry A kv" sv_fences "serving A kv" "na_crc A"
  by unfold_locales

context deployment
begin

lemma sealing_contract: "sealing_laws (etcd_store E) (stored_ledger E contents) (journal_client A env)
    (stored_entry A kv) sv_fences (serving A kv) (na_crc A)"
  by unfold_locales

end

context answering_deployment
begin

lemma contract: "cluster_laws (etcd_store E) (stored_ledger E contents) (journal_client A env)
    (stored_entry A kv) sv_fences (serving A kv) (na_crc A)"
  by unfold_locales

end

lemma demo_answers: "answering_storage demo_api ref_kv"
  using ref.db_laws_axioms rb.block_laws_axioms
  by (simp add: answering_storage_def storage_laws_def demo_api_def reads_answer_def ref_db_def)

lemmas demo_storage = demo_answers[unfolded answering_storage_def, THEN conjunct1]

interpretation demo: answering_deployment ref_db ref_kv demo_api "\<lambda>_ _. demo_add_env" ref_etcd "\<lambda>s. map_of (re_kv s)"
  using answering_storage_node[OF demo_answers] by (simp add: answering_deployment_def deployment_def answering_node_def rem.etcd_md_axioms)

lemma deployment_sealing:
  assumes "storage_laws A kv" and "etcd_laws E contents"
  shows "sealing_laws (etcd_store E) (stored_ledger E contents) (journal_client A env)
    (stored_entry A kv) sv_fences (serving A kv) (na_crc A)"
proof -
  have "deployment (na_db A) kv A E contents" using assms by (simp add: deployment_def storage_node etcd_md_def)
  then show ?thesis by (rule deployment.sealing_contract)
qed

lemmas deployment_client = sealing_laws.axioms(1)[OF deployment_sealing]



section \<open>A cluster of one node\<close>

abbreviation demo_client :: "(ref_ks, ref_blocks, ref_s3, FileJournal, MemoryLedgerIndex) JournalService node_client" where
  "demo_client \<equiv> journal_client demo_api (\<lambda>_ _. demo_add_env)"

definition demo_meta :: LedgerMetadata where
  "demo_meta = new_ledger 0 3 \<lparr> lo_ensemble_size = 1, lo_write_quorum = 1, lo_ack_quorum = 1 \<rparr> [''n1'']"

definition demo_handle :: LedgerHandle where
  "demo_handle = LedgerHandle_new demo_meta 0"

definition demo_meta_etcd :: ref_etcd_state where
  "demo_meta_etcd = ref_etcd_put \<lparr> re_kv = [], re_revision = 0 \<rparr> (etcd_ledger_key 3) (write_lm demo_meta)"

definition demo_nodes :: "(ref_ks, ref_blocks, ref_s3, FileJournal, MemoryLedgerIndex) JournalService resolver" where
  "demo_nodes = [(''n1'', demo_service)]"

lemma demo_disk: "disk_wf ref_db ref_kv (\<lambda>_. 0) ref_block demo_backend"
proof -
  have e: "entry_loc ref_db ref_kv demo_backend = (\<lambda>_. None)" "wal_loc ref_db ref_kv demo_backend = (\<lambda>_. None)"
    "segments ref_db ref_kv demo_backend = (\<lambda>_. None)"
    by (auto simp: entry_loc_def wal_loc_def segments_def loc_map_def seg_map_def abs_map_def ref_simps fun_eq_iff)
  have "blocks_ok ref_block content (nl_blocks demo_backend)" for content
    by (simp add: blocks_ok_def demo_backend_def ref_block_def BlockCache_new_def)
  then show ?thesis
    unfolding disk_wf_def segments_ok_def e demo_located
    by (simp add: demo_backend_def demo_tr_def demo_jcfg_def demo_journal_def demo_entry_index_def demo_wal_index_def
        log_path_def active_seg_path_def join_path_def)
qed

lemma demo_serving: "serving demo_api ref_kv demo_service"
  using demo_partitions demo_service_inv demo_disk
  by (auto simp: serving_def service_inv_def cache_decodes_def demo_cached demo_api_def)
    (simp_all add: demo_backend_def cache_new_def cache_get_def)

lemma demo_good: "all_good (serving demo_api ref_kv) demo_nodes"
  by (simp add: all_good_def demo_nodes_def demo_serving)

lemma demo_empty: "stored_entry demo_api ref_kv demo_service k = None" "held (stored_entry demo_api ref_kv) demo_nodes nid k = None"
  using stored_entry_None_iff[OF demo_serving, of demo_backend] by (simp_all add: held_def demo_nodes_def demo_cached demo_located)

lemma demo_handle_simps [simp]:
  "lm_id demo_meta = 3" "lh_next_entry_id demo_handle = 0" "lh_lac demo_handle = 0"
  "lm_state demo_meta = Open" "lh_hedge_delay demo_handle = 0" "lh_metadata demo_handle = demo_meta"
  "lm_fragments demo_meta = [\<lparr> fr_first_entry_id = 0, fr_ensemble = [''n1''], fr_write_quorum = 1, fr_ack_quorum = 1 \<rparr>]"
  by (simp_all add: demo_handle_def LedgerHandle_new_def demo_meta_def new_ledger_def)

text \<open>The first append of the example.\<close>

lemma demo_do_append:
  obtains h sv ack where "do_append (etcd_store ref_etcd) demo_client (na_crc demo_api) 0 [9] demo_handle demo_meta_etcd demo_nodes
      = (Inr 0, h, demo_meta_etcd, [(''n1'', sv)])"
    and "lm_fragments (lh_metadata h) = lm_fragments demo_meta"
    and "add_entry demo_api demo_add_env (demo_entry 0) demo_service = (Inr ack, sv)"
proof -
  obtain sv ack where a: "add_entry demo_api demo_add_env (demo_entry 0) demo_service = (Inr ack, sv)"
    by (rule demo_add[of 0]) (rule that)
  have e: "Entry_new (\<lambda>_. 0) 3 0 0 [9] = demo_entry 0" by (simp add: demo_entry_def)
  have "do_append (etcd_store ref_etcd) demo_client (na_crc demo_api) 0 [9] demo_handle demo_meta_etcd demo_nodes
      = (Inr 0, confirm demo_handle [ack] 0, demo_meta_etcd, [(''n1'', sv)])"
    using a by (simp add: do_append_def append_attempt_def Let_def e on_node_def resolve_def demo_nodes_def journal_client_def)
  then show thesis by (rule that) (use a in \<open>simp_all add: confirm_def Let_def\<close>)
qed


section \<open>Appending\<close>

text \<open>
  An append that returns is replicated. If \<^verbatim>\<open>append\<close> returns, the id is the handle's next id, and
  the fragment that reads of that id will use has at least its ack quorum of nodes, among the first
  \<^verbatim>\<open>write_quorum\<close> of its ensemble, that store exactly the appended entry. This holds through the
  change of ensemble and the second round after a first round that missed the quorum.
\<close>

theorem append_reaches_quorum:
  assumes "storage_laws A kv" and "etcd_laws E contents"
    and "do_append (etcd_store E) (journal_client A env) (na_crc A) now dat h s R = (Inr eid, h', s', R')"
    and "all_good (serving A kv) R"
    and "e = Entry_new (na_crc A) (lm_id (lh_metadata h)) (lh_next_entry_id h) (lh_lac h) dat"
    and "\<forall>nid. held (stored_entry A kv) R nid (ids_of e) = None"
    and "fr_first_entry_id (last (lm_fragments (lh_metadata h))) \<le> lh_next_entry_id h"
    and "lh_next_entry_id h \<noteq> - 1"
  shows "eid = lh_next_entry_id h \<and> (\<exists>f. fragment_of eid (lh_metadata h') = Some f
    \<and> unat (fr_ack_quorum f) \<le> length (filter (\<lambda>nid. held (stored_entry A kv) R' nid (ids_of e) = Some e)
         (take (unat (fr_write_quorum f)) (fr_ensemble f))))"
  using client_laws.do_append_ok[OF deployment_client[OF assms(1,2)] assms(3-8)] by metis

theorem append_reaches_quorum_witness:
  "let r = do_append (etcd_store ref_etcd) demo_client (na_crc demo_api) 0 [9] demo_handle demo_meta_etcd demo_nodes
   in fst r = Inr 0 \<and> held (stored_entry demo_api ref_kv) (snd (snd (snd r))) ''n1'' (3, 0) = Some (demo_entry 0)"
proof -
  obtain h sv ack where d: "do_append (etcd_store ref_etcd) demo_client (na_crc demo_api) 0 [9] demo_handle demo_meta_etcd demo_nodes
      = (Inr 0, h, demo_meta_etcd, [(''n1'', sv)])" and f: "lm_fragments (lh_metadata h) = lm_fragments demo_meta"
    by (rule demo_do_append) (rule that)
  have e: "demo_entry 0 = Entry_new (na_crc demo_api) (lm_id (lh_metadata demo_handle)) (lh_next_entry_id demo_handle) (lh_lac demo_handle) [9]"
    by (simp add: demo_entry_def)
  have fr: "fragment_of 0 (lh_metadata h) = Some \<lparr> fr_first_entry_id = 0, fr_ensemble = [''n1''], fr_write_quorum = 1, fr_ack_quorum = 1 \<rparr>"
    by (simp add: fragment_of_def f)
  from append_reaches_quorum[OF demo_storage re.etcd_laws_axioms d _ e] fr demo_good demo_empty
  show ?thesis unfolding d by (auto simp: ids_of_def split: if_splits)
qed



text \<open>
  C12. Appends make progress. If the handle believes the ledger open and, of the nodes it asks, at
  least the ack quorum accept the entry and none reports a fence, then the append returns the next
  id in its first round, whatever the other nodes answer and whether or not they can be resolved.
\<close>

theorem append_available:
  assumes "lm_state (lh_metadata h) = Open" and "lm_fragments (lh_metadata h) \<noteq> []"
    and "e = Entry_new crc (lm_id (lh_metadata h)) (lh_next_entry_id h) (lh_lac h) dat"
    and "f = last (lm_fragments (lh_metadata h))" and "nids = take (unat (fr_write_quorum f)) (fr_ensemble f)"
    and "distinct nids"
    and "unat (fr_ack_quorum f) \<le> length (filter (\<lambda>nid. \<not> isl (fst (on_node (nc_add N e) nid R))) nids)"
    and "\<forall>nid \<in> set nids. \<forall>l. fst (on_node (nc_add N e) nid R) \<noteq> Inl (LedgerFenced l)"
  shows "fst (do_append M N crc now dat h s R) = Inr (lh_next_entry_id h)"
  by (rule do_append_available[OF assms])

theorem append_available_witness:
  "fst (do_append (etcd_store ref_etcd) demo_client (\<lambda>_. 0) 0 [9]
     (LedgerHandle_new (new_ledger 0 3 \<lparr> lo_ensemble_size = 2, lo_write_quorum = 2, lo_ack_quorum = 1 \<rparr> [''n0'', ''n1'']) 0)
     demo_meta_etcd demo_nodes) = Inr 0"
proof -
  obtain sv ack where a: "add_entry demo_api demo_add_env (demo_entry 0) demo_service = (Inr ack, sv)"
    by (rule demo_add[of 0]) (rule that)
  have e: "Entry_new (\<lambda>_. 0) 3 0 0 [9] = demo_entry 0" by (simp add: demo_entry_def)
  let ?h = "LedgerHandle_new (new_ledger 0 3 \<lparr> lo_ensemble_size = 2, lo_write_quorum = 2, lo_ack_quorum = 1 \<rparr> [''n0'', ''n1'']) 0"
  let ?f = "\<lparr> fr_first_entry_id = 0, fr_ensemble = [''n0'', ''n1''], fr_write_quorum = 2, fr_ack_quorum = 1 \<rparr>"
  have h: "lm_state (lh_metadata ?h) = Open" "lm_fragments (lh_metadata ?h) = [?f]" "lm_id (lh_metadata ?h) = 3"
      "lh_next_entry_id ?h = 0" "lh_lac ?h = 0"
    by (simp_all add: LedgerHandle_new_def new_ledger_def)
  have ans: "fst (on_node (nc_add demo_client (demo_entry 0)) ''n0'' demo_nodes) = Inl (Metadata ''unknown node: n0'')"
      "fst (on_node (nc_add demo_client (demo_entry 0)) ''n1'' demo_nodes) = Inr ack"
    using a by (simp_all add: on_node_def resolve_def demo_nodes_def journal_client_def)
  have "fst (do_append (etcd_store ref_etcd) demo_client (\<lambda>_. 0) 0 [9] ?h demo_meta_etcd demo_nodes) = Inr (lh_next_entry_id ?h)"
    by (rule append_available[where e = "demo_entry 0" and f = ?f and nids = "[''n0'', ''n1'']"]) (simp_all only: h, simp_all add: e ans)
  then show ?thesis by (simp only: h)
qed

end
