(* ===== verification/RecoverySpec.thy ===== *)
theory RecoverySpec
  imports LedgerSpec
begin

text \<open>
  The properties of recovery over the composition of \<^verbatim>\<open>LedgerSpec.thy\<close>: sealing, re-replication, the
  watcher, the auditor and the scrubber.
\<close>


section \<open>The reference etcd on ledgers\<close>

lemma small_lm_simps [simp]:
  "small_lm (touch now m) = small_lm m" "small_lm (m\<lparr> lm_state := st \<rparr>) = small_lm m"
  "small_lm (sealed_with lacs m) = small_lm m"
  by (simp_all add: small_lm_def touch_def sealed_with_def Let_def)

lemma demo_meta_small [simp]: "small_lm demo_meta"
  by (simp add: demo_meta_def new_ledger_def small_lm_def)

lemma ref_transition:
  assumes "map_of (re_kv s) (etcd_ledger_key l) = Some (write_lm m, r)" and "small_lm m" and "lm_state m = a"
  shows "md_transition_state (etcd_store ref_etcd) now l a b s = (Inr (touch now (m\<lparr> lm_state := b \<rparr>)),
    ref_etcd_put s (etcd_ledger_key l) (write_lm (touch now (m\<lparr> lm_state := b \<rparr>))))"
  using assms by (simp add: etcd_store_def etcd_transition_state_def etcd_get_ledger_def replace_ledger_def json_err_def)

lemma ref_put:
  assumes "map_of (re_kv s) (etcd_ledger_key (lm_id m)) = Some (write_lm m0, r)" and "small_lm m0" and "small_lm m"
    and "lm_version m0 = lm_version m"
  shows "md_put_ledger (etcd_store ref_etcd) now m s = (Inr (touch now m),
    ref_etcd_put s (etcd_ledger_key (lm_id m)) (write_lm (touch now m)))"
  using assms by (simp add: etcd_store_def etcd_put_ledger_def etcd_get_ledger_def replace_ledger_def json_err_def)

lemma sealed_with_simps [simp]:
  "lm_id (sealed_with lacs m) = lm_id m" "lm_version (sealed_with lacs m) = lm_version m"
  "lm_fragments (sealed_with lacs m) = lm_fragments m"
  "lm_last_add_confirmed (sealed_with lacs m) = (if lacs = [] then 0 else Max (set lacs))"
  by (simp_all add: sealed_with_def Let_def)

lemma touch_simps [simp]:
  "lm_id (touch now m) = lm_id m" "lm_version (touch now m) = lm_version m + 1" "lm_fragments (touch now m) = lm_fragments m"
  "lm_state (touch now m) = lm_state m" "lm_last_add_confirmed (touch now m) = lm_last_add_confirmed m"
  "lm_last_entry_id (touch now m) = lm_last_entry_id m"
  by (simp_all add: touch_def)

text \<open>Sealing the ledger of the example after its node answered the fence.\<close>

definition demo_sealed :: LedgerMetadata where
  "demo_sealed = touch 2 (sealed_with [0] (touch 1 (demo_meta\<lparr> lm_state := InRecovery \<rparr>)))"

lemma demo_fence_and_seal:
  assumes "fence_ledger demo_api 3 sv = (Inr 0, sv')"
  shows "\<exists>s. fence_and_seal (etcd_store ref_etcd) demo_client 1 2 3 demo_meta_etcd [(''n1'', sv)]
    = (Inr demo_sealed, s, [(''n1'', sv')])"
proof -
  let ?m = "touch 1 (demo_meta\<lparr> lm_state := InRecovery \<rparr>)"
  let ?s = "ref_etcd_put demo_meta_etcd (etcd_ledger_key 3) (write_lm ?m)"
  have t: "md_transition_state (etcd_store ref_etcd) 1 3 Open InRecovery demo_meta_etcd = (Inr ?m, ?s)"
    by (rule ref_transition[where r = 1]) (simp_all add: demo_meta_etcd_def)
  have f: "fence_all demo_client 3 [''n1''] [(''n1'', sv)] = (Inr [0], [(''n1'', sv')])"
    using assms by (simp add: on_node_def resolve_def journal_client_def)
  have p: "md_put_ledger (etcd_store ref_etcd) 2 (sealed_with [0] ?m) ?s = (Inr demo_sealed,
      ref_etcd_put ?s (etcd_ledger_key 3) (write_lm demo_sealed))"
    using ref_put[of ?s "sealed_with [0] ?m" ?m 2 2] by (simp add: demo_sealed_def demo_meta_etcd_def ref_etcd_put_def)
  show ?thesis by (simp add: fence_and_seal_def t f p del: fence_all.simps)
qed


section \<open>Sealing\<close>



text \<open>
  C36. The entry that recovery confirms is hidden. The last confirmed id of a ledger sealed by
  \<^verbatim>\<open>fence_and_seal\<close> is the highest id that a node reported, and its last entry id is one less: a
  handle opened on the sealed metadata answers \<^verbatim>\<open>EntryNotFound\<close> for the confirmed entry, whatever the
  nodes store.
\<close>

theorem recovery_hides_last_entry:
  assumes "storage_laws A kv" and "etcd_laws E contents" and "all_good (serving A kv) R"
    and "fence_and_seal (etcd_store E) (journal_client A env) now now' lid s R = (Inr m, s', R')"
  shows "fst (handle_read N completion (LedgerHandle_new m d) (lm_last_add_confirmed m) R'')
    = Inl (EntryNotFound (lm_id m) (lm_last_add_confirmed m))"
proof -
  have l: "lm_last_entry_id m = u64_checked_sub (lm_last_add_confirmed m) 1"
    using client_laws.fence_and_seal_ok[OF deployment_client[OF assms(1,2)] assms(4,3)] by blast
  have "x - 1 < x" if "\<not> x < 1" for x :: u64
  proof -
    have "x \<noteq> 0" using that by auto
    then show ?thesis by (simp add: word_less_nat_alt unat_minus_one unat_gt_0)
  qed
  then show ?thesis by (auto simp: handle_read_def Let_def LedgerHandle_new_def l u64_checked_sub_def)
qed

text \<open>In the example the hidden entry is the one that was just acknowledged.\<close>

theorem recovery_hides_last_entry_witness:
  "let r = do_append (etcd_store ref_etcd) demo_client (na_crc demo_api) 0 [9] demo_handle demo_meta_etcd demo_nodes;
       q = fence_and_seal (etcd_store ref_etcd) demo_client 1 2 3 demo_meta_etcd (snd (snd (snd r)))
   in fst r = Inr 0 \<and> fst q = Inr demo_sealed
     \<and> fst (handle_read demo_client id (LedgerHandle_new demo_sealed 0) 0 (snd (snd q))) = Inl (EntryNotFound 3 0)"
proof -
  obtain h sv ack where d: "do_append (etcd_store ref_etcd) demo_client (na_crc demo_api) 0 [9] demo_handle demo_meta_etcd demo_nodes
      = (Inr 0, h, demo_meta_etcd, [(''n1'', sv)])"
    and a: "add_entry demo_api demo_add_env (demo_entry 0) demo_service = (Inr ack, sv)"
    by (rule demo_do_append) (rule that)
  obtain sv' where "fence_ledger demo_api 3 sv = (Inr 0, sv')"
  proof (rule demo_add[of 0])
    fix ack' sv2 b assume x: "add_entry demo_api demo_add_env (demo_entry 0) demo_service = (Inr ack', sv2)"
      "sv_backend sv2 = Lsmc b" "nl_ks b = demo_ks" "nl_entry_index b = demo_entry_index" "nl_wal_index b = demo_wal_index"
      "sv_hi_entry sv2 3 = Some 0"
    obtain sv' where "fence_ledger demo_api 3 sv2 = (Inr (or_zero (sv_hi_entry sv2 3)), sv')"
      by (rule demo_fence[OF x(2,4,5)]) (use x(3) that in auto)
    then show thesis using that x(1,6) a by (simp add: or_zero_def)
  qed
  from demo_fence_and_seal[OF this] obtain s R
    where q: "fence_and_seal (etcd_store ref_etcd) demo_client 1 2 3 demo_meta_etcd [(''n1'', sv)] = (Inr demo_sealed, s, R)" by blast
  have "all_good (serving demo_api ref_kv) [(''n1'', sv)]"
    using demo.client_add[OF demo_serving demo_entry_wf, of 0] a by (simp add: all_good_def journal_client_def)
  with recovery_hides_last_entry[OF demo_storage re.etcd_laws_axioms _ q, of demo_client id 0 R]
  show ?thesis unfolding d by (simp add: q demo_sealed_def)
qed


section \<open>Re-replication\<close>

text \<open>
  C11. What a repair does. When \<^verbatim>\<open>restore_replication\<close> returns, a node outside the fragment holds every
  entry from the requested id up to, but not including, the end of the fragment as a surviving
  member held it (unless it held one under the same id before), it holds nothing else that it did
  not hold, and in the stored metadata exactly one fragment differs: its ensemble lost the failed
  node and names the new one at its end. The end of the last fragment is the last confirmed id, so
  the entry with that id is not among the copied ones.
\<close>

theorem restore_replication_copies:
  assumes "storage_laws A kv" and "etcd_laws E contents" and "all_good (serving A kv) R"
    and "restore_replication (etcd_store E) (journal_client A env) now m failed i s R = (Inr u, s', R')"
  shows "\<exists>f source target. fragment_of i m = Some f
    \<and> source \<in> set (fr_ensemble f) - {failed} \<and> target \<notin> insert failed (set (fr_ensemble f))
    \<and> (\<forall>j. i \<le> j \<and> j < range_end m f \<longrightarrow> (\<exists>e. held (stored_entry A kv) R source (lm_id m, j) = Some e
         \<and> (held (stored_entry A kv) R target (lm_id m, j) = None \<longrightarrow>
            held (stored_entry A kv) R' target (lm_id m, j) = Some e)))
    \<and> (\<forall>k. k \<notin> Pair (lm_id m) ` {i..<range_end m f} \<longrightarrow>
         held (stored_entry A kv) R' target k = held (stored_entry A kv) R target k)
    \<and> (\<exists>pre g post. lm_fragments m = pre @ g # post \<and> fr_first_entry_id g = fr_first_entry_id f
         \<and> (\<forall>h\<in>set pre. fr_first_entry_id h \<noteq> fr_first_entry_id f)
         \<and> stored_ledger E contents s' (lm_id m) = Some (touch now (m\<lparr> lm_fragments :=
              pre @ g\<lparr> fr_ensemble := filter (\<lambda>n. n \<noteq> failed) (fr_ensemble g) @ [target] \<rparr> # post \<rparr>)))"
proof -
  obtain f source target where x: "fragment_of i m = Some f" "source \<in> set (fr_ensemble f)" "source \<noteq> failed"
    "target \<notin> set (fr_ensemble f)" "target \<noteq> failed"
    "\<forall>j. i \<le> j \<and> j < range_end m f \<longrightarrow> (\<exists>e. held (stored_entry A kv) R source (lm_id m, j) = Some e
      \<and> (held (stored_entry A kv) R target (lm_id m, j) = None \<longrightarrow> held (stored_entry A kv) R' target (lm_id m, j) = Some e))"
    "\<forall>k. k \<notin> Pair (lm_id m) ` {i..<range_end m f} \<longrightarrow>
      held (stored_entry A kv) R' target k = held (stored_entry A kv) R target k"
    "stored_ledger E contents s' (lm_id m) = Some (touch now (m\<lparr> lm_fragments :=
      swap_member (fr_first_entry_id f) failed target (lm_fragments m) \<rparr>))"
    by (rule client_laws.restore_replication_ok[OF deployment_client[OF assms(1,2)] assms(4,3)]) (rule that)
  obtain pre g post where y: "lm_fragments m = pre @ g # post" "fr_first_entry_id g = fr_first_entry_id f"
    "\<forall>h\<in>set pre. fr_first_entry_id h \<noteq> fr_first_entry_id f"
    "swap_member (fr_first_entry_id f) failed target (lm_fragments m)
      = pre @ g\<lparr> fr_ensemble := filter (\<lambda>n. n \<noteq> failed) (fr_ensemble g) @ [target] \<rparr> # post"
    by (rule swap_member_split[OF fragment_of_in[OF x(1)]]) (rule that)
  note stored = x(8)[unfolded y(4)]
  show ?thesis
  proof (intro exI conjI)
    show "source \<in> set (fr_ensemble f) - {failed}" "target \<notin> insert failed (set (fr_ensemble f))" using x(2-5) by auto
  qed (rule x(1) x(6) x(7) y(1-3) stored)+
qed

definition demo_wide :: LedgerMetadata where
  "demo_wide = (new_ledger 0 3 \<lparr> lo_ensemble_size = 2, lo_write_quorum = 2, lo_ack_quorum = 1 \<rparr> [''n0'', ''n1''])
     \<lparr> lm_state := Closed, lm_last_add_confirmed := 1, lm_last_entry_id := Some 0 \<rparr>"

definition demo_n2 :: NodeInfo where
  "demo_n2 = \<lparr> ni_node_id = ''n2'', ni_address = ''a'', ni_status = ReadWrite, ni_last_heartbeat_ms = 0 \<rparr>"

definition demo_wide_etcd :: ref_etcd_state where
  "demo_wide_etcd = \<lparr> re_kv = [(etcd_ledger_key 3, write_lm demo_wide, 1), (etcd_node_key ''n2'', write_ni demo_n2, 2)],
     re_revision = 2 \<rparr>"

lemma demo_wide_simps [simp]:
  "lm_id demo_wide = 3" "lm_version demo_wide = 1" "small_lm demo_wide" "lm_last_add_confirmed demo_wide = 1"
  "lm_fragments demo_wide = [\<lparr> fr_first_entry_id = 0, fr_ensemble = [''n0'', ''n1''], fr_write_quorum = 2, fr_ack_quorum = 1 \<rparr>]"
  by (simp_all add: demo_wide_def new_ledger_def small_lm_def)

lemma demo_wide_nodes: "md_list_nodes (etcd_store ref_etcd) demo_wide_etcd = Inr [demo_n2]"
proof -
  have "et_get_prefix ref_etcd demo_wide_etcd NODE_PREFIX = Inr [write_ni demo_n2]"
    by (simp add: ref_etcd_def demo_wide_etcd_def etcd_ledger_key_def etcd_node_key_def LEDGER_PREFIX_def NODE_PREFIX_def)
  then show ?thesis by (simp add: etcd_store_def etcd_list_nodes_def json_err_def demo_n2_def)
qed

text \<open>A node that holds the entry of the example.\<close>

definition demo_holder :: "(ref_ks, ref_blocks, ref_s3, FileJournal, MemoryLedgerIndex) JournalService" where
  "demo_holder = snd (add_entry demo_api demo_add_env (demo_entry 0) demo_service)"

lemma demo_holder_add:
  obtains ack where "add_entry demo_api demo_add_env (demo_entry 0) demo_service = (Inr ack, demo_holder)"
  by (rule demo_add[of 0]) (simp add: demo_holder_def that)

lemma demo_holder_ok: "serving demo_api ref_kv demo_holder" "stored_entry demo_api ref_kv demo_holder (3, 0) = Some (demo_entry 0)"
proof -
  obtain ack where "nc_add demo_client (demo_entry 0) demo_service = (Inr ack, demo_holder)"
    by (rule demo_holder_add) (simp add: journal_client_def that)
  from demo.client_add[OF demo_serving demo_entry_wf this]
  show "serving demo_api ref_kv demo_holder" "stored_entry demo_api ref_kv demo_holder (3, 0) = Some (demo_entry 0)"
    by (simp_all add: demo_empty ids_of_def)
qed

definition demo_pair :: "(ref_ks, ref_blocks, ref_s3, FileJournal, MemoryLedgerIndex) JournalService resolver" where
  "demo_pair = [(''n1'', demo_holder), (''n2'', demo_service)]"

lemma demo_pair_good: "all_good (serving demo_api ref_kv) demo_pair"
  by (auto simp: all_good_def demo_pair_def demo_holder_ok demo_serving)

lemma demo_restore:
  "fst (restore_replication (etcd_store ref_etcd) demo_client 7 demo_wide ''n0'' 0 demo_wide_etcd demo_pair) = Inr ()"
proof -
  obtain r sv where r: "nc_read demo_client 3 0 demo_holder = (r, sv)" by force
  from demo.client_read[OF demo_holder_ok(1) r] demo_holder_ok(2) demo.answers obtain rr where rr: "r = Inr rr" "rr_entry rr = demo_entry 0"
    by (cases r) auto
  obtain ack where a: "nc_add demo_client (demo_entry 0) demo_service = (Inr ack, demo_holder)"
    by (rule demo_holder_add) (simp add: journal_client_def that)
  have c: "copy_entries demo_client ''n1'' ''n2'' 3 [0] demo_pair = (Inr (), [(''n1'', sv), (''n2'', demo_holder)])"
    using r rr a by (simp add: on_node_def resolve_def demo_pair_def)
  let ?m = "demo_wide\<lparr> lm_fragments := swap_member 0 ''n0'' ''n2'' (lm_fragments demo_wide) \<rparr>"
  have p: "\<exists>s. md_put_ledger (etcd_store ref_etcd) 7 ?m demo_wide_etcd = (Inr (touch 7 ?m), s)"
    using ref_put[of demo_wide_etcd ?m demo_wide 1 7] by (simp add: demo_wide_etcd_def small_lm_def del: small_lm_simps)
  have u: "u64_range 0 1 = [0]" by (simp add: u64_range_def)
  have t: "pick_target ''n0'' [''n0'', ''n1''] [demo_n2] = Some demo_n2" "ni_node_id demo_n2 = ''n2''"
    by (simp_all add: pick_target_def demo_n2_def)
  have k: "\<not> isl (resolve demo_pair ''n1'')" "\<not> isl (resolve demo_pair ''n2'')" by (simp_all add: resolve_def demo_pair_def)
  show ?thesis
    using k p by (auto simp: restore_replication_def fragment_of_def demo_wide_nodes t range_end_def u c isl_def
        simp del: copy_entries.simps swap_member.simps split: sum.splits)
qed

theorem restore_replication_copies_witness:
  "let r = restore_replication (etcd_store ref_etcd) demo_client 7 demo_wide ''n0'' 0 demo_wide_etcd demo_pair
   in fst r = Inr () \<and> (\<exists>target. target \<notin> {''n0'', ''n1''}
     \<and> held (stored_entry demo_api ref_kv) (snd (snd r)) target (3, 0) = Some (demo_entry 0)
     \<and> held (stored_entry demo_api ref_kv) (snd (snd r)) target (3, 1) = None)"
proof -
  obtain s R where r: "restore_replication (etcd_store ref_etcd) demo_client 7 demo_wide ''n0'' 0 demo_wide_etcd demo_pair = (Inr (), s, R)"
    using demo_restore by (metis prod.collapse)
  let ?f = "\<lparr> fr_first_entry_id = 0, fr_ensemble = [''n0'', ''n1''], fr_write_quorum = 2, fr_ack_quorum = 1 \<rparr>"
  have f: "fragment_of 0 demo_wide = Some ?f" "range_end demo_wide ?f = 1" by (simp_all add: fragment_of_def range_end_def)
  obtain f source target where fr: "fragment_of 0 demo_wide = Some f"
    and t: "source \<in> set (fr_ensemble f) - {''n0''}" "target \<notin> insert ''n0'' (set (fr_ensemble f))"
    and c: "\<forall>j. 0 \<le> j \<and> j < range_end demo_wide f \<longrightarrow> (\<exists>e. held (stored_entry demo_api ref_kv) demo_pair source (lm_id demo_wide, j) = Some e
      \<and> (held (stored_entry demo_api ref_kv) demo_pair target (lm_id demo_wide, j) = None \<longrightarrow>
         held (stored_entry demo_api ref_kv) R target (lm_id demo_wide, j) = Some e))"
    and k: "\<forall>k. k \<notin> Pair (lm_id demo_wide) ` {0..<range_end demo_wide f} \<longrightarrow>
      held (stored_entry demo_api ref_kv) R target k = held (stored_entry demo_api ref_kv) demo_pair target k"
    using restore_replication_copies[OF demo_storage re.etcd_laws_axioms demo_pair_good r]
    by (elim exE conjE) (rule that)
  from fr f(1) have ff: "f = ?f" by simp
  note t = t[unfolded ff, simplified] and c = c[unfolded ff f(2) demo_wide_simps(1)] and k = k[unfolded ff f(2) demo_wide_simps(1)]
  have n: "held (stored_entry demo_api ref_kv) demo_pair target q = None" for q
    using t(2) by (auto simp: held_def demo_pair_def demo_empty)
  have h: "held (stored_entry demo_api ref_kv) demo_pair source (3, 0) = Some (demo_entry 0)"
    using t(1) by (auto simp: held_def demo_pair_def demo_holder_ok)
  from c[rule_format, of 0] n h have "held (stored_entry demo_api ref_kv) R target (3, 0) = Some (demo_entry 0)" by simp
  moreover have "(3, 1) \<notin> Pair 3 ` {0..<1 :: u64}" by auto
  with k n have "held (stored_entry demo_api ref_kv) R target (3, 1) = None" by metis
  ultimately show ?thesis unfolding r Let_def using t(2) by auto
qed


section \<open>The watcher, the auditor and the scrubber\<close>

text \<open>
  C37. The watcher cannot repair a ledger twice. If the failed node is a member of two fragments of
  one ledger, \<^verbatim>\<open>handle_node_failure\<close> returns an error: both repairs are made from the metadata read
  at the start, and the second one puts the version that the first one has replaced.
\<close>

theorem watcher_conflict:
  assumes "etcd_laws E contents" and "etcd_list_ledgers E s = Inr ms" and "m \<in> set ms"
    and "2 \<le> length (filter (\<lambda>f. failed \<in> set (fr_ensemble f)) (lm_fragments m))"
  shows "isl (fst (handle_node_failure (etcd_store E) N clock failed s R))"
proof -
  have "metadata_laws (etcd_store E) (stored_ledger E contents)"
    using assms(1) by (intro etcd_md.store_contract) (simp add: etcd_md_def)
  from metadata_laws.handle_node_failure_conflict[OF this _ assms(3,4)] assms(2) show ?thesis
    by (simp add: etcd_store_def)
qed

definition demo_twice :: LedgerMetadata where
  "demo_twice = demo_wide\<lparr> lm_fragments := lm_fragments demo_wide @
     [\<lparr> fr_first_entry_id = 1, fr_ensemble = [''n0'', ''n1''], fr_write_quorum = 2, fr_ack_quorum = 1 \<rparr>] \<rparr>"

theorem watcher_conflict_witness:
  "isl (fst (handle_node_failure (etcd_store ref_etcd) demo_client (\<lambda>_. 7) ''n0''
     \<lparr> re_kv = [(etcd_ledger_key 3, write_lm demo_twice, 1), (etcd_node_key ''n2'', write_ni demo_n2, 2)], re_revision = 2 \<rparr>
     demo_pair))"
proof -
  let ?s = "\<lparr> re_kv = [(etcd_ledger_key 3, write_lm demo_twice, 1), (etcd_node_key ''n2'', write_ni demo_n2, 2)], re_revision = 2 \<rparr>"
  have sm: "small_lm demo_twice" by (simp add: demo_twice_def small_lm_def)
  have "et_get_prefix ref_etcd ?s LEDGER_PREFIX = Inr [write_lm demo_twice]"
    by (simp add: ref_etcd_def etcd_ledger_key_def etcd_node_key_def LEDGER_PREFIX_def NODE_PREFIX_def)
  with sm have "etcd_list_ledgers ref_etcd ?s = Inr [demo_twice]" by (simp add: etcd_list_ledgers_def json_err_def)
  then show ?thesis by (rule watcher_conflict[OF re.etcd_laws_axioms, where m = demo_twice]) (simp_all add: demo_twice_def)
qed

lemma take_one_filter: "take 1 (filter P xs) = (case find P xs of None \<Rightarrow> [] | Some x \<Rightarrow> [x])"
  by (induction xs) auto

lemma tasks_of_ledger:
  "List.map_filter (\<lambda>(m, f). task_for 0 failed nodes m f) (map (Pair m) fs)
   = concat (map (\<lambda>f. map (\<lambda>n. \<lparr> rt_ledger_id = lm_id m, rt_failed_node_id = failed, rt_target_node_id = ni_node_id n,
           rt_from_entry_id = fr_first_entry_id f, rt_created_at_ms = 0 \<rparr>)
         (take 1 (filter (\<lambda>n. ni_node_id n \<noteq> failed \<and> ni_node_id n \<notin> set (fr_ensemble f)) nodes)))
       (filter (\<lambda>f. failed \<in> set (fr_ensemble f)) fs))"
  by (induction fs)
    (auto simp: List.map_filter_simps task_for_def pick_target_def take_one_filter[simplified] split: option.splits)

lemma map_filter_append: "List.map_filter g (xs @ ys) = List.map_filter g xs @ List.map_filter g ys"
  by (simp add: List.map_filter_def)

text \<open>
  The auditor asks for every repair that is possible. For a channel that stays open, the tasks
  sent for a lost node are, in order, one per fragment of a listed ledger that has the node as a
  member and for which some other listed node is not a member; the number of tasks is returned.
\<close>

theorem auditor_tasks:
  assumes "md_list_ledgers M s = Inr ms" and "md_list_nodes M s = Inr nodes"
  shows "\<exists>ts. enqueue_for_node M (\<lambda>q t. Some (q @ [t])) clock failed s q = (Inr (length ts), q @ ts)
    \<and> map (\<lambda>t. t\<lparr> rt_created_at_ms := 0 \<rparr>) ts
      = [\<lparr> rt_ledger_id = lm_id m, rt_failed_node_id = failed, rt_target_node_id = ni_node_id n,
           rt_from_entry_id = fr_first_entry_id f, rt_created_at_ms = 0 \<rparr>.
         m \<leftarrow> ms, f \<leftarrow> filter (\<lambda>f. failed \<in> set (fr_ensemble f)) (lm_fragments m),
         n \<leftarrow> take 1 (filter (\<lambda>n. ni_node_id n \<noteq> failed \<and> ni_node_id n \<notin> set (fr_ensemble f)) nodes)]"
proof -
  obtain r q' where e: "enqueue_fragments (\<lambda>q t. Some (q @ [t])) clock failed nodes (fragments_of ms) 0 q = (r, q')" by force
  have "List.map_filter (\<lambda>(m, f). task_for 0 failed nodes m f) (fragments_of ms)
      = [\<lparr> rt_ledger_id = lm_id m, rt_failed_node_id = failed, rt_target_node_id = ni_node_id n,
           rt_from_entry_id = fr_first_entry_id f, rt_created_at_ms = 0 \<rparr>.
         m \<leftarrow> ms, f \<leftarrow> filter (\<lambda>f. failed \<in> set (fr_ensemble f)) (lm_fragments m),
         n \<leftarrow> take 1 (filter (\<lambda>n. ni_node_id n \<noteq> failed \<and> ni_node_id n \<notin> set (fr_ensemble f)) nodes)]"
    by (induction ms) (simp_all add: List.map_filter_simps map_filter_append tasks_of_ledger)
  with enqueue_fragments_open[OF e] e assms show ?thesis by (auto simp: enqueue_for_node_def)
qed

theorem auditor_tasks_witness:
  "snd (enqueue_for_node mem_store (\<lambda>q t. Some (q @ [t])) (\<lambda>_. 7) ''n0''
     \<lparr> im_next_id = 3, im_ledgers = [(3, demo_wide)], im_nodes = [(''n2'', demo_n2)] \<rparr> []) \<noteq> []"
proof -
  let ?s = "\<lparr> im_next_id = 3, im_ledgers = [(3, demo_wide)], im_nodes = [(''n2'', demo_n2)] \<rparr>"
  have "md_list_ledgers mem_store ?s = Inr [demo_wide]" "md_list_nodes mem_store ?s = Inr [demo_n2]"
    by (simp_all add: mem_store_def mem_list_ledgers_def mem_list_nodes_def)
  from auditor_tasks[OF this, of "\<lambda>_. 7" "''n0''" "[]"] show ?thesis by (auto simp: demo_n2_def)
qed





end
