(* ===== verification/Transport.thy ===== *)
theory Transport
  imports JournalClient
begin

text \<open>
  The gRPC transport: the server of \<^verbatim>\<open>folio-node/src/transport/server.rs\<close>, the client of
  \<^verbatim>\<open>folio-ledger/src/transport/client.rs\<close>, the messages of \<^verbatim>\<open>journal.proto\<close> and the texts of
  \<^verbatim>\<open>error.rs\<close>. A request may be lost before or after the server handles it: \<open>delivery\<close> is that
  choice, an input of every call, and the status that the caller sees then is arbitrary. The
  protobuf codec and the text of a status code belong to other crates; a message arrives as it was
  sent, or not at all.
\<close>


section \<open>Messages\<close>

record ProtoEntry =
  pe_ledger_id :: u64
  pe_entry_id :: u64
  pe_lac :: u64
  pe_digest :: u32
  pe_data :: bytes
  pe_master_key :: bytes
  pe_hmac :: bytes

record AddEntryRequest =
  aq_entry :: "ProtoEntry option"

record AddEntryResponse =
  ar_ledger_id :: u64
  ar_entry_id :: u64
  ar_local_lac :: u64
  ar_node_id :: string

record ReadEntryRequest =
  rq_ledger_id :: u64
  rq_entry_id :: u64

record ReadEntryResponse =
  rs_entry :: "ProtoEntry option"
  rs_node_id :: string
  rs_appended_at_ms :: u64

record FenceLedgerRequest =
  fq_ledger_id :: u64

record FenceLedgerResponse =
  fs_lac :: u64

record GetLacRequest =
  gq_ledger_id :: u64
  gq_wait_timeout_ms :: u64

record GetLacResponse =
  gs_lac :: u64

datatype NodeState = NsUnspecified | NsReadWrite | NsReadOnly | NsRecovering | NsUnavailable

record GetNodeStatusResponse =
  ss_node_id :: string
  ss_state :: NodeState
  ss_last_heartbeat_ms :: u64

text \<open>The status codes of gRPC.\<close>

datatype Code =
    Code_Ok | Code_Cancelled | Code_Unknown | Code_InvalidArgument | Code_DeadlineExceeded | Code_NotFound
  | Code_AlreadyExists | Code_PermissionDenied | Code_ResourceExhausted | Code_FailedPrecondition | Code_Aborted
  | Code_OutOfRange | Code_Unimplemented | Code_Internal | Code_Unavailable | Code_DataLoss | Code_Unauthenticated

record Status =
  st_code :: Code
  st_message :: string


section \<open>The server\<close>

text \<open>\<^verbatim>\<open>{:?}\<close> of a ledger state, and \<^verbatim>\<open>to_string\<close> of an error.\<close>

fun state_debug :: "LedgerState \<Rightarrow> string" where
  "state_debug Open = ''Open''"
| "state_debug InRecovery = ''InRecovery''"
| "state_debug Closed = ''Closed''"
| "state_debug Deleted = ''Deleted''"

fun error_text :: "FolioError \<Rightarrow> string" where
  "error_text (LedgerNotFound l) = ''ledger not found: '' @ show_u64 l"
| "error_text (EntryNotFound l i) = ''entry not found: ledger='' @ show_u64 l @ '' entry='' @ show_u64 i"
| "error_text (LedgerFenced l) = ''ledger is fenced: '' @ show_u64 l"
| "error_text (QuorumNotMet r a) = ''quorum not met: required='' @ show_nat r @ '' received='' @ show_nat a"
| "error_text (StateConflict a b) = ''ledger state conflict: expected '' @ state_debug a @ '', found '' @ state_debug b"
| "error_text CasConflict = ''compare-and-swap conflict''"
| "error_text (InvalidFragment l) = ''invalid fragment for ledger '' @ show_u64 l"
| "error_text (InvalidEntryId x i) = ''invalid entry id '' @ show_u64 i @ ''; expected '' @ show_u64 x"
| "error_text LacTimeout = ''timed out waiting for LAC''"
| "error_text (Io s) = ''io error: '' @ s"
| "error_text (Serialization s) = ''serialization error: '' @ s"
| "error_text (Metadata s) = ''metadata error: '' @ s"
| "error_text (Storage s) = ''storage error: '' @ s"

definition to_status :: "FolioError \<Rightarrow> Status" where
  "to_status e =
     (case e of
        LedgerFenced l \<Rightarrow> \<lparr> st_code = Code_FailedPrecondition, st_message = ''ledger '' @ show_u64 l @ '' is fenced'' \<rparr>
      | LedgerNotFound l \<Rightarrow> \<lparr> st_code = Code_NotFound, st_message = ''ledger '' @ show_u64 l @ '' not found'' \<rparr>
      | EntryNotFound l i \<Rightarrow>
          \<lparr> st_code = Code_NotFound, st_message = ''entry '' @ show_u64 i @ '' not found in ledger '' @ show_u64 l \<rparr>
      | QuorumNotMet r a \<Rightarrow>
          \<lparr> st_code = Code_Unavailable,
            st_message = ''quorum not met: required='' @ show_nat r @ '' received='' @ show_nat a \<rparr>
      | InvalidEntryId x i \<Rightarrow>
          \<lparr> st_code = Code_InvalidArgument, st_message = ''invalid entry_id '' @ show_u64 i @ '': expected '' @ show_u64 x \<rparr>
      | CasConflict \<Rightarrow> \<lparr> st_code = Code_Aborted, st_message = ''compare-and-swap conflict'' \<rparr>
      | LacTimeout \<Rightarrow> \<lparr> st_code = Code_DeadlineExceeded, st_message = ''LAC wait timed out'' \<rparr>
      | StateConflict a b \<Rightarrow>
          \<lparr> st_code = Code_FailedPrecondition,
            st_message = ''state conflict: expected '' @ state_debug a @ '' found '' @ state_debug b \<rparr>
      | other \<Rightarrow> \<lparr> st_code = Code_Internal, st_message = error_text other \<rparr>)"

definition bytes32 :: "bytes \<Rightarrow> bytes option" where
  "bytes32 b = (if length b = 32 then Some b else None)"

definition proto_to_entry :: "ProtoEntry \<Rightarrow> Entry" where
  "proto_to_entry p =
     \<lparr> e_ledger_id = pe_ledger_id p, e_entry_id = pe_entry_id p, e_lac = pe_lac p, e_digest = pe_digest p,
       e_data = pe_data p, e_master_key = bytes32 (pe_master_key p), e_hmac = bytes32 (pe_hmac p) \<rparr>"

definition or_default :: "bytes option \<Rightarrow> bytes" where
  "or_default b = (case b of None \<Rightarrow> [] | Some x \<Rightarrow> x)"

definition entry_to_proto :: "Entry \<Rightarrow> ProtoEntry" where
  "entry_to_proto e =
     \<lparr> pe_ledger_id = e_ledger_id e, pe_entry_id = e_entry_id e, pe_lac = e_lac e, pe_digest = e_digest e,
       pe_data = e_data e, pe_master_key = or_default (e_master_key e), pe_hmac = or_default (e_hmac e) \<rparr>"

definition ack_to_resp :: "AppendAck \<Rightarrow> AddEntryResponse" where
  "ack_to_resp a =
     \<lparr> ar_ledger_id = ack_ledger_id a, ar_entry_id = ack_entry_id a, ar_local_lac = ack_local_lac a,
       ar_node_id = ack_node_id a \<rparr>"

definition read_to_resp :: "ReadResult \<Rightarrow> ReadEntryResponse" where
  "read_to_resp r =
     \<lparr> rs_entry = Some (entry_to_proto (rr_entry r)), rs_node_id = rr_node_id r, rs_appended_at_ms = rr_appended_at_ms r \<rparr>"

fun status_to_proto :: "NodeStatus \<Rightarrow> NodeState" where
  "status_to_proto ReadWrite = NsReadWrite"
| "status_to_proto ReadOnly = NsReadOnly"
| "status_to_proto Recovering = NsRecovering"
| "status_to_proto Unavailable = NsUnavailable"

text \<open>The handlers, around the operations \<open>N\<close> of the wrapped service.\<close>

definition grpc_add_entry :: "'n node_client \<Rightarrow> AddEntryRequest \<Rightarrow> 'n \<Rightarrow> (Status + AddEntryResponse) \<times> 'n" where
  "grpc_add_entry N req n =
     (case aq_entry req of
        None \<Rightarrow> (Inl \<lparr> st_code = Code_InvalidArgument, st_message = ''missing entry'' \<rparr>, n)
      | Some p \<Rightarrow> apfst (map_sum to_status ack_to_resp) (nc_add N (proto_to_entry p) n))"

definition grpc_read_entry :: "'n node_client \<Rightarrow> ReadEntryRequest \<Rightarrow> 'n \<Rightarrow> (Status + ReadEntryResponse) \<times> 'n" where
  "grpc_read_entry N req n =
     apfst (map_sum to_status read_to_resp) (nc_read N (rq_ledger_id req) (rq_entry_id req) n)"

definition grpc_fence_ledger :: "'n node_client \<Rightarrow> FenceLedgerRequest \<Rightarrow> 'n \<Rightarrow> (Status + FenceLedgerResponse) \<times> 'n" where
  "grpc_fence_ledger N req n =
     apfst (map_sum to_status (\<lambda>lac. \<lparr> fs_lac = lac \<rparr>)) (nc_fence N (fq_ledger_id req) n)"

text \<open>A duration counts nanoseconds; \<open>later\<close> is how the wait ended, as in \<open>get_lac\<close>.\<close>

definition from_millis :: "u64 \<Rightarrow> nat" where
  "from_millis ms = unat ms * 1000000"

definition grpc_get_lac ::
  "GetLacRequest \<Rightarrow> ('k, 'c, 's, 'j, 'i) JournalService option \<Rightarrow> ('k, 'c, 's, 'j, 'i) JournalService
   \<Rightarrow> Status + GetLacResponse" where
  "grpc_get_lac req later sv =
     map_sum to_status (\<lambda>lac. \<lparr> gs_lac = lac \<rparr>)
       (get_lac (gq_ledger_id req)
          (if gq_wait_timeout_ms req = 0 then None else Some (from_millis (gq_wait_timeout_ms req))) later sv)"

definition grpc_get_node_status ::
  "u64 \<Rightarrow> ('k, 'c, 's, 'j, 'i) JournalService \<Rightarrow> Status + GetNodeStatusResponse" where
  "grpc_get_node_status now sv =
     Inr \<lparr> ss_node_id = sv_node_id sv, ss_state = NsReadWrite, ss_last_heartbeat_ms = now \<rparr>"


section \<open>The client\<close>

definition parse_fenced :: "string \<Rightarrow> FolioError" where
  "parse_fenced msg =
     (case Option.bind (strip_prefix ''ledger '' msg) (split_once '' is fenced'') of
        None \<Rightarrow> Storage (''precondition: '' @ msg)
      | Some (id_str, _) \<Rightarrow>
          (case u64_from_str id_str of
             None \<Rightarrow> Storage (''precondition: '' @ msg)
           | Some l \<Rightarrow> LedgerFenced l))"

definition parse_not_found :: "string \<Rightarrow> FolioError" where
  "parse_not_found msg =
     (case Option.bind (strip_prefix ''entry '' msg) (split_once '' not found in ledger '') of
        None \<Rightarrow> Storage (''not found: '' @ msg)
      | Some (eid_str, rest) \<Rightarrow>
          (case (u64_from_str eid_str, u64_from_str rest) of
             (Some i, Some l) \<Rightarrow> EntryNotFound l i
           | _ \<Rightarrow> Storage (''not found: '' @ msg)))"

definition grpc_err :: "(Code \<Rightarrow> string) \<Rightarrow> Status \<Rightarrow> FolioError" where
  "grpc_err ct e =
     (case st_code e of
        Code_FailedPrecondition \<Rightarrow> parse_fenced (st_message e)
      | Code_NotFound \<Rightarrow> parse_not_found (st_message e)
      | Code_DeadlineExceeded \<Rightarrow> LacTimeout
      | Code_Aborted \<Rightarrow> CasConflict
      | code \<Rightarrow> Storage (''gRPC '' @ ct code @ '': '' @ st_message e))"

definition to_proto :: "Entry \<Rightarrow> ProtoEntry" where
  "to_proto e =
     \<lparr> pe_ledger_id = e_ledger_id e, pe_entry_id = e_entry_id e, pe_lac = e_lac e, pe_digest = e_digest e,
       pe_data = e_data e, pe_master_key = or_default (e_master_key e), pe_hmac = or_default (e_hmac e) \<rparr>"

definition from_proto_entry :: "ProtoEntry \<Rightarrow> Entry" where
  "from_proto_entry p =
     \<lparr> e_ledger_id = pe_ledger_id p, e_entry_id = pe_entry_id p, e_lac = pe_lac p, e_digest = pe_digest p,
       e_data = pe_data p, e_master_key = bytes32 (pe_master_key p), e_hmac = bytes32 (pe_hmac p) \<rparr>"

text \<open>\<^verbatim>\<open>str::trim\<close> on ASCII.\<close>

definition ascii_space :: "char \<Rightarrow> bool" where
  "ascii_space c = (let k = (of_char c :: nat) in k = 32 \<or> (9 \<le> k \<and> k \<le> 13))"

definition trim_text :: "string \<Rightarrow> string" where
  "trim_text s = rev (dropWhile ascii_space (rev (dropWhile ascii_space s)))"

definition normalize_grpc_addr :: "string \<Rightarrow> string" where
  "normalize_grpc_addr addr0 =
     (let addr = trim_text addr0 in
      case strip_prefix ''http://localhost'' addr of
        Some rest \<Rightarrow> ''http://127.0.0.1'' @ rest
      | None \<Rightarrow>
          (case strip_prefix ''https://localhost'' addr of
             Some rest \<Rightarrow> ''https://127.0.0.1'' @ rest
           | None \<Rightarrow>
               (if strip_prefix ''http://'' addr \<noteq> None \<or> strip_prefix ''https://'' addr \<noteq> None then addr
                else ''http://'' @ addr)))"

text \<open>One call: the request may be lost, or handled with its answer lost.\<close>

datatype delivery = Delivered | Unsent Status | ReplyLost Status

definition rpc :: "delivery \<Rightarrow> ('n \<Rightarrow> (Status + 'r) \<times> 'n) \<Rightarrow> 'n \<Rightarrow> (Status + 'r) \<times> 'n" where
  "rpc d handler n =
     (case d of
        Delivered \<Rightarrow> handler n
      | Unsent st \<Rightarrow> (Inl st, n)
      | ReplyLost st \<Rightarrow> (Inl st, snd (handler n)))"

definition client_add_entry ::
  "(Code \<Rightarrow> string) \<Rightarrow> 'n node_client \<Rightarrow> delivery \<Rightarrow> Entry \<Rightarrow> 'n \<Rightarrow> AppendAck result \<times> 'n" where
  "client_add_entry ct N d e n =
     apfst (map_sum (grpc_err ct)
         (\<lambda>r. \<lparr> ack_ledger_id = ar_ledger_id r, ack_entry_id = ar_entry_id r, ack_local_lac = ar_local_lac r,
               ack_node_id = ar_node_id r \<rparr>))
       (rpc d (grpc_add_entry N \<lparr> aq_entry = Some (to_proto e) \<rparr>) n)"

definition client_fence_ledger ::
  "(Code \<Rightarrow> string) \<Rightarrow> 'n node_client \<Rightarrow> delivery \<Rightarrow> u64 \<Rightarrow> 'n \<Rightarrow> u64 result \<times> 'n" where
  "client_fence_ledger ct N d lid n =
     apfst (map_sum (grpc_err ct) fs_lac) (rpc d (grpc_fence_ledger N \<lparr> fq_ledger_id = lid \<rparr>) n)"

definition client_read_entry ::
  "(Code \<Rightarrow> string) \<Rightarrow> 'n node_client \<Rightarrow> delivery \<Rightarrow> u64 \<Rightarrow> u64 \<Rightarrow> 'n \<Rightarrow> ReadResult result \<times> 'n" where
  "client_read_entry ct N d lid eid n =
     (case rpc d (grpc_read_entry N \<lparr> rq_ledger_id = lid, rq_entry_id = eid \<rparr>) n of
        (Inl st, n1) \<Rightarrow> (Inl (grpc_err ct st), n1)
      | (Inr r, n1) \<Rightarrow>
          (case rs_entry r of
             None \<Rightarrow> (Inl (Storage ''empty read_entry response''), n1)
           | Some p \<Rightarrow>
               (Inr \<lparr> rr_entry = from_proto_entry p, rr_node_id = rs_node_id r, rr_appended_at_ms = rs_appended_at_ms r \<rparr>, n1)))"

text \<open>\<^verbatim>\<open>d.as_millis() as u64\<close> keeps the low 64 bits.\<close>

definition as_millis :: "nat \<Rightarrow> u64" where
  "as_millis ns = of_nat (ns div 1000000)"

definition client_get_lac ::
  "(Code \<Rightarrow> string) \<Rightarrow> delivery \<Rightarrow> u64 \<Rightarrow> nat option \<Rightarrow> ('k, 'c, 's, 'j, 'i) JournalService option
   \<Rightarrow> ('k, 'c, 's, 'j, 'i) JournalService \<Rightarrow> u64 result" where
  "client_get_lac ct d lid wait_timeout later sv =
     map_sum (grpc_err ct) gs_lac
       (fst (rpc d (\<lambda>sv. (grpc_get_lac
          \<lparr> gq_ledger_id = lid, gq_wait_timeout_ms = (case wait_timeout of None \<Rightarrow> 0 | Some w \<Rightarrow> as_millis w) \<rparr> later sv, sv)) sv))"

text \<open>What happens to the messages may depend on the call and on the state of the node.\<close>

record 'n network =
  nw_add :: "Entry \<Rightarrow> 'n \<Rightarrow> delivery"
  nw_fence :: "u64 \<Rightarrow> 'n \<Rightarrow> delivery"
  nw_read :: "u64 \<Rightarrow> u64 \<Rightarrow> 'n \<Rightarrow> delivery"

definition grpc_client :: "(Code \<Rightarrow> string) \<Rightarrow> 'n network \<Rightarrow> 'n node_client \<Rightarrow> 'n node_client" where
  "grpc_client ct net N =
     \<lparr> nc_add = (\<lambda>e n. client_add_entry ct N (nw_add net e n) e n),
       nc_fence = (\<lambda>l n. client_fence_ledger ct N (nw_fence net l n) l n),
       nc_read = (\<lambda>l i n. client_read_entry ct N (nw_read net l i n) l i n) \<rparr>"

definition perfect_network :: "'n network" where
  "perfect_network = \<lparr> nw_add = (\<lambda>_ _. Delivered), nw_fence = (\<lambda>_ _. Delivered), nw_read = (\<lambda>_ _ _. Delivered) \<rparr>"


section \<open>Messages and errors over the wire\<close>

lemma bytes32_or_default: "(case b of None \<Rightarrow> True | Some k \<Rightarrow> length k = 32) \<Longrightarrow> bytes32 (or_default b) = b"
  by (simp add: bytes32_def or_default_def split: option.splits)

lemma entry_over_wire:
  assumes "entry_wf e"
  shows "proto_to_entry (to_proto e) = e" and "from_proto_entry (entry_to_proto e) = e"
  using assms by (simp_all add: entry_wf_def proto_to_entry_def to_proto_def from_proto_entry_def entry_to_proto_def bytes32_or_default)

lemma show_u64_no_space: "CHR '' '' \<notin> set (show_u64 w)"
  by (simp add: show_u64_def show_nat_no_space)

lemma parse_fenced_text: "parse_fenced (''ledger '' @ show_u64 l @ '' is fenced'') = LedgerFenced l"
  using split_once_first[OF show_u64_no_space[of l], of "''is fenced''" "[]"]
  by (simp only: parse_fenced_def strip_prefix_append bind.bind_lunit) simp

lemma parse_not_found_text: "parse_not_found (''entry '' @ show_u64 i @ '' not found in ledger '' @ show_u64 l) = EntryNotFound l i"
  using split_once_first[OF show_u64_no_space[of i], of "''not found in ledger ''" "show_u64 l"]
  by (simp only: parse_not_found_def strip_prefix_append bind.bind_lunit) simp

text \<open>What the caller is told of an error of the service.\<close>

definition over_wire :: "(Code \<Rightarrow> string) \<Rightarrow> FolioError \<Rightarrow> FolioError" where
  "over_wire ct e = grpc_err ct (to_status e)"

lemma over_wire_kept [simp]:
  "over_wire ct (LedgerFenced l) = LedgerFenced l" "over_wire ct (EntryNotFound l i) = EntryNotFound l i"
  "over_wire ct CasConflict = CasConflict" "over_wire ct LacTimeout = LacTimeout"
  by (simp_all only: over_wire_def to_status_def grpc_err_def FolioError.case Code.case Status.simps
      parse_fenced_text parse_not_found_text)

lemma over_wire_lost:
  "over_wire ct (LedgerNotFound l) = Storage (''not found: ledger '' @ show_u64 l @ '' not found'')"
  "over_wire ct (StateConflict a b) = Storage (''precondition: state conflict: expected '' @ state_debug a @ '' found '' @ state_debug b)"
  "over_wire ct (QuorumNotMet r q) = Storage (''gRPC '' @ ct Code_Unavailable @ '': '' @ error_text (QuorumNotMet r q))"
  "over_wire ct (InvalidEntryId x i) =
     Storage (''gRPC '' @ ct Code_InvalidArgument @ '': invalid entry_id '' @ show_u64 i @ '': expected '' @ show_u64 x)"
  "over_wire ct (InvalidFragment l) = Storage (''gRPC '' @ ct Code_Internal @ '': '' @ error_text (InvalidFragment l))"
  "over_wire ct (Io s) = Storage (''gRPC '' @ ct Code_Internal @ '': '' @ error_text (Io s))"
  "over_wire ct (Serialization s) = Storage (''gRPC '' @ ct Code_Internal @ '': '' @ error_text (Serialization s))"
  "over_wire ct (Metadata s) = Storage (''gRPC '' @ ct Code_Internal @ '': '' @ error_text (Metadata s))"
  "over_wire ct (Storage s) = Storage (''gRPC '' @ ct Code_Internal @ '': '' @ error_text (Storage s))"
  by (simp_all add: over_wire_def to_status_def grpc_err_def parse_fenced_def parse_not_found_def strip_prefix_def)

lemma grpc_err_not_invalid [simp]: "grpc_err ct st \<noteq> InvalidEntryId a b"
  by (auto simp: grpc_err_def parse_fenced_def parse_not_found_def split: Code.splits option.splits prod.splits)


section \<open>The contract of a node behind the network\<close>

text \<open>
  What a call returns and what it leaves behind, by what happened to the request. The answer of a
  delivered call is that of the service, up to the errors that the wire does not carry.
\<close>

lemma client_add_cases:
  assumes "client_add_entry ct N d e n = (r, n')" and "entry_wf e"
  obtains (lost) st where "d = Unsent st" "r = Inl (grpc_err ct st)" "n' = n"
    | (handled) s where "nc_add N e n = (s, n')" "d = Delivered \<and> r = map_sum (over_wire ct) id s \<or> (\<exists>st. d = ReplyLost st \<and> r = Inl (grpc_err ct st))"
proof (cases d)
  case (Unsent st)
  with assms show thesis by (intro lost) (auto simp: client_add_entry_def rpc_def)
next
  case Delivered
  obtain s n1 where s: "nc_add N e n = (s, n1)" by force
  have "(\<lambda>a. \<lparr> ack_ledger_id = ar_ledger_id (ack_to_resp a), ack_entry_id = ar_entry_id (ack_to_resp a),
      ack_local_lac = ar_local_lac (ack_to_resp a), ack_node_id = ar_node_id (ack_to_resp a) \<rparr>) = id"
    by (rule ext) (simp add: ack_to_resp_def)
  with assms Delivered s show thesis
    by (intro handled[of s])
      (auto simp: client_add_entry_def rpc_def grpc_add_entry_def entry_over_wire sum.map_comp o_def over_wire_def[abs_def])
next
  case (ReplyLost st)
  obtain s n1 where s: "nc_add N e n = (s, n1)" by force
  with assms ReplyLost show thesis
    by (intro handled[of s]) (auto simp: client_add_entry_def rpc_def grpc_add_entry_def entry_over_wire)
qed

lemma client_fence_cases:
  assumes "client_fence_ledger ct N d l n = (r, n')"
  obtains (lost) st where "d = Unsent st" "r = Inl (grpc_err ct st)" "n' = n"
    | (handled) s where "nc_fence N l n = (s, n')" "d = Delivered \<and> r = map_sum (over_wire ct) id s \<or> (\<exists>st. d = ReplyLost st \<and> r = Inl (grpc_err ct st))"
proof (cases d)
  case (Unsent st)
  with assms show thesis by (intro lost) (auto simp: client_fence_ledger_def rpc_def)
next
  case Delivered
  obtain s n1 where s: "nc_fence N l n = (s, n1)" by force
  with assms Delivered show thesis
    by (intro handled[of s])
      (auto simp: client_fence_ledger_def rpc_def grpc_fence_ledger_def sum.map_comp o_def over_wire_def[abs_def] id_def)
next
  case (ReplyLost st)
  obtain s n1 where s: "nc_fence N l n = (s, n1)" by force
  with assms ReplyLost show thesis
    by (intro handled[of s]) (auto simp: client_fence_ledger_def rpc_def grpc_fence_ledger_def)
qed

lemma client_read_cases:
  assumes "client_read_entry ct N d l i n = (r, n')"
  obtains (lost) st where "d = Unsent st" "r = Inl (grpc_err ct st)" "n' = n"
    | (handled) s where "nc_read N l i n = (s, n')"
      "d = Delivered \<and> r = map_sum (over_wire ct) (\<lambda>rr. rr\<lparr> rr_entry := from_proto_entry (entry_to_proto (rr_entry rr)) \<rparr>) s
        \<or> (\<exists>st. d = ReplyLost st \<and> r = Inl (grpc_err ct st))"
proof (cases d)
  case (Unsent st)
  with assms show thesis by (intro lost) (auto simp: client_read_entry_def rpc_def)
next
  case Delivered
  obtain s n1 where s: "nc_read N l i n = (s, n1)" by force
  with assms Delivered show thesis
    by (intro handled[of s]; cases s)
      (auto simp: client_read_entry_def rpc_def grpc_read_entry_def read_to_resp_def over_wire_def)
next
  case (ReplyLost st)
  obtain s n1 where s: "nc_read N l i n = (s, n1)" by force
  with assms ReplyLost show thesis
    by (intro handled[of s]) (auto simp: client_read_entry_def rpc_def grpc_read_entry_def)
qed

locale remote_node = replica_laws N stored fenced good
  for N :: "'n node_client" and stored and fenced and good +
  fixes ct :: "Code \<Rightarrow> string" and net :: "'n network"

context remote_node
begin

lemma remote_add:
  assumes g: "good n" and w: "entry_wf e" and a: "nc_add (grpc_client ct net N) e n = (r, n')"
  shows "good n' \<and> fenced n' = fenced n
    \<and> (stored n' = stored n \<or> stored n (ids_of e) = None \<and> stored n' = (stored n)(ids_of e \<mapsto> e))"
    and "\<not> isl r \<Longrightarrow> e_ledger_id e \<notin> fenced n
      \<and> stored n' = (if stored n (ids_of e) = None then (stored n)(ids_of e \<mapsto> e) else stored n)"
    and "r = Inl (InvalidEntryId i j) \<Longrightarrow> stored n (ids_of e) \<noteq> None"
proof -
  from a have c: "client_add_entry ct N (nw_add net e n) e n = (r, n')" by (simp add: grpc_client_def)
  show "good n' \<and> fenced n' = fenced n
    \<and> (stored n' = stored n \<or> stored n (ids_of e) = None \<and> stored n' = (stored n)(ids_of e \<mapsto> e))"
    using c w
  proof (cases rule: client_add_cases)
    case (handled s)
    then show ?thesis using add_ok[OF g w] add_err[OF g w] by (cases s) (auto split: if_splits)
  qed (simp add: g)
  show "e_ledger_id e \<notin> fenced n \<and> stored n' = (if stored n (ids_of e) = None then (stored n)(ids_of e \<mapsto> e) else stored n)"
    if nl: "\<not> isl r" using c w
  proof (cases rule: client_add_cases)
    case (handled s)
    then obtain ack where "nc_add N e n = (Inr ack, n')" using nl by (cases s) auto
    from add_ok[OF g w this] show ?thesis by blast
  qed (use nl in auto)
  show "stored n (ids_of e) \<noteq> None" if "r = Inl (InvalidEntryId i j)" using c w
  proof (cases rule: client_add_cases)
    case (handled s)
    then show ?thesis using that by (cases s) (auto simp: over_wire_def dest: sym)
  qed (use that in \<open>auto dest: sym\<close>)
qed

lemma remote_fence:
  assumes g: "good n" and f: "nc_fence (grpc_client ct net N) l n = (r, n')"
  shows "good n' \<and> fenced n \<subseteq> fenced n' \<and> stored n' = stored n"
    and "r = Inr h \<Longrightarrow> l \<in> fenced n' \<and> (\<forall>i. stored n (l, i) \<noteq> None \<longrightarrow> i \<le> h)"
proof -
  from f have c: "client_fence_ledger ct N (nw_fence net l n) l n = (r, n')" by (simp add: grpc_client_def)
  show "good n' \<and> fenced n \<subseteq> fenced n' \<and> stored n' = stored n" using c
  proof (cases rule: client_fence_cases)
    case (handled s)
    then show ?thesis using fence_ok[OF g] fence_err[OF g] by (cases s) auto
  qed (simp add: g)
  show "l \<in> fenced n' \<and> (\<forall>i. stored n (l, i) \<noteq> None \<longrightarrow> i \<le> h)" if "r = Inr h" using c
  proof (cases rule: client_fence_cases)
    case (handled s)
    then have "nc_fence N l n = (Inr h, n')" using that by (cases s) auto
    from fence_ok[OF g this] show ?thesis by blast
  qed (use that in auto)
qed

lemma remote_read:
  assumes g: "good n" and f: "nc_read (grpc_client ct net N) l i n = (r, n')"
  shows "good n' \<and> fenced n' = fenced n \<and> stored n' = stored n \<and> (\<forall>rr. r = Inr rr \<longrightarrow> stored n (l, i) = Some (rr_entry rr))"
proof -
  from f have "client_read_entry ct N (nw_read net l i n) l i n = (r, n')" by (simp add: grpc_client_def)
  then show ?thesis
  proof (cases rule: client_read_cases)
    case (handled s)
    from read_ok[OF g handled(1)] have k: "good n' \<and> fenced n' = fenced n \<and> stored n' = stored n"
      and s: "\<And>rr. s = Inr rr \<Longrightarrow> stored n (l, i) = Some (rr_entry rr)" by blast+
    have "from_proto_entry (entry_to_proto (rr_entry rr)) = rr_entry rr" if "s = Inr rr" for rr
      using stored_ids[OF g s[OF that]] by (simp add: entry_over_wire)
    with k s handled(2) show ?thesis by (cases s) auto
  qed (simp add: g)
qed

end

sublocale remote_node \<subseteq> rn: replica_laws "grpc_client ct net N" stored fenced good
proof
  fix n e ack n' assume "good n" and "entry_wf e" and "nc_add (grpc_client ct net N) e n = (Inr ack, n')"
  from remote_add[OF this] show "good n' \<and> e_ledger_id e \<notin> fenced n \<and> fenced n' = fenced n
    \<and> stored n' = (if stored n (ids_of e) = None then (stored n)(ids_of e \<mapsto> e) else stored n)" by simp
next
  fix n e x n' assume "good n" and "entry_wf e" and "nc_add (grpc_client ct net N) e n = (Inl x, n')"
  from remote_add(1)[OF this] show "good n' \<and> fenced n' = fenced n
    \<and> (stored n' = stored n \<or> stored n (ids_of e) = None \<and> stored n' = (stored n)(ids_of e \<mapsto> e))" .
next
  fix n l h n' assume "good n" and "nc_fence (grpc_client ct net N) l n = (Inr h, n')"
  from remote_fence[OF this] show "good n' \<and> l \<in> fenced n' \<and> fenced n \<subseteq> fenced n' \<and> stored n' = stored n
    \<and> (\<forall>i. stored n (l, i) \<noteq> None \<longrightarrow> i \<le> h)" by blast
next
  fix n l x n' assume "good n" and "nc_fence (grpc_client ct net N) l n = (Inl x, n')"
  from remote_fence(1)[OF this] show "good n' \<and> fenced n \<subseteq> fenced n' \<and> stored n' = stored n" .
next
  fix n l i r n' assume "good n" and "nc_read (grpc_client ct net N) l i n = (r, n')"
  from remote_read[OF this] show "good n' \<and> fenced n' = fenced n \<and> stored n' = stored n
    \<and> (\<forall>rr. r = Inr rr \<longrightarrow> stored n (l, i) = Some (rr_entry rr))" .
next
  fix n k e assume "good n" and "stored n k = Some e"
  then show "ids_of e = k \<and> entry_wf e" by (rule stored_ids)
next
  fix n e a b n' assume "good n" and "entry_wf e" and "nc_add (grpc_client ct net N) e n = (Inl (InvalidEntryId a b), n')"
  from remote_add(3)[OF this refl] show "stored n (ids_of e) \<noteq> None" .
qed

context remote_node
begin

lemma remote_contract: "replica_laws (grpc_client ct net N) stored fenced good"
  by unfold_locales

end

text \<open>Where nothing is lost, the calls are those of the service.\<close>

lemma perfect_add:
  "entry_wf e \<Longrightarrow> nc_add (grpc_client ct perfect_network N) e n = apfst (map_sum (over_wire ct) id) (nc_add N e n)"
  by (cases "nc_add (grpc_client ct perfect_network N) e n")
    (auto simp: grpc_client_def perfect_network_def elim!: client_add_cases)

lemma perfect_fence:
  "nc_fence (grpc_client ct perfect_network N) l n = apfst (map_sum (over_wire ct) id) (nc_fence N l n)"
  by (cases "nc_fence (grpc_client ct perfect_network N) l n")
    (auto simp: grpc_client_def perfect_network_def elim!: client_fence_cases)

lemma perfect_read:
  assumes "\<And>rr n'. nc_read N l i n = (Inr rr, n') \<Longrightarrow> entry_wf (rr_entry rr)"
  shows "nc_read (grpc_client ct perfect_network N) l i n = apfst (map_sum (over_wire ct) id) (nc_read N l i n)"
proof -
  obtain r n' where c: "client_read_entry ct N Delivered l i n = (r, n')" by force
  then show ?thesis
  proof (cases rule: client_read_cases)
    case (handled s)
    with c assms show ?thesis
      by (cases s) (auto simp: grpc_client_def perfect_network_def entry_over_wire)
  qed simp
qed

context replica_laws
begin

lemma reachable_read:
  assumes "good n"
  shows "nc_read (grpc_client ct perfect_network N) l i n = apfst (map_sum (over_wire ct) id) (nc_read N l i n)"
  using read_ok[OF assms] stored_ids[OF assms] by (intro perfect_read) blast

end

locale reachable_node = node_laws N stored fenced good crc
  for N :: "'n node_client" and stored and fenced and good and crc +
  fixes ct :: "Code \<Rightarrow> string"

sublocale reachable_node \<subseteq> rch: remote_node N stored fenced good ct perfect_network
  by unfold_locales

context reachable_node
begin

lemma reachable_contract: "node_laws (grpc_client ct perfect_network N) stored fenced good crc"
proof
  fix n e assume "good n" "entry_wf e" "e_ledger_id e \<in> fenced n" "validate_digest crc e"
  with add_fenced[of n e] show "fst (nc_add (grpc_client ct perfect_network N) e n) = Inl (LedgerFenced (e_ledger_id e))"
    by (simp add: perfect_add)
next
  fix n l i assume "good n" "stored n (l, i) \<noteq> None"
  with read_live[of n l i] show "\<not> isl (fst (nc_read (grpc_client ct perfect_network N) l i n))"
    by (cases "fst (nc_read N l i n)") (simp_all add: reachable_read)
qed

end

end
