(* ===== verification/TransportSpec.thy ===== *)
theory TransportSpec
  imports RecoverySpec Transport
begin

text \<open>
  The deployment with its network: the ledger client calls the nodes through the gRPC client, the
  server wraps the journal service, and messages may be lost in either direction.
\<close>


section \<open>The composition\<close>

lemma journal_contract:
  assumes "storage_laws A kv"
  shows "replica_laws (journal_client A env) (stored_entry A kv) sv_fences (serving A kv)"
  by (rule fencing_laws.axioms(1)[OF journal_node.fencing_contract[OF storage_node[OF assms]]])

lemma remote_client:
  assumes "storage_laws A kv" and "etcd_laws E contents"
  shows "client_laws (etcd_store E) (stored_ledger E contents) (grpc_client ct net (journal_client A env))
    (stored_entry A kv) sv_fences (serving A kv)"
proof -
  have "replica_laws (grpc_client ct net (journal_client A env)) (stored_entry A kv) sv_fences (serving A kv)"
    using journal_contract[OF assms(1)] by (intro remote_node.remote_contract remote_node.intro)
  with client_laws.axioms(1)[OF deployment_client[OF assms]] show ?thesis by (simp add: client_laws_def)
qed

interpretation demo_remote: reachable_node demo_client "stored_entry demo_api ref_kv" sv_fences "serving demo_api ref_kv" "\<lambda>_. 0" "\<lambda>_. []"
  using demo.node_contract by (simp add: reachable_node_def)


section \<open>Calls over the wire\<close>

text \<open>
  C28. The errors that survive the wire are exactly four: a fence, a missing entry, a lost
  compare-and-swap and a timeout reach the caller as they were raised, with their ids; every other
  error arrives as a storage error.
\<close>

theorem error_over_wire:
  "(over_wire ct x = x \<longleftrightarrow> (\<exists>l. x = LedgerFenced l) \<or> (\<exists>l i. x = EntryNotFound l i) \<or> x = CasConflict \<or> x = LacTimeout)
   \<and> (over_wire ct x = x \<or> (\<exists>msg. over_wire ct x = Storage msg))"
  by (cases x) (auto simp: over_wire_lost dest: arg_cong[where f = length])

text \<open>
  C10. A call that nothing disturbs is the call of the service: an append, a fence and a read through
  the gRPC client and server give the answer of the service with its error sent over the wire, and
  leave the service as the direct call does. Keys and tags of an entry survive.
\<close>

theorem remote_calls_exact:
  assumes "storage_laws A kv" and "serving A kv sv" and "entry_wf e"
  shows "nc_add (grpc_client ct perfect_network (journal_client A env)) e sv
      = apfst (map_sum (over_wire ct) id) (add_entry A (env e sv) e sv)
    \<and> nc_fence (grpc_client ct perfect_network (journal_client A env)) l sv
      = apfst (map_sum (over_wire ct) id) (fence_ledger A l sv)
    \<and> nc_read (grpc_client ct perfect_network (journal_client A env)) l i sv
      = apfst (map_sum (over_wire ct) id) (node_read_entry A l i sv)"
  using perfect_add[OF assms(3), of ct "journal_client A env" sv] perfect_fence[of ct "journal_client A env" l sv]
    replica_laws.reachable_read[OF journal_contract[OF assms(1)] assms(2), of ct env l i]
  by (simp_all add: journal_client_def)


abbreviation demo_grpc ::
  "(ref_ks, ref_blocks, ref_s3, FileJournal, MemoryLedgerIndex) JournalService network
   \<Rightarrow> (ref_ks, ref_blocks, ref_s3, FileJournal, MemoryLedgerIndex) JournalService node_client" where
  "demo_grpc net \<equiv> grpc_client (\<lambda>_. []) net demo_client"

theorem remote_calls_exact_witness:
  "entry_wf (demo_entry 0) \<and> fst (nc_fence (demo_grpc perfect_network) 3 demo_service) = Inr 0
   \<and> nc_add (demo_grpc perfect_network) (demo_entry 0) demo_service
      = apfst (map_sum (over_wire (\<lambda>_. [])) id) (add_entry demo_api demo_add_env (demo_entry 0) demo_service)"
proof -
  obtain sv where f: "fence_ledger demo_api 3 demo_service = (Inr 0, sv)"
    by (rule demo_fence[of demo_service demo_backend]) (simp_all add: demo_backend_def demo_journal_def or_zero_def that)
  from remote_calls_exact[OF demo_storage demo_serving demo_entry_wf[of 0],
      of "\<lambda>_. []" "\<lambda>_ _. demo_add_env" 3]
  show ?thesis by (simp add: f)
qed


section \<open>Appending through a network that loses messages\<close>





text \<open>
  C31. The data of a failed append can take the place of the next one's. An append that fails does
  not use up its id; a node that stored its entry, because only the answer was lost, keeps it and
  acknowledges the next append of the handle, which has the same id and other data, as a duplicate.
  When that append returns, the node still serves the data of the append that was reported failed.
\<close>

theorem failed_append_data_stays:
  assumes "storage_laws A kv" and "etcd_laws E contents"
    and "do_append (etcd_store E) (grpc_client ct net (journal_client A env)) (na_crc A) now dat h s R = (Inl err, h1, s1, R1)"
    and "all_good (serving A kv) R"
    and "held (stored_entry A kv) R1 nid (lm_id (lh_metadata h), lh_next_entry_id h) = Some x"
    and "do_append (etcd_store E) (grpc_client ct net' (journal_client A env)) (na_crc A) now' dat' h1 s2 R1 = (Inr eid, h2, s3, R2)"
  shows "eid = lh_next_entry_id h \<and> lm_id (lh_metadata h1) = lm_id (lh_metadata h)
    \<and> held (stored_entry A kv) R2 nid (lm_id (lh_metadata h), eid) = Some x"
proof -
  note one = client_laws.do_append_keeps[OF remote_client[OF assms(1,2)] assms(3,4)]
  from one have "all_good (serving A kv) R1" by blast
  from client_laws.do_append_keeps[OF remote_client[OF assms(1,2)] assms(6) this] one assms(5) show ?thesis by simp
qed

definition demo_lossy :: "(ref_ks, ref_blocks, ref_s3, FileJournal, MemoryLedgerIndex) JournalService network" where
  "demo_lossy = perfect_network\<lparr> nw_add := (\<lambda>_ _. ReplyLost \<lparr> st_code = Code_Unavailable, st_message = ''gone'' \<rparr>) \<rparr>"

lemma demo_no_nodes: "md_list_nodes (etcd_store ref_etcd) demo_meta_etcd = Inr []"
proof -
  have "et_get_prefix ref_etcd demo_meta_etcd NODE_PREFIX = Inr []"
    by (simp add: ref_etcd_def demo_meta_etcd_def ref_etcd_put_def etcd_ledger_key_def LEDGER_PREFIX_def NODE_PREFIX_def)
  then show ?thesis by (simp add: etcd_store_def etcd_list_nodes_def)
qed

text \<open>The append is handled, and reported as failed.\<close>

lemma demo_lost_append:
  "do_append (etcd_store ref_etcd) (demo_grpc demo_lossy) (na_crc demo_api) 0 [9] demo_handle demo_meta_etcd demo_nodes
   = (Inl (QuorumNotMet 1 0), demo_handle, demo_meta_etcd, [(''n1'', demo_holder)])"
proof -
  have e: "Entry_new (\<lambda>_. 0) 3 0 0 [9] = demo_entry 0" by (simp add: demo_entry_def)
  have n: "nc_add (demo_grpc demo_lossy) (demo_entry 0) demo_service = (Inl (Storage ''gRPC : gone''), demo_holder)"
    by (simp add: grpc_client_def demo_lossy_def client_add_entry_def rpc_def grpc_add_entry_def entry_over_wire grpc_err_def
        journal_client_def demo_holder_def)
  have "change_fragment (etcd_store ref_etcd) 0 [''n1''] 0 demo_meta demo_meta_etcd = (Inl (QuorumNotMet 1 0), demo_meta, demo_meta_etcd)"
    by (simp add: change_fragment_def demo_no_nodes spare_nodes_def)
  then show ?thesis
    by (simp add: do_append_def append_attempt_def Let_def e on_node_def resolve_def demo_nodes_def n)
qed

text \<open>The next append with other data: the node takes it for a duplicate.\<close>

lemma demo_second_append:
  obtains h sv where "do_append (etcd_store ref_etcd) (demo_grpc perfect_network) (na_crc demo_api) 0 [8] demo_handle demo_meta_etcd
      [(''n1'', demo_holder)] = (Inr 0, h, demo_meta_etcd, [(''n1'', sv)])"
proof -
  let ?e = "Entry_new (\<lambda>_. 0) 3 0 0 [8]"
  obtain ack b where a: "add_entry demo_api demo_add_env (demo_entry 0) demo_service = (Inr ack, demo_holder)"
    and b: "sv_backend demo_holder = Lsmc b" "nl_ks b = demo_ks" "nl_entry_index b = demo_entry_index"
    and k: "sv_fences demo_holder = {}" "sv_known_ledgers demo_holder = {3}" "cache_contains (nl_cache b) 3 0"
    by (rule demo_add[of 0]) (simp add: demo_holder_def that)
  have "register_ledger ref_db demo_entry_index ?e {3} demo_ks = (Inr (), {3}, demo_ks)"
    by (simp add: register_ledger_def Entry_new_def)
  moreover have "check_hmac ref_db (na_mac demo_api) demo_entry_index ?e demo_ks = Inr ()"
    by (simp add: check_hmac_def Entry_new_def)
  moreover have "is_duplicate ref_db (nl_set_ks demo_ks b) 3 0 = Inr True" using k(3) by (simp add: is_duplicate_def)
  ultimately obtain ack' sv where "add_entry demo_api demo_add_env ?e demo_holder = (Inr ack', sv)"
    using b k by (simp add: add_entry_def add_check_def add_rest_def add_write_def lsmc_write_def Let_def validate_digest_def)
  then have n: "nc_add (demo_grpc perfect_network) ?e demo_holder = (Inr ack', sv)"
    by (simp add: perfect_add) (simp add: journal_client_def)
  have "do_append (etcd_store ref_etcd) (demo_grpc perfect_network) (na_crc demo_api) 0 [8] demo_handle demo_meta_etcd [(''n1'', demo_holder)]
      = (Inr 0, confirm demo_handle [ack'] 0, demo_meta_etcd, [(''n1'', sv)])"
    by (simp add: do_append_def append_attempt_def Let_def on_node_def resolve_def n)
  then show thesis by (rule that)
qed

theorem failed_append_data_stays_witness:
  "let (r1, h1, s1, R1) = do_append (etcd_store ref_etcd) (demo_grpc demo_lossy) (na_crc demo_api) 0 [9] demo_handle demo_meta_etcd demo_nodes;
       (r2, h2, s2, R2) = do_append (etcd_store ref_etcd) (demo_grpc perfect_network) (na_crc demo_api) 0 [8] h1 s1 R1
   in r1 = Inl (QuorumNotMet 1 0) \<and> r2 = Inr 0
     \<and> map_option e_data (held (stored_entry demo_api ref_kv) R2 ''n1'' (3, 0)) = Some [9]"
proof -
  obtain h sv where d: "do_append (etcd_store ref_etcd) (demo_grpc perfect_network) (na_crc demo_api) 0 [8] demo_handle demo_meta_etcd
      [(''n1'', demo_holder)] = (Inr 0, h, demo_meta_etcd, [(''n1'', sv)])" by (rule demo_second_append)
  have hd: "held (stored_entry demo_api ref_kv) [(''n1'', demo_holder)] ''n1'' (lm_id (lh_metadata demo_handle), lh_next_entry_id demo_handle)
      = Some (demo_entry 0)" by (simp add: held_def demo_holder_ok)
  from failed_append_data_stays[OF demo_storage re.etcd_laws_axioms demo_lost_append
      demo_good[folded demo_backend_simps(2)] hd d]
  show ?thesis by (simp add: demo_lost_append[simplified] d[simplified])
qed

end
