(* ===== verification/Channels.thy ===== *)
theory Channels
  imports Transport
begin

text \<open>
  The channels to the nodes: the pool of \<^verbatim>\<open>folio-core/src/transport/pool.rs\<close>, the resolver that
  builds node clients from it (\<^verbatim>\<open>folio-ledger/src/resolver.rs\<close>) and the shared node map that it
  replaces (\<^verbatim>\<open>folio-core/src/resolver.rs\<close>). Building a lazily connected channel belongs to the
  transport crate: \<open>ep k address tls\<close> is the k-th channel built for an address, or the error of its
  address or of its encryption settings. A \<open>None\<close> result is a panic.
\<close>


section \<open>The pool\<close>

record 'c ChannelSet =
  cs_channels :: "'c list"
  cs_next :: u64

record 'c ChannelPool =
  cp_channels_per_addr :: nat
  cp_inner :: "(string \<times> 'c ChannelSet) list"

type_synonym ('c, 't) endpoint = "nat \<Rightarrow> string \<Rightarrow> 't option \<Rightarrow> string + 'c"

definition ChannelSet_new :: "'c list \<Rightarrow> 'c ChannelSet" where
  "ChannelSet_new cs = \<lparr> cs_channels = cs, cs_next = 0 \<rparr>"

text \<open>The counter wraps; the remainder by an empty vector panics.\<close>

definition next_channel :: "'c ChannelSet \<Rightarrow> 'c option \<times> 'c ChannelSet" where
  "next_channel s =
     (let s1 = s\<lparr> cs_next := cs_next s + 1 \<rparr> in
      if cs_channels s = [] then (None, s1)
      else (Some (cs_channels s ! (unat (cs_next s) mod length (cs_channels s))), s1))"

definition with_channels_per_addr :: "nat \<Rightarrow> 'c ChannelPool" where
  "with_channels_per_addr n = \<lparr> cp_channels_per_addr = max 1 (min n 64), cp_inner = [] \<rparr>"

definition ChannelPool_new :: "'c ChannelPool" where
  "ChannelPool_new = with_channels_per_addr 1"

fun build_channels :: "('c, 't) endpoint \<Rightarrow> string \<Rightarrow> 't option \<Rightarrow> nat list \<Rightarrow> string + 'c list" where
  "build_channels ep addr tls [] = Inr []"
| "build_channels ep addr tls (k # ks) =
     (case ep k addr tls of
        Inl e \<Rightarrow> Inl e
      | Inr c \<Rightarrow> map_sum id (Cons c) (build_channels ep addr tls ks))"

definition get_or_insert ::
  "('c, 't) endpoint \<Rightarrow> string \<Rightarrow> 't option \<Rightarrow> 'c ChannelPool \<Rightarrow> (string + 'c) option \<times> 'c ChannelPool" where
  "get_or_insert ep addr tls p =
     (let use = (\<lambda>s. case next_channel s of
            (c, s1) \<Rightarrow> (map_option Inr c, p\<lparr> cp_inner := AList.update addr s1 (cp_inner p) \<rparr>))
      in case map_of (cp_inner p) addr of
           Some s \<Rightarrow> use s
         | None \<Rightarrow>
             (case build_channels ep addr tls [0..<cp_channels_per_addr p] of
                Inl e \<Rightarrow> (Some (Inl e), p)
              | Inr cs \<Rightarrow> use (ChannelSet_new cs)))"

definition evict :: "string \<Rightarrow> 'c ChannelPool \<Rightarrow> 'c ChannelPool" where
  "evict addr p = p\<lparr> cp_inner := AList.delete addr (cp_inner p) \<rparr>"


section \<open>The resolver\<close>

text \<open>A client is its channel and the id of its node.\<close>

record 'c grpc_handle =
  gh_channel :: 'c
  gh_node_id :: string

text \<open>
  A client with a connection of its own. \<open>from_shared\<close> parses the address and \<open>connect\<close> opens the
  connection, both functions of the transport crate.
\<close>

definition client_connect ::
  "(string \<Rightarrow> string + 'e) \<Rightarrow> ('e \<Rightarrow> string + 'c) \<Rightarrow> string \<Rightarrow> string \<Rightarrow> 'c grpc_handle result" where
  "client_connect from_shared connect input_addr nid =
     (let addr = normalize_grpc_addr input_addr in
      case from_shared addr of
        Inl e \<Rightarrow> Inl (Storage (''invalid address ['' @ addr @ '']: '' @ e))
      | Inr ep \<Rightarrow>
          (case connect ep of
             Inl e \<Rightarrow> Inl (Storage (''connection failed ['' @ addr @ ''] (input ['' @ input_addr @ '']): '' @ e))
           | Inr c \<Rightarrow> Inr \<lparr> gh_channel = c, gh_node_id = nid \<rparr>))"

text \<open>The map of \<^verbatim>\<open>NodeResolver\<close>, which all its clones share, is one value.\<close>

definition NodeResolver_new :: "(string \<times> 'n) list \<Rightarrow> 'n resolver" where
  "NodeResolver_new nodes = nodes"

definition NodeResolver_update :: "(string \<times> 'n) list \<Rightarrow> 'n resolver \<Rightarrow> 'n resolver" where
  "NodeResolver_update nodes R = nodes"

record ('c, 't) GrpcNodeResolver =
  gr_addresses :: "(string \<times> string) list"
  gr_node_resolver :: "'c grpc_handle resolver"
  gr_pool :: "'c ChannelPool"
  gr_tls :: "'t option"

definition resolve_client ::
  "('c, 't) endpoint \<Rightarrow> string \<Rightarrow> ('c, 't) GrpcNodeResolver \<Rightarrow> 'c grpc_handle result option \<times> ('c, 't) GrpcNodeResolver" where
  "resolve_client ep nid g =
     (case map_of (gr_addresses g) nid of
        None \<Rightarrow> (Some (Inl (Metadata (''unknown node: '' @ nid))), g)
      | Some addr \<Rightarrow>
          (case get_or_insert ep addr (gr_tls g) (gr_pool g) of
             (r, p) \<Rightarrow>
               (map_option (map_sum (\<lambda>e. Storage (''channel error for '' @ nid @ '': '' @ e))
                   (\<lambda>c. \<lparr> gh_channel = c, gh_node_id = nid \<rparr>)) r,
                g\<lparr> gr_pool := p \<rparr>)))"

text \<open>The loop over the keys, in some order; a node whose channel cannot be built is left out.\<close>

fun client_map ::
  "('c, 't) endpoint \<Rightarrow> string list \<Rightarrow> ('c, 't) GrpcNodeResolver
   \<Rightarrow> (string \<times> 'c grpc_handle) list option \<times> ('c, 't) GrpcNodeResolver" where
  "client_map ep [] g = (Some [], g)"
| "client_map ep (nid # nids) g =
     (case resolve_client ep nid g of
        (None, g1) \<Rightarrow> (None, g1)
      | (Some r, g1) \<Rightarrow>
          (case client_map ep nids g1 of
             (m, g2) \<Rightarrow> (map_option (\<lambda>cs. case r of Inl _ \<Rightarrow> cs | Inr c \<Rightarrow> (nid, c) # cs) m, g2)))"

definition apply_addresses ::
  "('c, 't) endpoint \<Rightarrow> (string \<times> string) list \<Rightarrow> ('c, 't) GrpcNodeResolver
   \<Rightarrow> unit option \<times> ('c, 't) GrpcNodeResolver" where
  "apply_addresses ep addresses g =
     (case client_map ep (map fst addresses) (g\<lparr> gr_addresses := addresses \<rparr>) of
        (None, g1) \<Rightarrow> (None, g1)
      | (Some cs, g1) \<Rightarrow> (Some (), g1\<lparr> gr_node_resolver := NodeResolver_update cs (gr_node_resolver g1) \<rparr>))"

definition GrpcNodeResolver_new ::
  "('c, 't) endpoint \<Rightarrow> (string \<times> string) list \<Rightarrow> 'c ChannelPool \<Rightarrow> 't option
   \<Rightarrow> unit option \<times> ('c, 't) GrpcNodeResolver" where
  "GrpcNodeResolver_new ep addresses pool tls =
     apply_addresses ep addresses
       \<lparr> gr_addresses = [], gr_node_resolver = NodeResolver_new [], gr_pool = pool, gr_tls = tls \<rparr>"

definition GrpcNodeResolver_update ::
  "('c, 't) endpoint \<Rightarrow> (string \<times> string) list \<Rightarrow> ('c, 't) GrpcNodeResolver
   \<Rightarrow> unit option \<times> ('c, 't) GrpcNodeResolver" where
  "GrpcNodeResolver_update ep addresses g = apply_addresses ep addresses g"


section \<open>Never an empty set of channels\<close>

definition pool_wf :: "'c ChannelPool \<Rightarrow> bool" where
  "pool_wf p \<longleftrightarrow> 1 \<le> cp_channels_per_addr p \<and> cp_channels_per_addr p \<le> 64
     \<and> (\<forall>a s. map_of (cp_inner p) a = Some s \<longrightarrow> length (cs_channels s) = cp_channels_per_addr p)"

lemma with_channels_wf: "pool_wf (with_channels_per_addr n)" "pool_wf ChannelPool_new"
  by (simp_all add: pool_wf_def with_channels_per_addr_def ChannelPool_new_def)

lemma evict_wf: "pool_wf p \<Longrightarrow> pool_wf (evict a p)"
  by (auto simp: pool_wf_def evict_def delete_conv' split: if_splits)

lemma build_channels_length: "build_channels ep addr tls ks = Inr cs \<Longrightarrow> length cs = length ks"
  by (induction ks arbitrary: cs) (auto split: sum.splits simp: map_sum_def)

lemma next_channel_some: "cs_channels s \<noteq> [] \<Longrightarrow> \<exists>c s1. next_channel s = (Some c, s1) \<and> c \<in> set (cs_channels s)
    \<and> s1 = s\<lparr> cs_next := cs_next s + 1 \<rparr>"
  by (simp add: next_channel_def Let_def)

text \<open>
  The pool never panics and stays well-formed; it fails only when the channels of an address that it
  does not know cannot be built, and then it does not change.
\<close>

lemma get_or_insert_ok:
  assumes "pool_wf p"
  obtains r p' where "get_or_insert ep addr tls p = (Some r, p')" and "pool_wf p'"
    and "isl r \<longleftrightarrow> map_of (cp_inner p) addr = None \<and> isl (build_channels ep addr tls [0..<cp_channels_per_addr p])"
    and "isl r \<longrightarrow> p' = p" and "cp_channels_per_addr p' = cp_channels_per_addr p"
    and "\<forall>a. a \<noteq> addr \<longrightarrow> map_of (cp_inner p') a = map_of (cp_inner p) a"
    and "\<not> isl r \<longrightarrow> map_of (cp_inner p') addr \<noteq> None"
proof -
  note result = that
  have used: thesis if l: "length (cs_channels s) = cp_channels_per_addr p"
      and g: "get_or_insert ep addr tls p = (case next_channel s of
        (c, s1) \<Rightarrow> (map_option Inr c, p\<lparr> cp_inner := AList.update addr s1 (cp_inner p) \<rparr>))"
      and ok: "\<not> (map_of (cp_inner p) addr = None \<and> isl (build_channels ep addr tls [0..<cp_channels_per_addr p]))" for s
  proof -
    have "cs_channels s \<noteq> []" using l assms by (auto simp: pool_wf_def)
    from next_channel_some[OF this] obtain c where "next_channel s = (Some c, s\<lparr> cs_next := cs_next s + 1 \<rparr>)" by blast
    with g l assms ok show thesis
      by (intro result[of "Inr c" "p\<lparr> cp_inner := AList.update addr (s\<lparr> cs_next := cs_next s + 1 \<rparr>) (cp_inner p) \<rparr>"])
        (auto simp: pool_wf_def update_conv')
  qed
  show thesis
  proof (cases "map_of (cp_inner p) addr")
    case (Some s)
    then show thesis using assms by (intro used[of s]) (auto simp: get_or_insert_def Let_def pool_wf_def)
  next
    case None
    show thesis
    proof (cases "build_channels ep addr tls [0..<cp_channels_per_addr p]")
      case (Inl e)
      with None assms show thesis by (intro that[of "Inl e" p]) (simp_all add: get_or_insert_def Let_def)
    next
      case (Inr cs)
      with None build_channels_length[OF Inr] show thesis
        by (intro used[of "ChannelSet_new cs"]) (simp_all add: get_or_insert_def Let_def ChannelSet_new_def)
    qed
  qed
qed



text \<open>The k-th channel that a set hands out, until its counter wraps.\<close>

fun take_channels :: "nat \<Rightarrow> 'c ChannelSet \<Rightarrow> 'c option list" where
  "take_channels 0 s = []"
| "take_channels (Suc k) s = (case next_channel s of (c, s1) \<Rightarrow> c # take_channels k s1)"

lemma take_channels_round_robin:
  assumes "cs_channels s \<noteq> []" and "unat (cs_next s) + k < 2 ^ 64"
  shows "take_channels k s = map (\<lambda>i. Some (cs_channels s ! ((unat (cs_next s) + i) mod length (cs_channels s)))) [0..<k]"
  using assms
proof (induction k arbitrary: s)
  case (Suc k)
  let ?s = "s\<lparr> cs_next := cs_next s + 1 \<rparr>"
  have u: "unat (cs_next s + 1) = Suc (unat (cs_next s))" using Suc.prems(2) by (simp add: unat_word_ariths(1))
  have "take_channels k ?s = map (\<lambda>i. Some (cs_channels s ! ((Suc (unat (cs_next s)) + i) mod length (cs_channels s)))) [0..<k]"
    using Suc.IH[of ?s] Suc.prems by (simp add: u)
  then show ?case using Suc.prems(1) by (simp add: next_channel_def Let_def upt_conv_Cons map_Suc_upt[symmetric] del: upt_Suc map_Suc_upt)
qed simp


section \<open>What an update of the addresses leaves\<close>

definition usable :: "('c, 't) endpoint \<Rightarrow> ('c, 't) GrpcNodeResolver \<Rightarrow> string \<Rightarrow> bool" where
  "usable ep g addr \<longleftrightarrow> map_of (cp_inner (gr_pool g)) addr \<noteq> None
     \<or> \<not> isl (build_channels ep addr (gr_tls g) [0..<cp_channels_per_addr (gr_pool g)])"

lemma resolve_client_ok:
  assumes "pool_wf (gr_pool g)"
  obtains r g' where "resolve_client ep nid g = (Some r, g')" and "pool_wf (gr_pool g')"
    and "gr_addresses g' = gr_addresses g" and "gr_tls g' = gr_tls g" and "usable ep g' = usable ep g"
    and "\<not> isl r \<longleftrightarrow> (\<exists>addr. map_of (gr_addresses g) nid = Some addr \<and> usable ep g addr)"
    and "\<forall>c. r = Inr c \<longrightarrow> gh_node_id c = nid"
proof (cases "map_of (gr_addresses g) nid")
  case None
  then show thesis by (intro that[of "Inl (Metadata (''unknown node: '' @ nid))" g]) (use assms in \<open>simp_all add: resolve_client_def\<close>)
next
  case (Some addr)
  obtain r p' where r: "get_or_insert ep addr (gr_tls g) (gr_pool g) = (Some r, p')" "pool_wf p'"
    "isl r \<longleftrightarrow> map_of (cp_inner (gr_pool g)) addr = None
       \<and> isl (build_channels ep addr (gr_tls g) [0..<cp_channels_per_addr (gr_pool g)])"
    "isl r \<longrightarrow> p' = gr_pool g" "cp_channels_per_addr p' = cp_channels_per_addr (gr_pool g)"
    "\<forall>a. a \<noteq> addr \<longrightarrow> map_of (cp_inner p') a = map_of (cp_inner (gr_pool g)) a"
    "\<not> isl r \<longrightarrow> map_of (cp_inner p') addr \<noteq> None"
    by (rule get_or_insert_ok[OF assms]) (rule that)
  have u: "usable ep (g\<lparr> gr_pool := p' \<rparr>) a = usable ep g a" for a
    using r(3-7) by (cases "a = addr"; cases "isl r") (auto simp: usable_def)
  show thesis
    by (rule that[of "map_sum (\<lambda>e. Storage (''channel error for '' @ nid @ '': '' @ e)) (\<lambda>c. \<lparr> gh_channel = c, gh_node_id = nid \<rparr>) r"
          "g\<lparr> gr_pool := p' \<rparr>"])
      (use Some r u in \<open>auto simp: resolve_client_def usable_def map_sum_def fun_eq_iff split: sum.splits\<close>)
qed

lemma client_map_ok:
  assumes "pool_wf (gr_pool g)"
  obtains cs g' where "client_map ep nids g = (Some cs, g')" and "pool_wf (gr_pool g')" and "gr_addresses g' = gr_addresses g"
    and "\<forall>nid. map_of cs nid \<noteq> None \<longleftrightarrow> nid \<in> set nids \<and> (\<exists>addr. map_of (gr_addresses g) nid = Some addr \<and> usable ep g addr)"
    and "\<forall>nid c. map_of cs nid = Some c \<longrightarrow> gh_node_id c = nid"
  using assms
proof (induction nids arbitrary: g thesis)
  case (Cons nid nids)
  obtain r g1 where r: "resolve_client ep nid g = (Some r, g1)" "pool_wf (gr_pool g1)" "gr_addresses g1 = gr_addresses g"
    "usable ep g1 = usable ep g" "\<not> isl r \<longleftrightarrow> (\<exists>addr. map_of (gr_addresses g) nid = Some addr \<and> usable ep g addr)"
    "\<forall>c. r = Inr c \<longrightarrow> gh_node_id c = nid"
    by (rule resolve_client_ok[OF Cons.prems(2)]) (rule that)
  obtain cs g2 where m: "client_map ep nids g1 = (Some cs, g2)" "pool_wf (gr_pool g2)" "gr_addresses g2 = gr_addresses g"
    "\<forall>m. map_of cs m \<noteq> None \<longleftrightarrow> m \<in> set nids \<and> (\<exists>addr. map_of (gr_addresses g) m = Some addr \<and> usable ep g addr)"
    "\<forall>m c. map_of cs m = Some c \<longrightarrow> gh_node_id c = m"
    by (rule Cons.IH[OF _ r(2)]) (simp add: r(3,4))
  show thesis
  proof (cases r)
    case (Inl e)
    with r m show thesis by (intro Cons.prems(1)[of cs g2]) auto
  next
    case (Inr c)
    with r m show thesis by (intro Cons.prems(1)[of "(nid, c) # cs" g2]) auto
  qed
qed simp


text \<open>
  C29. An update of the addresses never panics and leaves exactly the nodes of the new addresses
  whose channels exist in the pool or can be built, each with a client that carries its own id;
  nodes of the old addresses that the new ones do not name are gone.
\<close>

theorem resolver_update_exact:
  assumes "pool_wf (gr_pool g)"
  shows "\<exists>g'. GrpcNodeResolver_update ep addresses g = (Some (), g') \<and> pool_wf (gr_pool g') \<and> gr_addresses g' = addresses
    \<and> (\<forall>nid. \<not> isl (resolve (gr_node_resolver g') nid) \<longleftrightarrow> (\<exists>addr. map_of addresses nid = Some addr \<and> usable ep g addr))
    \<and> (\<forall>nid c. resolve (gr_node_resolver g') nid = Inr c \<longrightarrow> gh_node_id c = nid)"
proof -
  let ?g = "g\<lparr> gr_addresses := addresses \<rparr>"
  have wf: "pool_wf (gr_pool ?g)" using assms by simp
  have u: "usable ep ?g = usable ep g" by (rule ext) (simp add: usable_def)
  obtain cs g1 where m: "client_map ep (map fst addresses) ?g = (Some cs, g1)" "pool_wf (gr_pool g1)" "gr_addresses g1 = addresses"
    "\<forall>nid. map_of cs nid \<noteq> None \<longleftrightarrow> nid \<in> set (map fst addresses) \<and> (\<exists>addr. map_of addresses nid = Some addr \<and> usable ep g addr)"
    "\<forall>nid c. map_of cs nid = Some c \<longrightarrow> gh_node_id c = nid"
    by (rule client_map_ok[OF wf, of ep "map fst addresses"]) (simp add: u)
  have known: "map_of addresses nid \<noteq> None \<Longrightarrow> nid \<in> set (map fst addresses)" for nid
    by (simp add: map_of_eq_None_iff)
  have ex: "map_of cs nid \<noteq> None \<longleftrightarrow> (\<exists>addr. map_of addresses nid = Some addr \<and> usable ep g addr)" for nid
    using m(4) known[of nid] by auto
  have res: "\<not> isl (resolve cs nid) \<longleftrightarrow> (\<exists>addr. map_of addresses nid = Some addr \<and> usable ep g addr)" for nid
    using ex by (simp only: resolve_ok_iff)
  have "gh_node_id c = nid" if "resolve cs nid = Inr c" for nid c
    using that m(5) by (auto simp: resolve_def split: option.splits)
  with m(1-3) res show ?thesis
    by (intro exI[of _ "g1\<lparr> gr_node_resolver := cs \<rparr>"])
      (simp add: GrpcNodeResolver_update_def apply_addresses_def NodeResolver_update_def)
qed

definition demo_endpoint :: "nat \<Rightarrow> string \<Rightarrow> unit option \<Rightarrow> string + nat" where
  "demo_endpoint k addr tls = (if addr = ''bad'' then Inl ''invalid uri'' else Inr k)"

definition demo_resolver :: "(nat, unit) GrpcNodeResolver" where
  "demo_resolver = \<lparr> gr_addresses = [(''n0'', ''http://z'')],
     gr_node_resolver = [(''n0'', \<lparr> gh_channel = 0, gh_node_id = ''n0'' \<rparr>)],
     gr_pool = with_channels_per_addr 2, gr_tls = None \<rparr>"

theorem resolver_update_exact_witness:
  "pool_wf (gr_pool demo_resolver)
   \<and> \<not> isl (resolve (gr_node_resolver demo_resolver) ''n0'')
   \<and> (\<exists>g'. GrpcNodeResolver_update demo_endpoint [(''n1'', ''http://a''), (''n2'', ''bad'')] demo_resolver = (Some (), g')
        \<and> \<not> isl (resolve (gr_node_resolver g') ''n1'') \<and> isl (resolve (gr_node_resolver g') ''n2'')
        \<and> isl (resolve (gr_node_resolver g') ''n0''))"
proof -
  have wf: "pool_wf (gr_pool demo_resolver)" by (simp add: demo_resolver_def with_channels_wf)
  have "usable demo_endpoint demo_resolver ''http://a''" "\<not> usable demo_endpoint demo_resolver ''bad''"
    by (simp_all add: usable_def demo_resolver_def with_channels_per_addr_def demo_endpoint_def)
  note u = this
  obtain g' where g': "GrpcNodeResolver_update demo_endpoint [(''n1'', ''http://a''), (''n2'', ''bad'')] demo_resolver = (Some (), g')"
    and iff: "\<forall>nid. \<not> isl (resolve (gr_node_resolver g') nid) \<longleftrightarrow>
      (\<exists>addr. map_of [(''n1'', ''http://a''), (''n2'', ''bad'')] nid = Some addr \<and> usable demo_endpoint demo_resolver addr)"
    using resolver_update_exact[OF wf, of demo_endpoint "[(''n1'', ''http://a''), (''n2'', ''bad'')]"] by blast
  have "\<not> isl (resolve (gr_node_resolver g') ''n1'')" "isl (resolve (gr_node_resolver g') ''n2'')" "isl (resolve (gr_node_resolver g') ''n0'')"
    using spec[OF iff, of "''n1''"] spec[OF iff, of "''n2''"] spec[OF iff, of "''n0''"] u by simp_all
  with g' wf show ?thesis by (auto simp: demo_resolver_def resolve_def)
qed

end
