(* ===== verification/NodeRegistry.thy ===== *)
theory NodeRegistry
  imports MetadataSpec NodeParts
begin

text \<open>
  How a storage node announces itself: \<^verbatim>\<open>folio-node/src/node/registry.rs\<close> and the publishing loop of
  \<^verbatim>\<open>node/health.rs\<close>. etcd is a parameter: \<open>lease_api\<close> holds the calls on leases, and \<open>lease_laws\<close>
  what its documentation promises. A key belongs to at most one lease, the one of its last put; a put
  without a lease detaches it; a lease that expires or is revoked takes its keys with it.
\<close>

text \<open>
  \<open>le_keep_alive\<close> opens the stream of keep-alives, \<open>le_refresh\<close> sends one and receives the remaining
  lifetime, or the end of the stream.
\<close>

record 'e lease_api =
  le_grant :: "'e \<Rightarrow> int \<Rightarrow> (string + int) \<times> 'e"
  le_put :: "'e \<Rightarrow> string \<Rightarrow> bytes \<Rightarrow> int option \<Rightarrow> (string + unit) \<times> 'e"
  le_keep_alive :: "'e \<Rightarrow> int \<Rightarrow> (string + unit) \<times> 'e"
  le_refresh :: "'e \<Rightarrow> int \<Rightarrow> (string + int option) \<times> 'e"
  le_revoke :: "'e \<Rightarrow> int \<Rightarrow> (string + unit) \<times> 'e"
  le_ser_ni :: "NodeInfo \<Rightarrow> string + bytes"

definition DEFAULT_LEASE_TTL_SECS :: int where "DEFAULT_LEASE_TTL_SECS = 15"

record NodeRegistry =
  rg_lease_id :: int
  rg_node_id :: string


section \<open>The operations\<close>

definition NodeRegistry_register :: "'e lease_api \<Rightarrow> NodeInfo \<Rightarrow> int \<Rightarrow> 'e \<Rightarrow> NodeRegistry result \<times> 'e" where
  "NodeRegistry_register L node ttl_secs s =
     (case le_grant L s ttl_secs of
        (Inl e, s1) \<Rightarrow> (Inl (Metadata (''etcd lease_grant: '' @ e)), s1)
      | (Inr lease_id, s1) \<Rightarrow>
          (case le_ser_ni L node of
             Inl e \<Rightarrow> (Inl (Serialization e), s1)
           | Inr value \<Rightarrow>
               (case le_put L s1 (etcd_node_key (ni_node_id node)) value (Some lease_id) of
                  (Inl e, s2) \<Rightarrow> (Inl (Metadata (''etcd put node key: '' @ e)), s2)
                | (Inr _, s2) \<Rightarrow> (Inr \<lparr> rg_lease_id = lease_id, rg_node_id = ni_node_id node \<rparr>, s2))))"

text \<open>Seconds between two keep-alives.\<close>

definition keep_alive_interval :: "int \<Rightarrow> int" where
  "keep_alive_interval ttl_secs = max (ttl_secs div 3) 1"

text \<open>The task that keeps the lease alive, one step per turn of its two loops.\<close>

datatype KeepAlive = KaStopped | KaStreaming | KaReconnecting

definition keep_alive_start :: "'e lease_api \<Rightarrow> int \<Rightarrow> 'e \<Rightarrow> KeepAlive \<times> 'e" where
  "keep_alive_start L lease_id s =
     (case le_keep_alive L s lease_id of
        (Inl _, s1) \<Rightarrow> (KaStopped, s1)
      | (Inr _, s1) \<Rightarrow> (KaStreaming, s1))"

fun keep_alive_turn :: "'e lease_api \<Rightarrow> int \<Rightarrow> KeepAlive \<times> 'e \<Rightarrow> KeepAlive \<times> 'e" where
  "keep_alive_turn L lease_id (KaStopped, s) = (KaStopped, s)"
| "keep_alive_turn L lease_id (KaStreaming, s) =
     (case le_refresh L s lease_id of
        (Inr (Some ttl), s1) \<Rightarrow> (if 0 < ttl then KaStreaming else KaReconnecting, s1)
      | (_, s1) \<Rightarrow> (KaReconnecting, s1))"
| "keep_alive_turn L lease_id (KaReconnecting, s) =
     (case le_keep_alive L s lease_id of
        (Inr _, s1) \<Rightarrow> (KaStreaming, s1)
      | (Inl _, s1) \<Rightarrow> (KaReconnecting, s1))"

definition NodeRegistry_deregister :: "'e lease_api \<Rightarrow> NodeRegistry \<Rightarrow> 'e \<Rightarrow> unit result \<times> 'e" where
  "NodeRegistry_deregister L reg s =
     (case le_revoke L s (rg_lease_id reg) of
        (Inl e, s1) \<Rightarrow> (Inl (Metadata (''etcd lease_revoke: '' @ e)), s1)
      | (Inr _, s1) \<Rightarrow> (Inr (), s1))"

text \<open>One turn of \<^verbatim>\<open>HealthMonitor::run\<close>; the new status counts as published even when the put failed.\<close>

definition health_publish ::
  "'e lease_api \<Rightarrow> HealthMonitor \<Rightarrow> NodeInfo \<Rightarrow> u64 \<Rightarrow> NodeStatus \<Rightarrow> 'e \<Rightarrow> NodeStatus \<times> 'e" where
  "health_publish L h info now last_status s =
     (case health_tick h info now last_status of
        (status, None) \<Rightarrow> (status, s)
      | (status, Some updated) \<Rightarrow>
          (case le_ser_ni L updated of
             Inl _ \<Rightarrow> (status, s)
           | Inr value \<Rightarrow> (status, snd (le_put L s (etcd_node_key (ni_node_id info)) value None))))"


section \<open>The contract of leases\<close>

type_synonym leased_kv = "string \<Rightarrow> (bytes \<times> int option) option"

text \<open>What is left when a lease ends.\<close>

definition lease_ended :: "int \<Rightarrow> leased_kv \<Rightarrow> leased_kv" where
  "lease_ended lease m k = (case m k of Some (v, Some l) \<Rightarrow> if l = lease then None else m k | x \<Rightarrow> x)"

locale lease_laws =
  fixes L :: "'e lease_api" and kv :: "'e \<Rightarrow> leased_kv"
  assumes grant_keeps: "le_grant L s ttl = (r, s') \<Longrightarrow> kv s' = kv s"
    and put_ok: "le_put L s k v l = (Inr (), s') \<Longrightarrow> kv s' = (kv s)(k \<mapsto> (v, l))"
    and put_err: "le_put L s k v l = (Inl e, s') \<Longrightarrow> kv s' = kv s \<or> kv s' = (kv s)(k \<mapsto> (v, l))"
    and keep_alive_keeps: "le_keep_alive L s lease = (r1, s') \<Longrightarrow> kv s' = kv s"
    and refresh_keeps: "le_refresh L s lease = (r2, s') \<Longrightarrow> kv s' = kv s"
    and revoke_ok: "le_revoke L s lease = (Inr (), s') \<Longrightarrow> kv s' = lease_ended lease (kv s)"
begin

lemma registered:
  assumes "NodeRegistry_register L node ttl s = (Inr reg, s1)"
  shows "\<exists>v. le_ser_ni L node = Inr v \<and> kv s1 (etcd_node_key (ni_node_id node)) = Some (v, Some (rg_lease_id reg))
    \<and> rg_node_id reg = ni_node_id node"
proof -
  obtain id s' v where "le_grant L s ttl = (Inr id, s')" and v: "le_ser_ni L node = Inr v"
    and p: "le_put L s' (etcd_node_key (ni_node_id node)) v (Some id) = (Inr (), s1)"
    and "reg = \<lparr> rg_lease_id = id, rg_node_id = ni_node_id node \<rparr>"
    using assms by (auto simp: NodeRegistry_register_def split: prod.splits sum.splits)
  with put_ok[OF p] show ?thesis by simp
qed

lemma turn_keeps: "kv (snd (keep_alive_turn L lease x)) = kv (snd x)"
  by (cases "(L, lease, x)" rule: keep_alive_turn.cases)
    (auto dest: keep_alive_keeps refresh_keeps split: prod.splits sum.splits option.splits)

lemma turns_keep: "kv (snd ((keep_alive_turn L lease ^^ n) x)) = kv (snd x)"
  by (induction n) (simp_all add: turn_keeps)

lemma start_keeps: "kv (snd (keep_alive_start L lease s)) = kv s"
  by (auto simp: keep_alive_start_def dest: keep_alive_keeps split: prod.splits sum.splits)

text \<open>Once the lease is gone, the keep-alive task never announces the node again.\<close>

lemma expired_stays_lost:
  "kv s k = None \<Longrightarrow> kv (snd ((keep_alive_turn L lease ^^ n) (ka, s))) k = None"
  by (simp add: turns_keep)

text \<open>A published status leaves the key without a lease.\<close>

lemma published:
  assumes "health_tick h info now last_status = (status, Some updated)" and "le_ser_ni L updated = Inr v"
    and "le_put L s (etcd_node_key (ni_node_id info)) v None = (Inr (), s')"
  shows "kv (snd (health_publish L h info now last_status s)) (etcd_node_key (ni_node_id info)) = Some (v, None)"
  using put_ok[OF assms(3)] assms by (simp add: health_publish_def)

end

lemma lease_ended_simps [simp]:
  "m k = Some (v, Some l) \<Longrightarrow> lease_ended l m k = None" "m k = Some (v, None) \<Longrightarrow> lease_ended l m k = Some (v, None)"
  by (simp_all add: lease_ended_def)


section \<open>A reference instance\<close>

definition ref_lease :: "leased_kv lease_api" where
  "ref_lease =
     \<lparr> le_grant = (\<lambda>s ttl. (Inr 7, s)), le_put = (\<lambda>s k v l. (Inr (), s(k \<mapsto> (v, l)))),
       le_keep_alive = (\<lambda>s lease. (Inr (), s)), le_refresh = (\<lambda>s lease. (Inr (Some 15), s)),
       le_revoke = (\<lambda>s lease. (Inr (), lease_ended lease s)),
       le_ser_ni = guarded write_ni (whole ni_reader) \<rparr>"

interpretation rl: lease_laws ref_lease "\<lambda>s. s"
  by unfold_locales (auto simp: ref_lease_def)


section \<open>The life of a registration\<close>

text \<open>
  C35. A health update outlives the lease. A node that registered, through any number of turns of its
  keep-alive task, has a key that disappears with its lease. The first change of status that it
  publishes puts the key without a lease: from then on the key stays when the lease expires, that is
  when the node crashed, and also when the node deregisters.
\<close>

theorem health_update_outlives_lease:
  assumes "lease_laws L kv" and "NodeRegistry_register L node ttl s = (Inr reg, s1)"
    and "s2 = snd ((keep_alive_turn L (rg_lease_id reg) ^^ n) (keep_alive_start L (rg_lease_id reg) s1))"
    and "health_tick h node now last_status = (status, Some updated)" and "le_ser_ni L updated = Inr v"
    and "le_put L s2 (etcd_node_key (ni_node_id node)) v None = (Inr (), s')"
    and "s3 = snd (health_publish L h node now last_status s2)"
  shows "lease_ended (rg_lease_id reg) (kv s2) (etcd_node_key (ni_node_id node)) = None
    \<and> lease_ended (rg_lease_id reg) (kv s3) (etcd_node_key (ni_node_id node)) = Some (v, None)
    \<and> (\<forall>s4. NodeRegistry_deregister L reg s3 = (Inr (), s4) \<longrightarrow> kv s4 (etcd_node_key (ni_node_id node)) = Some (v, None))"
proof -
  let ?k = "etcd_node_key (ni_node_id node)" and ?l = "rg_lease_id reg"
  from lease_laws.registered[OF assms(1,2)] obtain w where "kv s1 ?k = Some (w, Some ?l)" by blast
  then have two: "kv s2 ?k = Some (w, Some ?l)"
    by (simp add: assms(3) lease_laws.turns_keep[OF assms(1)] lease_laws.start_keeps[OF assms(1)])
  have three: "kv s3 ?k = Some (v, None)" unfolding assms(7) by (rule lease_laws.published[OF assms(1,4,5,6)])
  have "kv s4 ?k = Some (v, None)" if "NodeRegistry_deregister L reg s3 = (Inr (), s4)" for s4
  proof -
    from that have "le_revoke L s3 ?l = (Inr (), s4)" by (auto simp: NodeRegistry_deregister_def split: prod.splits sum.splits)
    from lease_laws.revoke_ok[OF assms(1) this] three show ?thesis by simp
  qed
  with two three show ?thesis by simp
qed

definition demo_node :: NodeInfo where
  "demo_node = \<lparr> ni_node_id = ''n1'', ni_address = ''a'', ni_status = ReadWrite, ni_last_heartbeat_ms = 0 \<rparr>"

theorem health_update_outlives_lease_witness:
  "let s1 = snd (NodeRegistry_register ref_lease demo_node 15 Map.empty);
       s3 = snd (health_publish ref_lease (health_record (HealthMonitor_new 5 9 9) 1 6) demo_node 4 ReadWrite s1)
   in lease_ended 7 s1 (etcd_node_key ''n1'') = None \<and> lease_ended 7 s3 (etcd_node_key ''n1'') \<noteq> None"
proof -
  let ?h = "health_record (HealthMonitor_new 5 9 9) 1 6"
  let ?u = "demo_node\<lparr> ni_status := ReadOnly, ni_last_heartbeat_ms := 4 \<rparr>"
  have ser: "le_ser_ni ref_lease demo_node = Inr (write_ni demo_node)" "le_ser_ni ref_lease ?u = Inr (write_ni ?u)"
    using whole_write[of ni_reader write_ni demo_node] whole_write[of ni_reader write_ni ?u]
    by (simp_all add: ref_lease_def demo_node_def ni_reader_write)
  let ?s = "Map.empty(etcd_node_key ''n1'' \<mapsto> (write_ni demo_node, Some 7))"
  have r: "NodeRegistry_register ref_lease demo_node 15 Map.empty = (Inr \<lparr> rg_lease_id = 7, rg_node_id = ''n1'' \<rparr>, ?s)"
    using ser(1) by (simp add: NodeRegistry_register_def) (simp add: ref_lease_def demo_node_def)
  let ?reg = "\<lparr> rg_lease_id = 7, rg_node_id = ''n1'' \<rparr>"
  have k: "?s = snd ((keep_alive_turn ref_lease (rg_lease_id ?reg) ^^ 0) (keep_alive_start ref_lease (rg_lease_id ?reg) ?s))"
    by (simp add: keep_alive_start_def ref_lease_def)
  have id: "ni_node_id demo_node = ''n1''" by (simp add: demo_node_def)
  have t: "health_tick ?h demo_node 4 ReadWrite = (ReadOnly, Some ?u)"
    by (simp add: health_tick_def current_status_def health_record_def HealthMonitor_new_def Let_def)
  have p: "le_put ref_lease ?s (etcd_node_key (ni_node_id demo_node)) (write_ni ?u) None
      = (Inr (), ?s(etcd_node_key (ni_node_id demo_node) \<mapsto> (write_ni ?u, None)))"
    by (simp add: ref_lease_def)
  from health_update_outlives_lease[OF rl.lease_laws_axioms r k t ser(2) p refl]
  show ?thesis by (simp add: r id Let_def)
qed

end
