(* ===== verification/Boot.thy ===== *)
theory Boot
  imports JournalNode CrashRecovery Transport Channels NodeRegistry
begin

text \<open>
  The daemon, \<^verbatim>\<open>bins/foliod\<close>: the options of \<^verbatim>\<open>main.rs\<close> and the start-up sequence of
  \<^verbatim>\<open>journal_server.rs\<close>, which puts the other parts together. The database is opened first, then the
  journal, whose thread reads the length of its file and registers a segment, then the crash recovery
  runs over the same files, then the service is built and the node is registered. The thread is taken
  to have started when the recovery runs. Errors carry the text that \<^verbatim>\<open>anyhow\<close> would show; \<open>None\<close> is
  a start-up that does not return. The answer of the store to opening the keyspace and that of etcd to
  the connection are arguments. The background threads are represented by their configuration; their
  turns are the definitions of \<open>EntryCache\<close> and \<open>Offloader\<close>.
\<close>


section \<open>Options\<close>

record Args =
  ag_node_id :: string
  ag_address :: string
  ag_listen :: string
  ag_data_dir :: string
  ag_etcd_endpoints :: string
  ag_segment_seal_threshold_mb :: u64
  ag_cache_max_bytes :: u64
  ag_entry_flush_size :: u64
  ag_s3_bucket :: "string option"
  ag_s3_endpoint :: "string option"
  ag_s3_region :: string
  ag_s3_upload_min_age_hours :: u64
  ag_s3_upload_disk_budget_gb :: "u64 option"
  ag_tls_ca_cert :: "string option"
  ag_tls_node_cert :: "string option"
  ag_tls_node_key :: "string option"
  ag_max_journal_bytes :: u64
  ag_scrubber_interval_secs :: u64
  ag_metrics_addr :: string
  ag_flush_tick_ms :: u64
  ag_fjall_bloom_filter_bits :: "u8 option"
  ag_fjall_block_cache_bytes :: "u64 option"
  ag_journal_grpc_channels_per_addr :: nat

definition ENTRY_FLUSH_SIZE :: u64 where "ENTRY_FLUSH_SIZE = 64 * 1024"

definition DEFAULT_FLUSH_TICK_MS :: u64 where "DEFAULT_FLUSH_TICK_MS = 500"

definition DEFAULT_SEAL_THRESHOLD :: u64 where "DEFAULT_SEAL_THRESHOLD = 128 * 1024 * 1024"

definition Args_default :: Args where
  "Args_default =
     \<lparr> ag_node_id = ''node-0'', ag_address = ''http://127.0.0.1:9090'', ag_listen = ''0.0.0.0:9090'',
       ag_data_dir = ''/data/folio'', ag_etcd_endpoints = ''http://127.0.0.1:2379'', ag_segment_seal_threshold_mb = 128,
       ag_cache_max_bytes = 512 * 1024 * 1024, ag_entry_flush_size = ENTRY_FLUSH_SIZE, ag_s3_bucket = None,
       ag_s3_endpoint = None, ag_s3_region = ''us-east-1'', ag_s3_upload_min_age_hours = 0,
       ag_s3_upload_disk_budget_gb = None, ag_tls_ca_cert = None, ag_tls_node_cert = None, ag_tls_node_key = None,
       ag_max_journal_bytes = 400 * 1024 * 1024 * 1024, ag_scrubber_interval_secs = 3600,
       ag_metrics_addr = ''0.0.0.0:9092'', ag_flush_tick_ms = DEFAULT_FLUSH_TICK_MS,
       ag_fjall_bloom_filter_bits = None, ag_fjall_block_cache_bytes = None,
       ag_journal_grpc_channels_per_addr = 1 \<rparr>"

text \<open>\<^verbatim>\<open>str::split\<close> at a character: one piece more than there are separators.\<close>

fun split_at :: "char \<Rightarrow> string \<Rightarrow> string list" where
  "split_at c [] = [[]]"
| "split_at c (x # xs) =
     (if x = c then [] # split_at c xs
      else case split_at c xs of p # ps \<Rightarrow> (x # p) # ps | [] \<Rightarrow> [[x]])"

definition split_csv :: "string \<Rightarrow> string list" where
  "split_csv value_text = filter (\<lambda>s. s \<noteq> []) (map trim_text (split_at (CHR '','') value_text))"

definition etcd_endpoints :: "Args \<Rightarrow> string list" where
  "etcd_endpoints args = split_csv (ag_etcd_endpoints args)"

definition u64_checked_mul :: "u64 \<Rightarrow> u64 \<Rightarrow> u64 option" where
  "u64_checked_mul a b = (if unat a * unat b < 2 ^ 64 then Some (a * b) else None)"

definition seal_bytes :: "Args \<Rightarrow> u64" where
  "seal_bytes args =
     (case u64_checked_mul (ag_segment_seal_threshold_mb args) (1024 * 1024) of
        None \<Rightarrow> DEFAULT_SEAL_THRESHOLD
      | Some n \<Rightarrow> n)"

definition s3_config :: "Args \<Rightarrow> S3Config option" where
  "s3_config args =
     map_option (\<lambda>bucket. \<lparr> s3_bucket = bucket, s3_endpoint = ag_s3_endpoint args, s3_region = ag_s3_region args \<rparr>)
       (ag_s3_bucket args)"

text \<open>The products wrap, as they do in a release build.\<close>

definition offload_policy :: "Args \<Rightarrow> OffloadPolicy" where
  "offload_policy args =
     \<lparr> op_min_age = secs (unat (ag_s3_upload_min_age_hours args * 3600)),
       op_max_local_bytes = map_option (\<lambda>gb. gb * 1024 * 1024 * 1024) (ag_s3_upload_disk_budget_gb args) \<rparr>"


section \<open>Starting the storage\<close>

record ('k, 'c, 's, 'j, 'i) booted =
  bt_service :: "('k, 'c, 's, 'j, 'i) JournalService"
  bt_flush :: flush_config
  bt_offload :: offload_config
  bt_stats :: RecoveryStats

definition journal_cfg :: "Args \<Rightarrow> FolioDb \<Rightarrow> journal_config" where
  "journal_cfg args db =
     \<lparr> jc_dir = join_path (ag_data_dir args) ''wal'', jc_threshold = seal_bytes args, jc_registry = db_wal_registry db \<rparr>"

definition recovery_cfg :: "Args \<Rightarrow> FolioDb \<Rightarrow> recovery_config" where
  "recovery_cfg args db =
     \<lparr> rc_wal_index = db_wal_index db, rc_entry_index = db_entry_index db, rc_wal_registry = db_wal_registry db,
       rc_entry_registry = db_entry_registry db, rc_wal_dir = join_path (ag_data_dir args) ''wal'',
       rc_entries_dir = join_path (ag_data_dir args) ''entries'' \<rparr>"

definition flush_cfg :: "Args \<Rightarrow> FolioDb \<Rightarrow> flush_config" where
  "flush_cfg args db =
     \<lparr> fc_entries_dir = join_path (ag_data_dir args) ''entries'', fc_entry_index = db_entry_index db,
       fc_wal_index = db_wal_index db, fc_entry_registry = db_entry_registry db, fc_seal_threshold = seal_bytes args \<rparr>"


text \<open>
  Opening the journal and recovering from its files, in the order of \<^verbatim>\<open>boot\<close>. \<open>Inr None\<close> is a journal
  whose thread ended because it could not open its file; the node then starts and refuses every
  append, which is not followed further.
\<close>

definition open_and_recover ::
  "'k db_api \<Rightarrow> (bytes \<Rightarrow> u32) \<Rightarrow> journal_config \<Rightarrow> recovery_config \<Rightarrow> EntrySegmentCache \<Rightarrow> 'k \<Rightarrow> fs
   \<Rightarrow> ('k journal_state \<times> EntrySegmentCache \<times> RecoveryStats) option result option" where
  "open_and_recover D crc jcfg rcfg cache ks f =
     (case journal_open D jcfg ks f of
        Inl e \<Rightarrow> Some (Inl e)
      | Inr None \<Rightarrow> Some (Inr None)
      | Inr (Some j) \<Rightarrow>
          (case recover D crc rcfg \<lparr> r_ks = js_ks j, r_fs = js_fs j, r_cache = cache, r_stats = RecoveryStats_default \<rparr> of
             None \<Rightarrow> None
           | Some (Inl e, _) \<Rightarrow> Some (Inl e)
           | Some (Inr stats, r) \<Rightarrow> Some (Inr (Some (j\<lparr> js_ks := r_ks r, js_fs := r_fs r \<rparr>, r_cache r, stats)))))"

definition boot_dirs :: "Args \<Rightarrow> fs \<Rightarrow> string + fs" where
  "boot_dirs args f =
     (case create_dir_all f (join_path (ag_data_dir args) ''wal'') of
        Inl e \<Rightarrow> Inl e
      | Inr f1 \<Rightarrow> create_dir_all f1 (join_path (ag_data_dir args) ''entries''))"

definition boot_storage ::
  "('k, 'c, 's, 'j, 'i) node_api \<Rightarrow> Args \<Rightarrow> (string + 'k) \<Rightarrow> 's \<Rightarrow> fs \<Rightarrow> ('k, 'c, 's, 'j, 'i) booted option result option" where
  "boot_storage A args opened s3 f =
     (case FolioDb_open (na_db A) opened of
           Inl e \<Rightarrow> Some (Inl e)
         | Inr (db, ks) \<Rightarrow>
             (case open_and_recover (na_db A) (na_crc A) (journal_cfg args db) (recovery_cfg args db)
                     (cache_new (unat (ag_entry_flush_size args))) ks f of
                None \<Rightarrow> None
              | Some (Inl e) \<Rightarrow> Some (Inl e)
              | Some (Inr None) \<Rightarrow> Some (Inr None)
              | Some (Inr (Some (j, cache, stats))) \<Rightarrow>
                  (let reader = \<lparr> tr_entry_index = db_entry_index db, tr_entry_registry = db_entry_registry db,
                                  tr_wal_index = db_wal_index db, tr_wal_registry = db_wal_registry db,
                                  tr_s3 = s3_config args \<rparr>;
                       b = \<lparr> nl_journal_cfg = journal_cfg args db, nl_journal = j, nl_wal_index = db_wal_index db,
                             nl_entry_index = db_entry_index db, nl_cache = cache, nl_reader = reader,
                             nl_blocks = BlockCache_new (na_blocks A) (ag_cache_max_bytes args), nl_s3 = s3 \<rparr>;
                       health = HealthMonitor_new (ag_max_journal_bytes args) 50000000 1000
                   in Some (Inr (Some
                        \<lparr> bt_service = with_health_monitor health (new_lsmc A (ag_node_id args) b),
                          bt_flush = flush_cfg args db,
                          bt_offload = \<lparr> oc_entry_registry = db_entry_registry db, oc_wal_registry = db_wal_registry db,
                            oc_wal_index = db_wal_index db, oc_s3 = s3_config args, oc_policy = offload_policy args \<rparr>,
                          bt_stats = stats \<rparr>)))))"


section \<open>Starting the recovery tasks\<close>

text \<open>The worker and the scrubber reach the own node directly and the others through channels.\<close>

datatype 'c recovery_node = OwnNode | RemoteNode "'c grpc_handle"

definition recovery_node_addrs :: "string \<Rightarrow> NodeInfo list \<Rightarrow> (string \<times> string) list" where
  "recovery_node_addrs own nodes =
     fold (\<lambda>n. AList.update (ni_node_id n) (ni_address n)) (filter (\<lambda>n. ni_node_id n \<noteq> own) nodes) []"

fun add_remote_clients ::
  "('c, 't) endpoint \<Rightarrow> string list \<Rightarrow> ('c, 't) GrpcNodeResolver \<Rightarrow> (string \<times> 'c recovery_node) list
   \<Rightarrow> (string \<times> 'c recovery_node) list option \<times> ('c, 't) GrpcNodeResolver" where
  "add_remote_clients ep [] g clients = (Some clients, g)"
| "add_remote_clients ep (nid # nids) g clients =
     (case resolve_client ep nid g of
        (None, g1) \<Rightarrow> (None, g1)
      | (Some (Inl _), g1) \<Rightarrow> add_remote_clients ep nids g1 clients
      | (Some (Inr c), g1) \<Rightarrow> add_remote_clients ep nids g1 (AList.update nid (RemoteNode c) clients))"

text \<open>The node map of the tasks; \<open>None\<close> is a panic of the pool.\<close>

definition recovery_resolver ::
  "('c, 't) endpoint \<Rightarrow> Args \<Rightarrow> 'c ChannelPool \<Rightarrow> NodeInfo list result
   \<Rightarrow> (string + 'c recovery_node resolver) option" where
  "recovery_resolver ep args pool listed =
     (case listed of
        Inl e \<Rightarrow> Some (Inl (''list_nodes for recovery resolver: '' @ error_text e))
      | Inr nodes \<Rightarrow>
          (let addrs = recovery_node_addrs (ag_node_id args) nodes in
           case GrpcNodeResolver_new ep addrs pool None of
             (None, _) \<Rightarrow> None
           | (Some _, g) \<Rightarrow>
               (case add_remote_clients ep (map fst addrs) g [(ag_node_id args, OwnNode)] of
                  (None, _) \<Rightarrow> None
                | (Some clients, _) \<Rightarrow> Some (Inr (NodeResolver_new clients)))))"


section \<open>Encryption settings\<close>

record TlsPaths =
  tp_ca_cert :: string
  tp_node_cert :: string
  tp_node_key :: string

text \<open>The three files are read in this order; \<open>config ca cert key\<close> is the configuration of the TLS library.\<close>

definition server_tls_config :: "(bytes \<Rightarrow> bytes \<Rightarrow> bytes \<Rightarrow> 't) \<Rightarrow> fs \<Rightarrow> TlsPaths \<Rightarrow> string + 't" where
  "server_tls_config config f p =
     (case fs_read f (tp_ca_cert p) of
        Inl e \<Rightarrow> Inl e
      | Inr ca \<Rightarrow>
          (case fs_read f (tp_node_cert p) of
             Inl e \<Rightarrow> Inl e
           | Inr cert \<Rightarrow>
               (case fs_read f (tp_node_key p) of
                  Inl e \<Rightarrow> Inl e
                | Inr key \<Rightarrow> Inr (config ca cert key))))"

text \<open>The client's configuration ignores the domain.\<close>

definition client_tls_config :: "(bytes \<Rightarrow> bytes \<Rightarrow> bytes \<Rightarrow> 't) \<Rightarrow> fs \<Rightarrow> TlsPaths \<Rightarrow> string option \<Rightarrow> string + 't" where
  "client_tls_config config f p domain = server_tls_config config f p"

definition tls_paths :: "Args \<Rightarrow> TlsPaths option" where
  "tls_paths args =
     (case (ag_tls_ca_cert args, ag_tls_node_cert args, ag_tls_node_key args) of
        (Some ca, Some cert, Some key) \<Rightarrow> Some \<lparr> tp_ca_cert = ca, tp_node_cert = cert, tp_node_key = key \<rparr>
      | _ \<Rightarrow> None)"


section \<open>The whole start-up\<close>

text \<open>
  \<open>connect\<close> answers the connection of the registry, \<open>md_refused\<close> is the error of the second one, which
  the metadata store makes. The node is registered before the recovery tasks and the server start.
\<close>

record ('k, 'c, 's, 'j, 'i, 'h) runtime =
  rt_booted :: "('k, 'c, 's, 'j, 'i) booted"
  rt_registry :: NodeRegistry
  rt_nodes :: "'h recovery_node resolver"
  rt_tls :: "TlsPaths option"

definition boot ::
  "('k, 'c, 's, 'j, 'i) node_api \<Rightarrow> 'e lease_api \<Rightarrow> 'e metadata_store \<Rightarrow> ('h, 't) endpoint
   \<Rightarrow> Args \<Rightarrow> u64 \<Rightarrow> (string + 'k) \<Rightarrow> 's \<Rightarrow> (string list \<Rightarrow> string + 'e) \<Rightarrow> FolioError option \<Rightarrow> fs
   \<Rightarrow> (string + (('k, 'c, 's, 'j, 'i, 'h) runtime \<times> 'e) option) option" where
  "boot A L M ep args now opened s3 connect md_refused f =
     (case boot_dirs args f of Inl e \<Rightarrow> Some (Inl e) | Inr f1 \<Rightarrow>
      case boot_storage A args opened s3 f1 of
        None \<Rightarrow> None
      | Some (Inl e) \<Rightarrow> Some (Inl (error_text e))
      | Some (Inr None) \<Rightarrow> Some (Inr None)
      | Some (Inr (Some b)) \<Rightarrow>
          (case connect (etcd_endpoints args) of
             Inl e \<Rightarrow> Some (Inl e)
           | Inr s \<Rightarrow>
               (case NodeRegistry_register L \<lparr> ni_node_id = ag_node_id args, ni_address = ag_address args,
                       ni_status = ReadWrite, ni_last_heartbeat_ms = now \<rparr> DEFAULT_LEASE_TTL_SECS s of
                  (Inl e, _) \<Rightarrow> Some (Inl (error_text e))
                | (Inr reg, s1) \<Rightarrow>
                    (case md_refused of
                       Some e \<Rightarrow> Some (Inl (error_text e))
                     | None \<Rightarrow>
                         (case recovery_resolver ep args (with_channels_per_addr (ag_journal_grpc_channels_per_addr args))
                                 (md_list_nodes M s1) of
                            None \<Rightarrow> None
                          | Some (Inl e) \<Rightarrow> Some (Inl e)
                          | Some (Inr nodes) \<Rightarrow>
                              Some (Inr (Some (\<lparr> rt_booted = b, rt_registry = reg, rt_nodes = nodes, rt_tls = tls_paths args \<rparr>, s1))))))))"


section \<open>Serving and shutting down\<close>

text \<open>
  \<open>accept\<close> installs the TLS configuration and \<open>run\<close> serves until the shutdown, functions of the
  transport crate with their errors.
\<close>

definition serve ::
  "(bytes \<Rightarrow> bytes \<Rightarrow> bytes \<Rightarrow> 't) \<Rightarrow> ('t \<Rightarrow> string + 'b) \<Rightarrow> ('b option \<Rightarrow> string + unit) \<Rightarrow> fs \<Rightarrow> TlsPaths option \<Rightarrow> string + unit" where
  "serve config accept run f tls =
     (case tls of
        None \<Rightarrow> run None
      | Some paths \<Rightarrow>
          (case server_tls_config config f paths of
             Inl e \<Rightarrow> Inl e
           | Inr cfg \<Rightarrow>
               (case accept cfg of
                  Inl e \<Rightarrow> Inl e
                | Inr builder \<Rightarrow> run (Some builder))))"

text \<open>How the server task ended: with its result, or by a panic.\<close>

datatype joined = Joined "string + unit" | JoinFailed string

text \<open>
  The daemon ends when its server does, after an interrupt (\<open>interrupted\<close>, which sends the shutdown
  signal) or by itself. The node is deregistered only when the server ended without an error, and the
  outcome of that is ignored. The result is the error, whether the signal was sent, and the cluster.
\<close>

definition wait_for_shutdown :: "'e lease_api \<Rightarrow> NodeRegistry \<Rightarrow> bool \<Rightarrow> joined \<Rightarrow> 'e \<Rightarrow> (string + unit) \<times> bool \<times> 'e" where
  "wait_for_shutdown L reg interrupted server s =
     (case server of
        Joined (Inl e) \<Rightarrow> (Inl e, interrupted, s)
      | JoinFailed e \<Rightarrow> (Inl (''journal gRPC task failed: '' @ e), interrupted, s)
      | Joined (Inr _) \<Rightarrow> (Inr (), interrupted, snd (NodeRegistry_deregister L reg s)))"

end
