(* ===== verification/FjallSpec.thy ===== *)
theory FjallSpec
  imports RefStore LsmcJournal
begin

text \<open>
  What \<open>FjallIndex\<close> and \<open>SegmentRegistry\<close> promise, stated over the contents of the store: each
  property assumes only the laws of the store (\<open>db_laws\<close>), and its example runs on the
  reference store. Segment identifiers are covered here as well, because the two functions that
  choose them combine a directory scan with the registry.
\<close>


section \<open>Properties of the location index\<close>

text \<open>
  Insert then look up: after a successful insertion, a successful lookup of the same ledger and
  entry returns exactly the inserted location, and a lookup of any other key returns what it would
  have returned before.
\<close>

theorem location_insert_get:
  assumes "db_laws D kv" and "insert_location D idx ks l e seg off len = (Inr (), ks')"
    and "get_location D idx ks' l' e' = Inr r" and "get_location D idx ks l' e' = Inr r0"
  shows "r = (if (l', e') = (l, e) then Some \<lparr> iv_segment_id = seg, iv_offset = off, iv_length = len \<rparr> else r0)"
  using db_laws.insert_location_ok(1)[OF assms(1,2)] db_laws.get_location_ok[OF assms(1,3)]
    db_laws.get_location_ok[OF assms(1,4)] by simp

definition demo_index :: FjallIndex where
  "demo_index = \<lparr> ix_entries = ''wal.entries'', ix_locations = ''wal.locations'',
                  ix_checkpoints = ''wal.checkpoints'', ix_ledgers = ''wal.ledgers'' \<rparr>"

lemmas demo_simps = demo_index_def insert_location_def get_location_def delete_location_def
  storage_err_simps ref_simps

theorem location_insert_get_witness:
  "get_location ref_db demo_index (snd (insert_location ref_db demo_index [] 3 7 1 4096 100)) 3 7
   = Inr (Some \<lparr> iv_segment_id = 1, iv_offset = 4096, iv_length = 100 \<rparr>)"
proof -
  let ?ks = "snd (insert_location ref_db demo_index [] 3 7 1 4096 100)"
  obtain r where r: "get_location ref_db demo_index ?ks 3 7 = Inr r" by (simp add: demo_simps)
  have i: "insert_location ref_db demo_index [] 3 7 1 4096 100 = (Inr (), ?ks)" by (simp add: demo_simps)
  have g: "get_location ref_db demo_index [] 3 7 = Inr None" by (simp add: demo_simps)
  from location_insert_get[OF ref.db_laws_axioms i r g] r show ?thesis by simp
qed

text \<open>
  The byte order of the index keys is the numeric order of (ledger, entry) pairs, and the key
  decoder inverts the encoder: so a key range of one ledger contains that ledger's entries only,
  in entry order.
\<close>

theorem encode_key_order:
  "decode_key (encode_key l e) = Inr (l, e)
   \<and> (encode_key l e \<le> encode_key l' e' \<longleftrightarrow> l < l' \<or> l = l' \<and> e \<le> e')
   \<and> (encode_key l' e' \<in> {encode_key l 0..encode_key l (- 1)} \<longleftrightarrow> l' = l)"
  by (simp only: decode_encode_key encode_key_le encode_key_in_range simp_thms)

text \<open>
  The next entry id: over a well-formed index, \<open>get_next_entry_id\<close> returns zero for a ledger
  without entries and otherwise one more (wrapping at 64 bits) than the greatest entry id present.
\<close>

theorem get_next_entry_id_correct:
  assumes "db_laws D kv" and "loc_wf D (kv ks (ix_locations idx))"
    and "get_next_entry_id D idx ks l = Inr n"
  defines "present \<equiv> {e. loc_map D (kv ks (ix_locations idx)) (l, e) \<noteq> None}"
  shows "n = (if present = {} then 0 else Max present + 1)"
proof -
  have fin: "finite present" by simp
  from db_laws.next_entry_id_ok[OF assms(1,3,2)] show ?thesis
  proof (elim disjE exE conjE)
    assume "\<forall>e. loc_map D (kv ks (ix_locations idx)) (l, e) = None" and "n = 0"
    then show ?thesis by (simp add: present_def)
  next
    fix e assume e: "loc_map D (kv ks (ix_locations idx)) (l, e) \<noteq> None"
      and le: "\<forall>e'. loc_map D (kv ks (ix_locations idx)) (l, e') \<noteq> None \<longrightarrow> e' \<le> e" and n: "n = e + 1"
    have "e \<in> present" using e by (simp add: present_def)
    moreover from this have "Max present = e" using fin le by (intro Max_eqI) (auto simp: present_def)
    ultimately show ?thesis using n by auto
  qed
qed

theorem get_next_entry_id_correct_witness:
  "get_next_entry_id ref_db demo_index (snd (insert_location ref_db demo_index [] 3 7 1 4096 100)) 3 = Inr 8"
proof -
  let ?ks = "snd (insert_location ref_db demo_index [] 3 7 1 4096 100)"
  have ks: "?ks = ref_insert [] ''wal.locations'' (encode_key 3 7) (write_iv \<lparr> iv_segment_id = 1, iv_offset = 4096, iv_length = 100 \<rparr>)"
    by (simp add: demo_simps)
  obtain n where n: "get_next_entry_id ref_db demo_index ?ks 3 = Inr n"
    unfolding ks by (simp add: get_next_entry_id_def ref_range_def encode_key_le demo_simps)
  have i: "insert_location ref_db demo_index [] 3 7 1 4096 100 = (Inr (), ?ks)" by (simp add: demo_simps)
  have wf: "loc_wf ref_db (ref_kv ?ks (ix_locations demo_index))"
    using ref.insert_location_ok(3)[OF i] by (simp add: loc_wf_def ref_simps)
  have S: "{e. loc_map ref_db (ref_kv ?ks (ix_locations demo_index)) (3, e) \<noteq> None} = {7}"
    using ref.insert_location_ok(1)[OF i] by (simp add: loc_map_def abs_map_def ref_simps)
  have "n = 8" using get_next_entry_id_correct[OF ref.db_laws_axioms wf n] unfolding S by simp
  with n show ?thesis by simp
qed

text \<open>
  Purging the tail of a segment is exact: over a well-formed index a successful
  \<open>delete_locations_in_segment_tail\<close> returns precisely the keys whose location lies in that segment
  at or beyond the offset, removes precisely those, and touches no other partition.
\<close>

theorem delete_tail_exact:
  assumes "db_laws D kv" and "loc_wf D (kv ks (ix_locations idx))"
    and "delete_locations_in_segment_tail D idx ks seg off = (Inr keys, ks')"
  defines "m \<equiv> loc_map D (kv ks (ix_locations idx))"
  shows "set keys = {x. \<exists>iv. m x = Some iv \<and> iv_segment_id iv = seg \<and> off \<le> iv_offset iv}
    \<and> loc_map D (kv ks' (ix_locations idx)) = (\<lambda>x. if x \<in> set keys then None else m x)
    \<and> (\<forall>q. q \<noteq> ix_locations idx \<longrightarrow> kv ks' q = kv ks q)"
  using db_laws.delete_tail_ok[OF assms(1,3,2)] unfolding m_def by blast

theorem delete_tail_exact_witness:
  "delete_locations_in_segment_tail ref_db demo_index (snd (insert_location ref_db demo_index [] 3 7 1 4096 100)) 1 4000
     = (Inr [(3, 7)], ref_remove (snd (insert_location ref_db demo_index [] 3 7 1 4096 100)) ''wal.locations'' (encode_key 3 7))
   \<and> (3, 7) \<in> {x. \<exists>iv. loc_map ref_db (ref_kv (snd (insert_location ref_db demo_index [] 3 7 1 4096 100)) ''wal.locations'') x
        = Some iv \<and> iv_segment_id iv = 1 \<and> 4000 \<le> iv_offset iv}"
proof -
  let ?ks = "snd (insert_location ref_db demo_index [] 3 7 1 4096 100)"
  have d: "delete_locations_in_segment_tail ref_db demo_index ?ks 1 4000
      = (Inr [(3, 7)], ref_remove ?ks ''wal.locations'' (encode_key 3 7))"
    by (simp add: delete_locations_in_segment_tail_def demo_simps)
  have i: "insert_location ref_db demo_index [] 3 7 1 4096 100 = (Inr (), ?ks)" by (simp add: demo_simps)
  have wf: "loc_wf ref_db (ref_kv ?ks (ix_locations demo_index))"
    using ref.insert_location_ok(3)[OF i] by (simp add: loc_wf_def ref_simps)
  have ix: "ix_locations demo_index = ''wal.locations''" by (simp add: demo_index_def)
  from delete_tail_exact[OF ref.db_laws_axioms wf d] have "(3, 7) \<in> {x. \<exists>iv. loc_map ref_db (ref_kv ?ks ''wal.locations'') x
        = Some iv \<and> iv_segment_id iv = 1 \<and> 4000 \<le> iv_offset iv}"
    unfolding ix by (metis list.set_intros(1))
  with d show ?thesis by blast
qed


section \<open>Properties of the ledger states\<close>

text \<open>
  Master keys are write-once: when \<open>ensure_ledger_known\<close> succeeds the ledger is known
  afterwards, its fence flag is what it was, a key that was registered before is still the
  registered key (and equals the supplied one, if one was supplied), a first supplied key is
  registered, and no other ledger changes.
\<close>

theorem ensure_ledger_known_correct:
  assumes "db_laws D kv" and "ensure_ledger_known D idx ks l mk = (Inr changed, ks')"
  defines "m \<equiv> state_map D (kv ks (ix_ledgers idx))" and "m' \<equiv> state_map D (kv ks' (ix_ledgers idx))"
  shows "(\<exists>s'. m' l = Some s' \<and> ls_is_fenced s' = (case m l of None \<Rightarrow> False | Some s \<Rightarrow> ls_is_fenced s)
           \<and> ls_master_key s' = (case m l of None \<Rightarrow> mk
                | Some s \<Rightarrow> (case ls_master_key s of None \<Rightarrow> mk | Some k \<Rightarrow> Some k)))
    \<and> (\<forall>s k. m l = Some s \<and> ls_master_key s = Some k \<longrightarrow> mk = None \<or> mk = Some k)
    \<and> (\<forall>l'. l' \<noteq> l \<longrightarrow> m' l' = m l')"
proof -
  note ok = db_laws.ensure_known_ok[OF assms(1,2), folded m_def m'_def]
  have 1: "\<exists>s'. m' l = Some s' \<and> ls_is_fenced s' = (case m l of None \<Rightarrow> False | Some s \<Rightarrow> ls_is_fenced s)
           \<and> ls_master_key s' = (case m l of None \<Rightarrow> mk
                | Some s \<Rightarrow> (case ls_master_key s of None \<Rightarrow> mk | Some k \<Rightarrow> Some k))"
    using ok(1) by (simp split: option.splits)
  have 2: "mk = None \<or> mk = Some k" if "m l = Some s" "ls_master_key s = Some k" for s k
    using ok(2)[OF that] by (cases mk) auto
  have 3: "m' l' = m l'" if "l' \<noteq> l" for l' using ok(1) that by simp
  from 1 2 3 show ?thesis by blast
qed

theorem ensure_ledger_known_correct_witness:
  "\<exists>s'. state_map ref_db (ref_kv (snd (ensure_ledger_known ref_db demo_index [] 5 (Some [1, 2]))) ''wal.ledgers'') 5 = Some s'
     \<and> \<not> ls_is_fenced s' \<and> ls_master_key s' = Some [1, 2]"
proof -
  let ?r = "ensure_ledger_known ref_db demo_index [] 5 (Some [1, 2])"
  have r: "?r = (Inr True, snd ?r)"
    by (simp add: ensure_ledger_known_def get_ledger_state_def put_ledger_state_def demo_simps)
  have ix: "ix_ledgers demo_index = ''wal.ledgers''" by (simp add: demo_index_def)
  have none: "state_map ref_db (ref_kv [] (ix_ledgers demo_index)) 5 = None"
    by (simp add: state_map_def abs_map_def ref_simps)
  from ensure_ledger_known_correct[OF ref.db_laws_axioms r] none show ?thesis
    unfolding ix by auto
qed

text \<open>
  Fencing survives a restart: after a successful \<open>index_fence_ledger\<close> on a well-formed
  partition, the set that \<open>load_fenced_ledgers\<close> returns is the previous one plus that ledger, and
  no master key is lost.
\<close>

theorem fence_then_load:
  assumes "db_laws D kv" and "state_wf D (kv ks (ix_ledgers idx))"
    and "index_fence_ledger D idx ks l = (Inr (), ks')"
    and "load_fenced_ledgers D idx ks = Inr S" and "load_fenced_ledgers D idx ks' = Inr S'"
  shows "S' = insert l S
    \<and> (\<forall>l' s. state_map D (kv ks (ix_ledgers idx)) l' = Some s \<longrightarrow>
         (\<exists>s'. state_map D (kv ks' (ix_ledgers idx)) l' = Some s' \<and> ls_master_key s' = ls_master_key s))"
proof -
  note f = db_laws.index_fence_ok[OF assms(1,3)]
  have S: "S = {l. \<exists>st. state_map D (kv ks (ix_ledgers idx)) l = Some st \<and> ls_is_fenced st}"
    by (rule db_laws.load_fenced_ok[OF assms(1,4,2)])
  have S': "S' = {l. \<exists>st. state_map D (kv ks' (ix_ledgers idx)) l = Some st \<and> ls_is_fenced st}"
    by (rule db_laws.load_fenced_ok[OF assms(1,5) f(3)[OF assms(2)]])
  show ?thesis unfolding S S' f(1) by auto
qed

theorem fence_then_load_witness:
  "load_fenced_ledgers ref_db demo_index (snd (index_fence_ledger ref_db demo_index [] 9)) = Inr (insert 9 {})"
proof -
  let ?r = "index_fence_ledger ref_db demo_index [] 9"
  have r: "?r = (Inr (), snd ?r)"
    by (simp add: index_fence_ledger_def get_ledger_state_def put_ledger_state_def LedgerState_default_def demo_simps)
  have ks: "snd ?r = ref_insert [] ''wal.ledgers'' (ledger_key 9) (write_ls \<lparr> ls_is_fenced = True, ls_master_key = None \<rparr>)"
    by (simp add: index_fence_ledger_def get_ledger_state_def put_ledger_state_def LedgerState_default_def demo_simps)
  have wf: "state_wf ref_db (ref_kv [] (ix_ledgers demo_index))" by (simp add: state_wf_def ref_simps)
  have S: "load_fenced_ledgers ref_db demo_index [] = Inr {}"
    by (simp add: load_fenced_ledgers_def demo_simps)
  obtain S' where S': "load_fenced_ledgers ref_db demo_index (snd ?r) = Inr S'"
    unfolding ks by (simp add: load_fenced_ledgers_def ledger_key_def demo_simps)
  from fence_then_load[OF ref.db_laws_axioms wf r S S'] S' show ?thesis by simp
qed


section \<open>Properties of the segment registry\<close>

text \<open>
  Status changes are compare-and-swap: over a well-formed registry, \<open>cas_status\<close> reports
  success exactly when the segment is registered with the expected status; then only the status
  of that segment changes, and otherwise nothing changes.
\<close>

theorem cas_status_correct:
  assumes "db_laws D kv" and "seg_wf D (kv ks p)" and "cas_status D p ks i expected new = (Inr swapped, ks')"
  defines "m \<equiv> seg_map D (kv ks p)"
  shows "(swapped \<longleftrightarrow> (\<exists>meta. m i = Some meta \<and> sm_status meta = expected))
    \<and> seg_map D (kv ks' p) = (if swapped then m(i \<mapsto> (the (m i))\<lparr> sm_status := new \<rparr>) else m)
    \<and> (\<forall>q. q \<noteq> p \<longrightarrow> kv ks' q = kv ks q) \<and> seg_wf D (kv ks' p)"
  using db_laws.cas_status_ok[OF assms(1,3,2), folded m_def] by blast

definition demo_meta :: SegmentMeta where
  "demo_meta = \<lparr> sm_id = 4, sm_kind = EntryKind, sm_status = Active, sm_local_path = Some ''e'',
                 sm_s3_key = None, sm_byte_len = 0, sm_ledger_sizes = [] \<rparr>"

theorem cas_status_correct_witness:
  "fst (cas_status ref_db ''entry.registry'' (snd (upsert ref_db ''entry.registry'' [] demo_meta)) 4 Active Local) = Inr True
   \<and> seg_wf ref_db (ref_kv (snd (cas_status ref_db ''entry.registry''
        (snd (upsert ref_db ''entry.registry'' [] demo_meta)) 4 Active Local)) ''entry.registry'')"
proof -
  let ?ks = "snd (upsert ref_db ''entry.registry'' [] demo_meta)"
  let ?r = "cas_status ref_db ''entry.registry'' ?ks 4 Active Local"
  have u: "upsert ref_db ''entry.registry'' [] demo_meta = (Inr (), ?ks)"
    by (simp add: upsert_def demo_meta_def demo_simps)
  have wf: "seg_wf ref_db (ref_kv ?ks ''entry.registry'')"
    by (rule ref.upsert_ok(3)[OF u]) (simp add: seg_wf_def seg_map_def abs_map_def ref_simps)
  have r: "?r = (Inr True, snd ?r)"
    by (simp add: cas_status_def registry_get_def upsert_def demo_meta_def demo_simps)
  have "fst ?r = Inr True" using arg_cong[OF r, of fst] by simp
  with cas_status_correct[OF ref.db_laws_axioms wf r] show ?thesis by blast
qed

text \<open>
  C22. The handles that \<open>FolioDb_open\<close> returns name ten different partitions: the log index, the
  entry index and the two registries never share data.
\<close>

theorem folio_db_partitions_distinct:
  assumes "FolioDb_open D opened = Inr (db, ks)"
  shows "distinct [ix_entries (db_wal_index db), ix_locations (db_wal_index db), ix_checkpoints (db_wal_index db),
      ix_ledgers (db_wal_index db), ix_entries (db_entry_index db), ix_locations (db_entry_index db),
      ix_checkpoints (db_entry_index db), ix_ledgers (db_entry_index db), db_wal_registry db, db_entry_registry db]"
proof -
  have idx: "FjallIndex_from_keyspace D k p = (Inr i, k') \<Longrightarrow>
      i = \<lparr> ix_entries = p @ ''.entries'', ix_locations = p @ ''.locations'',
            ix_checkpoints = p @ ''.checkpoints'', ix_ledgers = p @ ''.ledgers'' \<rparr>" for k p i k'
    by (auto simp: FjallIndex_from_keyspace_def Let_def split: sum.splits prod.splits)
  have reg: "SegmentRegistry_from_keyspace D k p = (Inr r, k') \<Longrightarrow> r = p @ ''.registry''" for k p r k'
    by (auto simp: SegmentRegistry_from_keyspace_def split: sum.splits prod.splits)
  from assms obtain k0 k1 k2 k3 where
    "FjallIndex_from_keyspace D k0 ''wal'' = (Inr (db_wal_index db), k1)"
    "FjallIndex_from_keyspace D k1 ''entry'' = (Inr (db_entry_index db), k2)"
    "SegmentRegistry_from_keyspace D k2 ''wal'' = (Inr (db_wal_registry db), k3)"
    "SegmentRegistry_from_keyspace D k3 ''entry'' = (Inr (db_entry_registry db), ks)"
    by (auto simp: FolioDb_open_def split: sum.splits prod.splits)
  note h = this
  show ?thesis by (simp add: idx[OF h(1)] idx[OF h(2)] reg[OF h(3)] reg[OF h(4)])
qed

theorem folio_db_partitions_distinct_witness:
  "\<exists>db. FolioDb_open ref_db (Inr []) = Inr (db, []) \<and> ix_locations (db_wal_index db) \<noteq> ix_locations (db_entry_index db)"
proof -
  obtain db where db: "FolioDb_open ref_db (Inr []) = Inr (db, [])"
    by (simp add: FolioDb_open_def FjallIndex_from_keyspace_def SegmentRegistry_from_keyspace_def ref_simps)
  from folio_db_partitions_distinct[OF db] db show ?thesis by auto
qed

text \<open>
  Segment identifiers are never reused: the identifier that \<open>next_wal_segment_id\<close> chooses is
  greater than every identifier in the registry and every identifier of a file in the directory,
  unless one of them is the greatest 64-bit number.
\<close>

theorem next_wal_segment_id_fresh:
  assumes "db_laws D kv" and "seg_wf D (kv ks reg)" and "next_wal_segment_id D reg ks f d = Inr n"
    and "\<forall>x \<in> set (fs_list f d). segment_id_of_name ''seg-'' ''.seg'' x \<noteq> Some (- 1)"
    and "max_id D reg ks \<noteq> Inr (Some (- 1))"
  shows "(\<forall>i \<in> dom (seg_map D (kv ks reg)). i < n)
    \<and> (\<forall>x \<in> set (fs_list f d). \<forall>i. segment_id_of_name ''seg-'' ''.seg'' x = Some i \<longrightarrow> i < n)"
proof -
  from assms(3) obtain m where m: "max_id D reg ks = Inr m"
    and n: "n = max (scan_next_segment_id f d) (case m of None \<Rightarrow> 0 | Some i \<Rightarrow> i + 1)"
    by (auto simp: next_wal_segment_id_def split: sum.splits)
  have 1: "i < n" if "i \<in> dom (seg_map D (kv ks reg))" for i
  proof -
    from that obtain meta where "seg_map D (kv ks reg) i = Some meta" by auto
    from db_laws.max_id_bound[OF assms(1) m assms(2) this] obtain x where x: "m = Some x" "i \<le> x" by blast
    then have "x \<noteq> - 1" using m assms(5) by auto
    from u64_less_plus1[OF this] x n show ?thesis by (auto simp: less_max_iff_disj)
  qed
  have 2: "i < n" if "x \<in> set (fs_list f d)" "segment_id_of_name ''seg-'' ''.seg'' x = Some i" for x i
    using scan_next_id_fresh[OF assms(4) that] n by (auto simp: scan_next_segment_id_def less_max_iff_disj)
  from 1 2 show ?thesis by blast
qed

theorem next_wal_segment_id_fresh_witness:
  "\<exists>n. next_wal_segment_id ref_db ''entry.registry'' (snd (upsert ref_db ''entry.registry'' [] demo_meta))
        \<lparr> fs_files = [], fs_dirs = [], fs_read_err = (\<lambda>_. None), fs_write_err = (\<lambda>_. None) \<rparr> ''w'' = Inr n \<and> 4 < n"
proof -
  let ?ks = "snd (upsert ref_db ''entry.registry'' [] demo_meta)"
  let ?f = "\<lparr> fs_files = [], fs_dirs = [], fs_read_err = (\<lambda>_. None), fs_write_err = (\<lambda>_. None) \<rparr>"
  have u: "upsert ref_db ''entry.registry'' [] demo_meta = (Inr (), ?ks)"
    by (simp add: upsert_def demo_meta_def demo_simps)
  have wf: "seg_wf ref_db (ref_kv ?ks ''entry.registry'')"
    by (rule ref.upsert_ok(3)[OF u]) (simp add: seg_wf_def seg_map_def abs_map_def ref_simps)
  have m: "max_id ref_db ''entry.registry'' ?ks = Inr (Some 4)"
    by (simp add: max_id_def upsert_def demo_meta_def id_key_def demo_simps)
  then obtain n where n: "next_wal_segment_id ref_db ''entry.registry'' ?ks ?f ''w'' = Inr n"
    by (simp add: next_wal_segment_id_def)
  have l: "fs_list ?f ''w'' = []" by (simp add: fs_list_def List.map_filter_def)
  have "4 \<in> dom (seg_map ref_db (ref_kv ?ks ''entry.registry''))"
    using ref.upsert_ok(1)[OF u] by (simp add: demo_meta_def)
  with next_wal_segment_id_fresh[OF ref.db_laws_axioms wf n] m l n show ?thesis by auto
qed

end
