(* ===== verification/BootSpec.thy ===== *)
theory BootSpec
  imports Boot FjallSpec StorageSpec
begin

text \<open>
  What the start-up sequence does to the log that a crashed node left. The lemmas follow the active
  log file through the recovery, which only ever cuts it, and the registrations of its segment
  through the life of the journal, which never withdraws one.
\<close>


section \<open>Recovery only cuts files\<close>

definition cut_of :: "fs \<Rightarrow> fs \<Rightarrow> bool" where
  "cut_of f f' \<longleftrightarrow> (\<forall>p. case fs_read f p of Inl e \<Rightarrow> fs_read f' p = Inl e | Inr c \<Rightarrow> \<exists>n. fs_read f' p = Inr (take n c))"



lemma cut_of_refl [simp]: "cut_of f f"
  by (auto simp: cut_of_def split: sum.splits intro: take_all[OF order.refl, symmetric])










section \<open>Registrations are never withdrawn\<close>





section \<open>What a restart does to the log\<close>


definition demo_stale :: SegmentMeta where
  "demo_stale = wal_meta 0 Active ''w/active.seg'' 0"

definition demo_log_cfg :: journal_config where
  "demo_log_cfg = \<lparr> jc_dir = ''w'', jc_threshold = 65536, jc_registry = ''wal.registry'' \<rparr>"










section \<open>The resume offset\<close>

lemma resume_offset_read:
  assumes "fs_read f (active_seg_path d) = Inr c" and "length c < 2 ^ 64"
  shows "unat (resume_offset f d) = length c div 4096 * 4096"
proof -
  have m: "fs_len f (active_seg_path d) = of_nat (length c)"
    using assms(1) by (auto simp: fs_read_def fs_len_def split: option.splits)
  have q: "unat ((of_nat (length c) :: u64) div 4096) = length c div 4096"
    using assms(2) by (simp add: unat_div unat_of_nat)
  have "length c div 4096 * 4096 < 2 ^ 64" using assms(2) by (meson div_times_less_eq_dividend le_less_trans)
  then show ?thesis by (simp add: resume_offset_def m ALIGN_def unat_word_ariths(2) q)
qed

lemma write_behind_gap: "length c \<le> pos \<Longrightarrow> write_at c pos dat = c @ replicate (pos - length c) 0 @ dat"
  by (simp add: write_at_def resize_def)

text \<open>The journal after the recovery: the offset is that of the file as it was opened.\<close>

lemma open_and_recover_offset:
  assumes "open_and_recover D crc jcfg rcfg cache ks f = Some (Inr (Some (j, cache', stats)))"
    and "fs_read f (active_seg_path (jc_dir jcfg)) = Inr dat" and "length dat < 2 ^ 64"
  shows "unat (js_file_offset j) = length dat div 4096 * 4096 \<and> js_path j = active_seg_path (jc_dir jcfg)"
proof -
  let ?f = "f\<lparr> fs_dirs := List.insert (jc_dir jcfg) (fs_dirs f) \<rparr>"
  have r: "fs_read ?f (active_seg_path (jc_dir jcfg)) = Inr dat" using assms(2) by (simp add: fs_read_def split: option.splits)
  have "js_file_offset j = resume_offset ?f (jc_dir jcfg)" "js_path j = active_seg_path (jc_dir jcfg)"
    using assms(1) by (auto simp: open_and_recover_def journal_open_def Let_def split: sum.splits option.splits prod.splits)
  with resume_offset_read[OF r assms(3)] show ?thesis by simp
qed

text \<open>A gap of zeros that reaches four bytes into an aligned block stops the scan.\<close>

lemma scan_gap_diverges:
  assumes "length c' + 4096 < 2 ^ 64" and "c' = c @ replicate g 0 @ b" and "align_up (length c) + 4 \<le> length c + g"
  shows "wal_scan_loop D crc cfg seg path c' (length c) lvp st = None"
proof -
  let ?a = "align_up (length c)"
  have n: "length c + g \<le> length c'" using assms(2) by simp
  have le: "length c \<le> ?a" using align_up_bounds[of "length c"] n assms(1) by linarith
  have g: "4 \<le> g" using le assms(3) by linarith
  have "replicate g 0 = replicate (?a - length c) 0 @ replicate (length c + g - ?a) (0 :: 8 word)"
    using le assms(3) by (simp add: replicate_add[symmetric])
  then have c': "c' = (c @ replicate (?a - length c) 0) @ replicate (length c + g - ?a) 0 @ b" by (simp add: assms(2))
  have len: "length (c @ replicate (?a - length c) (0 :: 8 word)) = ?a" using le by simp
  have "stuck c' ?a"
    using stuck_zeros[of "c @ replicate (?a - length c) 0" "length c + g - ?a" b] assms(1,3) align_up_dvd[of "length c"] n
    unfolding len c'[symmetric] by simp
  then have none: "wal_scan_loop D crc cfg seg path c' ?a lvp st = None" by (rule wal_scan_loop_stuck)
  have "\<not> scan_done c' (length c)" using assms(1) n g by (intro not_done) simp_all
  moreover have "len_at c' (length c) = 0" unfolding assms(2) by (rule len_at_zeros[OF g])
  ultimately show ?thesis using none by (subst wal_scan_loop.simps) simp
qed

text \<open>
  C32. A restart after a torn write can stop the next one for good. The journal resumes at the block
  boundary below the length that its file had before the recovery, also when the recovery then cuts
  the file to its last valid record. If the cut reaches below the block before that boundary, the
  next batch is written behind a gap of zeros, and the replay of that file from the checkpoint which
  the recovery left never returns.
\<close>

theorem torn_restart_never_recovers:
  assumes "open_and_recover D crc jcfg rcfg cache ks f = Some (Inr (Some (j, cache', stats)))"
    and "fs_read f (active_seg_path (jc_dir jcfg)) = Inr dat" and "length dat + 4096 < 2 ^ 64"
    and "fs_read (js_fs j) (active_seg_path (jc_dir jcfg)) = Inr (take n dat)" and "n \<le> length dat"
    and "align_up n + 4 \<le> length dat div 4096 * 4096"
    and "write_and_ack (WOk k) None buf reqs j = (replies, j')" and "length (padded_aligned buf) \<le> k"
    and "fs_read (r_fs st) path = fs_read (js_fs j') (active_seg_path (jc_dir jcfg))"
    and "\<forall>c. fs_read (r_fs st) path = Inr c \<longrightarrow> length c + 4096 < 2 ^ 64"
    and "get_checkpoint D (rc_wal_index rcfg) (r_ks st) seg = Inr (of_nat n)"
  shows "unat (js_file_offset j) = length dat div 4096 * 4096 \<and> replay_wal_segment D crc rcfg seg path st = None"
proof -
  let ?act = "active_seg_path (jc_dir jcfg)" and ?p = "length dat div 4096 * 4096"
  have off: "unat (js_file_offset j) = ?p" "js_path j = ?act"
    using open_and_recover_offset[OF assms(1,2)] assms(3) by simp_all
  have le: "n \<le> align_up n" using align_up_bounds[of n] assms(3,5) by linarith
  have m: "map_of (fs_files (js_fs j)) ?act = Some (take n dat)" "fs_read_err (js_fs j) ?act = None"
    using assms(4) by (auto simp: fs_read_def split: option.splits)
  obtain b where j': "js_fs j' = fs_write_at (js_fs j) ?act ?p b"
    using assms(7,8) off by (auto simp: write_and_ack_def Let_def split: if_splits)
  have "write_at (take n dat) ?p b = take n dat @ replicate (?p - n) 0 @ b"
    using write_behind_gap[of "take n dat" ?p b] assms(5,6) le by simp
  then have rd: "fs_read (r_fs st) path = Inr (take n dat @ replicate (?p - n) 0 @ b)"
    unfolding assms(9) j' using m by (simp add: fs_write_at_def fs_read_def fs_set_def update_conv')
  have "unat (of_nat n :: u64) = n" using assms(3,5) by (simp add: unat_of_nat)
  moreover have "wal_scan_loop D crc rcfg seg path (take n dat @ replicate (?p - n) 0 @ b) n n st = None"
    using scan_gap_diverges[OF _ refl, of "take n dat" "?p - n" b D crc rcfg seg path n st] assms(5,6,10) le rd by simp
  ultimately show ?thesis using off by (simp add: replay_wal_segment_def rd assms(11))
qed


text \<open>A log of two blocks of which nothing is valid.\<close>

definition demo_garbage :: bytes where
  "demo_garbage = replicate 8192 1"

lemma demo_garbage_scan: "scan (\<lambda>_. 0) demo_garbage 0 0 = Some ([], Torn, 0)"
proof -
  have s: "take 4 demo_garbage = [1, 1, 1, 1]"
    by (simp add: subrange_def demo_garbage_def numeral_eq_Suc)
  have l: "len_at demo_garbage 0 = 16843009" by (simp add: s u32_from_le_bytes_def)
  have n: "length demo_garbage = 8192" by (simp add: demo_garbage_def)
  have "isl (decode_record (\<lambda>_. 0) demo_garbage 0)" by (rule decode_too_long) (simp_all only: l n, simp_all)
  then obtain e where "decode_record (\<lambda>_. 0) demo_garbage 0 = Inl e" by (auto simp: isl_def)
  moreover have "\<not> scan_done demo_garbage 0" by (intro not_done) (simp_all add: n)
  ultimately show ?thesis using l by (subst scan.simps) simp
qed


lemma demo_restart:
  obtains j cache stats where "open_and_recover ref_db (\<lambda>_. 0) demo_log_cfg demo_rcfg (cache_new 100) []
      (r_fs (demo_recovery demo_garbage)) = Some (Inr (Some (j, cache, stats)))"
    and "fs_read (js_fs j) ''w/active.seg'' = Inr []"
proof -
  let ?f = "\<lparr> fs_files = [(''w/active.seg'', demo_garbage)], fs_dirs = [''w''], fs_read_err = (\<lambda>_. None), fs_write_err = (\<lambda>_. None) \<rparr>"
  have f: "r_fs (demo_recovery demo_garbage) = ?f" by (simp add: demo_recovery_def)
  let ?ks = "snd (upsert ref_db ''wal.registry'' [] demo_stale)"
  have p: "active_seg_path ''w'' = ''w/active.seg''" by (simp add: active_seg_path_def join_path_def)
  have s: "fs_list ?f ''w'' = [''active.seg'']" "scan_next_segment_id ?f ''w'' = 0" "sorted_wal_segment_files ?f ''w'' = []"
    by (simp_all add: fs_list_def List.map_filter_simps child_name_def strip_prefix_def scan_next_segment_id_def scan_next_id_def
        segment_id_of_name_def sorted_wal_segment_files_def sorted_segment_files_def)
  obtain j where o: "journal_open ref_db demo_log_cfg [] ?f = Inr (Some j)" and j: "js_ks j = ?ks" "js_fs j = ?f"
    by (simp add: journal_open_def Let_def next_wal_segment_id_def demo_log_cfg_def open_odirect_def fs_open_create_def p s
        max_id_def register_active_def demo_stale_def ref_simps)
  let ?st = "\<lparr> r_ks = ?ks, r_fs = ?f, r_cache = cache_new 100, r_stats = RecoveryStats_default \<rparr>"
  have reg: "registry_get ref_db ''wal.registry'' ?ks 0 = Inr (Some demo_stale)"
    "list_by_status ref_db ''wal.registry'' ?ks Local = Inr []" "list_by_status ref_db ''wal.registry'' ?ks Active = Inr [demo_stale]"
    by (simp_all add: registry_get_def list_by_status_def upsert_def demo_stale_def wal_meta_def demo_simps)
  have c: "get_checkpoint ref_db (rc_wal_index demo_rcfg) ?ks 0 = Inr 0"
    by (simp add: get_checkpoint_def upsert_def demo_rcfg_def demo_flush_cfg_def demo_stale_def wal_meta_def demo_simps)
  have rd: "fs_read ?f ''w/active.seg'' = Inr demo_garbage" by (simp add: fs_read_def)
  let ?cutf = "?f\<lparr> fs_files := [(''w/active.seg'', [])] \<rparr>"
  have tr: "fs_truncate ?f ''w/active.seg'' 0 = (Inr (), ?cutf)"
    by (simp add: fs_truncate_def fs_set_def resize_def)
  have pg: "delete_locations_in_segment_tail ref_db (rc_wal_index demo_rcfg) ?ks 0 0 = (Inr [], ?ks)"
    by (simp add: delete_locations_in_segment_tail_def upsert_def demo_rcfg_def demo_flush_cfg_def demo_stale_def wal_meta_def demo_simps)
  obtain ks1 where sc: "set_checkpoint ref_db (rc_wal_index demo_rcfg) ?ks 0 0 = (Inr (), ks1)"
    by (simp add: set_checkpoint_def storage_err_simps ref_simps)
  let ?cutst = "?st\<lparr> r_fs := ?cutf, r_stats := RecoveryStats_default\<lparr> rs_torn_writes := rs_torn_writes RecoveryStats_default + 1 \<rparr> \<rparr>"
  have wt: "wal_torn ref_db demo_rcfg 0 ''w/active.seg'' 0 ?st = (Inr (), ?cutst)"
    unfolding wal_torn_def truncate_file_def Let_def using tr pg by (simp add: purge_wal_locations_after_torn_segment_def)
  obtain st where r: "replay_wal_segment ref_db (\<lambda>_. 0) demo_rcfg 0 ''w/active.seg'' ?st = Some (Inr (), st)" and st: "r_fs st = ?cutf"
    using wt sc by (simp add: replay_wal_segment_def rd c wal_scan_loop_fold[OF demo_garbage_scan])
  have m: "replay_metas ref_db (\<lambda>_. 0) demo_rcfg (sort_segment_metas [demo_stale]) ?st = Some (Inr (), st)"
    using r by (simp add: sort_segment_metas_def demo_stale_def wal_meta_def)
  have d: "rc_wal_dir demo_rcfg = ''w''" "rc_wal_registry demo_rcfg = ''wal.registry''" "rc_entries_dir demo_rcfg = ''d''"
    by (simp_all add: demo_rcfg_def)
  have e: "fs_exists ?f ''w''" "fs_exists ?f ''w/active.seg''" "\<not> fs_exists ?f ''d''" by (simp_all add: fs_exists_def)
  have "recover ref_db (\<lambda>_. 0) demo_rcfg ?st = Some (Inr (r_stats st), st)"
    by (simp add: recover_def recover_entry_segments_def recover_wal_def Let_def d e p s register_wal_if_absent_def reg m)
  then have "open_and_recover ref_db (\<lambda>_. 0) demo_log_cfg demo_rcfg (cache_new 100) [] ?f
      = Some (Inr (Some (j\<lparr> js_ks := r_ks st, js_fs := r_fs st \<rparr>, r_cache st, r_stats st)))"
    by (simp add: open_and_recover_def o j)
  then show thesis by (rule that[unfolded f]) (simp add: st fs_read_def)
qed

theorem torn_restart_never_recovers_witness:
  "\<exists>j cache stats. open_and_recover ref_db (\<lambda>_. 0) demo_log_cfg demo_rcfg (cache_new 100) []
      (r_fs (demo_recovery demo_garbage)) = Some (Inr (Some (j, cache, stats))) \<and> unat (js_file_offset j) = 8192
    \<and> (\<exists>c. fs_read (js_fs (snd (write_and_ack (WOk 4096) None (fst (push (\<lambda>_. 0) AlignedBuffer_new 3 7 [9])) [] j))) ''w/active.seg'' = Inr c
         \<and> replay_wal_segment ref_db (\<lambda>_. 0) demo_rcfg 0 ''w/active.seg'' (demo_recovery c) = None)"
proof -
  obtain j cache stats where o: "open_and_recover ref_db (\<lambda>_. 0) demo_log_cfg demo_rcfg (cache_new 100) []
      (r_fs (demo_recovery demo_garbage)) = Some (Inr (Some (j, cache, stats)))"
    and rd: "fs_read (js_fs j) ''w/active.seg'' = Inr []" by (rule demo_restart)
  let ?buf = "fst (push (\<lambda>_. 0) AlignedBuffer_new 3 7 [9])"
  have p: "active_seg_path (jc_dir demo_log_cfg) = ''w/active.seg''"
    by (simp add: active_seg_path_def join_path_def demo_log_cfg_def)
  have len: "length (padded_aligned ?buf) = 4096"
    by (simp add: length_padded push_def AlignedBuffer_new_def align_up_eq)
  obtain rs j' where w: "write_and_ack (WOk 4096) None ?buf [] j = (rs, j')" by force
  have g: "length demo_garbage = 8192" by (simp add: demo_garbage_def)
  have off: "js_path j = ''w/active.seg''"
    using open_and_recover_offset[OF o, unfolded p] demo_recovery_facts(1)[of demo_garbage] g by simp
  have "map_of (fs_files (js_fs j)) ''w/active.seg'' = Some []" "fs_read_err (js_fs j) ''w/active.seg'' = None"
    using rd by (auto simp: fs_read_def split: option.splits)
  then obtain c where c: "fs_read (js_fs j') ''w/active.seg'' = Inr c" and cl: "length c \<le> unat (js_file_offset j) + 4096"
    using w off by (auto simp: write_and_ack_def Let_def len fs_write_at_def fs_read_def make_aligned_def)
  have fits: "\<forall>x. fs_read (r_fs (demo_recovery c)) ''w/active.seg'' = Inr x \<longrightarrow> length x + 4096 < 2 ^ 64"
    using cl open_and_recover_offset[OF o, unfolded p] demo_recovery_facts(1)[of demo_garbage] g by (simp add: demo_recovery_facts)
  from torn_restart_never_recovers[OF o, unfolded p, of demo_garbage 0 4096 ?buf "[]" rs j' "demo_recovery c" "''w/active.seg''" 0]
    w len c fits rd g demo_recovery_facts show ?thesis by (intro exI[of _ j] exI[of _ cache] exI[of _ stats]) (simp add: o align_up_eq)
qed


section \<open>The node map of the recovery tasks\<close>

lemma add_remote_clients_ok:
  assumes "pool_wf (gr_pool g)"
  shows "\<exists>cs g'. add_remote_clients ep nids g clients = (Some cs, g')
    \<and> (\<forall>nid. nid \<notin> set nids \<longrightarrow> map_of cs nid = map_of clients nid)
    \<and> (\<forall>nid \<in> set nids. map_of cs nid \<noteq> map_of clients nid \<longrightarrow> (\<exists>c. map_of cs nid = Some (RemoteNode c) \<and> gh_node_id c = nid))"
  using assms
proof (induction nids arbitrary: g clients)
  case (Cons nid nids)
  obtain r g1 where r: "resolve_client ep nid g = (Some r, g1)" "pool_wf (gr_pool g1)" "\<forall>c. r = Inr c \<longrightarrow> gh_node_id c = nid"
    by (rule resolve_client_ok[OF Cons.prems]) (rule that)
  show ?case
  proof (cases r)
    case (Inl e)
    with Cons.IH[OF r(2), of clients] r(1) show ?thesis by (simp, blast)
  next
    case (Inr c)
    let ?cl = "AList.update nid (RemoteNode c) clients"
    obtain cs g2 where a: "add_remote_clients ep nids g1 ?cl = (Some cs, g2)"
      "\<forall>m. m \<notin> set nids \<longrightarrow> map_of cs m = map_of ?cl m"
      "\<forall>m \<in> set nids. map_of cs m \<noteq> map_of ?cl m \<longrightarrow> (\<exists>c. map_of cs m = Some (RemoteNode c) \<and> gh_node_id c = m)"
      using Cons.IH[OF r(2), of ?cl] by blast
    have own: "map_of ?cl nid = Some (RemoteNode c)" "gh_node_id c = nid" using r(3) Inr by (simp_all add: update_conv')
    have other: "m \<noteq> nid \<Longrightarrow> map_of ?cl m = map_of clients m" for m by (simp add: update_conv')
    have "\<exists>c. map_of cs m = Some (RemoteNode c) \<and> gh_node_id c = m"
      if "m \<in> set (nid # nids)" "map_of cs m \<noteq> map_of clients m" for m
      using that a(2,3) own other[of m] by (cases "m = nid"; cases "m \<in> set nids") (metis | auto)+
    moreover have "map_of cs m = map_of clients m" if "m \<notin> set (nid # nids)" for m
      using that a(2) other[of m] by simp
    ultimately show ?thesis using a(1) r(1) Inr by simp
  qed
qed simp

lemma fold_update_keys:
  "set (map fst (fold (\<lambda>n. AList.update (ni_node_id n) (ni_address n)) ns xs)) = ni_node_id ` set ns \<union> set (map fst xs)"
  by (induction ns arbitrary: xs) (auto simp: dom_update)

text \<open>
  The tasks start with every listed node that a channel can be built for, and always reach the own
  node directly.
\<close>

lemma recovery_resolver_own:
  assumes "recovery_resolver ep args (with_channels_per_addr n) (Inr nodes) = x"
  shows "\<exists>R. x = Some (Inr R) \<and> resolve R (ag_node_id args) = Inr OwnNode
    \<and> (\<forall>nid h. resolve R nid = Inr (RemoteNode h) \<longrightarrow> gh_node_id h = nid \<and> nid \<in> ni_node_id ` set nodes)"
proof -
  let ?addrs = "recovery_node_addrs (ag_node_id args) nodes"
  have keys: "set (map fst ?addrs) = ni_node_id ` set (filter (\<lambda>n. ni_node_id n \<noteq> ag_node_id args) nodes)"
    by (simp only: recovery_node_addrs_def fold_update_keys) simp
  let ?g0 = "\<lparr> gr_addresses = ?addrs, gr_node_resolver = NodeResolver_new [], gr_pool = with_channels_per_addr n, gr_tls = None \<rparr>"
  obtain cs g1 where m: "client_map ep (map fst ?addrs) ?g0 = (Some cs, g1)" "pool_wf (gr_pool g1)"
    by (rule client_map_ok[of ?g0 ep "map fst ?addrs"]) (simp_all add: with_channels_wf that)
  let ?g = "g1\<lparr> gr_node_resolver := cs \<rparr>"
  have new: "GrpcNodeResolver_new ep ?addrs (with_channels_per_addr n) None = (Some (), ?g)"
    using m(1) by (simp add: GrpcNodeResolver_new_def apply_addresses_def NodeResolver_update_def)
  obtain R g' where a: "add_remote_clients ep (map fst ?addrs) ?g [(ag_node_id args, OwnNode)] = (Some R, g')"
    "\<forall>nid. nid \<notin> set (map fst ?addrs) \<longrightarrow> map_of R nid = map_of [(ag_node_id args, OwnNode)] nid"
    "\<forall>nid \<in> set (map fst ?addrs). map_of R nid \<noteq> map_of [(ag_node_id args, OwnNode)] nid \<longrightarrow>
       (\<exists>c. map_of R nid = Some (RemoteNode c) \<and> gh_node_id c = nid)"
    using add_remote_clients_ok[of ?g ep "map fst ?addrs" "[(ag_node_id args, OwnNode)]"] m(2) by auto
  have "ag_node_id args \<notin> set (map fst ?addrs)" unfolding keys by auto
  with a(2) have own: "map_of R (ag_node_id args) = Some OwnNode" by simp
  have "gh_node_id h = nid \<and> nid \<in> ni_node_id ` set nodes" if "map_of R nid = Some (RemoteNode h)" for nid h
    using that a(2,3) own keys by (cases "nid \<in> set (map fst ?addrs)"; cases "nid = ag_node_id args") force+
  with own have "resolve R (ag_node_id args) = Inr OwnNode
    \<and> (\<forall>nid h. resolve R nid = Inr (RemoteNode h) \<longrightarrow> gh_node_id h = nid \<and> nid \<in> ni_node_id ` set nodes)"
    by (auto simp: resolve_def split: option.splits)
  moreover have "x = Some (Inr R)" using assms a(1) new by (simp add: recovery_resolver_def Let_def NodeResolver_new_def)
  ultimately show ?thesis by blast
qed

end
