(* ===== verification/Auditor.thy ===== *)
theory Auditor
  imports LedgerRecovery NodeRegistry
begin

text \<open>
  The life of an auditor around the handling of events that \<open>LedgerRecovery\<close> has:
  \<^verbatim>\<open>Auditor::run\<close> of \<^verbatim>\<open>recovery/auditor.rs\<close> takes a lease, starts the task that refreshes it, waits to be
  elected with it and then follows the node keys. The calls of etcd are those of \<open>lease_api\<close> and the
  ones added here. Sending a keep-alive and receiving its answer are separate calls in this task;
  \<open>el_message\<close> is \<open>MsgNone\<close> while the stream is open and no answer has arrived.
\<close>

datatype stream_message = MsgNone | MsgAnswer int | MsgEnd | MsgError string

record 'e election_api = "'e lease_api" +
  el_send :: "'e \<Rightarrow> int \<Rightarrow> (string + unit) \<times> 'e"
  el_message :: "'e \<Rightarrow> int \<Rightarrow> stream_message \<times> 'e"
  el_campaign :: "'e \<Rightarrow> string \<Rightarrow> string \<Rightarrow> int \<Rightarrow> (string + unit) \<times> 'e"
  el_watch :: "'e \<Rightarrow> string \<Rightarrow> (string + unit) \<times> 'e"

definition ELECTION_NAME :: string where "ELECTION_NAME = ''/folio/auditor/election''"

definition LEASE_TTL_SECS :: int where "LEASE_TTL_SECS = 30"


section \<open>The operations\<close>

definition acquire_lease :: "'e election_api \<Rightarrow> 'e \<Rightarrow> int result \<times> 'e" where
  "acquire_lease L s =
     (case le_grant L s LEASE_TTL_SECS of
        (Inl e, s1) \<Rightarrow> (Inl (Metadata (''auditor lease grant: '' @ e)), s1)
      | (Inr lease_id, s1) \<Rightarrow> (Inr lease_id, s1))"

text \<open>
  The task sleeps, sends a keep-alive and then takes answers off the stream as long as the stream
  gives one; a turn without an answer waits.
\<close>

datatype AuditorTask = AtSleeping | AtDraining | AtStopped


definition start_keepalive :: "'e election_api \<Rightarrow> int \<Rightarrow> 'e \<Rightarrow> AuditorTask result \<times> 'e" where
  "start_keepalive L lease_id s =
     (case le_keep_alive L s lease_id of
        (Inl e, s1) \<Rightarrow> (Inl (Metadata (''auditor keepalive init: '' @ e)), s1)
      | (Inr _, s1) \<Rightarrow> (Inr AtSleeping, s1))"

definition campaign_for_leadership :: "'e election_api \<Rightarrow> string \<Rightarrow> int \<Rightarrow> 'e \<Rightarrow> unit result \<times> 'e" where
  "campaign_for_leadership L node_id lease_id s =
     (case el_campaign L s ELECTION_NAME node_id lease_id of
        (Inl e, s1) \<Rightarrow> (Inl (Metadata (''auditor campaign: '' @ e)), s1)
      | (Inr _, s1) \<Rightarrow> (Inr (), s1))"

text \<open>
  The responses of the watch, up to its end or its error; each event comes with the metadata as it is
  when the event is handled.
\<close>

fun watch_responses ::
  "'m metadata_store \<Rightarrow> ('q \<Rightarrow> ReReplicationTask \<Rightarrow> 'q option) \<Rightarrow> (nat \<Rightarrow> nat \<Rightarrow> nat \<Rightarrow> u64)
   \<Rightarrow> (string + (watch_event \<times> 'm) list) list \<Rightarrow> 'q \<Rightarrow> unit result \<times> 'q" where
  "watch_responses M send clock [] q = (Inr (), q)"
| "watch_responses M send clock (Inl e # rs) q = (Inl (Metadata (''auditor watch stream: '' @ e)), q)"
| "watch_responses M send clock (Inr evs # rs) q =
     watch_responses M send clock rs (watch_node_events M send (clock (length rs)) evs q)"

text \<open>
  \<open>waits\<close> is what happens in the cluster between the steps: while the auditor waits for its election
  the task above takes its turns.
\<close>

definition auditor_run ::
  "'e election_api \<Rightarrow> 'm metadata_store \<Rightarrow> string \<Rightarrow> (int \<Rightarrow> AuditorTask \<Rightarrow> 'e \<Rightarrow> 'e)
   \<Rightarrow> ('q \<Rightarrow> ReReplicationTask \<Rightarrow> 'q option) \<Rightarrow> (nat \<Rightarrow> nat \<Rightarrow> nat \<Rightarrow> u64) \<Rightarrow> (string + (watch_event \<times> 'm) list) list
   \<Rightarrow> 'e \<Rightarrow> 'q \<Rightarrow> unit result \<times> 'e \<times> 'q" where
  "auditor_run L M node_id waits send clock responses s q =
     (case acquire_lease L s of
        (Inl e, s1) \<Rightarrow> (Inl e, s1, q)
      | (Inr lease_id, s1) \<Rightarrow>
          (case start_keepalive L lease_id s1 of
             (Inl e, s2) \<Rightarrow> (Inl e, s2, q)
           | (Inr task, s2) \<Rightarrow>
               (case campaign_for_leadership L node_id lease_id (waits lease_id task s2) of
                  (Inl e, s3) \<Rightarrow> (Inl e, s3, q)
                | (Inr _, s3) \<Rightarrow>
                    (case el_watch L s3 NODE_PREFIX of
                       (Inl e, s4) \<Rightarrow> (Inl (Metadata (''auditor watch setup: '' @ e)), s4, q)
                     | (Inr _, s4) \<Rightarrow>
                         (case watch_responses M send clock responses q of (r, q1) \<Rightarrow> (r, s4, q1))))))"


section \<open>The contract\<close>





section \<open>A reference instance\<close>






section \<open>The lease of an auditor\<close>



end
