(* ===== verification/NodeFlush.thy ===== *)
theory NodeFlush
  imports JournalClient
begin

text \<open>
  The flush loop of \<^verbatim>\<open>storage/lsmc/entry_cache.rs\<close> at work on a serving node. A turn of the loop
  appends a batch to the active entry segment, indexes it, updates the registry and may seal the
  segment and open the next one. The theory shows what a turn changes on disk, that the node stores
  the same entries afterwards, whether the turn succeeds or stops half way, and that a node keeps its
  contract along every interleaving of requests with turns of the loop.
\<close>


section \<open>What the loop relies on\<close>

text \<open>The segments in the registry of the loop.\<close>

definition flush_segments ::
  "'k db_api \<Rightarrow> ('k \<Rightarrow> string \<Rightarrow> bytes \<Rightarrow> bytes option) \<Rightarrow> flush_config \<Rightarrow> 'k \<Rightarrow> SegmentId \<Rightarrow> SegmentMeta option" where
  "flush_segments D kv cfg ks = seg_map D (kv ks (fc_entry_registry cfg))"

text \<open>A segment of the loop: a local file under the name of its id.\<close>

definition entry_segment :: "flush_config \<Rightarrow> SegmentId \<Rightarrow> SegmentMeta \<Rightarrow> bool" where
  "entry_segment cfg i meta \<longleftrightarrow> sm_status meta \<in> {Active, Local, Offloading}
     \<and> sm_local_path meta = Some (entry_seg_path (fc_entries_dir cfg) i)"

definition registered ::
  "'k db_api \<Rightarrow> ('k \<Rightarrow> string \<Rightarrow> bytes \<Rightarrow> bytes option) \<Rightarrow> flush_config \<Rightarrow> 'k \<Rightarrow> SegmentId \<Rightarrow> bool" where
  "registered D kv cfg ks n \<longleftrightarrow>
     seg_wf D (kv ks (fc_entry_registry cfg))
     \<and> (\<forall>i meta. flush_segments D kv cfg ks i = Some meta \<longrightarrow> i \<le> n \<and> entry_segment cfg i meta)"

definition writer_active ::
  "'k db_api \<Rightarrow> ('k \<Rightarrow> string \<Rightarrow> bytes \<Rightarrow> bytes option) \<Rightarrow> flush_config \<Rightarrow> 'k flush_state \<Rightarrow> bool" where
  "writer_active D kv cfg st \<longleftrightarrow>
     (\<exists>meta. flush_segments D kv cfg (fl_ks st) (ew_id (fl_writer st)) = Some meta \<and> sm_status meta = Active)"

text \<open>
  A batch that leaves the segment file below \<open>2\<^sup>6\<^sup>3\<close> bytes, whose records fit a block each, and none of
  whose entries has the id \<^verbatim>\<open>u64::MAX\<close>.
\<close>

definition batch_regular :: "(bytes \<Rightarrow> u32) \<Rightarrow> nat \<Rightarrow> (u64 \<times> u64 \<times> bytes) list \<Rightarrow> bool" where
  "batch_regular crc pos es \<longleftrightarrow> pos + length (batch_bytes crc es) + 8192 < 2 ^ 63
     \<and> (\<forall>(l, e, p) \<in> set es. 24 + length p \<le> BLOCK_SIZE \<and> e \<noteq> - 1)"

lemma batch_regular_fits: "batch_regular crc pos es \<Longrightarrow> batch_fits crc pos es"
  by (auto simp: batch_regular_def batch_fits_def BLOCK_SIZE_def)

lemma small_two_blocks: "unat (iv_length iv) \<le> BLOCK_SIZE \<Longrightarrow> two_blocks iv"
  using block_start_le(2)[of "iv_offset iv"] by (simp add: two_blocks_def)

text \<open>Entry segments and the files of the log have different suffixes.\<close>

lemma entry_not_log: "\<not> log_path cfg (entry_seg_path d i)"
proof -
  have "last (entry_seg_path d i) = CHR ''t''"
    by (simp add: entry_seg_path_def join_path_def seg_file_name_def)
  moreover have "last q = CHR ''g''" if "log_path cfg q" for q
    using that by (auto simp: log_path_def active_seg_path_def sealed_seg_path_def join_path_def seg_file_name_def)
  ultimately show ?thesis by force
qed


section \<open>What a turn changes\<close>

lemma write_batch_extends:
  assumes wb: "write_batch crc w f es outcome = (r, w', f')"
    and c: "map_of (fs_files f) (ew_path w) = Some c" and lc: "length c = unat (ew_file_offset w)"
    and fit: "batch_fits crc (length c) es"
  obtains x where "map_of (fs_files f') = (map_of (fs_files f))(ew_path w \<mapsto> c @ x)"
    and "length x \<le> length (padded_batch crc es)" and "fs_read_err f' = fs_read_err f"
    and "\<not> isl r \<Longrightarrow> es \<noteq> [] \<Longrightarrow> x = padded_batch crc es"
proof (cases "es = []")
  case True
  with wb c show thesis by (intro that[of "[]"]) (auto simp: write_batch_def)
next
  case False
  have pa: "push_all crc AlignedBuffer_new es = (\<lparr> ab_inner = batch_bytes crc es \<rparr>, batch_offsets 0 es)"
    by (simp add: push_all_eq AlignedBuffer_new_def)
  let ?x = "take (io_written outcome) (padded_batch crc es)"
  have f': "f' = fs_write_at f (ew_path w) (length c) ?x"
    using wb False lc padded_batch_eq(4)[OF fit] by (auto simp: write_batch_def pa Let_def split: if_splits io_write.splits)
  show thesis
  proof (rule that[of ?x])
    show "map_of (fs_files f') = (map_of (fs_files f))(ew_path w \<mapsto> c @ ?x)"
      using c by (auto simp: f' fs_write_at_def write_at_end fun_upd_idem)
    show "fs_read_err f' = fs_read_err f" by (simp add: f' fs_write_at_frame(2))
    show "?x = padded_batch crc es" if "\<not> isl r"
      using that wb False by (auto simp: write_batch_def pa Let_def split: if_splits io_write.splits)
  qed simp
qed

context db_laws
begin

lemma index_batch_new:
  assumes "index_batch D cfg seg ks sizes zs = (r, ks')" and dp: "distinct_partitions cfg"
    and "entry_locs D kv cfg ks' k = Some iv"
  shows "entry_locs D kv cfg ks k = Some iv
    \<or> (\<exists>p. ((fst k, snd k, p), (iv_offset iv, iv_length iv)) \<in> set zs \<and> iv_segment_id iv = seg)"
  using assms(1)
proof (induction zs arbitrary: ks sizes)
  case Nil
  with assms(3) show ?case by simp
next
  case (Cons z zs)
  obtain l e p off len where z: "z = ((l, e, p), (off, len))" by (metis prod.collapse)
  obtain x ks1 where i: "insert_location D (fc_entry_index cfg) ks l e seg off len = (x, ks1)" by force
  have d: "entry_locs D kv cfg (snd (delete_location D (fc_wal_index cfg) ks1 l e)) = entry_locs D kv cfg ks1"
    using delete_location_frame dp by (simp add: entry_locs_def distinct_partitions_def)
  show ?case
  proof (cases x)
    case (Inl err)
    with Cons.prems i have "ks' = ks1" by (simp add: z)
    with insert_location_err i Inl assms(3) show ?thesis by (auto simp: entry_locs_def)
  next
    case (Inr u)
    from Cons.IH[of "snd (delete_location D (fc_wal_index cfg) ks1 l e)"] Cons.prems i Inr
    consider (new) q where "((fst k, snd k, q), (iv_offset iv, iv_length iv)) \<in> set zs" "iv_segment_id iv = seg"
      | (old) "entry_locs D kv cfg ks1 k = Some iv" by (auto simp: z d)
    then show ?thesis
    proof cases
      case old
      then show ?thesis
        using insert_location_ok(1)[OF i[unfolded Inr]] by (auto simp: entry_locs_def z split: if_splits)
    qed auto
  qed
qed

lemma registered_mono: "registered D kv cfg ks n \<Longrightarrow> n \<le> m \<Longrightarrow> registered D kv cfg ks m"
  unfolding registered_def by (meson order.trans)

lemma upsert_registered:
  assumes up: "upsert D (fc_entry_registry cfg) ks (entry_meta i (entry_seg_path (fc_entries_dir cfg) i) len sizes) = (x, ks')"
    and reg: "registered D kv cfg ks n" and le: "n \<le> m" "i \<le> m"
  shows "registered D kv cfg ks' m" and "j \<noteq> i \<Longrightarrow> flush_segments D kv cfg ks' j = flush_segments D kv cfg ks j"
    and "\<not> isl x \<Longrightarrow> \<exists>meta. flush_segments D kv cfg ks' i = Some meta \<and> sm_status meta = Active"
proof -
  have mono: "registered D kv cfg ks m" by (rule registered_mono[OF reg le(1)])
  let ?m = "entry_meta i (entry_seg_path (fc_entries_dir cfg) i) len sizes"
  have new: "entry_segment cfg i ?m" "sm_id ?m = i" "sm_status ?m = Active" by (simp_all add: entry_segment_def entry_meta_def)
  have "registered D kv cfg ks' m \<and> (j \<noteq> i \<longrightarrow> flush_segments D kv cfg ks' j = flush_segments D kv cfg ks j)
    \<and> (\<not> isl x \<longrightarrow> (\<exists>meta. flush_segments D kv cfg ks' i = Some meta \<and> sm_status meta = Active))"
  proof (cases x)
    case (Inl err)
    with upsert_err up mono show ?thesis by (auto simp: registered_def flush_segments_def)
  next
    case (Inr u)
    note ok = upsert_ok[OF up[unfolded Inr]]
    show ?thesis using ok(1,3) mono new le(2) by (auto simp: registered_def flush_segments_def)
  qed
  then show "registered D kv cfg ks' m" and "j \<noteq> i \<Longrightarrow> flush_segments D kv cfg ks' j = flush_segments D kv cfg ks j"
    and "\<not> isl x \<Longrightarrow> \<exists>meta. flush_segments D kv cfg ks' i = Some meta \<and> sm_status meta = Active" by blast+
qed

lemma cas_local:
  assumes cs: "cas_status D (fc_entry_registry cfg) ks i a Local = (z, ks')" and reg: "registered D kv cfg ks n"
  obtains (same) "registered D kv cfg ks' n" "flush_segments D kv cfg ks' = flush_segments D kv cfg ks"
    | (local) meta where "registered D kv cfg ks' n" "flush_segments D kv cfg ks i = Some meta"
        "flush_segments D kv cfg ks' = (flush_segments D kv cfg ks)(i \<mapsto> meta\<lparr> sm_status := Local \<rparr>)"
proof -
  let ?R = "fc_entry_registry cfg" and ?segs = "flush_segments D kv cfg"
  have wf: "seg_wf D (kv ks ?R)" using reg by (simp add: registered_def)
  show thesis
  proof (cases z)
    case (Inl err)
    from cas_status_err[OF cs[unfolded Inl]] reg show thesis by (intro same) (simp_all add: registered_def flush_segments_def)
  next
    case (Inr swapped)
    note ok = cas_status_ok[OF cs[unfolded Inr] wf]
    show thesis
    proof (cases swapped)
      case True
      with ok(1,2) obtain meta where m: "?segs ks i = Some meta" "?segs ks' = (?segs ks)(i \<mapsto> meta\<lparr> sm_status := Local \<rparr>)"
        by (auto simp: flush_segments_def)
      with ok(4) reg have "registered D kv cfg ks' n" by (auto simp: registered_def entry_segment_def)
      with m show thesis by (intro local)
    next
      case False
      with ok(2) have "?segs ks' = ?segs ks" by (simp add: flush_segments_def)
      with ok(4) reg show thesis by (intro same) (simp_all add: registered_def)
    qed
  qed
qed

lemma seal_registered:
  assumes se: "seal_active_segment D cfg ks i sealed = (x, ks', y)" and reg: "registered D kv cfg ks n"
  shows "registered D kv cfg ks' n" and "j \<noteq> i \<Longrightarrow> flush_segments D kv cfg ks' j = flush_segments D kv cfg ks j"
    and "flush_segments D kv cfg ks i \<noteq> None \<Longrightarrow> flush_segments D kv cfg ks' i \<noteq> None"
proof -
  obtain z where cs: "cas_status D (fc_entry_registry cfg) ks i Active Local = (z, ks')"
    using se by (auto simp: seal_active_segment_def split: sum.splits prod.splits)
  show "registered D kv cfg ks' n" using cs reg by (cases rule: cas_local)
  show "j \<noteq> i \<Longrightarrow> flush_segments D kv cfg ks' j = flush_segments D kv cfg ks j" using cs reg by (cases rule: cas_local) auto
  show "flush_segments D kv cfg ks i \<noteq> None \<Longrightarrow> flush_segments D kv cfg ks' i \<noteq> None" using cs reg by (cases rule: cas_local) auto
qed

lemma open_registered:
  assumes op: "open_active_segment D cfg ks f i = (x, ks', f')" and reg: "registered D kv cfg ks n" and le: "n \<le> i"
  shows "registered D kv cfg ks' i" and "j \<noteq> i \<Longrightarrow> flush_segments D kv cfg ks' j = flush_segments D kv cfg ks j"
    and "\<not> isl x \<Longrightarrow> \<exists>meta. flush_segments D kv cfg ks' i = Some meta \<and> sm_status meta = Active"
    and "x = Inr w \<Longrightarrow> ew_id w = i"
proof -
  obtain y f1 where wc: "writer_create f (fc_entries_dir cfg) i = (y, f1)" by force
  have path: "ew_id w = i" "ew_path w = entry_seg_path (fc_entries_dir cfg) i" if "y = Inr w" for w
    using wc that by (auto simp: writer_create_def Let_def split: sum.splits prod.splits)
  show "x = Inr w \<Longrightarrow> ew_id w = i" using op wc path(1) by (auto simp: open_active_segment_def split: sum.splits prod.splits)
  have "registered D kv cfg ks' i \<and> (j \<noteq> i \<longrightarrow> flush_segments D kv cfg ks' j = flush_segments D kv cfg ks j)
    \<and> (\<not> isl x \<longrightarrow> (\<exists>meta. flush_segments D kv cfg ks' i = Some meta \<and> sm_status meta = Active))"
  proof (cases y)
    case (Inl err)
    with op wc have "ks' = ks" "isl x" by (auto simp: open_active_segment_def)
    with registered_mono[OF reg le] show ?thesis by simp
  next
    case (Inr w)
    obtain u ks1 where up: "upsert D (fc_entry_registry cfg) ks (entry_meta i (entry_seg_path (fc_entries_dir cfg) i) 0 []) = (u, ks1)" by force
    have "ks' = ks1" "isl x = isl u" using op wc Inr path(2)[OF Inr] up by (auto simp: open_active_segment_def split: sum.splits)
    with upsert_registered[OF up reg le order.refl] show ?thesis by blast
  qed
  then show "registered D kv cfg ks' i" and "j \<noteq> i \<Longrightarrow> flush_segments D kv cfg ks' j = flush_segments D kv cfg ks j"
    and "\<not> isl x \<Longrightarrow> \<exists>meta. flush_segments D kv cfg ks' i = Some meta \<and> sm_status meta = Active" by blast+
qed

lemma finish_registered:
  assumes ff: "flush_finish D cfg st = (r, st')" and reg: "registered D kv cfg (fl_ks st) (fl_next_seg_id st)"
    and id: "ew_id (fl_writer st) = fl_next_seg_id st" and nw: "fl_next_seg_id st \<noteq> - 1"
  shows "registered D kv cfg (fl_ks st') (fl_next_seg_id st')" and "r = Inr () \<Longrightarrow> writer_active D kv cfg st'"
    and "j \<notin> {fl_next_seg_id st, fl_next_seg_id st + 1} \<Longrightarrow>
      flush_segments D kv cfg (fl_ks st') j = flush_segments D kv cfg (fl_ks st) j"
    and "flush_segments D kv cfg (fl_ks st) (fl_next_seg_id st) \<noteq> None \<Longrightarrow>
      flush_segments D kv cfg (fl_ks st') (fl_next_seg_id st) \<noteq> None"
proof -
  let ?n = "fl_next_seg_id st" and ?w = "fl_writer st" and ?segs = "flush_segments D kv cfg"
  obtain u ks1 where up: "upsert D (fc_entry_registry cfg) (fl_ks st)
      (entry_meta ?n (entry_seg_path (fc_entries_dir cfg) ?n) (ew_file_offset ?w) (fl_ledger_sizes st)) = (u, ks1)" by force
  note r1 = upsert_registered[OF up reg order.refl order.refl]
  have n1: "?segs ks1 ?n \<noteq> None" if "?segs (fl_ks st) ?n \<noteq> None"
    using that r1(3) upsert_err up by (cases u) (auto simp: flush_segments_def)
  obtain u2 ks2 sealed where se: "seal_active_segment D cfg ks1 ?n (fl_sealed st) = (u2, ks2, sealed)" by (metis prod_cases3)
  note r2 = seal_registered[OF se r1(1)]
  obtain u3 ks3 f3 where op: "open_active_segment D cfg ks2 (fl_fs st) (?n + 1) = (u3, ks3, f3)" by (metis prod_cases3)
  have lt: "?n < ?n + 1" by (rule u64_less_plus1[OF nw])
  note r3 = open_registered[OF op r2(1) less_imp_le[OF lt]]
  consider (upsert) "isl r" "fl_ks st' = ks1" "fl_next_seg_id st' = ?n"
    | (keep) "\<not> isl u" "fl_ks st' = ks1" "fl_next_seg_id st' = ?n" "fl_writer st' = ?w"
    | (seal) "isl r" "fl_ks st' = ks2" "fl_next_seg_id st' = ?n"
    | (rotate) "fl_ks st' = ks3" "fl_next_seg_id st' = ?n + 1" "r = Inr () \<longrightarrow> u3 = Inr (fl_writer st')"
    using ff up se op by (auto simp: flush_finish_def Let_def id isl_def split: sum.splits if_splits)
  note cases = this
  show "registered D kv cfg (fl_ks st') (fl_next_seg_id st')" using cases r1(1) r2(1) r3(1) by cases auto
  show "?segs (fl_ks st') j = ?segs (fl_ks st) j" if "j \<notin> {?n, ?n + 1}"
    using cases that r1(2) r2(2) r3(2) by cases auto
  show "?segs (fl_ks st') ?n \<noteq> None" if "?segs (fl_ks st) ?n \<noteq> None"
    using cases n1[OF that] r2(3) r3(2)[of ?n] lt by cases auto
  show "writer_active D kv cfg st'" if "r = Inr ()"
    using cases
  proof cases
    case keep
    with r1(3) show ?thesis by (simp add: writer_active_def id)
  next
    case rotate
    then have "u3 = Inr (fl_writer st')" using that by simp
    moreover from this have "ew_id (fl_writer st') = ?n + 1" by (rule r3(4))
    ultimately show ?thesis using r3(3) rotate(1) by (simp add: writer_active_def)
  qed (use that in auto)
qed

lemma flush_registered:
  assumes it: "flush_iteration D crc ord cfg wo so during st = (r, st')"
    and reg: "registered D kv cfg (fl_ks st) (fl_next_seg_id st)" and wa: "writer_active D kv cfg st"
    and id: "ew_id (fl_writer st) = fl_next_seg_id st" and nw: "fl_next_seg_id st \<noteq> - 1"
    and p: "distinct [ix_locations (fc_entry_index cfg), ix_locations (fc_wal_index cfg), fc_entry_registry cfg]"
  shows "registered D kv cfg (fl_ks st') (fl_next_seg_id st')" and "r = Inr () \<Longrightarrow> writer_active D kv cfg st'"
    and "j \<notin> {fl_next_seg_id st, fl_next_seg_id st + 1} \<Longrightarrow>
      flush_segments D kv cfg (fl_ks st') j = flush_segments D kv cfg (fl_ks st) j"
    and "flush_segments D kv cfg (fl_ks st') (fl_next_seg_id st) \<noteq> None"
proof -
  obtain entries cache1 where dr: "drain_hot_to_warm ord (fl_cache st) = (entries, cache1)" by force
  obtain r1 w f1 where wb: "write_batch crc (fl_writer st) (fl_fs st) entries wo = (r1, w, f1)" by (metis prod_cases3)
  have w: "ew_id w = ew_id (fl_writer st)"
    using wb by (auto simp: write_batch_def Let_def split: if_splits io_write.splits prod.splits)
  have ib: "kv ks1 (fc_entry_registry cfg) = kv (fl_ks st) (fc_entry_registry cfg)"
    if "index_batch D cfg (ew_id w) (fl_ks st) (fl_ledger_sizes st) zs = (x, ks1)" for x ks1 zs
    by (rule index_batch_located(4)[OF _ that]) (use p in auto)
  have "registered D kv cfg (fl_ks st') (fl_next_seg_id st') \<and> (r = Inr () \<longrightarrow> writer_active D kv cfg st')
    \<and> (j \<notin> {fl_next_seg_id st, fl_next_seg_id st + 1} \<longrightarrow>
      flush_segments D kv cfg (fl_ks st') j = flush_segments D kv cfg (fl_ks st) j)
    \<and> flush_segments D kv cfg (fl_ks st') (fl_next_seg_id st) \<noteq> None"
    using it dr wb
  proof (cases rule: flush_iteration_cases)
    case (index offs ks1 err)
    with ib[OF index(4)] reg wa id w show ?thesis by (auto simp: registered_def writer_active_def flush_segments_def)
  next
    case (finish offs ks1 sizes)
    let ?mid = "st\<lparr> fl_cache := insert_all cache1 during, fl_writer := w, fl_fs := f1, fl_ks := ks1, fl_ledger_sizes := sizes \<rparr>"
    have ff: "flush_finish D cfg ?mid = (r, st')" using finish(4) by simp
    have seg: "flush_segments D kv cfg ks1 = flush_segments D kv cfg (fl_ks st)" by (simp add: flush_segments_def ib[OF finish(3)])
    have "registered D kv cfg (fl_ks ?mid) (fl_next_seg_id ?mid)" using reg by (simp add: registered_def seg ib[OF finish(3)])
    note fr = finish_registered[OF ff this]
    show ?thesis using fr(1-4) id w nw wa by (simp add: seg writer_active_def) blast
  qed (use reg wa id w in \<open>auto simp: writer_active_def isl_def\<close>)
  then show "registered D kv cfg (fl_ks st') (fl_next_seg_id st')" and "r = Inr () \<Longrightarrow> writer_active D kv cfg st'"
    and "j \<notin> {fl_next_seg_id st, fl_next_seg_id st + 1} \<Longrightarrow>
      flush_segments D kv cfg (fl_ks st') j = flush_segments D kv cfg (fl_ks st) j"
    and "flush_segments D kv cfg (fl_ks st') (fl_next_seg_id st) \<noteq> None" by blast+
qed

text \<open>
  The active file grows at its end, no other segment file changes but that of the next segment, and
  every location that is new leads to an intact record of an entry of the cache.
\<close>

definition fresh_record :: "(bytes \<Rightarrow> u32) \<Rightarrow> EntrySegmentCache \<Rightarrow> SegmentId \<Rightarrow> bytes \<Rightarrow> u64 \<times> u64 \<Rightarrow> IndexValue \<Rightarrow> bool" where
  "fresh_record crc cache seg c k iv \<longleftrightarrow>
     (\<exists>p. cache_get cache (fst k) (snd k) = Some p \<and> unat (iv_length iv) = 24 + length p \<and> 24 + length p \<le> BLOCK_SIZE
        \<and> iv_segment_id iv = seg \<and> rec_at crc c (unat (iv_offset iv)) (fst k) (snd k) p)"

lemma open_keeps_err: "open_active_segment D cfg ks f i = (x, ks', f') \<Longrightarrow> fs_read_err f' = fs_read_err f"
  using fs_open_create_frame(2)
  by (fastforce simp: open_active_segment_def writer_create_def Let_def split: sum.splits prod.splits)

lemma open_kv: "open_active_segment D cfg ks f i = (x, ks', f') \<Longrightarrow> q \<noteq> fc_entry_registry cfg \<Longrightarrow> kv ks' q = kv ks q"
  using upsert_frame[of q "fc_entry_registry cfg" ks]
  by (auto simp: open_active_segment_def split: sum.splits prod.splits) (metis snd_conv)+

lemma flush_finish_files:
  assumes ff: "flush_finish D cfg st = (r, st')" and dp: "distinct_partitions cfg"
  shows "q \<noteq> entry_seg_path (fc_entries_dir cfg) (fl_next_seg_id st + 1) \<Longrightarrow>
      map_of (fs_files (fl_fs st')) q = map_of (fs_files (fl_fs st)) q"
    and "entry_locs D kv cfg (fl_ks st') = entry_locs D kv cfg (fl_ks st)"
    and "fs_read_err (fl_fs st') = fs_read_err (fl_fs st)"
proof -
  show "q \<noteq> entry_seg_path (fc_entries_dir cfg) (fl_next_seg_id st + 1) \<Longrightarrow>
      map_of (fs_files (fl_fs st')) q = map_of (fs_files (fl_fs st)) q"
    using ff dp by (cases rule: flush_finish_cases) auto
  show "entry_locs D kv cfg (fl_ks st') = entry_locs D kv cfg (fl_ks st)"
    using ff dp by (cases rule: flush_finish_cases) auto
  show "fs_read_err (fl_fs st') = fs_read_err (fl_fs st)"
    using ff by (auto simp: flush_finish_def Let_def dest!: open_keeps_err split: sum.splits prod.splits if_splits)
qed

lemma batch_fresh:
  assumes inv: "flush_inv D kv crc cfg st" and ord: "is_drain_order ord"
    and dr: "drain_hot_to_warm ord (fl_cache st) = (es, cache1)" and ne: "es \<noteq> []"
    and wb: "write_batch crc (fl_writer st) (fl_fs st) es wo = (Inr offs, w, f1)"
    and breg: "batch_regular crc (length c) es" and lc: "length c = unat (ew_file_offset (fl_writer st))"
    and c: "map_of (fs_files (fl_fs st)) (ew_path (fl_writer st)) = Some c"
    and z: "((fst k, snd k, p), (iv_offset iv, iv_length iv)) \<in> set (zip es offs)" and seg: "iv_segment_id iv = seg"
  shows "fresh_record crc (fl_cache st) seg (c @ padded_batch crc es) k iv"
proof -
  have wf: "cache_wf (fl_cache st)" using inv unfolding flush_inv_def Let_def by blast
  have fit: "batch_fits crc (length c) es" using breg by (rule batch_regular_fits)
  note ok = write_batch_ok[OF wb ne c lc fit]
  have m: "(fst k, snd k, p) \<in> set es" using set_zip_leftD[OF z] .
  then have "cache_get (fl_cache st) (fst k) (snd k) = Some p"
    using drain_entries(1)[OF wf ord] dr by (auto simp: cache_get_def)
  moreover have "24 + length p \<le> BLOCK_SIZE" using m breg by (auto simp: batch_regular_def)
  moreover from batch_locations[OF fit z[unfolded ok(3)], of "[]"] lc
  have "rec_at crc (c @ padded_batch crc es) (unat (iv_offset iv)) (fst k) (snd k) p \<and> unat (iv_length iv) = 24 + length p" by simp
  ultimately show ?thesis using seg by (auto simp: fresh_record_def)
qed

lemma flush_effect:
  assumes inv: "flush_inv D kv crc cfg st" and dp: "distinct_partitions cfg" and ord: "is_drain_order ord"
    and it: "flush_iteration D crc ord cfg wo so [] st = (r, st')"
    and breg: "batch_regular crc (unat (ew_file_offset (fl_writer st))) (fst (drain_hot_to_warm ord (fl_cache st)))"
    and nw: "fl_next_seg_id st \<noteq> - 1"
  obtains c x where "map_of (fs_files (fl_fs st)) (entry_seg_path (fc_entries_dir cfg) (fl_next_seg_id st)) = Some c"
    and "length (c @ x) < 2 ^ 63" and "fs_read_err (fl_fs st') = fs_read_err (fl_fs st)"
    and "\<And>i. i \<noteq> fl_next_seg_id st + 1 \<Longrightarrow> map_of (fs_files (fl_fs st')) (entry_seg_path (fc_entries_dir cfg) i)
        = (if i = fl_next_seg_id st then Some (c @ x) else map_of (fs_files (fl_fs st)) (entry_seg_path (fc_entries_dir cfg) i))"
    and "\<And>k iv. entry_locs D kv cfg (fl_ks st') k = Some iv \<Longrightarrow> entry_locs D kv cfg (fl_ks st) k = Some iv
        \<or> fresh_record crc (fl_cache st) (fl_next_seg_id st) (c @ x) k iv"
proof -
  let ?n = "fl_next_seg_id st" and ?w = "fl_writer st" and ?d = "fc_entries_dir cfg"
  obtain es cache1 where dr: "drain_hot_to_warm ord (fl_cache st) = (es, cache1)" by force
  obtain r1 w f1 where wb: "write_batch crc ?w (fl_fs st) es wo = (r1, w, f1)" by (metis prod_cases3)
  from inv have path: "ew_path ?w = entry_seg_path ?d ?n" and id: "ew_id ?w = ?n" unfolding flush_inv_def Let_def by auto
  from inv obtain c where c: "map_of (fs_files (fl_fs st)) (ew_path ?w) = Some c" "length c = unat (ew_file_offset ?w)"
    unfolding flush_inv_def Let_def by blast
  have br: "batch_regular crc (length c) es" using breg by (simp add: dr c(2))
  note fit = batch_regular_fits[OF br]
  obtain x where x: "map_of (fs_files f1) = (map_of (fs_files (fl_fs st)))(ew_path ?w \<mapsto> c @ x)"
    "length x \<le> length (padded_batch crc es)" "fs_read_err f1 = fs_read_err (fl_fs st)"
    and full: "\<not> isl r1 \<Longrightarrow> es \<noteq> [] \<Longrightarrow> x = padded_batch crc es"
    by (rule write_batch_extends[OF wb c fit]) (rule that)
  have len: "length (c @ x) < 2 ^ 63"
    using x(2) padded_batch_eq(2)[OF fit] br by (simp add: batch_regular_def)
  have wid: "ew_id w = ?n" using write_batch_appends(2)[OF wb c] id by simp
  have fresh: "entry_locs D kv cfg (fl_ks st) k = Some iv \<or> fresh_record crc (fl_cache st) ?n (c @ x) k iv"
    if "es \<noteq> []" "r1 = Inr offs" "index_batch D cfg (ew_id w) (fl_ks st) (fl_ledger_sizes st) (zip es offs) = (y, ks1)"
      "entry_locs D kv cfg ks1 k = Some iv" for offs y ks1 k iv
  proof -
    have xp: "x = padded_batch crc es" using full that(1,2) by simp
    from index_batch_new[OF that(3) dp that(4), unfolded wid]
    consider (old) "entry_locs D kv cfg (fl_ks st) k = Some iv"
      | (new) p where "((fst k, snd k, p), (iv_offset iv, iv_length iv)) \<in> set (zip es offs)" "iv_segment_id iv = ?n" by blast
    then show ?thesis
    proof cases
      case (new p)
      from batch_fresh[OF inv ord dr that(1) wb[unfolded that(2)] br c(2,1) new] show ?thesis by (simp add: xp)
    qed simp
  qed
  show thesis using it dr wb
  proof (cases rule: flush_iteration_cases)
    case empty
    with c len show thesis by (intro that[of c "[]"]) (auto simp: path)
  next
    case stop
    show thesis by (rule that[of c x]) (use stop c x len path in auto)
  next
    case (index offs ks1 err)
    show thesis
      by (rule that[of c x]) (use index c x len path fresh[OF index(1,5,4)] in auto)
  next
    case (finish offs ks1 sizes)
    let ?mid = "st\<lparr> fl_cache := insert_all cache1 [], fl_writer := w, fl_fs := f1, fl_ks := ks1, fl_ledger_sizes := sizes \<rparr>"
    have ff: "flush_finish D cfg ?mid = (r, st')" using finish(4) by simp
    note kept = flush_finish_files[OF ff dp]
    show thesis
      by (rule that[of c x]) (use kept c x len path fresh[OF finish(1-3)] in auto)
  qed
qed

lemma flush_cache_get:
  assumes it: "flush_iteration D crc ord cfg wo so [] st = (r, st')" and wf: "cache_wf (fl_cache st)" and ord: "is_drain_order ord"
    and p: "distinct_partitions cfg" and g: "cache_get (fl_cache st') l e = Some p"
  shows "cache_get (fl_cache st) l e = Some p"
proof -
  obtain es cache1 where dr: "drain_hot_to_warm ord (fl_cache st) = (es, cache1)" by force
  obtain r1 w f1 where wb: "write_batch crc (fl_writer st) (fl_fs st) es wo = (r1, w, f1)" by (metis prod_cases3)
  have 1: "cache_get cache1 l e = cache_get (fl_cache st) l e" using drain_get[OF wf ord] by (simp add: dr)
  have ev: "cache_get (evict_warm c) l e = Some p \<Longrightarrow> cache_get c l e = Some p" for c
    by (auto simp: cache_get_def evict_warm_def split: option.splits)
  have q: "ix_locations (fc_entry_index cfg) \<noteq> fc_entry_registry cfg" using p by (simp add: distinct_partitions_def)
  show ?thesis using it dr wb
  proof (cases rule: flush_iteration_cases)
    case (finish offs ks1 sizes)
    from flush_finish_kv(2)[OF finish(4) q] g ev[of cache1] 1 show ?thesis by (auto simp: insert_all_def)
  qed (use g 1 in \<open>auto simp: insert_all_def\<close>)
qed

end


section \<open>A turn of the loop on a node\<close>

text \<open>The loop shares the key-value store, the file system and the cache with the node.\<close>

definition flushing :: "flush_config \<Rightarrow> 'k flush_state \<Rightarrow> ('k, 'c, 's) lsmc_backend \<Rightarrow> bool" where
  "flushing cfg st b \<longleftrightarrow> flushes cfg st b \<and> fl_fs st = js_fs (nl_journal b)
     \<and> fc_entry_registry cfg = tr_entry_registry (nl_reader b)"

definition flush_ready ::
  "'k db_api \<Rightarrow> ('k \<Rightarrow> string \<Rightarrow> bytes \<Rightarrow> bytes option) \<Rightarrow> (bytes \<Rightarrow> u32) \<Rightarrow> flush_config \<Rightarrow> 'k flush_state
   \<Rightarrow> ('k, 'c, 's) lsmc_backend \<Rightarrow> bool" where
  "flush_ready D kv crc cfg st b \<longleftrightarrow>
     flushing cfg st b \<and> flush_inv D kv crc cfg st \<and> registered D kv cfg (fl_ks st) (fl_next_seg_id st)
     \<and> writer_active D kv cfg st \<and> (\<forall>i. fs_read_err (fl_fs st) (entry_seg_path (fc_entries_dir cfg) i) = None)"

lemma flushing_maps:
  assumes "flushing cfg st b"
  shows "entry_loc D kv b = entry_locs D kv cfg (fl_ks st)" "segments D kv b = flush_segments D kv cfg (fl_ks st)"
    "nl_file b = map_of (fs_files (fl_fs st))" "nl_cache b = fl_cache st"
  using assms by (simp_all add: flushing_def flushes_def entry_loc_def entry_locs_def segments_def flush_segments_def)

lemma flushing_partitions:
  assumes "flushing cfg st b" and "node_partitions b"
  shows "distinct [ix_locations (fc_entry_index cfg), ix_locations (fc_wal_index cfg), fc_entry_registry cfg]" "distinct_partitions cfg"
  using assms by (auto simp: flushing_def flushes_def node_partitions_def distinct_partitions_def)

lemma flushing_after: "flushing cfg st b \<Longrightarrow> flushing cfg st' (after_flush b st')"
  by (auto simp: flushing_def flushes_def after_flush_def)

lemma flushing_content:
  assumes "flushing cfg st b" and "registered D kv cfg (fl_ks st) n"
  shows "segment_content D kv b i = (if flush_segments D kv cfg (fl_ks st) i = None then None
    else map_of (fs_files (fl_fs st)) (entry_seg_path (fc_entries_dir cfg) i))"
  using assms(2) flushing_maps(2)[OF assms(1), of D kv] flushing_maps(3)[OF assms(1)]
  by (auto simp: segment_content_def registered_def entry_segment_def)

text \<open>What is stored is what the loop calls visible.\<close>

lemma stored_visible:
  assumes f: "flushing cfg st b" and r: "registered D kv cfg (fl_ks st) n" and wf: "disk_wf D kv crc B b"
  shows "stored_payload D kv crc b k = Some p \<longleftrightarrow>
    entry_visible crc (fc_entries_dir cfg) (fl_fs st) (entry_locs D kv cfg (fl_ks st)) (fl_cache st) (fst k) (snd k) p"
proof (cases "cache_get (fl_cache st) (fst k) (snd k)")
  case (Some q)
  then show ?thesis by (auto simp: stored_payload_def entry_visible_def flushing_maps(4)[OF f])
next
  case None
  note m = flushing_maps(1)[OF f, of D kv] and cont = flushing_content[OF f r]
  have "disk_payload D kv crc b k = Some p \<longleftrightarrow> on_disk crc (fc_entries_dir cfg) (fl_fs st) (entry_locs D kv cfg (fl_ks st)) (fst k) (snd k) p"
  proof (cases "entry_loc D kv b k")
    case None
    then show ?thesis by (auto simp: disk_payload_def on_disk_def m)
  next
    case (Some iv)
    with wf obtain q where ok: "indexed_ok D kv crc b k iv q" unfolding disk_wf_def by blast
    then obtain c where c: "map_of (fs_files (fl_fs st)) (entry_seg_path (fc_entries_dir cfg) (iv_segment_id iv)) = Some c"
      "length c < 2 ^ 63" "rec_at crc c (unat (iv_offset iv)) (fst k) (snd k) q" "unat (iv_length iv) = 24 + length q"
      by (auto simp: indexed_ok_def cont split: if_splits)
    have "p = q" if "rec_at crc c (unat (iv_offset iv)) (fst k) (snd k) p" "unat (iv_length iv) = 24 + length p"
    proof -
      have "24 + length p < 2 ^ 32" "24 + length q < 2 ^ 32" using unat_u32_less[of "iv_length iv"] that(2) c(4) by simp_all
      then show ?thesis using rec_at_decode[OF that(1)] rec_at_decode[OF c(3)] c(2) by simp
    qed
    with indexed_payload[OF Some ok] Some c show ?thesis by (auto simp: on_disk_def m)
  qed
  with None show ?thesis by (simp add: stored_payload_def entry_visible_def flushing_maps(4)[OF f])
qed


context db_laws
begin

lemma flush_sealed_le:
  assumes rd: "flush_ready D kv crc cfg st b" and p: "node_partitions b" and nw: "fl_next_seg_id st \<noteq> - 1"
    and it: "flush_iteration D crc ord cfg wo so [] st = (r, st')"
    and files: "\<And>i. i \<notin> {fl_next_seg_id st, fl_next_seg_id st + 1} \<Longrightarrow>
      map_of (fs_files (fl_fs st')) (entry_seg_path (fc_entries_dir cfg) i)
        = map_of (fs_files (fl_fs st)) (entry_seg_path (fc_entries_dir cfg) i)"
  shows "sealed_content D kv b \<subseteq>\<^sub>m sealed_content D kv (after_flush b st')"
proof -
  let ?n = "fl_next_seg_id st"
  from rd have fl: "flushing cfg st b" and reg: "registered D kv cfg (fl_ks st) ?n" and wa: "writer_active D kv cfg st"
    and id: "ew_id (fl_writer st) = ?n" by (auto simp: flush_ready_def flush_inv_def Let_def)
  note fr = flush_registered[OF it reg wa id nw flushing_partitions(1)[OF fl p]]
  note fl' = flushing_after[OF fl, of st']
  note m = flushing_maps(2)[OF fl, of D kv] flushing_maps(2)[OF fl', of D kv] flushing_content[OF fl reg] flushing_content[OF fl' fr(1)]
  show ?thesis unfolding map_le_def
  proof
    fix i assume "i \<in> dom (sealed_content D kv b)"
    then obtain meta where meta: "flush_segments D kv cfg (fl_ks st) i = Some meta" "sm_status meta \<noteq> Active"
      by (auto simp: sealed_content_def m split: option.splits if_splits)
    from meta(1) reg have "i \<le> ?n" by (auto simp: registered_def)
    then have "i \<noteq> ?n + 1" using u64_less_plus1[OF nw] by auto
    moreover have "i \<noteq> ?n" using meta wa by (auto simp: writer_active_def id)
    ultimately have i: "i \<notin> {?n, ?n + 1}" by simp
    show "sealed_content D kv b i = sealed_content D kv (after_flush b st') i"
      unfolding sealed_content_def m fr(3)[OF i] files[OF i] by (rule refl)
  qed
qed

lemma flush_indexed_ok:
  assumes rd: "flush_ready D kv crc cfg st b" and p: "node_partitions b" and nw: "fl_next_seg_id st \<noteq> - 1"
    and it: "flush_iteration D crc ord cfg wo so [] st = (r, st')" and wf: "disk_wf D kv crc B b"
    and dec: "cache_decodes D (nl_cache b)"
    and c: "map_of (fs_files (fl_fs st)) (entry_seg_path (fc_entries_dir cfg) (fl_next_seg_id st)) = Some c"
    and len: "length (c @ x) < 2 ^ 63"
    and files: "\<And>i. i \<noteq> fl_next_seg_id st + 1 \<Longrightarrow> map_of (fs_files (fl_fs st')) (entry_seg_path (fc_entries_dir cfg) i)
        = (if i = fl_next_seg_id st then Some (c @ x) else map_of (fs_files (fl_fs st)) (entry_seg_path (fc_entries_dir cfg) i))"
    and locs: "entry_loc D kv b k = Some iv \<or> fresh_record crc (fl_cache st) (fl_next_seg_id st) (c @ x) k iv"
  shows "\<exists>q. indexed_ok D kv crc (after_flush b st') k iv q \<and> payload_of D k q"
proof -
  let ?n = "fl_next_seg_id st"
  from rd have fl: "flushing cfg st b" and reg: "registered D kv cfg (fl_ks st) ?n" and wa: "writer_active D kv cfg st"
    and id: "ew_id (fl_writer st) = ?n" and inv: "flush_inv D kv crc cfg st" by (auto simp: flush_ready_def flush_inv_def Let_def)
  note fr = flush_registered[OF it reg wa id nw flushing_partitions(1)[OF fl p]]
  note fl' = flushing_after[OF fl, of st']
  note cont = flushing_content[OF fl reg] and cont' = flushing_content[OF fl' fr(1)]
  have lt: "?n \<noteq> ?n + 1" using u64_less_plus1[OF nw] by auto
  have act: "segment_content D kv (after_flush b st') ?n = Some (c @ x)" using fr(4) files[OF lt] by (simp add: cont')
  from locs show ?thesis
  proof
    assume iv: "entry_loc D kv b k = Some iv"
    with wf obtain q where ok: "indexed_ok D kv crc b k iv q" and pq: "payload_of D k q" unfolding disk_wf_def by blast
    let ?i = "iv_segment_id iv"
    have le: "?i \<le> ?n" using flush_inv_old[OF inv] iv flushing_maps(1)[OF fl, of D kv] by simp
    have "indexed_ok D kv crc (after_flush b st') k iv q"
    proof (cases "?i = ?n")
      case True
      with ok c act len show ?thesis by (auto simp: indexed_ok_def cont split: if_splits intro: rec_at_append)
    next
      case False
      have ne: "?i \<noteq> ?n + 1" using le u64_less_plus1[OF nw] by auto
      have "segment_content D kv (after_flush b st') ?i = segment_content D kv b ?i"
        using False ne fr(3)[of ?i] files[OF ne] by (simp add: cont cont')
      with ok show ?thesis by (simp add: indexed_ok_def)
    qed
    with pq show ?thesis by blast
  next
    assume "fresh_record crc (fl_cache st) ?n (c @ x) k iv"
    then obtain q where q: "cache_get (fl_cache st) (fst k) (snd k) = Some q" "unat (iv_length iv) = 24 + length q"
      "24 + length q \<le> BLOCK_SIZE" "iv_segment_id iv = ?n" "rec_at crc (c @ x) (unat (iv_offset iv)) (fst k) (snd k) q"
      by (auto simp: fresh_record_def)
    have "payload_of D k q" using dec q(1) flushing_maps(4)[OF fl] by (cases k) (auto simp: cache_decodes_def)
    moreover have "indexed_ok D kv crc (after_flush b st') k iv q"
      using act len q small_two_blocks[of iv] by (simp add: indexed_ok_def)
    ultimately show ?thesis by blast
  qed
qed

lemma flush_ids:
  assumes rd: "flush_ready D kv crc cfg st b" and wf: "disk_wf D kv crc B b" and ord: "is_drain_order ord"
    and breg: "batch_regular crc (unat (ew_file_offset (fl_writer st))) (fst (drain_hot_to_warm ord (fl_cache st)))"
    and ck: "cached b k"
  shows "snd k \<noteq> - 1"
proof -
  from rd have fl: "flushing cfg st b" and inv: "flush_inv D kv crc cfg st" and cw: "cache_wf (fl_cache st)"
    by (auto simp: flush_ready_def flush_inv_def Let_def)
  obtain q where q: "cache_get (fl_cache st) (fst k) (snd k) = Some q"
    using ck flushing_maps(4)[OF fl] by (auto simp: cached_def cache_contains_get)
  show ?thesis
  proof (cases "map_of (ec_hot (fl_cache st)) k")
    case (Some v)
    then have "(fst k, snd k, v) \<in> set (fst (drain_hot_to_warm ord (fl_cache st)))"
      using drain_entries(1)[OF cw ord] by simp
    with breg show ?thesis by (auto simp: batch_regular_def)
  next
    case None
    then have "map_of (ec_warm (fl_cache st)) (fst k, snd k) = Some q" using q by (simp add: cache_get_def)
    then have "on_disk crc (fc_entries_dir cfg) (fl_fs st) (entry_locs D kv cfg (fl_ks st)) (fst k) (snd k) q"
      using inv unfolding flush_inv_def Let_def by blast
    then have "entry_loc D kv b k \<noteq> None" by (auto simp: on_disk_def flushing_maps(1)[OF fl])
    with wf show ?thesis unfolding disk_wf_def located_iff by blast
  qed
qed

lemma flush_visible:
  assumes rd: "flush_ready D kv crc cfg st b" and p: "node_partitions b" and nw: "fl_next_seg_id st \<noteq> - 1"
    and it: "flush_iteration D crc ord cfg wo so [] st = (r, st')" and wf: "disk_wf D kv crc B b" and ord: "is_drain_order ord"
    and breg: "batch_regular crc (unat (ew_file_offset (fl_writer st))) (fst (drain_hot_to_warm ord (fl_cache st)))"
    and q: "stored_payload D kv crc b k = Some q"
  shows "entry_visible crc (fc_entries_dir cfg) (fl_fs st') (entry_locs D kv cfg (fl_ks st')) (fl_cache st') (fst k) (snd k) q"
proof -
  from rd have fl: "flushing cfg st b" and reg: "registered D kv cfg (fl_ks st) (fl_next_seg_id st)" and inv: "flush_inv D kv crc cfg st"
    by (auto simp: flush_ready_def)
  show ?thesis
    using stored_visible[OF fl reg wf] q
    by (intro flush_iteration_visible(1)[OF inv flushing_partitions(2)[OF fl p] ord it batch_regular_fits[OF breg] nw]) simp_all
qed

lemma flush_disk_wf:
  assumes rd: "flush_ready D kv crc cfg st b" and p: "node_partitions b" and nw: "fl_next_seg_id st \<noteq> - 1"
    and it: "flush_iteration D crc ord cfg wo so [] st = (r, st')" and wf: "disk_wf D kv crc B b"
    and dec: "cache_decodes D (nl_cache b)" and ord: "is_drain_order ord"
    and breg: "batch_regular crc (unat (ew_file_offset (fl_writer st))) (fst (drain_hot_to_warm ord (fl_cache st)))"
  shows "disk_wf D kv crc B (after_flush b st')"
    and "\<forall>i. fs_read_err (fl_fs st') (entry_seg_path (fc_entries_dir cfg) i) = None"
proof -
  let ?n = "fl_next_seg_id st" and ?b = "after_flush b st'" and ?d = "fc_entries_dir cfg"
  from rd have fl: "flushing cfg st b" and reg: "registered D kv cfg (fl_ks st) ?n" and wa: "writer_active D kv cfg st"
    and id: "ew_id (fl_writer st) = ?n" and inv: "flush_inv D kv crc cfg st" and cw: "cache_wf (nl_cache b)"
    and err: "\<And>i. fs_read_err (fl_fs st) (entry_seg_path ?d i) = None"
    using flushing_maps(4)[of cfg st b] by (auto simp: flush_ready_def flush_inv_def Let_def)
  note dp = flushing_partitions[OF fl p] and fl' = flushing_after[OF fl, of st']
  note fr = flush_registered[OF it reg wa id nw dp(1)]
  have bg: "background D kv b ?b" using fl by (intro flush_background[OF p _ cw ord it]) (simp add: flushing_def)
  obtain c x where c: "map_of (fs_files (fl_fs st)) (entry_seg_path ?d ?n) = Some c" "length (c @ x) < 2 ^ 63"
    and re: "fs_read_err (fl_fs st') = fs_read_err (fl_fs st)"
    and files: "\<And>i. i \<noteq> ?n + 1 \<Longrightarrow> map_of (fs_files (fl_fs st')) (entry_seg_path ?d i)
        = (if i = ?n then Some (c @ x) else map_of (fs_files (fl_fs st)) (entry_seg_path ?d i))"
    and new: "\<And>k iv. entry_locs D kv cfg (fl_ks st') k = Some iv \<Longrightarrow> entry_locs D kv cfg (fl_ks st) k = Some iv
        \<or> fresh_record crc (fl_cache st) ?n (c @ x) k iv"
    by (rule flush_effect[OF inv dp(2) ord it breg nw]) (rule that)
  have found: "cached ?b k \<or> entry_loc D kv ?b k \<noteq> None" if "stored_payload D kv crc b k \<noteq> None" for k
    using that flush_visible[OF rd p nw it wf ord breg, of k] flushing_maps(1,4)[OF fl']
    by (auto simp: entry_visible_def on_disk_def cached_def cache_contains_get flushing_maps(1)[OF fl'] split: option.splits)
  have old: "stored_payload D kv crc b k \<noteq> None" if "located D kv ?b k" for k
    using bg that stored_payload_None[OF wf, of k] unfolding background_def by blast
  show err': "\<forall>i. fs_read_err (fl_fs st') (entry_seg_path ?d i) = None" using re err by simp
  have segs: "segments_ok D kv ?b"
    using fr(1) err' entry_not_log[of "nl_journal_cfg b" ?d] flushing_maps(2)[OF fl', of D kv]
    by (auto simp: segments_ok_def registered_def entry_segment_def after_flush_def)
  have ix: "\<exists>q. indexed_ok D kv crc ?b k iv q \<and> payload_of D k q" if "entry_loc D kv ?b k = Some iv" for k iv
    using new[of k iv] that flushing_maps(1)[OF fl, of D kv] flushing_maps(1)[OF fl', of D kv]
    by (intro flush_indexed_ok[OF rd p nw it wf dec c files]) simp_all
  have "sealed_content D kv b \<subseteq>\<^sub>m sealed_content D kv ?b"
    by (rule flush_sealed_le[OF rd p nw it]) (simp add: files)
  then have bl: "blocks_ok B content (nl_blocks b)" if "sealed_content D kv ?b \<subseteq>\<^sub>m content" for content
    using wf that map_le_trans unfolding disk_wf_def by blast
  have wal: "\<forall>k. wal_loc D kv ?b k \<noteq> None \<longrightarrow> cached ?b k \<or> entry_loc D kv ?b k \<noteq> None"
    using found old unfolding located_iff by blast
  have nid: "\<forall>k. located D kv ?b k \<longrightarrow> snd k \<noteq> - 1" using bg wf flush_ids[OF rd wf ord breg] unfolding background_def disk_wf_def by blast
  have names: "nl_reader ?b = nl_reader b" "nl_entry_index ?b = nl_entry_index b" "nl_wal_index ?b = nl_wal_index b"
    "nl_journal_cfg ?b = nl_journal_cfg b" "js_path (nl_journal ?b) = js_path (nl_journal b)" "nl_blocks ?b = nl_blocks b"
    by (simp_all add: after_flush_def)
  show "disk_wf D kv crc B ?b"
    using wf segs ix bl wal nid unfolding disk_wf_def names by blast
qed

lemma flush_stored:
  assumes rd: "flush_ready D kv crc cfg st b" and p: "node_partitions b" and nw: "fl_next_seg_id st \<noteq> - 1"
    and it: "flush_iteration D crc ord cfg wo so [] st = (r, st')" and wf: "disk_wf D kv crc B b"
    and dec: "cache_decodes D (nl_cache b)" and ord: "is_drain_order ord"
    and breg: "batch_regular crc (unat (ew_file_offset (fl_writer st))) (fst (drain_hot_to_warm ord (fl_cache st)))"
  shows "stored_payload D kv crc (after_flush b st') = stored_payload D kv crc b" and "background D kv b (after_flush b st')"
proof -
  let ?b = "after_flush b st'"
  from rd have fl: "flushing cfg st b" and reg: "registered D kv cfg (fl_ks st) (fl_next_seg_id st)" and wa: "writer_active D kv cfg st"
    and id: "ew_id (fl_writer st) = fl_next_seg_id st" and cw: "cache_wf (nl_cache b)"
    using flushing_maps(4)[of cfg st b] by (auto simp: flush_ready_def flush_inv_def Let_def)
  note fl' = flushing_after[OF fl, of st'] and fr = flush_registered[OF it reg wa id nw flushing_partitions(1)[OF fl p]]
  note wf' = flush_disk_wf(1)[OF rd p nw it wf dec ord breg]
  show bg: "background D kv b ?b" using fl by (intro flush_background[OF p _ cw ord it]) (simp add: flushing_def)
  show "stored_payload D kv crc ?b = stored_payload D kv crc b"
  proof
    fix k
    show "stored_payload D kv crc ?b k = stored_payload D kv crc b k"
    proof (cases "stored_payload D kv crc b k")
      case None
      then have "\<not> cached ?b k \<and> \<not> located D kv ?b k"
        using bg stored_payload_None[OF wf, of k] unfolding background_def by blast
      with None stored_payload_None[OF wf', of k] show ?thesis by simp
    next
      case (Some q)
      with flush_visible[OF rd p nw it wf ord breg] stored_visible[OF fl' fr(1) wf', of k q] show ?thesis by simp
    qed
  qed
qed

text \<open>One turn of the loop leaves a serving node serving, with the same entries.\<close>

lemma flush_serving:
  assumes A: "na_db A = D" and u: "serving A kv sv" and b: "sv_backend sv = Lsmc b"
    and rd: "flush_ready D kv (na_crc A) cfg st b" and ord: "is_drain_order ord" and nw: "fl_next_seg_id st \<noteq> - 1"
    and breg: "batch_regular (na_crc A) (unat (ew_file_offset (fl_writer st))) (fst (drain_hot_to_warm ord (fl_cache st)))"
    and it: "flush_iteration D (na_crc A) ord cfg wo so [] st = (r, st')"
  shows "serving A kv (sv\<lparr> sv_backend := Lsmc (after_flush b st') \<rparr>)"
    and "stored_entry A kv (sv\<lparr> sv_backend := Lsmc (after_flush b st') \<rparr>) = stored_entry A kv sv"
    and "r = Inr () \<Longrightarrow> flush_ready D kv (na_crc A) cfg st' (after_flush b st')"
proof -
  let ?b = "after_flush b st'"
  from u b have p: "node_partitions b" and wf: "disk_wf D kv (na_crc A) (na_blocks A) b" and dec: "cache_decodes D (nl_cache b)"
    and lw: "locs_wf D kv b" and hi: "\<And>k. cached b k \<Longrightarrow> covered D kv (sv_hi_entry sv) b k"
    by (auto simp: serving_def A)
  from rd have fl: "flushing cfg st b" and reg: "registered D kv cfg (fl_ks st) (fl_next_seg_id st)" and wa: "writer_active D kv cfg st"
    and id: "ew_id (fl_writer st) = fl_next_seg_id st" and inv: "flush_inv D kv (na_crc A) cfg st" and cw: "cache_wf (fl_cache st)"
    by (auto simp: flush_ready_def flush_inv_def Let_def)
  note dp = flushing_partitions[OF fl p] and w = flush_disk_wf[OF rd p nw it wf dec ord breg] and s = flush_stored[OF rd p nw it wf dec ord breg]
  have "cache_decodes D (nl_cache ?b)"
    using dec flush_cache_get[OF it cw ord dp(2)] flushing_maps(4)[OF fl] by (auto simp: cache_decodes_def after_flush_def)
  moreover have "node_partitions ?b" "locs_wf D kv ?b"
    using p lw s(2) same_names_partitions unfolding background_def by blast+
  moreover have "cached ?b k \<Longrightarrow> covered D kv (sv_hi_entry sv) ?b k" for k
    using s(2) hi[of k] unfolding background_def covered_def by blast
  ultimately show "serving A kv (sv\<lparr> sv_backend := Lsmc ?b \<rparr>)" using w(1) by (simp add: serving_def A del: split_paired_All)
  show "stored_entry A kv (sv\<lparr> sv_backend := Lsmc ?b \<rparr>) = stored_entry A kv sv"
    using s(1) by (intro ext) (simp add: stored_entry_def A b)
  note fr = flush_registered[OF it reg wa id nw dp(1)]
  show "flush_ready D kv (na_crc A) cfg st' ?b" if "r = Inr ()"
    using flush_iteration_visible(2)[OF inv dp(2) ord it batch_regular_fits[OF breg] nw that] fr(1,2) that w(2) flushing_after[OF fl]
    by (simp add: flush_ready_def)
qed

end


section \<open>The start of the loop\<close>

text \<open>
  Segments may appear, be sealed or change their status without harm to what is stored, as long as
  the files that were there keep their contents.
\<close>

lemma disk_wf_extend:
  assumes wf: "disk_wf D kv crc B b" and names: "same_names b b'" "nl_reader b' = nl_reader b" "nl_blocks b' = nl_blocks b"
      "js_path (nl_journal b') = js_path (nl_journal b)" "nl_cache b' = nl_cache b"
    and locs: "entry_loc D kv b' = entry_loc D kv b" "wal_loc D kv b' = wal_loc D kv b"
    and ok: "segments_ok D kv b'" and cont: "\<And>j c. segment_content D kv b j = Some c \<Longrightarrow> segment_content D kv b' j = Some c"
    and le: "sealed_content D kv b \<subseteq>\<^sub>m sealed_content D kv b'"
  shows "disk_wf D kv crc B b'" "stored_payload D kv crc b' = stored_payload D kv crc b"
proof -
  have loc: "located D kv b' = located D kv b" by (rule ext) (simp add: located_iff locs)
  have cc: "cached b' = cached b" by (rule cached_cong[OF names(5)])
  have ix: "indexed_ok D kv crc b' k iv p" if "indexed_ok D kv crc b k iv p" for k iv p
    using that cont by (auto simp: indexed_ok_def)
  have bl: "blocks_ok B content (nl_blocks b)" if "sealed_content D kv b' \<subseteq>\<^sub>m content" for content
    using wf map_le_trans[OF le that] unfolding disk_wf_def by blast
  have ex: "\<exists>p. indexed_ok D kv crc b' k iv p \<and> payload_of D k p" if "entry_loc D kv b k = Some iv" for k iv
    using wf that ix unfolding disk_wf_def by blast
  have n: "nl_journal_cfg b' = nl_journal_cfg b" "nl_entry_index b' = nl_entry_index b" "nl_wal_index b' = nl_wal_index b"
    using names(1) by (simp_all add: same_names_def)
  show "disk_wf D kv crc B b'"
    unfolding disk_wf_def locs loc cc n names(2-4)
  proof (intro conjI)
    show "\<forall>k iv. entry_loc D kv b k = Some iv \<longrightarrow> (\<exists>p. indexed_ok D kv crc b' k iv p \<and> payload_of D k p)" using ex by blast
    show "\<forall>content. sealed_content D kv b' \<subseteq>\<^sub>m content \<longrightarrow> blocks_ok B content (nl_blocks b)" using bl by blast
  qed (use ok wf[unfolded disk_wf_def] in blast)+
  have "disk_payload D kv crc b' k = disk_payload D kv crc b k" for k
  proof (cases "entry_loc D kv b k")
    case (Some iv)
    with wf obtain p where p: "indexed_ok D kv crc b k iv p" unfolding disk_wf_def by blast
    have "entry_loc D kv b' k = Some iv" using Some by (simp add: locs)
    from indexed_payload[OF this ix[OF p]] indexed_payload[OF Some p] show ?thesis by simp
  qed (simp add: disk_payload_def locs)
  then show "stored_payload D kv crc b' = stored_payload D kv crc b"
    by (intro ext) (simp add: stored_payload_def names(5) split: option.splits)
qed

text \<open>The loop is set up for the node, and the registry holds local entry segments only.\<close>

definition bootable ::
  "'k db_api \<Rightarrow> ('k \<Rightarrow> string \<Rightarrow> bytes \<Rightarrow> bytes option) \<Rightarrow> flush_config \<Rightarrow> ('k, 'c, 's) lsmc_backend \<Rightarrow> bool" where
  "bootable D kv cfg b \<longleftrightarrow>
     fc_entry_index cfg = nl_entry_index b \<and> fc_wal_index cfg = nl_wal_index b
     \<and> fc_entry_registry cfg = tr_entry_registry (nl_reader b)
     \<and> fc_entry_registry cfg \<notin> {ix_locations (nl_entry_index b), ix_locations (nl_wal_index b), ix_ledgers (nl_entry_index b)}
     \<and> registered D kv cfg (nl_ks b) (- 2) \<and> cache_wf (nl_cache b) \<and> ec_warm (nl_cache b) = []
     \<and> (\<forall>i. fs_read_err (js_fs (nl_journal b)) (entry_seg_path (fc_entries_dir cfg) i) = None)"

text \<open>The pass over the segments that a previous run left active or half way to the object store.\<close>

definition status_reset :: "SegmentMeta \<Rightarrow> SegmentMeta \<Rightarrow> bool" where
  "status_reset a b \<longleftrightarrow> sm_local_path b = sm_local_path a \<and> (sm_status a \<noteq> Active \<longrightarrow> sm_status b \<noteq> Active)"

definition reset_only ::
  "'k db_api \<Rightarrow> ('k \<Rightarrow> string \<Rightarrow> bytes \<Rightarrow> bytes option) \<Rightarrow> flush_config \<Rightarrow> 'k \<Rightarrow> 'k \<Rightarrow> bool" where
  "reset_only D kv cfg ks ks' \<longleftrightarrow> (\<forall>q. q \<noteq> fc_entry_registry cfg \<longrightarrow> kv ks' q = kv ks q)
     \<and> (\<forall>i. rel_option status_reset (flush_segments D kv cfg ks i) (flush_segments D kv cfg ks' i))"

lemma status_reset_refl [simp]: "status_reset a a"
  by (simp add: status_reset_def)

lemma reset_only_refl: "reset_only D kv cfg ks ks"
  by (simp add: reset_only_def option.rel_refl)

lemma reset_only_trans: "reset_only D kv cfg ks ks1 \<Longrightarrow> reset_only D kv cfg ks1 ks2 \<Longrightarrow> reset_only D kv cfg ks ks2"
proof -
  assume a: "reset_only D kv cfg ks ks1" and b: "reset_only D kv cfg ks1 ks2"
  have "rel_option status_reset x z" if "rel_option status_reset x y" "rel_option status_reset y z" for x y z
    using that by (cases x; cases y; cases z) (auto simp: status_reset_def)
  note step = this
  show ?thesis unfolding reset_only_def
  proof (intro conjI allI impI)
    fix i
    from a b have "rel_option status_reset (flush_segments D kv cfg ks i) (flush_segments D kv cfg ks1 i)"
      "rel_option status_reset (flush_segments D kv cfg ks1 i) (flush_segments D kv cfg ks2 i)" by (auto simp: reset_only_def)
    then show "rel_option status_reset (flush_segments D kv cfg ks i) (flush_segments D kv cfg ks2 i)" by (rule step)
  qed (use a b in \<open>simp add: reset_only_def\<close>)
qed

context db_laws
begin

lemma cas_reset:
  assumes reg: "registered D kv cfg ks n" and cs: "cas_status D (fc_entry_registry cfg) ks i from Local = (z, ks')"
  shows "registered D kv cfg ks' n \<and> reset_only D kv cfg ks ks'"
proof -
  have frame: "kv ks' q = kv ks q" if "q \<noteq> fc_entry_registry cfg" for q
    using cas_status_frame[OF that, of ks i "from" Local] cs by simp
  show ?thesis using cs reg
  proof (cases rule: cas_local)
    case same
    with frame show ?thesis by (simp add: reset_only_def option.rel_refl)
  next
    case (local meta)
    have "rel_option status_reset (flush_segments D kv cfg ks j) (flush_segments D kv cfg ks' j)" for j
      using local(2) by (simp add: local(3) option.rel_refl) (simp add: status_reset_def)
    with local(1) frame show ?thesis by (simp add: reset_only_def)
  qed
qed

lemma reset_orphans_keeps:
  assumes "registered D kv cfg ks n" and "reset_orphans D cfg from metas (ks, sealed) = (ks', sealed')"
  shows "registered D kv cfg ks' n \<and> reset_only D kv cfg ks ks'"
  using assms
proof (induction metas arbitrary: ks sealed)
  case Nil
  then show ?case by (simp add: reset_only_refl)
next
  case (Cons meta metas)
  obtain z ks1 where cs: "cas_status D (fc_entry_registry cfg) ks (sm_id meta) from Local = (z, ks1)" by force
  note c = cas_reset[OF Cons.prems(1) cs]
  show ?case
  proof (cases "sm_kind meta = EntryKind")
    case True
    with Cons.prems(2) cs have "reset_orphans D cfg from metas (ks1, Some (sm_id meta)) = (ks', sealed')" by simp
    from Cons.IH[OF conjunct1[OF c] this] c reset_only_trans[of D kv cfg ks ks1 ks'] show ?thesis by blast
  next
    case False
    with Cons show ?thesis by simp
  qed
qed

lemma reset_status_keeps:
  assumes "registered D kv cfg ks n" and "reset_status D cfg from (ks, sealed) = (ks', sealed')"
  shows "registered D kv cfg ks' n \<and> reset_only D kv cfg ks ks'"
  using assms reset_orphans_keeps[OF assms(1)] reset_only_refl
  by (auto simp: reset_status_def split: sum.splits)

text \<open>The next segment id lies above every registered one.\<close>

lemma next_seg_id_above:
  assumes "next_entry_seg_id D (fc_entry_registry cfg) ks f d = Inr i" and reg: "registered D kv cfg ks (- 2)"
    and "flush_segments D kv cfg ks j \<noteq> None"
  shows "j < i"
proof -
  from assms(1) obtain r where r: "max_id D (fc_entry_registry cfg) ks = Inr r"
    and i: "i = max (scan_next_entry_seg_id f d) (case r of None \<Rightarrow> 0 | Some i \<Rightarrow> i + 1)"
    by (auto simp: next_entry_seg_id_def split: sum.splits)
  from assms(3) obtain meta where "seg_map D (kv ks (fc_entry_registry cfg)) j = Some meta" by (auto simp: flush_segments_def)
  from max_id_bound[OF r _ this] reg obtain m where m: "r = Some m" "j \<le> m" by (auto simp: registered_def)
  have "m \<noteq> - 1"
  proof
    assume "m = - 1"
    with max_id_registered[OF r[unfolded m(1)]] reg obtain meta' where "flush_segments D kv cfg ks (- 1) = Some meta'"
      by (auto simp: registered_def flush_segments_def)
    with reg have "(- 1 :: u64) \<le> - 2" by (auto simp: registered_def)
    then have "(- 2 :: u64) = - 1" by (simp only: word_order.extremum_unique)
    then show False by simp
  qed
  from u64_less_plus1[OF this] m i show ?thesis by (auto simp: max_def)
qed

lemma flush_start_cases:
  assumes "flush_start D cfg ks f cache = Inr st" and reg: "registered D kv cfg ks (- 2)"
  obtains ks2 f0 i where "registered D kv cfg ks2 (- 2)" "reset_only D kv cfg ks ks2" "f0 = f\<lparr> fs_dirs := fs_dirs f0 \<rparr>"
    "next_entry_seg_id D (fc_entry_registry cfg) ks2 f0 (fc_entries_dir cfg) = Inr i"
    "open_active_segment D cfg ks2 f0 i = (Inr (fl_writer st), fl_ks st, fl_fs st)" "fl_cache st = cache" "fl_next_seg_id st = i"
proof -
  let ?f = "f\<lparr> fs_dirs := List.insert (fc_entries_dir cfg) (fs_dirs f) \<rparr>"
  obtain ks1 s1 where r1: "reset_status D cfg Active (ks, None) = (ks1, s1)" by force
  obtain ks2 s2 where r2: "reset_status D cfg Offloading (ks1, s1) = (ks2, s2)" by force
  note k1 = reset_status_keeps[OF reg r1] and k2 = reset_status_keeps[OF conjunct1[OF reset_status_keeps[OF reg r1]] r2]
  from assms(1) r1 r2 obtain i where i: "next_entry_seg_id D (fc_entry_registry cfg) ks2 ?f (fc_entries_dir cfg) = Inr i"
    and op: "open_active_segment D cfg ks2 ?f i = (Inr (fl_writer st), fl_ks st, fl_fs st)" "fl_cache st = cache" "fl_next_seg_id st = i"
    by (auto simp: flush_start_def Let_def split: sum.splits prod.splits)
  show thesis
    by (rule that[OF _ _ _ i op]) (use k1 k2 reset_only_trans in \<open>auto\<close>)
qed

text \<open>Opening the first segment touches one file, and that file belongs to no registered segment.\<close>

lemma start_disk:
  assumes bt: "bootable D kv cfg b" and st: "flush_start D cfg (nl_ks b) (js_fs (nl_journal b)) (nl_cache b) = Inr st"
    and p: "node_partitions b"
  shows "flushing cfg st (after_flush b st)" "registered D kv cfg (fl_ks st) (fl_next_seg_id st)" "writer_active D kv cfg st"
    and "fs_read_err (fl_fs st) = fs_read_err (js_fs (nl_journal b))"
    and "fl_writer st = \<lparr> ew_id = fl_next_seg_id st, ew_path = entry_seg_path (fc_entries_dir cfg) (fl_next_seg_id st), ew_file_offset = 0 \<rparr>"
    and "map_of (fs_files (fl_fs st)) (ew_path (fl_writer st)) = Some []" and "fl_cache st = nl_cache b"
    and "\<And>q. q \<noteq> fc_entry_registry cfg \<Longrightarrow> kv (fl_ks st) q = kv (nl_ks b) q"
    and "\<And>j meta. segments D kv b j = Some meta \<Longrightarrow> j < fl_next_seg_id st
      \<and> (\<exists>meta'. segments D kv (after_flush b st) j = Some meta' \<and> status_reset meta meta')
      \<and> segment_content D kv (after_flush b st) j = segment_content D kv b j"
proof -
  let ?f = "js_fs (nl_journal b)" and ?d = "fc_entries_dir cfg"
  from bt have reg: "registered D kv cfg (nl_ks b) (- 2)" and R: "fc_entry_registry cfg = tr_entry_registry (nl_reader b)"
    by (auto simp: bootable_def)
  obtain ks2 f0 i where k2: "registered D kv cfg ks2 (- 2)" "reset_only D kv cfg (nl_ks b) ks2" and f0: "f0 = ?f\<lparr> fs_dirs := fs_dirs f0 \<rparr>"
    and nx: "next_entry_seg_id D (fc_entry_registry cfg) ks2 f0 ?d = Inr i"
    and op: "open_active_segment D cfg ks2 f0 i = (Inr (fl_writer st), fl_ks st, fl_fs st)"
    and c: "fl_cache st = nl_cache b" and i: "fl_next_seg_id st = i"
    by (rule flush_start_cases[OF st reg]) (rule that)
  have above: "j < i" if "flush_segments D kv cfg ks2 j \<noteq> None" for j by (rule next_seg_id_above[OF nx k2(1) that])
  have r2: "registered D kv cfg ks2 i" using k2(1) above by (fastforce simp: registered_def)
  note o = open_registered[OF op r2 order.refl]
  have ff: "fs_files f0 = fs_files ?f" "fs_read_err f0 = fs_read_err ?f" by (subst f0, simp)+
  show fl: "flushing cfg st (after_flush b st)" using bt c by (auto simp: flushing_def flushes_def after_flush_def bootable_def)
  have dp: "distinct_partitions cfg" using bt p by (auto simp: bootable_def distinct_partitions_def node_partitions_def)
  note fr = open_active_segment_frame[OF op dp]
  show "registered D kv cfg (fl_ks st) (fl_next_seg_id st)" using o(1) by (simp add: i)
  show "fl_writer st = \<lparr> ew_id = fl_next_seg_id st, ew_path = entry_seg_path ?d (fl_next_seg_id st), ew_file_offset = 0 \<rparr>"
    "map_of (fs_files (fl_fs st)) (ew_path (fl_writer st)) = Some []" using fr(3)[OF refl] unfolding i by blast+
  then show "writer_active D kv cfg st" using o(3) by (simp add: writer_active_def i)
  show "fs_read_err (fl_fs st) = fs_read_err ?f" using open_keeps_err[OF op] ff(2) by simp
  show "fl_cache st = nl_cache b" by (rule c)
  show "kv (fl_ks st) q = kv (nl_ks b) q" if "q \<noteq> fc_entry_registry cfg" for q
    using open_kv[OF op that] k2(2) that by (simp add: reset_only_def)
  fix j meta assume m: "segments D kv b j = Some meta"
  then have m0: "flush_segments D kv cfg (nl_ks b) j = Some meta" by (simp add: segments_def flush_segments_def R)
  from k2(2) have "rel_option status_reset (flush_segments D kv cfg (nl_ks b) j) (flush_segments D kv cfg ks2 j)" by (simp add: reset_only_def)
  with m0 obtain meta' where m2: "flush_segments D kv cfg ks2 j = Some meta'" "status_reset meta meta'" by (cases "flush_segments D kv cfg ks2 j") auto
  have lt: "j < i" using above m2(1) by simp
  then have ne: "j \<noteq> i" by simp
  have m': "segments D kv (after_flush b st) j = Some meta'" using o(2)[OF ne] m2(1) flushing_maps(2)[OF fl, of D kv] by simp
  from m0 reg have path: "sm_local_path meta = Some (entry_seg_path ?d j)" by (auto simp: registered_def entry_segment_def)
  have "segment_content D kv (after_flush b st) j = segment_content D kv b j"
    using m m' m2(2) path ne fr(2)[of "entry_seg_path ?d j"] ff(1)
    by (simp add: segment_content_def status_reset_def after_flush_def)
  with lt m' m2(2) show "j < fl_next_seg_id st \<and> (\<exists>meta'. segments D kv (after_flush b st) j = Some meta' \<and> status_reset meta meta')
      \<and> segment_content D kv (after_flush b st) j = segment_content D kv b j" by (simp add: i)
qed

lemma flush_start_serving:
  assumes A: "na_db A = D" and u: "serving A kv sv" and b: "sv_backend sv = Lsmc b" and bt: "bootable D kv cfg b"
    and st: "flush_start D cfg (nl_ks b) (js_fs (nl_journal b)) (nl_cache b) = Inr st"
  shows "serving A kv (sv\<lparr> sv_backend := Lsmc (after_flush b st) \<rparr>)"
    and "stored_entry A kv (sv\<lparr> sv_backend := Lsmc (after_flush b st) \<rparr>) = stored_entry A kv sv"
    and "flush_ready D kv (na_crc A) cfg st (after_flush b st)"
proof -
  let ?b = "after_flush b st" and ?n = "fl_next_seg_id st"
  from u b have p: "node_partitions b" and wf: "disk_wf D kv (na_crc A) (na_blocks A) b" by (auto simp: serving_def A)
  note sd = start_disk[OF bt st p]
  have names: "same_names b ?b" "nl_reader ?b = nl_reader b" "nl_blocks ?b = nl_blocks b" "js_path (nl_journal ?b) = js_path (nl_journal b)"
    "nl_cache ?b = nl_cache b" using sd(7) by (simp_all add: after_flush_def same_names_def)
  have q: "fc_entry_registry cfg \<notin> {ix_locations (nl_entry_index b), ix_locations (nl_wal_index b), ix_ledgers (nl_entry_index b)}"
    and ei: "fc_entry_index cfg = nl_entry_index b" using bt by (auto simp: bootable_def)
  have ks: "kv (nl_ks ?b) x = kv (nl_ks b) x" if "x \<in> {ix_locations (nl_entry_index b), ix_locations (nl_wal_index b)}" for x
    using sd(8)[of x] q that by (auto simp: after_flush_def)
  have locs: "entry_loc D kv ?b = entry_loc D kv b" "wal_loc D kv ?b = wal_loc D kv b"
    using ks names(1) by (simp_all add: entry_loc_def wal_loc_def same_names_def)
  have err: "\<forall>i. fs_read_err (fl_fs st) (entry_seg_path (fc_entries_dir cfg) i) = None" using bt sd(4) by (simp add: bootable_def)
  have ok: "segments_ok D kv ?b"
    using sd(2) err entry_not_log[of "nl_journal_cfg b"] flushing_maps(2)[OF sd(1), of D kv]
    by (auto simp: segments_ok_def registered_def entry_segment_def after_flush_def)
  have cont: "segment_content D kv ?b j = Some c" if "segment_content D kv b j = Some c" for j c
    using that sd(9)[of j] by (auto simp: segment_content_def[of D kv b] split: Option.bind_splits)
  have le: "sealed_content D kv b \<subseteq>\<^sub>m sealed_content D kv ?b" unfolding map_le_def
  proof
    fix j assume "j \<in> dom (sealed_content D kv b)"
    then obtain meta where m: "segments D kv b j = Some meta" "sm_status meta \<noteq> Active"
      by (auto simp: sealed_content_def split: option.splits if_splits)
    with sd(9)[OF m(1)] show "sealed_content D kv b j = sealed_content D kv ?b j" by (auto simp: sealed_content_def status_reset_def)
  qed
  have x: "disk_wf D kv (na_crc A) (na_blocks A) ?b" "stored_payload D kv (na_crc A) ?b = stored_payload D kv (na_crc A) b"
    by (rule disk_wf_extend[OF wf names locs ok _ le], erule cont)+
  have cc: "cached ?b = cached b" by (rule cached_cong[OF names(5)])
  show "serving A kv (sv\<lparr> sv_backend := Lsmc ?b \<rparr>)"
    using u b x(1) same_names_partitions[OF names(1)] ks names(1,5)
    by (simp add: serving_def A cc locs_wf_def same_names_def covered_def located_iff locs del: split_paired_All)
  show "stored_entry A kv (sv\<lparr> sv_backend := Lsmc ?b \<rparr>) = stored_entry A kv sv"
    using x(2) by (intro ext) (simp add: stored_entry_def A b)
  have "iv_segment_id iv \<le> ?n" if iv: "entry_locs D kv cfg (fl_ks st) k = Some iv" for k iv
  proof -
    have "entry_loc D kv b k = Some iv" using iv locs(1) flushing_maps(1)[OF sd(1), of D kv] by simp
    with wf obtain c where "segment_content D kv b (iv_segment_id iv) = Some c" unfolding disk_wf_def indexed_ok_def by blast
    then obtain meta where "segments D kv b (iv_segment_id iv) = Some meta" by (auto simp: segment_content_def split: Option.bind_splits)
    from sd(9)[OF this] show ?thesis by (blast intro: less_imp_le)
  qed
  then have "flush_inv D kv (na_crc A) cfg st"
    using bt sd(5-7) by (simp add: flush_inv_def Let_def bootable_def)
  with sd(1-3) err show "flush_ready D kv (na_crc A) cfg st ?b" by (simp add: flush_ready_def)
qed

end


section \<open>Requests while the loop runs\<close>

text \<open>The state of the loop with the parts it shares with the node as they are now.\<close>

definition sync_flush :: "('k, 'c, 's) lsmc_backend \<Rightarrow> 'k flush_state \<Rightarrow> 'k flush_state" where
  "sync_flush b st = st\<lparr> fl_ks := nl_ks b, fl_fs := js_fs (nl_journal b), fl_cache := nl_cache b \<rparr>"

lemma sync_flush_simps [simp]:
  "fl_ks (sync_flush b st) = nl_ks b" "fl_fs (sync_flush b st) = js_fs (nl_journal b)" "fl_cache (sync_flush b st) = nl_cache b"
  "fl_writer (sync_flush b st) = fl_writer st" "fl_next_seg_id (sync_flush b st) = fl_next_seg_id st"
  "sync_flush b (sync_flush b' st) = sync_flush b st"
  by (simp_all add: sync_flush_def)

lemma sync_flush_same: "flushing cfg st b \<Longrightarrow> sync_flush b st = st"
  by (cases st) (simp add: sync_flush_def flushing_def flushes_def)

text \<open>A request that leaves the disk alone and does not touch the warm entries leaves the loop ready.\<close>

lemma ready_kept:
  assumes rd: "flush_ready D kv crc cfg (sync_flush b st) b" and d: "disk_same D kv b b'"
    and c: "nl_cache b' = nl_cache b \<or> (\<exists>l e p. nl_cache b' = cache_insert (nl_cache b) l e p)"
  shows "flush_ready D kv crc cfg (sync_flush b' st) b'"
proof -
  let ?s = "sync_flush b st" and ?t = "sync_flush b' st"
  from rd have fl: "flushing cfg ?s b" and inv: "flush_inv D kv crc cfg ?s" by (auto simp: flush_ready_def)
  then have q: "fc_entry_index cfg = nl_entry_index b" "fc_entry_registry cfg = tr_entry_registry (nl_reader b)"
    by (auto simp: flushing_def flushes_def)
  have fl': "flushing cfg ?t b'" using fl d by (auto simp: flushing_def flushes_def disk_same_def same_names_def)
  have fi: "map_of (fs_files (fl_fs ?t)) (entry_seg_path x i) = map_of (fs_files (fl_fs ?s)) (entry_seg_path x i)" for x i
    using d entry_not_log by (simp add: disk_same_def)
  have locs: "entry_locs D kv cfg (fl_ks ?t) = entry_locs D kv cfg (fl_ks ?s)" using d by (simp add: entry_locs_def q disk_same_def)
  have reg: "kv (fl_ks ?t) (fc_entry_registry cfg) = kv (fl_ks ?s) (fc_entry_registry cfg)" using d by (simp add: q disk_same_def)
  have od: "on_disk crc (fc_entries_dir cfg) (fl_fs ?t) = on_disk crc (fc_entries_dir cfg) (fl_fs ?s)"
    by (intro ext) (simp only: on_disk_def fi)
  have cw: "cache_wf (nl_cache b')" "ec_warm (nl_cache b') = ec_warm (nl_cache b)"
    using c inv by (auto simp: flush_inv_def Let_def)
  have path: "ew_path (fl_writer st) = entry_seg_path (fc_entries_dir cfg) (ew_id (fl_writer st))"
    using inv by (simp add: flush_inv_def Let_def)
  have "flush_inv D kv crc cfg ?t"
    using inv cw unfolding flush_inv_def Let_def locs od sync_flush_simps(3-5) path fi by auto
  then show ?thesis
    using rd fl' d unfolding flush_ready_def registered_def writer_active_def flush_segments_def reg
    by (simp add: disk_same_def)
qed

lemma ready_blocks: "flush_ready D kv crc cfg st (b\<lparr> nl_blocks := bc \<rparr>) = flush_ready D kv crc cfg st b"
  by (simp add: flush_ready_def flushing_def flushes_def)

context db_laws
begin

lemma add_entry_ready:
  assumes A: "na_db A = D" and u: "serving A kv sv" and b: "sv_backend sv = Lsmc b" and a: "add_entry A env e sv = (r, sv')"
    and rd: "flush_ready D kv crc cfg (sync_flush b st) b"
  shows "\<exists>b'. sv_backend sv' = Lsmc b' \<and> flush_ready D kv crc cfg (sync_flush b' st) b'"
proof (cases "add_check (na_crc A) e sv")
  case (Inl x)
  with a b rd show ?thesis by (auto simp: add_entry_def)
next
  case (Inr v)
  with a have a': "add_rest A env e sv = (r, sv')" by (simp add: add_entry_def)
  from u b have p: "node_partitions b" and wf: "disk_wf D kv (na_crc A) (na_blocks A) b" by (auto simp: serving_def A)
  obtain w1 sv1 where lw: "lsmc_write A env e b sv = (w1, sv1)" by force
  obtain b' where b': "sv_backend sv1 = Lsmc b'"
    and new: "w1 = Inr True \<longrightarrow> \<not> cached b (e_ledger_id e, e_entry_id e) \<and> \<not> located D kv b (e_ledger_id e, e_entry_id e)
        \<and> sv_hi_entry sv1 = raise_to (e_ledger_id e) (e_entry_id e) (sv_hi_entry sv)
        \<and> (\<exists>payload. bc_ser_se D \<lparr> se_entry = e, se_appended_at_ms = ae_now env \<rparr> = Inr payload
             \<and> nl_cache b' = cache_insert (nl_cache b) (e_ledger_id e) (e_entry_id e) payload)"
    and old: "w1 \<noteq> Inr True \<longrightarrow> nl_cache b' = nl_cache b \<and> sv_hi_entry sv1 = sv_hi_entry sv"
    by (rule lsmc_write_effect[OF A p lw]) (rule that)
  note d = lsmc_write_disk[OF A lw b' p wf]
  have "sv_backend sv' = Lsmc b'"
    using a' lw b b' by (auto simp: add_rest_def add_write_def add_finish_def Let_def split: sum.splits bool.splits)
  moreover have "nl_cache b' = nl_cache b \<or> (\<exists>l e p. nl_cache b' = cache_insert (nl_cache b) l e p)" using new old by blast
  ultimately show ?thesis using ready_kept[OF rd d] by blast
qed

lemma fence_ready:
  assumes A: "na_db A = D" and u: "serving A kv sv" and b: "sv_backend sv = Lsmc b" and f: "fence_ledger A l sv = (r, sv')"
    and rd: "flush_ready D kv crc cfg (sync_flush b st) b"
  shows "\<exists>b'. sv_backend sv' = Lsmc b' \<and> flush_ready D kv crc cfg (sync_flush b' st) b'"
proof -
  from u b have p: "node_partitions b" and wf: "disk_wf D kv (na_crc A) (na_blocks A) b" by (auto simp: serving_def A)
  obtain r1 ks1 where pf: "persist_fence D (nl_entry_index b) l (nl_ks b) = (r1, ks1)" by force
  have b': "sv_backend sv' = Lsmc (nl_set_ks ks1 b)" using f b pf by (auto simp: fence_ledger_def A Let_def split: sum.splits)
  have "nl_cache (nl_set_ks ks1 b) = nl_cache b" by (simp add: nl_set_ks_def)
  with b' ready_kept[OF rd fence_disk[OF A f b b' p wf]] show ?thesis by auto
qed

lemma read_ready:
  assumes "node_read_entry A l i sv = (r, sv')" and "sv_backend sv = Lsmc b"
    and rd: "flush_ready D kv crc cfg (sync_flush b st) b"
  shows "\<exists>b'. sv_backend sv' = Lsmc b' \<and> flush_ready D kv crc cfg (sync_flush b' st) b'"
proof -
  have "sv' = sv \<or> (\<exists>bc. sv' = sv\<lparr> sv_backend := Lsmc (b\<lparr> nl_blocks := bc \<rparr>) \<rparr>)"
    using assms(1,2) by (auto simp: node_read_entry_def split: option.splits prod.splits sum.splits)
  moreover have "sync_flush (b\<lparr> nl_blocks := bc \<rparr>) st = sync_flush b st" for bc by (simp add: sync_flush_def)
  ultimately show ?thesis using assms(2) rd by (auto simp: ready_blocks)
qed

end


section \<open>The store a node implements\<close>

text \<open>
  What a caller sees of a node: a store in which the first entry under an id stays, and a set of
  fenced ledgers that take no more entries.
\<close>

datatype node_event =
    Acked Entry
  | Got "u64 \<times> u64" Entry
  | Fenced u64 u64
  | FenceError u64
  | Silent

type_synonym node_store = "(u64 \<times> u64 \<Rightarrow> Entry option) \<times> u64 set"

definition put_first :: "Entry \<Rightarrow> (u64 \<times> u64 \<Rightarrow> Entry option) \<Rightarrow> u64 \<times> u64 \<Rightarrow> Entry option" where
  "put_first e m = (if m (ids_of e) = None then m(ids_of e \<mapsto> e) else m)"

inductive store_step :: "node_store \<Rightarrow> node_event \<Rightarrow> node_store \<Rightarrow> bool" where
  st_ack: "e_ledger_id e \<notin> F \<Longrightarrow> store_step (m, F) (Acked e) (put_first e m, F)"
| st_got: "m k = Some e \<Longrightarrow> store_step (m, F) (Got k e) (m, F)"
| st_fence: "(\<And>i. m (l, i) \<noteq> None \<Longrightarrow> i \<le> h) \<Longrightarrow> store_step (m, F) (Fenced l h) (m, insert l F)"
| st_fence_kept: "store_step (m, F) (FenceError l) (m, F)"
| st_fence_set: "store_step (m, F) (FenceError l) (m, insert l F)"
| st_silent: "store_step (m, F) Silent (m, F)"

inductive_cases store_ackE: "store_step s (Acked e) t"

inductive store_run :: "node_store \<Rightarrow> node_event list \<Rightarrow> node_store \<Rightarrow> bool" for s where
  store_start: "store_run s [] s"
| store_next: "store_run s tr t \<Longrightarrow> store_step t ev u \<Longrightarrow> store_run s (tr @ [ev]) u"

text \<open>
  What every run of the store guarantees: entries are never lost or replaced, fences are never
  lifted, an acknowledged entry's id is taken, and the ledger of a fence gets no entry after it.
\<close>

lemma put_first_le: "m \<subseteq>\<^sub>m put_first e m"
  by (auto simp: put_first_def map_le_def)

lemma store_step_mono: "store_step s ev t \<Longrightarrow> fst s \<subseteq>\<^sub>m fst t \<and> snd s \<subseteq> snd t"
  by (cases rule: store_step.cases) (auto simp: put_first_le)

lemma store_run_mono: "store_run s tr t \<Longrightarrow> fst s \<subseteq>\<^sub>m fst t \<and> snd s \<subseteq> snd t"
proof (induction rule: store_run.induct)
  case (store_next tr t ev u)
  with store_step_mono[OF store_next(2)] map_le_trans show ?case by blast
qed simp

lemma store_run_acked: "store_run s tr t \<Longrightarrow> Acked e \<in> set tr \<Longrightarrow> fst t (ids_of e) \<noteq> None"
proof (induction rule: store_run.induct)
  case (store_next tr t ev u)
  show ?case
  proof (cases "ev = Acked e")
    case True
    with store_next(2) have "store_step t (Acked e) u" by simp
    then show ?thesis by (rule store_ackE) (auto simp: put_first_def)
  next
    case False
    with store_next have "ids_of e \<in> dom (fst t)" by (simp add: domIff)
    with store_step_mono[OF store_next(2)] have "fst u (ids_of e) = fst t (ids_of e)" unfolding map_le_def by auto
    with \<open>ids_of e \<in> dom (fst t)\<close> show ?thesis by (simp add: domIff)
  qed
qed simp


section \<open>Requests and turns of the loop, interleaved\<close>

text \<open>
  A node with its flush thread. A turn works on the current state of the node; a turn that fails
  ends the thread for good, as in \<^verbatim>\<open>flush_loop\<close>, whose errors \<^verbatim>\<open>spawn_flush_loop\<close> only logs. The
  outcomes of the disk, the order in which the cache is drained and the environment of an append are
  arbitrary; the batches are regular and the segment ids do not run out.
\<close>

inductive node_run ::
  "('k, 'c, 's, 'j, 'i) node_api \<Rightarrow> flush_config \<Rightarrow> ('k, 'c, 's, 'j, 'i) JournalService \<times> 'k flush_state option
   \<Rightarrow> node_event list \<Rightarrow> ('k, 'c, 's, 'j, 'i) JournalService \<times> 'k flush_state option \<Rightarrow> bool"
  for A cfg s where
  nr_start: "node_run A cfg s [] s"
| nr_add: "node_run A cfg s tr (sv, fl) \<Longrightarrow> entry_wf e \<Longrightarrow> add_entry A env e sv = (r, sv') \<Longrightarrow>
    ev = (if isl r then Silent else Acked e) \<Longrightarrow> node_run A cfg s (tr @ [ev]) (sv', fl)"
| nr_fence: "node_run A cfg s tr (sv, fl) \<Longrightarrow> fence_ledger A l sv = (r, sv') \<Longrightarrow>
    ev = (case r of Inl _ \<Rightarrow> FenceError l | Inr h \<Rightarrow> Fenced l h) \<Longrightarrow> node_run A cfg s (tr @ [ev]) (sv', fl)"
| nr_read: "node_run A cfg s tr (sv, fl) \<Longrightarrow> node_read_entry A l i sv = (r, sv') \<Longrightarrow>
    ev = (case r of Inl _ \<Rightarrow> Silent | Inr rr \<Rightarrow> Got (l, i) (rr_entry rr)) \<Longrightarrow> node_run A cfg s (tr @ [ev]) (sv', fl)"
| nr_flush: "node_run A cfg s tr (sv, Some st) \<Longrightarrow> sv_backend sv = Lsmc b \<Longrightarrow>
    flush_iteration (na_db A) (na_crc A) ord cfg wo so [] (sync_flush b st) = (r, st') \<Longrightarrow>
    is_drain_order ord \<Longrightarrow> fl_next_seg_id st \<noteq> - 1 \<Longrightarrow>
    batch_regular (na_crc A) (unat (ew_file_offset (fl_writer st))) (fst (drain_hot_to_warm ord (nl_cache b))) \<Longrightarrow>
    fl' = (if isl r then None else Some st') \<Longrightarrow>
    node_run A cfg s (tr @ [Silent]) (sv\<lparr> sv_backend := Lsmc (after_flush b st') \<rparr>, fl')"

text \<open>Such a node is a run of the store it implements.\<close>

definition loop_ready ::
  "'k db_api \<Rightarrow> ('k \<Rightarrow> string \<Rightarrow> bytes \<Rightarrow> bytes option) \<Rightarrow> (bytes \<Rightarrow> u32) \<Rightarrow> flush_config
   \<Rightarrow> ('k, 'c, 's, 'j, 'i) JournalService \<times> 'k flush_state option \<Rightarrow> bool" where
  "loop_ready D kv crc cfg s \<longleftrightarrow>
     (\<forall>st. snd s = Some st \<longrightarrow> (\<exists>b. sv_backend (fst s) = Lsmc b \<and> flush_ready D kv crc cfg (sync_flush b st) b))"

lemma loop_ready_step:
  assumes "loop_ready D kv crc cfg (sv, fl)"
    and "\<And>b st. sv_backend sv = Lsmc b \<Longrightarrow> flush_ready D kv crc cfg (sync_flush b st) b \<Longrightarrow>
      \<exists>b'. sv_backend sv' = Lsmc b' \<and> flush_ready D kv crc cfg (sync_flush b' st) b'"
  shows "loop_ready D kv crc cfg (sv', fl)"
  using assms unfolding loop_ready_def fst_conv snd_conv by blast

lemma fence_ledger_fences:
  assumes "fence_ledger A l sv = (r, sv')"
  shows "\<not> isl r \<Longrightarrow> sv_fences sv' = insert l (sv_fences sv)" and "sv_fences sv' \<in> {sv_fences sv, insert l (sv_fences sv)}"
  using assms by (auto simp: fence_ledger_def Let_def split: Backend.splits prod.splits sum.splits)

lemma add_step:
  assumes N: "journal_node D kv A" and u: "serving A kv sv" and w: "entry_wf e" and a: "add_entry A env e sv = (r, sv')"
  shows "serving A kv sv'" and "store_step (stored_entry A kv sv, sv_fences sv) (if isl r then Silent else Acked e)
      (stored_entry A kv sv', sv_fences sv')"
proof -
  have "nc_add (journal_client A (\<lambda>_ _. env)) e sv = (r, sv')" using a by (simp add: journal_client_def)
  note c = journal_node.client_add[OF N u w this]
  from c show "serving A kv sv'" by blast
  have s: "stored_entry A kv sv' = (if isl r then stored_entry A kv sv else put_first e (stored_entry A kv sv))"
    "sv_fences sv' = sv_fences sv" using c by (auto simp: put_first_def)
  have "\<not> isl r \<Longrightarrow> e_ledger_id e \<notin> sv_fences sv" using c by blast
  then show "store_step (stored_entry A kv sv, sv_fences sv) (if isl r then Silent else Acked e)
      (stored_entry A kv sv', sv_fences sv')" unfolding s by (cases "isl r") (simp_all add: st_silent st_ack)
qed

lemma fence_step:
  assumes N: "journal_node D kv A" and u: "serving A kv sv" and f: "fence_ledger A l sv = (r, sv')"
  shows "serving A kv sv'" and "store_step (stored_entry A kv sv, sv_fences sv) (case r of Inl _ \<Rightarrow> FenceError l | Inr h \<Rightarrow> Fenced l h)
      (stored_entry A kv sv', sv_fences sv')"
proof -
  have "nc_fence (journal_client A env) l sv = (r, sv')" for env using f by (simp add: journal_client_def)
  note c = journal_node.client_fence[OF N u this]
  from c show "serving A kv sv'" by blast
  from c have s: "stored_entry A kv sv' = stored_entry A kv sv" by blast
  show "store_step (stored_entry A kv sv, sv_fences sv) (case r of Inl _ \<Rightarrow> FenceError l | Inr h \<Rightarrow> Fenced l h)
      (stored_entry A kv sv', sv_fences sv')"
  proof (cases r)
    case (Inl x)
    with fence_ledger_fences(2)[OF f] s show ?thesis by (auto intro: store_step.intros)
  next
    case (Inr h)
    with fence_ledger_fences(1)[OF f] s c show ?thesis by (auto intro!: st_fence)
  qed
qed

lemma read_step:
  assumes N: "journal_node D kv A" and u: "serving A kv sv" and f: "node_read_entry A l i sv = (r, sv')"
  shows "serving A kv sv'" and "store_step (stored_entry A kv sv, sv_fences sv)
      (case r of Inl _ \<Rightarrow> Silent | Inr rr \<Rightarrow> Got (l, i) (rr_entry rr)) (stored_entry A kv sv', sv_fences sv')"
proof -
  have "nc_read (journal_client A env) l i sv = (r, sv')" for env using f by (simp add: journal_client_def)
  note c = journal_node.client_read[OF N u this]
  from c show "serving A kv sv'" by blast
  from c show "store_step (stored_entry A kv sv, sv_fences sv)
      (case r of Inl _ \<Rightarrow> Silent | Inr rr \<Rightarrow> Got (l, i) (rr_entry rr)) (stored_entry A kv sv', sv_fences sv')"
    by (auto intro: store_step.intros split: sum.splits)
qed

lemma node_run_store:
  assumes st: "storage_laws A kv" and run: "node_run A cfg s tr t"
    and u: "serving A kv (fst s)" and rd: "loop_ready (na_db A) kv (na_crc A) cfg s"
  shows "serving A kv (fst t) \<and> loop_ready (na_db A) kv (na_crc A) cfg t
    \<and> store_run (stored_entry A kv (fst s), sv_fences (fst s)) tr (stored_entry A kv (fst t), sv_fences (fst t))"
  using run
proof (induction rule: node_run.induct)
  case nr_start
  with u rd show ?case by (simp add: store_start)
next
  case (nr_add tr sv fl e env r sv' ev)
  then have u1: "serving A kv sv" by simp
  note N = storage_node[OF st] and L = conjunct1[OF st[unfolded storage_laws_def]]
  have "loop_ready (na_db A) kv (na_crc A) cfg (sv', fl)"
    using nr_add(5) by (intro loop_ready_step[OF _ db_laws.add_entry_ready[OF L refl u1 _ nr_add(3)]]) blast+
  moreover have "store_run (stored_entry A kv (fst s), sv_fences (fst s)) tr (stored_entry A kv sv, sv_fences sv)" using nr_add(5) by simp
  note store_next[OF this add_step(2)[OF N u1 nr_add(2,3)]]
  ultimately show ?case using add_step(1)[OF N u1 nr_add(2,3)] unfolding nr_add(4) fst_conv by blast
next
  case (nr_fence tr sv fl l r sv' ev)
  then have u1: "serving A kv sv" by simp
  note N = storage_node[OF st] and L = conjunct1[OF st[unfolded storage_laws_def]]
  have "loop_ready (na_db A) kv (na_crc A) cfg (sv', fl)"
    using nr_fence(4) by (intro loop_ready_step[OF _ db_laws.fence_ready[OF L refl u1 _ nr_fence(2)]]) blast+
  moreover have "store_run (stored_entry A kv (fst s), sv_fences (fst s)) tr (stored_entry A kv sv, sv_fences sv)" using nr_fence(4) by simp
  note store_next[OF this fence_step(2)[OF N u1 nr_fence(2)]]
  ultimately show ?case using fence_step(1)[OF N u1 nr_fence(2)] unfolding nr_fence(3) fst_conv by blast
next
  case (nr_read tr sv fl l i r sv' ev)
  then have u1: "serving A kv sv" by simp
  note N = storage_node[OF st] and L = conjunct1[OF st[unfolded storage_laws_def]]
  have "loop_ready (na_db A) kv (na_crc A) cfg (sv', fl)"
    using nr_read(4) by (intro loop_ready_step[OF _ db_laws.read_ready[OF L nr_read(2)]]) blast+
  moreover have "store_run (stored_entry A kv (fst s), sv_fences (fst s)) tr (stored_entry A kv sv, sv_fences sv)" using nr_read(4) by simp
  note store_next[OF this read_step(2)[OF N u1 nr_read(2)]]
  ultimately show ?case using read_step(1)[OF N u1 nr_read(2)] unfolding nr_read(3) fst_conv by blast
next
  case (nr_flush tr sv fs b ord wo so r st' fl')
  then have u1: "serving A kv sv" and rd1: "flush_ready (na_db A) kv (na_crc A) cfg (sync_flush b fs) b"
    by (auto simp: loop_ready_def)
  note L = conjunct1[OF st[unfolded storage_laws_def]]
  have "fl_next_seg_id (sync_flush b fs) \<noteq> - 1" using nr_flush(5) by simp
  note f = db_laws.flush_serving[OF L refl u1 nr_flush(2) rd1 nr_flush(4) this _ nr_flush(3)]
  have reg: "batch_regular (na_crc A) (unat (ew_file_offset (fl_writer (sync_flush b fs))))
      (fst (drain_hot_to_warm ord (fl_cache (sync_flush b fs))))" using nr_flush(6) by simp
  have "flush_ready (na_db A) kv (na_crc A) cfg (sync_flush (after_flush b st') st') (after_flush b st')" if "\<not> isl r"
    using f(3)[OF reg] that sync_flush_same[of cfg st' "after_flush b st'"] by (cases r) (auto simp: flush_ready_def)
  then have "loop_ready (na_db A) kv (na_crc A) cfg (sv\<lparr> sv_backend := Lsmc (after_flush b st') \<rparr>, fl')"
    using nr_flush(7) by (auto simp: loop_ready_def)
  moreover have "store_run (stored_entry A kv (fst s), sv_fences (fst s)) tr (stored_entry A kv sv, sv_fences sv)" using nr_flush(8) by simp
  note store_next[OF this st_silent]
  ultimately show ?case using f(1,2)[OF reg] by simp
qed

end
