(* ===== verification/FlushSpec.thy ===== *)
theory FlushSpec
  imports LedgerSpec NodeFlush
begin

text \<open>
  The storage node as a whole, requests and flush loop together, against the store it promises. The
  example starts the loop on the reference store, appends an entry and flushes it.
\<close>

text \<open>
  C3. A node implements its store. Let a node serve, and let its flush loop start with success. Then
  along every interleaving of appends, fences, reads and turns of the loop, with turns that fail at
  any point and with the thread ending there, the node goes on serving, and what its callers see is a
  run of the abstract store: the first entry under an id stays, a fence returns a bound of the stored
  ids and is final, reads return the stored entry. So nothing is lost, and if look-ups in the
  key-value store do not fail, every acknowledged id can be read at the end.
\<close>

theorem node_implements_store:
  assumes "storage_laws A kv" and "serving A kv sv" and "sv_backend sv = Lsmc b" and "bootable (na_db A) kv cfg b"
    and "flush_start (na_db A) cfg (nl_ks b) (js_fs (nl_journal b)) (nl_cache b) = Inr st"
    and "node_run A cfg (sv\<lparr> sv_backend := Lsmc (after_flush b st) \<rparr>, Some st) tr (sv', fl)"
  shows "serving A kv sv' \<and> store_run (stored_entry A kv sv, sv_fences sv) tr (stored_entry A kv sv', sv_fences sv')
    \<and> stored_entry A kv sv \<subseteq>\<^sub>m stored_entry A kv sv'
    \<and> (reads_answer (na_db A) \<longrightarrow>
        (\<forall>e. Acked e \<in> set tr \<longrightarrow> \<not> isl (fst (node_read_entry A (e_ledger_id e) (e_entry_id e) sv'))))"
proof -
  note L = conjunct1[OF assms(1)[unfolded storage_laws_def]]
  note s = db_laws.flush_start_serving[OF L refl assms(2-5)]
  have "flushing cfg st (after_flush b st)" using s(3) by (simp add: flush_ready_def)
  then have "loop_ready (na_db A) kv (na_crc A) cfg (sv\<lparr> sv_backend := Lsmc (after_flush b st) \<rparr>, Some st)"
    using s(3) by (simp add: loop_ready_def sync_flush_same)
  with node_run_store[OF assms(1,6)] s(1,2) have u: "serving A kv sv'"
    and r: "store_run (stored_entry A kv sv, sv_fences sv) tr (stored_entry A kv sv', sv_fences sv')" by simp_all
  have "\<not> isl (fst (node_read_entry A (e_ledger_id e) (e_entry_id e) sv'))" if "reads_answer (na_db A)" "Acked e \<in> set tr" for e
  proof -
    obtain x n where x: "node_read_entry A (e_ledger_id e) (e_entry_id e) sv' = (x, n)" by force
    have "stored_entry A kv sv' (e_ledger_id e, e_entry_id e) \<noteq> None" using store_run_acked[OF r that(2)] by (simp add: ids_of_def)
    with journal_node.client_read[OF storage_node[OF assms(1)] u, of _ "e_ledger_id e" "e_entry_id e" x n] x that(1)
    show ?thesis by (simp add: journal_client_def)
  qed
  with u r store_run_mono[OF r] show ?thesis by simp
qed

definition demo_boot :: "ref_ks flush_state" where
  "demo_boot =
     \<lparr> fl_ks = snd (upsert ref_db ''entry.registry'' [] (entry_meta 0 (entry_seg_path ''d'' 0) 0 [])),
       fl_fs = snd (fs_open_create ((js_fs demo_journal)\<lparr> fs_dirs := [''d'', ''w''] \<rparr>) (entry_seg_path ''d'' 0) True),
       fl_cache = cache_new 100, fl_writer = \<lparr> ew_id = 0, ew_path = entry_seg_path ''d'' 0, ew_file_offset = 0 \<rparr>,
       fl_next_seg_id = 0, fl_ledger_sizes = [], fl_sealed = None \<rparr>"

lemma demo_next_seg: "next_entry_seg_id ref_db ''entry.registry'' [] ((js_fs demo_journal)\<lparr> fs_dirs := ds \<rparr>) ''d'' = Inr 0"
  by (simp add: next_entry_seg_id_def max_id_def scan_next_entry_seg_id_def scan_next_id_def fs_list_def child_name_def
      demo_journal_def map_filter_simps strip_prefix_def ref_simps)

lemma demo_path: "entry_seg_path ''d'' 0 = ''d/entry-0000000000000000.ent''"
  by code_simp

lemma demo_upsert: "fst (upsert ref_db ''entry.registry'' [] (entry_meta 0 (entry_seg_path ''d'' 0) 0 [])) = Inr ()"
  by (simp add: upsert_def entry_meta_def demo_path ref_simps)

lemma demo_boot: "flush_start ref_db demo_flush_cfg (nl_ks demo_backend) (js_fs (nl_journal demo_backend)) (nl_cache demo_backend) = Inr demo_boot"
proof -
  have r: "reset_status ref_db demo_flush_cfg from ([], None) = ([], None)" for "from"
    by (simp add: reset_status_def list_by_status_def demo_flush_cfg_def ref_simps)
  have f: "(js_fs (nl_journal demo_backend))\<lparr> fs_dirs := List.insert ''d'' (fs_dirs (js_fs (nl_journal demo_backend))) \<rparr>
      = (js_fs demo_journal)\<lparr> fs_dirs := [''d'', ''w''] \<rparr>" by (simp add: demo_backend_def demo_journal_def)
  obtain ks where u: "upsert ref_db ''entry.registry'' [] (entry_meta 0 (entry_seg_path ''d'' 0) 0 []) = (Inr (), ks)"
    using demo_upsert by (metis prod.collapse)
  have c: "fc_entries_dir demo_flush_cfg = ''d''" "fc_entry_registry demo_flush_cfg = ''entry.registry''" by (simp_all add: demo_flush_cfg_def)
  have wc: "writer_create ((js_fs demo_journal)\<lparr> fs_dirs := [''d'', ''w''] \<rparr>) ''d'' 0 = (Inr (fl_writer demo_boot), fl_fs demo_boot)"
    by (simp add: writer_create_def fs_open_create_def demo_boot_def demo_journal_def demo_path Let_def)
  have b: "ew_path (fl_writer demo_boot) = entry_seg_path ''d'' 0" "fl_ks demo_boot = ks" by (simp_all add: demo_boot_def u)
  have op: "open_active_segment ref_db demo_flush_cfg [] ((js_fs demo_journal)\<lparr> fs_dirs := [''d'', ''w''] \<rparr>) 0
      = (Inr (fl_writer demo_boot), fl_ks demo_boot, fl_fs demo_boot)"
    by (simp add: open_active_segment_def c wc b u)
  show ?thesis unfolding flush_start_def c f
    by (simp add: r demo_next_seg op Let_def) (simp add: demo_boot_def demo_backend_def)
qed

lemma demo_bootable: "bootable ref_db ref_kv demo_flush_cfg demo_backend"
  by (simp add: bootable_def demo_flush_cfg_def demo_backend_def demo_journal_def demo_tr_def demo_entry_index_def demo_wal_index_def
      registered_def flush_segments_def seg_wf_def part_wf_def seg_map_def abs_map_def ref_simps cache_wf_def cache_new_def)

text \<open>The node right after its loop started.\<close>

definition demo_running :: "(ref_ks, ref_blocks, ref_s3, FileJournal, MemoryLedgerIndex) JournalService" where
  "demo_running = demo_service\<lparr> sv_backend := Lsmc (after_flush demo_backend demo_boot) \<rparr>"

lemma demo_boot_ks: "\<exists>v. fl_ks demo_boot = ref_insert [] ''entry.registry'' (id_key 0) v"
  by (auto simp: demo_boot_def upsert_def entry_meta_def demo_path ref_simps)

lemma demo_running_add:
  obtains ack sv b p where "add_entry demo_api demo_add_env (demo_entry 0) demo_running = (Inr ack, sv)" and "sv_backend sv = Lsmc b"
    and "nl_cache b = cache_insert (cache_new 100) 3 0 p" and "length p \<le> 4000"
proof -
  let ?b = "after_flush demo_backend demo_boot"
  obtain v where v: "fl_ks demo_boot = ref_insert [] ''entry.registry'' (id_key 0) v" using demo_boot_ks by blast
  let ?ks = "ref_insert (fl_ks demo_boot) ''entry.ledgers'' (ledger_key 3) (write_ls \<lparr> ls_is_fenced = False, ls_master_key = None \<rparr>)"
  have like: "demo_like ?b" by (simp add: demo_like_def after_flush_def demo_backend_def demo_journal_def demo_boot_def)
  have reg: "register_ledger ref_db demo_entry_index (demo_entry 0) {} (fl_ks demo_boot) = (Inr (), {3}, ?ks)"
    by (simp add: register_ledger_def demo_entry_def ensure_ledger_known_def get_ledger_state_def put_ledger_state_def
        demo_entry_index_def v ref_simps)
  obtain sv b where a: "add_rest demo_api demo_add_env (demo_entry 0) demo_running = (Inr (append_ack (demo_entry 0) sv), sv)"
    and b: "sv_backend sv = Lsmc b" and c: "\<exists>p. nl_cache b = cache_insert (cache_new 100) 3 (e_entry_id (demo_entry 0)) p \<and> length p \<le> 4000"
    by (rule demo_add_rest[of "demo_entry 0" demo_running ?b "{3}" ?ks])
      (use like reg that in \<open>simp_all add: demo_running_def check_hmac_def v ref_simps after_flush_def\<close>)
  from a have "add_entry demo_api demo_add_env (demo_entry 0) demo_running = (Inr (append_ack (demo_entry 0) sv), sv)"
    by (simp add: add_entry_def add_check_def demo_running_def)
  with b c that show thesis by auto
qed

theorem node_implements_store_witness:
  "\<exists>sv fl. node_run demo_api demo_flush_cfg (demo_running, Some demo_boot) [Acked (demo_entry 0), Silent] (sv, fl)
     \<and> stored_entry demo_api ref_kv sv (3, 0) \<noteq> None \<and> \<not> isl (fst (node_read_entry demo_api 3 0 sv))"
proof -
  obtain ack sv b p where a: "add_entry demo_api demo_add_env (demo_entry 0) demo_running = (Inr ack, sv)" and b: "sv_backend sv = Lsmc b"
    and c: "nl_cache b = cache_insert (cache_new 100) 3 0 p" "length p \<le> 4000" by (rule demo_running_add) (rule that)
  have "node_run demo_api demo_flush_cfg (demo_running, Some demo_boot) ([] @ [Acked (demo_entry 0)]) (sv, Some demo_boot)"
    by (rule nr_add[OF nr_start _ a]) simp_all
  then have r1: "node_run demo_api demo_flush_cfg (demo_running, Some demo_boot) [Acked (demo_entry 0)] (sv, Some demo_boot)" by simp
  obtain x st' where it: "flush_iteration (na_db demo_api) (na_crc demo_api) id demo_flush_cfg (WOk 4096) None [] (sync_flush b demo_boot) = (x, st')"
    by force
  have dr: "fst (drain_hot_to_warm id (nl_cache b)) = [(3, 0, p)]" by (simp add: drain_fst c cache_insert_def cache_new_def)
  have "is_drain_order id" by (simp add: is_drain_order_def)
  moreover have "fl_next_seg_id demo_boot \<noteq> - 1" by (simp add: demo_boot_def)
  moreover have "batch_regular (na_crc demo_api) (unat (ew_file_offset (fl_writer demo_boot))) (fst (drain_hot_to_warm id (nl_cache b)))"
    using c(2) by (simp add: dr batch_regular_def demo_boot_def batch_bytes_def BLOCK_SIZE_def)
  ultimately have r2: "node_run demo_api demo_flush_cfg (demo_running, Some demo_boot) [Acked (demo_entry 0), Silent]
      (sv\<lparr> sv_backend := Lsmc (after_flush b st') \<rparr>, if isl x then None else Some st')"
    using nr_flush[OF r1 b it _ _ _ refl] by simp
  note t = node_implements_store[OF demo_storage demo_serving, where b = demo_backend and cfg = demo_flush_cfg and st = demo_boot, simplified,
      OF demo_bootable demo_boot[simplified] r2[unfolded demo_running_def]]
  from t store_run_acked[of _ "[Acked (demo_entry 0), Silent]" _ "demo_entry 0"] r2 show ?thesis
    using demo_answers by (auto simp: answering_storage_def ids_of_def)
qed

end
