(* ===== verification/Spec2Isabelle.thy ===== *)
theory Spec2Isabelle
  imports TransportSpec BootSpec Auditor FlushSpec
begin

text \<open>
  Verification of Folio, a replicated ledger store. A writer appends entries to a ledger; the client
  library sends each entry to the nodes of the ledger's current ensemble and returns when an ack
  quorum stored it. A storage node logs entries, answers reads from memory, disk or an object store,
  and refuses appends to a fenced ledger. Ledger metadata and the list of nodes live in etcd.
  Background tasks repair ledgers whose nodes are lost.

  \<^bold>\<open>Theories and sources.\<close> Paths are relative to \<^verbatim>\<open>src/crates\<close>. Record fields and constructors keep the
  source's names with a short prefix; a method \<^verbatim>\<open>T::f\<close> is \<open>T_f\<close> or \<open>f\<close>.

  \<^item> \<open>Prelude\<close>, \<open>RustText\<close>: machine integers, byte encodings, slices, formatting and parsing of the
    Rust standard library, with their round trips. \<open>FileSystem\<close>: the calls of \<^verbatim>\<open>std::fs\<close> in use.
  \<^item> \<open>Protocol\<close>: \<^verbatim>\<open>folio-core/src/protocol.rs\<close>, \<^verbatim>\<open>error.rs\<close>. A \<^verbatim>\<open>Result<T>\<close> is \<open>FolioError + 'a\<close>.
  \<^item> \<open>Segment\<close>: \<^verbatim>\<open>folio-node/src/storage/segment.rs\<close>, the record framing with its checksum.
  \<^item> \<open>Fjall\<close>: \<^verbatim>\<open>storage/fjall.rs\<close>, the index and the registry of segments; \<open>FjallSpec\<close> has their properties.
  \<^item> \<open>EntryCache\<close>: \<^verbatim>\<open>storage/entry_cache.rs\<close> and \<^verbatim>\<open>entry_segment.rs\<close>; \<open>flush_iteration\<close> is one turn of the flush
    loop.
  \<^item> \<open>LsmcJournal\<close>: \<^verbatim>\<open>storage/lsmc_journal.rs\<close>; \<open>journal_step\<close> is one turn of \<^verbatim>\<open>journal_loop\<close>.
  \<^item> \<open>CrashRecovery\<close>: \<^verbatim>\<open>recovery/crash_recovery.rs\<close>, both phases.
  \<^item> \<open>TieredReader\<close>: \<^verbatim>\<open>storage/tiered_reader.rs\<close>, \<^verbatim>\<open>block_cache.rs\<close>. \<open>Offloader\<close>: \<^verbatim>\<open>storage/offloader.rs\<close>.
  \<^item> \<open>NodeParts\<close>: \<^verbatim>\<open>storage/index.rs\<close>, \<^verbatim>\<open>storage/journal.rs\<close>, \<^verbatim>\<open>node/health.rs\<close>. \<open>NodeRegistry\<close>:
    \<^verbatim>\<open>node/registry.rs\<close> and the publishing loop of \<^verbatim>\<open>node/health.rs\<close>.
  \<^item> \<open>JournalNode\<close>: \<^verbatim>\<open>storage/node.rs\<close>, the service \<^verbatim>\<open>JournalService\<close> with both backends; \<open>JournalClient\<close>: its
    implementation of the trait \<^verbatim>\<open>StorageNodeClient\<close>. \<open>NodeDisk\<close> says what such a node stores, in memory and on
    disk; \<open>NodeFlush\<close> runs the flush loop, from its start on, between the requests to the node.
  \<^item> \<open>MetadataStore\<close>: \<^verbatim>\<open>folio-core/src/metadata.rs\<close>, both stores.
  \<^item> \<open>Ledger\<close>: \<^verbatim>\<open>folio-ledger/src\<close> (\<^verbatim>\<open>client.rs\<close>, \<^verbatim>\<open>ledger.rs\<close>, \<^verbatim>\<open>fragment.rs\<close>, \<^verbatim>\<open>lac_tracker.rs\<close>,
    \<^verbatim>\<open>speculative.rs\<close>) and \<^verbatim>\<open>folio-core/src/resolver.rs\<close>.
  \<^item> \<open>LedgerRecovery\<close>: \<^verbatim>\<open>folio-node/src/recovery\<close> (\<^verbatim>\<open>mod.rs\<close>, \<^verbatim>\<open>worker.rs\<close>, \<^verbatim>\<open>auditor.rs\<close>, \<^verbatim>\<open>watcher.rs\<close>,
    \<^verbatim>\<open>scrubber.rs\<close>). \<open>Auditor\<close>: the lease, the election and the watch of \<^verbatim>\<open>auditor.rs\<close>.
  \<^item> \<open>Transport\<close>: \<^verbatim>\<open>folio-node/src/transport/server.rs\<close>, \<^verbatim>\<open>folio-ledger/src/transport/client.rs\<close>,
    \<^verbatim>\<open>journal.proto\<close>. \<open>Channels\<close>: \<^verbatim>\<open>folio-core/src/transport/pool.rs\<close>, \<^verbatim>\<open>folio-ledger/src/resolver.rs\<close>.
  \<^item> \<open>Boot\<close>: \<^verbatim>\<open>src/bins/foliod/src/main.rs\<close> and \<^verbatim>\<open>journal_server.rs\<close>, which put the parts together, and
    \<^verbatim>\<open>folio-core/src/transport/tls.rs\<close>.

  \<^bold>\<open>Interfaces.\<close> Code of other crates is a record of functions, an argument of the definitions that
  call it, with what the code relies on in a locale: the key-value store with its serialiser
  (\<open>db_laws\<close>), the block cache (\<open>block_laws\<close>), the object store (\<open>s3_laws\<close>), etcd (\<open>etcd_laws\<close>,
  \<open>lease_laws\<close> for leases and \<open>election_laws\<close> for their lifetime). Each is interpreted on a reference instance (\<open>RefStore\<close>, \<open>TieredReader\<close>,
  \<open>MetadataSpec\<close>, \<open>NodeRegistry\<close>, \<open>Auditor\<close>), on which the examples run. The checksum, the message authentication
  code, the texts of status codes and the building of channels are plain function arguments. The traits of the
  program are contracts as well: \<open>ledger_index_laws\<close> holds for both indexes, \<open>metadata_laws\<close> for both
  metadata stores. \<open>replica_laws\<close> is what a node promises even over a lossy network, \<open>fencing_laws\<close> adds
  what it refuses when it can be reached, \<open>node_laws\<close> that what it stores can be read. The journal
  service keeps \<open>fencing_laws\<close> (\<open>journal_node\<close>), and \<open>node_laws\<close> if look-ups in its key-value store do not
  fail (\<open>answering_node\<close>); behind the gRPC client it keeps \<open>replica_laws\<close> over any network
  (\<open>remote_node\<close>). The properties of the client are proved once over \<open>client_laws\<close>, \<open>sealing_laws\<close> and
  \<open>cluster_laws\<close>, which combine these with \<open>metadata_laws\<close>, and stated for the deployed composition.

  \<^bold>\<open>What is shown.\<close>
  \<^item> \<open>StorageSpec\<close>: acknowledged records stay on disk and are found by the replay after a crash at any
    point of the next batch; the flush loop keeps every entry readable; a torn tail is cut and what
    precedes it is restored.
  \<^item> \<open>ReaderSpec\<close>: reads from entry segments and from the object store return the stored payload; a
    pass of the offloader loses nothing; the log collection keeps what the log index refers to.
  \<^item> \<open>NodeSpec\<close>: a fence is final, also across a restart, and its answer bounds the acknowledged ids;
    acknowledged entries are read back; tags are enforced; the index refines the in-memory one.
  \<^item> \<open>FlushSpec\<close>: along every interleaving of requests and turns of the flush loop a node refines an
    abstract store (\<open>store_step\<close>) in which the first entry under an id stays and fences are final.
  \<^item> \<open>MetadataSpec\<close>: no lost update, and ids of ledgers are drawn by one atomic step.
  \<^item> \<open>LedgerSpec\<close>, \<open>RecoverySpec\<close>, \<open>TransportSpec\<close>: appends that return are stored by a quorum and read back,
    whatever the network loses; appends return when the quorum answers; a sealed ledger takes no more
    appends; repairs copy exactly the fragment; the scrubber reports exactly the differing replicas;
    what of a call and of its error survives the wire.
  \<^item> \<open>Channels\<close>: an update of the addresses resolves exactly the nodes that can be reached.
  \<^item> Behaviour that the sources do not intend is proved as well: the race between an append and a fence
    (\<open>NodeSpec\<close>), a failed append whose data replaces that of the next (\<open>TransportSpec\<close>), restarts
    that cut the log or never recover (\<open>BootSpec\<close>, \<open>StorageSpec\<close>), a health update that outlives its lease
    (\<open>NodeRegistry\<close>), an auditor that goes on without its lease (\<open>Auditor\<close>), the hidden last entry and the conflict of the watcher (\<open>RecoverySpec\<close>), deleted
    log segments and unreadable large records (\<open>ReaderSpec\<close>).

  \<^bold>\<open>Choices.\<close> Identifiers and offsets that the code keeps in \<^verbatim>\<open>u64\<close> are 64-bit words; lengths of byte
  strings in memory are natural numbers. Endless loops are modelled by one turn, and runs by the
  inductive relations \<open>journal_run\<close>, \<open>journal_turns\<close>, \<open>service_run\<close> and \<open>node_run\<close>. The scan loops of the recovery are
  \<^theory_text>\<open>partial_function\<close> definitions: that they return is proved where they do, and that they do not
  where they do not. No definition uses fuel; the retries that the code bounds are counted as in the
  code. Outcomes of input and output, the order of hash tables and of completion, the clock, and what
  other threads do at a point where the code can be interrupted are arguments. Requests that are sent
  together run one after the other, each on its own node. The contract of the journal service is
  shown for a node that serves (\<open>serving\<close>): its entries are in the cache or in registered local segments,
  each record within two blocks. Records larger than that cannot be read, and segments that were moved to the
  object store have their own properties in \<open>ReaderSpec\<close>.
  In \<open>Boot\<close> the journal thread has started when the recovery runs, which is one of the two orders
  the scheduler allows.

  \<^bold>\<open>Not modelled.\<close> The counters of \<^verbatim>\<open>folio-core/src/metrics\<close> and log messages (nothing reads them back);
  \<^verbatim>\<open>table.proto\<close>, which has no
  implementation; the encoding of messages on the wire, the command-line parser and the async
  runtime (other crates); the spawning of tasks in the daemon and the timers between their turns.
\<close>

end
